(* ===== verification/Prelude.thy ===== *)
theory Prelude
  imports Main "HOL-Library.Word" "HOL-Library.Finite_Map" "HOL-Library.List_Lexorder"
begin

unbundle bit_operations_syntax

text \<open>
  Shared vocabulary of the development: Go's fixed-width integers and byte slices, panics as
  values, big- and little-endian fields, finite maps with their iteration orders, and the
  interface of a snapshot codec. Everything here is a library notion of Go or a
  mathematical helper; the program itself starts in the theories that import this one.
\<close>

section \<open>Types and lemma collections\<close>

type_synonym byte = "8 word"
type_synonym bytes = "byte list"
type_synonym int16 = "16 word"
type_synonym uint16 = "16 word"
type_synonym int32 = "32 word"
type_synonym uint32 = "32 word"
type_synonym int64 = "64 word"
type_synonym uint64 = "64 word"

named_theorems eval_simps \<open>equations that evaluate the model at concrete inputs\<close>
named_theorems codec_simps \<open>round trips and lengths of encoded fields\<close>

text \<open>A Go string literal as the bytes it holds.\<close>

definition lit :: "string \<Rightarrow> bytes" where
  "lit s = map of_char s"

declare lit_def [eval_simps]

lemma length_lit [simp]: "length (lit s) = length s"
  by (simp add: lit_def)

section \<open>Panics\<close>

text \<open>
  The run-time panics that the modelled code can raise. A computation that may panic has
  type \<open>panic + 'a\<close>; \<open>bindP\<close> sequences two of them (and, at other types, two computations
  that may return an error).
\<close>

datatype panic =
  NilMapWrite | NilDereference | SliceOutOfRange | IndexOutOfRange | NegativeLength | InvalidArgument
| ExplicitPanic

fun bindP :: "'e + 'a \<Rightarrow> ('a \<Rightarrow> 'e + 'b) \<Rightarrow> 'e + 'b" where
  "bindP (Inl p) f = Inl p"
| "bindP (Inr x) f = f x"

lemma bindP_cong [fundef_cong]:
  "m = m' \<Longrightarrow> (\<And>x. m' = Inr x \<Longrightarrow> f x = g x) \<Longrightarrow> bindP m f = bindP m' g"
  by (cases m') auto

lemma bindP_Inr_iff: "bindP m f = Inr y \<longleftrightarrow> (\<exists>x. m = Inr x \<and> f x = Inr y)"
  by (cases m) auto

section \<open>Integers in byte slices\<close>

text \<open>
  \<open>put_be n w\<close> is what \<open>encoding/binary\<close> writes for the low \<open>n\<close> bytes of \<open>w\<close> in
  big-endian order, \<open>get_be\<close> what it reads back; the little-endian forms reverse them.
\<close>

primrec put_be :: "nat \<Rightarrow> 'a::len word \<Rightarrow> bytes" where
  "put_be 0 w = []"
| "put_be (Suc n) w = ucast (drop_bit (8 * n) w) # put_be n w"

primrec get_be :: "bytes \<Rightarrow> 'a::len word" where
  "get_be [] = 0"
| "get_be (b # bs) = push_bit (8 * length bs) (ucast b) OR get_be bs"

definition put_le :: "nat \<Rightarrow> 'a::len word \<Rightarrow> bytes" where
  "put_le n w = rev (put_be n w)"

definition get_le :: "bytes \<Rightarrow> 'a::len word" where
  "get_le bs = get_be (rev bs)"

lemma put_be_numeral [eval_simps]:
  "put_be (numeral k) w = ucast (drop_bit (8 * pred_numeral k) w) # put_be (pred_numeral k) w"
  by (simp add: numeral_eq_Suc)

declare put_le_def [eval_simps] get_le_def [eval_simps]

lemma length_put_be [simp, codec_simps]: "length (put_be n w) = n"
  by (induction n) auto

lemma length_put_le [simp, codec_simps]: "length (put_le n w) = n"
  by (simp add: put_le_def)

lemma bit_get_put_be:
  fixes w :: "'a::len word"
  shows "bit (get_be (put_be n w) :: 'a word) i \<longleftrightarrow> i < 8 * n \<and> bit w i"
proof (induction n)
  case 0
  then show ?case by simp
next
  case (Suc n)
  then show ?case
    by (auto simp: bit_simps dest: bit_imp_le_length)
qed

lemma get_put_be [simp, codec_simps]:
  fixes w :: "'a::len word"
  assumes "LENGTH('a) \<le> 8 * n"
  shows "get_be (put_be n w) = w"
  by (rule bit_eqI) (use assms in \<open>auto simp: bit_get_put_be dest: bit_imp_le_length\<close>)

lemma get_put_le [simp, codec_simps]:
  fixes w :: "'a::len word"
  assumes "LENGTH('a) \<le> 8 * n"
  shows "get_le (put_le n w) = w"
  using assms by (simp add: put_le_def get_le_def)

lemma bit_get_be_bound: "bit (get_be bs :: 'a::len word) i \<Longrightarrow> i < 8 * length bs"
  by (induction bs) (auto simp: bit_simps dest: bit_imp_le_length)

lemma put_be_OR_high:
  fixes w h :: "'a::len word"
  assumes "\<And>i. bit h i \<Longrightarrow> 8 * n \<le> i"
  shows "put_be n (h OR w) = put_be n w"
  using assms
proof (induction n)
  case 0
  then show ?case by simp
next
  case (Suc n)
  have "ucast (drop_bit (8 * n) (h OR w)) = (ucast (drop_bit (8 * n) w) :: byte)"
    by (rule bit_eqI) (auto simp: bit_simps dest: Suc.prems)
  moreover have "put_be n (h OR w) = put_be n w"
    by (rule Suc.IH) (use Suc.prems in \<open>fastforce\<close>)
  ultimately show ?case by simp
qed

lemma put_get_be [codec_simps]:
  assumes "8 * length bs \<le> LENGTH('a::len)"
  shows "put_be (length bs) (get_be bs :: 'a word) = bs"
  using assms
proof (induction bs)
  case Nil
  then show ?case by simp
next
  case (Cons b bs)
  let ?h = "push_bit (8 * length bs) (ucast b) :: 'a word"
  have "ucast (drop_bit (8 * length bs) (?h OR get_be bs)) = b"
    using Cons.prems by (intro bit_eqI) (auto simp: bit_simps dest: bit_get_be_bound bit_imp_le_length)
  moreover have "put_be (length bs) (?h OR get_be bs) = put_be (length bs) (get_be bs :: 'a word)"
    by (rule put_be_OR_high) (simp add: bit_simps)
  ultimately show ?case using Cons by simp
qed

lemma put_get_le [codec_simps]:
  assumes "8 * length bs \<le> LENGTH('a::len)"
  shows "put_le (length bs) (get_le bs :: 'a word) = bs"
  using put_get_be [where 'a = 'a, of "rev bs"] assms by (simp add: put_le_def get_le_def)

section \<open>Readers\<close>

text \<open>
  \<open>io.ReadFull\<close> on the rest of a byte slice: the requested bytes and what follows them,
  \<open>EOF\<close> when nothing is left and \<open>UnexpectedEOF\<close> when the slice ends early.
\<close>

datatype io_error = EOF | UnexpectedEOF

definition read_full :: "nat \<Rightarrow> bytes \<Rightarrow> io_error + (bytes \<times> bytes)" where
  "read_full n bs =
     (if n \<le> length bs then Inr (take n bs, drop n bs)
      else if bs = [] then Inl EOF else Inl UnexpectedEOF)"

lemma read_full_append [simp, codec_simps]:
  "length xs = n \<Longrightarrow> read_full n (xs @ ys) = Inr (xs, ys)"
  by (auto simp: read_full_def)

lemma read_full_Inr:
  "read_full n bs = Inr (xs, ys) \<longleftrightarrow> bs = xs @ ys \<and> length xs = n"
  by (auto simp: read_full_def split: if_splits)

text \<open>\<open>copy\<close> of a source into a buffer at a position where it fits.\<close>

definition copy_at :: "nat \<Rightarrow> 'a list \<Rightarrow> 'a list \<Rightarrow> 'a list" where
  "copy_at pos src buf = take pos buf @ src @ drop (pos + length src) buf"

lemma length_copy_at [simp]:
  "pos + length src \<le> length buf \<Longrightarrow> length (copy_at pos src buf) = length buf"
  by (simp add: copy_at_def)

lemma take_copy_at [simp]:
  "pos + length src \<le> length buf \<Longrightarrow>
   take (pos + length src) (copy_at pos src buf) = take pos buf @ src"
  by (simp add: copy_at_def)

lemma take_copy_at_le [simp]:
  "n \<le> pos \<Longrightarrow> pos \<le> length buf \<Longrightarrow> take n (copy_at pos src buf) = take n buf"
  by (simp add: copy_at_def min_def)

section \<open>Maps\<close>

text \<open>
  A Go map is a finite map. \<open>range\<close> visits its keys once each in an order the run time
  chooses: an operation that iterates takes that order as a list, and its theorems hold for
  every list that \<open>enumerates\<close> the map.
\<close>

definition fmsize :: "('k, 'v) fmap \<Rightarrow> nat" where
  "fmsize m = card (fmdom' m)"

definition enumerates :: "'k list \<Rightarrow> ('k, 'v) fmap \<Rightarrow> bool" where
  "enumerates ks m \<longleftrightarrow> distinct ks \<and> set ks = fmdom' m"

definition fmcount :: "('v \<Rightarrow> bool) \<Rightarrow> ('k, 'v) fmap \<Rightarrow> nat" where
  "fmcount P m = card {k. \<exists>v. fmlookup m k = Some v \<and> P v}"

lemma fmcount_set_subset: "{k. \<exists>v. fmlookup m k = Some v \<and> P v} \<subseteq> fmdom' m"
  by (auto simp: fmlookup_dom'_iff)

lemma finite_fmcount_set [simp]: "finite {k. \<exists>v. fmlookup m k = Some v \<and> P v}"
  using fmcount_set_subset by (rule finite_subset) simp

lemma fmcount_empty [simp]: "fmcount P fmempty = 0"
  by (simp add: fmcount_def)

lemma fmsize_empty [simp]: "fmsize fmempty = 0"
  by (simp add: fmsize_def)

lemma fmdom'_empty_iff [simp]: "fmdom' m = {} \<longleftrightarrow> m = fmempty"
  by (auto simp: fmdom'_alt_def intro!: fmap_ext) (metis fmdom'_alt_def fmdom'_notD empty_iff fset_simps(1))

lemma fmsize_0_iff [simp]: "fmsize m = 0 \<longleftrightarrow> m = fmempty"
  by (simp add: fmsize_def)

lemma fmcount_drop:
  "fmcount P (fmdrop k m) =
     fmcount P m - (case fmlookup m k of Some v \<Rightarrow> (if P v then 1 else 0) | None \<Rightarrow> 0)"
proof -
  let ?S = "{j. \<exists>v. fmlookup m j = Some v \<and> P v}"
  have "{j. \<exists>v. fmlookup (fmdrop k m) j = Some v \<and> P v} = ?S - {k}"
    by auto
  then show ?thesis
    by (auto simp: fmcount_def card_Diff_singleton_if split: option.splits)
qed

lemma fmcount_pos: "fmlookup m k = Some v \<Longrightarrow> P v \<Longrightarrow> 0 < fmcount P m"
  unfolding fmcount_def by (rule card_gt_0_iff [THEN iffD2]) auto

lemma fmcount_upd:
  "fmcount P (fmupd k v m) = fmcount P (fmdrop k m) + (if P v then 1 else 0)"
proof -
  let ?D = "{j. \<exists>u. fmlookup (fmdrop k m) j = Some u \<and> P u}"
  have k: "k \<notin> ?D" by simp
  have "{j. \<exists>u. fmlookup (fmupd k v m) j = Some u \<and> P u} = (if P v then insert k ?D else ?D)"
    by (auto split: if_splits)
  moreover have "card (insert k ?D) = Suc (card ?D)"
    using k by (rule card_insert_disjoint [OF finite_fmcount_set])
  ultimately show ?thesis
    by (simp only: fmcount_def) simp
qed

lemma fmcount_drop_Some:
  "fmlookup m k = Some v \<Longrightarrow> fmcount P m = fmcount P (fmdrop k m) + (if P v then 1 else 0)"
  using fmcount_pos [of m k v P] by (auto simp: fmcount_drop)

lemma fmcount_drop_None [simp]:
  "fmlookup m k = None \<Longrightarrow> fmcount P (fmdrop k m) = fmcount P m"
  by (simp add: fmcount_drop)

lemma fmsize_fmcount: "fmsize m = fmcount (\<lambda>_. True) m"
  unfolding fmsize_def fmcount_def by (rule arg_cong [where f = card]) (auto simp: fmlookup_dom'_iff)

lemma fmcount_not: "fmcount P m + fmcount (\<lambda>v. \<not> P v) m = fmsize m"
proof -
  let ?A = "{k. \<exists>v. fmlookup m k = Some v \<and> P v}"
  let ?B = "{k. \<exists>v. fmlookup m k = Some v \<and> \<not> P v}"
  have "fmdom' m = ?A \<union> ?B" by (auto simp: fmlookup_dom'_iff)
  moreover have "?A \<inter> ?B = {}" by auto
  ultimately show ?thesis
    by (simp add: fmcount_def fmsize_def card_Un_disjoint)
qed

lemma fmcount_le_size: "fmcount P m \<le> fmsize m"
  using fmcount_not [of P m] by simp

lemma enumerates_length: "enumerates ks m \<Longrightarrow> length ks = fmsize m"
  unfolding enumerates_def fmsize_def by (metis distinct_card)

lemma enumerates_lookup: "enumerates ks m \<Longrightarrow> k \<in> set ks \<longleftrightarrow> fmlookup m k \<noteq> None"
  by (auto simp: enumerates_def fmlookup_dom'_iff)

lemma enumerates_empty [simp]: "enumerates [] fmempty"
  by (simp add: enumerates_def)

lemma enumerates_one [simp]: "enumerates ks (fmupd k v fmempty) \<longleftrightarrow> ks = [k]"
  by (cases ks; cases "tl ks") (auto simp: enumerates_def)

text \<open>One possible order: the keys sorted. Concrete runs use it.\<close>

definition sorted_order :: "('k::linorder, 'v) fmap \<Rightarrow> 'k list" where
  "sorted_order m = sorted_list_of_set (fmdom' m)"

lemma enumerates_sorted [simp]: "enumerates (sorted_order m) m"
  by (simp add: enumerates_def sorted_order_def)

lemma fmlookup_fold_upd:
  "fmlookup (fold (\<lambda>k. fmupd k (f k)) ks m) k = (if k \<in> set ks then Some (f k) else fmlookup m k)"
  by (induction ks arbitrary: m) auto

lemma fold_upd_all:
  assumes "enumerates ks m"
  shows "fold (\<lambda>k. fmupd k (the (fmlookup m k))) ks fmempty = m"
  using enumerates_lookup [OF assms] by (intro fmap_ext) (auto simp: fmlookup_fold_upd)

section \<open>Snapshot codecs\<close>

text \<open>
  The contract of an encoder and a decoder of one kind of value, over any input they may be
  given: a well-formed value decodes from its encoding. Messages, connection databases and
  peer databases all interpret it.
\<close>

locale codec =
  fixes encode :: "'a \<Rightarrow> bytes"
    and decode :: "bytes \<Rightarrow> 'b + 'a"
    and wf :: "'a \<Rightarrow> bool"
  assumes roundtrip: "wf x \<Longrightarrow> decode (encode x) = Inr x"
begin

lemma encode_inj: "wf x \<Longrightarrow> wf y \<Longrightarrow> encode x = encode y \<Longrightarrow> x = y"
  by (metis roundtrip Inr_inject)

lemma inj_on_encode: "inj_on encode {x. wf x}"
  by (rule inj_onI) (simp add: encode_inj)

end

end
