(* ===== verification/GoStd.thy ===== *)
theory GoStd
  imports Prelude
begin

text \<open>
  The functions of Go's standard library that the program calls and whose results its
  behaviour depends on: \<open>strconv\<close> decimal conversions, \<open>bytes.Index\<close> and its kin, and
  \<open>net/netip\<close> addresses. They model the library, so none of them has a place under src/.
\<close>

section \<open>Decimal conversions (strconv)\<close>

fun dec_nat :: "nat \<Rightarrow> bytes" where
  "dec_nat n = (if n < 10 then [48 + of_nat n] else dec_nat (n div 10) @ [48 + of_nat (n mod 10)])"

declare dec_nat.simps [simp del]

definition FormatInt :: "int \<Rightarrow> bytes" where
  "FormatInt i = (if i < 0 then lit ''-'' @ dec_nat (nat (- i)) else dec_nat (nat i))"

lemmas dec_nat_eval [eval_simps] = dec_nat.simps FormatInt_def

definition is_digit :: "byte \<Rightarrow> bool" where
  "is_digit c \<longleftrightarrow> 48 \<le> c \<and> c \<le> 57"

definition digits_val :: "bytes \<Rightarrow> nat" where
  "digits_val cs = foldl (\<lambda>a c. 10 * a + (unat c - 48)) 0 cs"

lemma digits_val_Nil [simp]: "digits_val [] = 0"
  by (simp add: digits_val_def)

lemma digits_val_snoc [simp]: "digits_val (cs @ [c]) = 10 * digits_val cs + (unat c - 48)"
  by (simp add: digits_val_def)

declare digits_val_def [eval_simps] is_digit_def [eval_simps]

lemma dec_nat_not_Nil [simp]: "dec_nat n \<noteq> []"
  by (subst dec_nat.simps) simp

lemma unat_digit: "d < 10 \<Longrightarrow> unat (48 + of_nat d :: byte) = 48 + d"
  by (simp add: unat_word_ariths unat_of_nat)

lemma is_digit_digit: "d < 10 \<Longrightarrow> is_digit (48 + of_nat d)"
  unfolding is_digit_def word_le_nat_alt unat_digit by simp

lemma dec_nat_digits: "list_all is_digit (dec_nat n)"
proof (induction n rule: dec_nat.induct)
  case (1 n)
  then show ?case
    by (subst dec_nat.simps) (auto simp: is_digit_digit)
qed

lemma digits_val_dec_nat [simp]: "digits_val (dec_nat n) = n"
proof (induction n rule: dec_nat.induct)
  case (1 n)
  show ?case
  proof (cases "n < 10")
    case True
    then have "digits_val ([] @ [48 + of_nat n]) = n"
      unfolding digits_val_snoc by (simp add: unat_digit)
    with True show ?thesis
      by (subst dec_nat.simps) simp
  next
    case False
    with 1 show ?thesis
      by (subst dec_nat.simps) (simp add: unat_digit)
  qed
qed

lemma length_dec_nat: "n < 10 ^ k \<Longrightarrow> 0 < k \<Longrightarrow> length (dec_nat n) \<le> k"
proof (induction k arbitrary: n)
  case 0
  then show ?case by simp
next
  case (Suc k)
  show ?case
  proof (cases "n < 10")
    case True
    then show ?thesis by (subst dec_nat.simps) simp
  next
    case False
    with Suc.prems have "0 < k" and "n div 10 < 10 ^ k"
      by (cases k; simp add: less_mult_imp_div_less mult.commute)+
    then have "length (dec_nat (n div 10)) \<le> k" by (simp add: Suc.IH)
    with False show ?thesis by (subst dec_nat.simps) simp
  qed
qed

text \<open>\<open>strconv.Atoi\<close> with a 64-bit \<open>int\<close>: an optional sign, at least one digit, digits only.\<close>

datatype atoi_result = AtoiOk int | AtoiSyntax | AtoiRange int

definition atoi_range :: "int \<Rightarrow> atoi_result" where
  "atoi_range i =
     (if i < - (2 ^ 63) then AtoiRange (- (2 ^ 63))
      else if i \<ge> 2 ^ 63 then AtoiRange (2 ^ 63 - 1) else AtoiOk i)"

fun Atoi :: "bytes \<Rightarrow> atoi_result" where
  "Atoi [] = AtoiSyntax"
| "Atoi (c # cs) =
     (let neg = (c = 45); ds = (if c = 45 \<or> c = 43 then cs else c # cs)
      in if ds = [] \<or> \<not> list_all is_digit ds then AtoiSyntax
         else atoi_range ((if neg then -1 else 1) * int (digits_val ds)))"

lemma is_digit_not_sign: "is_digit c \<Longrightarrow> c \<noteq> 45 \<and> c \<noteq> 43"
  by (auto simp: is_digit_def)

lemma Atoi_digits:
  "ds \<noteq> [] \<Longrightarrow> list_all is_digit ds \<Longrightarrow> Atoi ds = atoi_range (int (digits_val ds))"
  by (cases ds) (auto simp: is_digit_not_sign Let_def)

lemma Atoi_minus:
  "ds \<noteq> [] \<Longrightarrow> list_all is_digit ds \<Longrightarrow> Atoi (45 # ds) = atoi_range (- int (digits_val ds))"
  by (simp add: Let_def)

lemma Atoi_FormatInt:
  assumes "- (2 ^ 63) \<le> i" and "i < 2 ^ 63"
  shows "Atoi (FormatInt i) = AtoiOk i"
proof (cases "i < 0")
  case True
  then have "Atoi (FormatInt i) = Atoi (45 # dec_nat (nat (- i)))"
    by (simp add: FormatInt_def lit_def)
  also have "\<dots> = atoi_range i"
    using True by (simp add: Atoi_minus dec_nat_digits del: Atoi.simps)
  finally show ?thesis using assms by (simp add: atoi_range_def)
next
  case False
  then have "Atoi (FormatInt i) = atoi_range i"
    by (simp add: FormatInt_def Atoi_digits dec_nat_digits del: Atoi.simps)
  then show ?thesis using assms by (simp add: atoi_range_def)
qed

section \<open>Searching byte slices (bytes)\<close>

primrec has_prefix :: "bytes \<Rightarrow> bytes \<Rightarrow> bool" where
  "has_prefix bs [] = True"
| "has_prefix bs (p # ps) = (case bs of [] \<Rightarrow> False | b # bs' \<Rightarrow> b = p \<and> has_prefix bs' ps)"

lemma has_prefix_take: "has_prefix bs ps \<longleftrightarrow> take (length ps) bs = ps"
  by (induction ps arbitrary: bs) (auto split: list.splits)

text \<open>\<open>bytes.Index\<close>, with \<open>None\<close> for -1.\<close>

fun bytes_index :: "bytes \<Rightarrow> bytes \<Rightarrow> nat option" where
  "bytes_index [] sep = (if sep = [] then Some 0 else None)"
| "bytes_index (b # bs) sep =
     (if has_prefix (b # bs) sep then Some 0 else map_option Suc (bytes_index bs sep))"

lemma bytes_index_Some:
  "bytes_index bs sep = Some i \<Longrightarrow>
   take (length sep) (drop i bs) = sep \<and> i + length sep \<le> length bs"
proof (induction bs arbitrary: i)
  case Nil
  then show ?case by (simp split: if_splits)
next
  case (Cons b bs)
  show ?case
  proof (cases "has_prefix (b # bs) sep")
    case True
    with Cons.prems have "i = 0" by simp
    moreover from True have t: "take (length sep) (b # bs) = sep"
      by (simp only: has_prefix_take)
    moreover from t have "length sep \<le> length (b # bs)"
      by (metis length_take min.cobounded1)
    ultimately show ?thesis by (simp del: take_Cons')
  next
    case False
    with Cons show ?thesis by auto
  qed
qed

lemma bytes_index_least:
  "bytes_index bs sep = Some i \<Longrightarrow> j < i \<Longrightarrow> \<not> has_prefix (drop j bs) sep"
proof (induction bs arbitrary: i j)
  case Nil
  then show ?case by (simp split: if_splits)
next
  case (Cons b bs)
  then show ?case by (cases j) (auto split: if_splits)
qed

section \<open>IP addresses (net/netip)\<close>

text \<open>
  An address is the zero \<open>Addr\<close>, an IPv4 address, or an IPv6 address with its zone (empty
  when it has none).
\<close>

datatype addr = AddrZero | Addr4 uint32 | Addr6 "128 word" bytes

text \<open>The order of \<open>Addr.Compare\<close>: by the length in bits, then the bits, then the zone.\<close>

instantiation addr :: linorder
begin

fun less_eq_addr :: "addr \<Rightarrow> addr \<Rightarrow> bool" where
  "AddrZero \<le> b \<longleftrightarrow> True"
| "Addr4 v \<le> b \<longleftrightarrow> (case b of AddrZero \<Rightarrow> False | Addr4 w \<Rightarrow> v \<le> w | Addr6 w z \<Rightarrow> True)"
| "Addr6 v y \<le> b \<longleftrightarrow> (case b of Addr6 w z \<Rightarrow> v < w \<or> v = w \<and> y \<le> z | _ \<Rightarrow> False)"

definition less_addr :: "addr \<Rightarrow> addr \<Rightarrow> bool" where
  "a < b \<longleftrightarrow> a \<le> b \<and> \<not> b \<le> (a :: addr)"

instance
proof
  fix a b c :: addr
  show "a < b \<longleftrightarrow> a \<le> b \<and> \<not> b \<le> a" by (rule less_addr_def)
  show "a \<le> a" by (cases a) simp_all
  show "a \<le> b \<or> b \<le> a" by (cases a; cases b) auto
  show "a = b" if "a \<le> b" "b \<le> a" using that by (cases a; cases b) auto
  show "a \<le> c" if "a \<le> b" "b \<le> c" using that by (cases a; cases b; cases c) auto
qed

end

fun Is4 :: "addr \<Rightarrow> bool" where
  "Is4 (Addr4 _) = True"
| "Is4 _ = False"

fun Is6 :: "addr \<Rightarrow> bool" where
  "Is6 (Addr6 _ _) = True"
| "Is6 _ = False"

fun Is4In6 :: "addr \<Rightarrow> bool" where
  "Is4In6 (Addr6 w _) = (drop_bit 32 w = 0xFFFF)"
| "Is4In6 _ = False"

fun Unmap :: "addr \<Rightarrow> addr" where
  "Unmap (Addr6 w z) = (if Is4In6 (Addr6 w z) then Addr4 (ucast w) else Addr6 w z)"
| "Unmap a = a"

fun AsSlice :: "addr \<Rightarrow> bytes" where
  "AsSlice AddrZero = []"
| "AsSlice (Addr4 w) = put_be 4 w"
| "AsSlice (Addr6 w _) = put_be 16 w"

definition AddrFromSlice :: "bytes \<Rightarrow> addr option" where
  "AddrFromSlice bs =
     (if length bs = 4 then Some (Addr4 (get_be bs))
      else if length bs = 16 then Some (Addr6 (get_be bs) [])
      else None)"

text \<open>Addresses that survive \<open>AsSlice\<close> and \<open>AddrFromSlice\<close>: valid, without a zone.\<close>

fun plain_addr :: "addr \<Rightarrow> bool" where
  "plain_addr AddrZero = False"
| "plain_addr (Addr4 _) = True"
| "plain_addr (Addr6 _ z) = (z = [])"

lemma AddrFromSlice_AsSlice [simp]: "plain_addr a \<Longrightarrow> AddrFromSlice (AsSlice a) = Some a"
  by (cases a) (auto simp: AddrFromSlice_def)

lemma AddrFromSlice_plain: "AddrFromSlice bs = Some a \<Longrightarrow> plain_addr a"
  by (auto simp: AddrFromSlice_def split: if_splits)

lemma plain_addr_Unmap: "plain_addr a \<Longrightarrow> plain_addr (Unmap a)"
  by (cases a) auto

lemma length_AsSlice: "length (AsSlice a) = (if Is4 a then 4 else if Is6 a then 16 else 0)"
  by (cases a) auto

lemma length_AsSlice_le: "length (AsSlice a) \<le> 16"
  by (simp add: length_AsSlice)

lemma Is4_Unmap_cases: "plain_addr a \<Longrightarrow> Is4 (Unmap a) \<or> (Is6 (Unmap a) \<and> \<not> Is4In6 (Unmap a))"
  by (cases a) auto

text \<open>
  \<open>Addr.String\<close>. The groups of an IPv6 address are written in hexadecimal without leading
  zeros; the first longest run of at least two zero groups becomes a double colon.
\<close>

definition hex_digit :: "nat \<Rightarrow> byte" where
  "hex_digit n = (if n < 10 then 48 + of_nat n else 87 + of_nat n)"

fun hex_nat :: "nat \<Rightarrow> bytes" where
  "hex_nat n = (if n < 16 then [hex_digit n] else hex_nat (n div 16) @ [hex_digit (n mod 16)])"

declare hex_nat.simps [simp del]

fun sep_join :: "byte \<Rightarrow> bytes list \<Rightarrow> bytes" where
  "sep_join c [] = []"
| "sep_join c [x] = x"
| "sep_join c (x # xs) = x @ c # sep_join c xs"

definition string4 :: "uint32 \<Rightarrow> bytes" where
  "string4 w = sep_join 46 (map (\<lambda>b. dec_nat (unat b)) (put_be 4 w))"

definition v6u16 :: "128 word \<Rightarrow> nat \<Rightarrow> uint16" where
  "v6u16 w i = ucast (drop_bit (16 * (7 - i)) w)"

definition zero_run :: "128 word \<Rightarrow> nat \<Rightarrow> nat" where
  "zero_run w i = length (takeWhile (\<lambda>j. v6u16 w j = 0) [i..<8])"

definition best_zero_run :: "128 word \<Rightarrow> (nat \<times> nat) option" where
  "best_zero_run w =
     foldl (\<lambda>best i. let l = zero_run w i in
       (if 2 \<le> l \<and> (case best of None \<Rightarrow> True | Some (s, e) \<Rightarrow> e - s < l)
        then Some (i, i + l) else best)) None [0..<8]"

definition groups :: "128 word \<Rightarrow> nat \<Rightarrow> nat \<Rightarrow> bytes" where
  "groups w i j = sep_join 58 (map (\<lambda>k. hex_nat (unat (v6u16 w k))) [i..<j])"

definition string6 :: "128 word \<Rightarrow> bytes \<Rightarrow> bytes" where
  "string6 w z =
     (case best_zero_run w of
        None \<Rightarrow> groups w 0 8
      | Some (s, e) \<Rightarrow> groups w 0 s @ lit ''::'' @ groups w e 8) @
     (if z = [] then [] else lit ''%'' @ z)"

fun AddrString :: "addr \<Rightarrow> bytes" where
  "AddrString AddrZero = lit ''invalid IP''"
| "AddrString (Addr4 w) = string4 w"
| "AddrString (Addr6 w z) =
     (if Is4In6 (Addr6 w z)
      then lit ''::ffff:'' @ string4 (ucast w) @ (if z = [] then [] else lit ''%'' @ z)
      else string6 w z)"

lemmas addr_string_eval [eval_simps] =
  string4_def string6_def groups_def best_zero_run_def zero_run_def v6u16_def
  hex_nat.simps hex_digit_def AddrFromSlice_def

lemma AddrString_loopback6: "AddrString (Addr6 1 []) = lit ''::1''"
  by (simp add: eval_simps upt_conv_Cons)

lemma AddrString_v4: "AddrString (Addr4 0x7F000001) = lit ''127.0.0.1''"
  by (simp add: eval_simps)

end
