(* ===== verification/Bencoding.thy ===== *)
theory Bencoding
  imports GoStd
begin

text \<open>
  The \<open>bencoding\<close> package: the string encoders of encoding.go and the incremental
  \<open>Dictionary\<close> writer of dictionary.go, against an abstract syntax of bencoded values with
  its own printer and parser. A \<open>Dictionary\<close> is its byte buffer; a writer that has been
  closed by \<open>GetBytes\<close> holds exactly the bencoding of the dictionary that was written.
\<close>

section \<open>encoding.go\<close>

definition str :: "bytes \<Rightarrow> bytes" where
  "str s = FormatInt (int (length s)) @ lit '':'' @ s"

definition integer :: "int \<Rightarrow> bytes" where
  "integer num = lit ''i'' @ FormatInt num @ lit ''e''"

definition list_enc :: "bytes list \<Rightarrow> bytes" where
  "list_enc l = lit ''l'' @ concat (map str l) @ lit ''e''"

text \<open>\<open>strings.Split\<close> at single spaces.\<close>

fun split_space :: "bytes \<Rightarrow> bytes list" where
  "split_space [] = [[]]"
| "split_space (c # cs) =
     (if c = 32 then [] # split_space cs
      else case split_space cs of [] \<Rightarrow> [[c]] | p # ps \<Rightarrow> (c # p) # ps)"

text \<open>The value \<open>strconv.Atoi\<close> returns beside its error.\<close>

fun atoi_value :: "atoi_result \<Rightarrow> int" where
  "atoi_value (AtoiOk i) = i"
| "atoi_value AtoiSyntax = 0"
| "atoi_value (AtoiRange i) = i"

fun atoi_failed :: "atoi_result \<Rightarrow> bool" where
  "atoi_failed (AtoiOk _) = False"
| "atoi_failed _ = True"

text \<open>One part of \<open>dict\<close>; a part without a space makes \<open>parts[1]\<close> panic.\<close>

definition dict_part :: "bytes \<Rightarrow> panic + bytes" where
  "dict_part part =
     (let parts = split_space part in
      if 2 < length parts then Inr (str (parts ! 0) @ list_enc (tl parts))
      else if length parts < 2 then Inl SliceOutOfRange
      else (let valInt = Atoi (parts ! 1) in
            Inr (str (parts ! 0) @
              (if atoi_failed valInt then integer (atoi_value valInt) else str (parts ! 1)))))"

fun dict_parts :: "bytes list \<Rightarrow> bytes \<Rightarrow> panic + bytes" where
  "dict_parts [] encoded = Inr (encoded @ lit ''e'')"
| "dict_parts (p # ps) encoded = bindP (dict_part p) (\<lambda>b. dict_parts ps (encoded @ b))"

definition dict_enc :: "bytes list \<Rightarrow> panic + bytes" where
  "dict_enc parts = dict_parts parts (lit ''d'')"

section \<open>dictionary.go\<close>

type_synonym dictionary = bytes

definition dict_write :: "bytes \<Rightarrow> dictionary \<Rightarrow> dictionary" where
  "dict_write s d = d @ s"

definition NewDictionary :: dictionary where
  "NewDictionary = dict_write (lit ''d'') []"

definition Dict_Reset :: "dictionary \<Rightarrow> dictionary" where
  "Dict_Reset d = dict_write (lit ''d'') (take 0 d)"

definition Dict_String :: "bytes \<Rightarrow> bytes \<Rightarrow> dictionary \<Rightarrow> dictionary" where
  "Dict_String key v d =
     dict_write (FormatInt (int (length key)) @ lit '':'' @ key @
                 FormatInt (int (length v)) @ lit '':'' @ v) d"

definition Dict_StringBytes :: "bytes \<Rightarrow> bytes \<Rightarrow> dictionary \<Rightarrow> dictionary" where
  "Dict_StringBytes key v d =
     dict_write v (dict_write (FormatInt (int (length key)) @ lit '':'' @ key @
                               FormatInt (int (length v)) @ lit '':'') d)"

definition Dict_Int64 :: "bytes \<Rightarrow> int64 \<Rightarrow> dictionary \<Rightarrow> dictionary" where
  "Dict_Int64 key v d =
     dict_write (FormatInt (int (length key)) @ lit '':'' @ key @
                 lit ''i'' @ FormatInt (sint v) @ lit ''e'') d"

definition Dict_Dictionary :: "bytes \<Rightarrow> bytes \<Rightarrow> dictionary \<Rightarrow> dictionary" where
  "Dict_Dictionary key v d = dict_write (FormatInt (int (length key)) @ lit '':'' @ key @ v) d"

definition startDictionary :: "nat \<Rightarrow> dictionary \<Rightarrow> dictionary" where
  "startDictionary len d = dict_write (FormatInt (int len) @ lit '':'') d"

definition StartDictionary :: "bytes \<Rightarrow> dictionary \<Rightarrow> dictionary" where
  "StartDictionary key d =
     dict_write (lit ''d'') (dict_write key (startDictionary (length key) d))"

definition StartDictionaryBytes :: "bytes \<Rightarrow> dictionary \<Rightarrow> dictionary" where
  "StartDictionaryBytes key d =
     dict_write (lit ''d'') (dict_write key (startDictionary (length key) d))"

definition EndDictionary :: "dictionary \<Rightarrow> dictionary" where
  "EndDictionary d = dict_write (lit ''e'') d"

fun write_slices :: "bytes list \<Rightarrow> dictionary \<Rightarrow> dictionary" where
  "write_slices [] d = d"
| "write_slices (b # bs) d =
     write_slices bs (dict_write b (dict_write (FormatInt (int (length b)) @ lit '':'') d))"

definition BytesliceSlice :: "bytes \<Rightarrow> bytes list \<Rightarrow> dictionary \<Rightarrow> dictionary" where
  "BytesliceSlice key bs d =
     dict_write (lit ''e'') (write_slices bs (dict_write (str key @ lit ''l'') d))"

text \<open>
  \<open>GetBytes\<close> returns the closed buffer and leaves the closing letter in it; \<open>Get\<close> does the
  same and copies it to a string.
\<close>

definition GetBytes :: "dictionary \<Rightarrow> bytes \<times> dictionary" where
  "GetBytes d = (let d' = dict_write (lit ''e'') d in (d', d'))"

definition Get_string :: "dictionary \<Rightarrow> bytes \<times> dictionary" where
  "Get_string d = (let d' = dict_write (lit ''e'') d in (d', d'))"

text \<open>
  The dynamic types \<open>Any\<close> accepts; a map lists its entries in the order \<open>range\<close> visits
  them. \<open>AnyOther\<close> stands for every other type, which \<open>Any\<close> rejects after it has written
  the key. The errors of the nested calls are ignored, as in the code.
\<close>

datatype any_value =
    AnyString bytes
  | AnyBytes bytes
  | AnyStrings "bytes list"
  | AnyMap "(bytes \<times> any_value) list"
  | AnyInt int
  | AnyUint nat
  | AnyOther

datatype any_error = InvalidType

fun Any :: "bytes \<Rightarrow> any_value \<Rightarrow> dictionary \<Rightarrow> dictionary \<times> any_error option"
  and Any_entries :: "(bytes \<times> any_value) list \<Rightarrow> dictionary \<Rightarrow> dictionary" where
  "Any key (AnyString v) d = (dict_write (str v) (dict_write (str key) d), None)"
| "Any key (AnyBytes v) d = (dict_write (str v) (dict_write (str key) d), None)"
| "Any key (AnyStrings v) d = (dict_write (list_enc v) (dict_write (str key) d), None)"
| "Any key (AnyMap kvs) d =
     (dict_write (fst (GetBytes (Any_entries kvs NewDictionary))) (dict_write (str key) d), None)"
| "Any key (AnyInt v) d = (dict_write (integer v) (dict_write (str key) d), None)"
| "Any key (AnyUint v) d = (dict_write (integer (int v)) (dict_write (str key) d), None)"
| "Any key AnyOther d = (dict_write (str key) d, Some InvalidType)"
| "Any_entries [] d = d"
| "Any_entries ((k, v) # kvs) d = Any_entries kvs (fst (Any k v d))"

lemmas dict_op_defs =
  dict_write_def NewDictionary_def Dict_Reset_def Dict_String_def Dict_StringBytes_def
  Dict_Int64_def Dict_Dictionary_def startDictionary_def StartDictionary_def
  StartDictionaryBytes_def EndDictionary_def BytesliceSlice_def GetBytes_def Get_string_def

section \<open>Bencoded values\<close>

text \<open>
  The abstract syntax of BEP 3, its canonical printer, and a fuelled parser that returns the
  value and the bytes after it.
\<close>

datatype bval = BInt int | BStr bytes | BList "bval list" | BDict "(bytes \<times> bval) list"

fun benc :: "bval \<Rightarrow> bytes"
  and benc_list :: "bval list \<Rightarrow> bytes"
  and benc_kvs :: "(bytes \<times> bval) list \<Rightarrow> bytes" where
  "benc (BInt i) = integer i"
| "benc (BStr s) = str s"
| "benc (BList vs) = lit ''l'' @ benc_list vs @ lit ''e''"
| "benc (BDict kvs) = lit ''d'' @ benc_kvs kvs @ lit ''e''"
| "benc_list [] = []"
| "benc_list (v # vs) = benc v @ benc_list vs"
| "benc_kvs [] = []"
| "benc_kvs ((k, v) # kvs) = str k @ benc v @ benc_kvs kvs"

fun parse_int :: "bytes \<Rightarrow> int option" where
  "parse_int [] = None"
| "parse_int (c # cs) =
     (let ds = (if c = 45 then cs else c # cs)
      in if ds = [] \<or> \<not> list_all is_digit ds then None
         else Some ((if c = 45 then -1 else 1) * int (digits_val ds)))"

definition parse_str :: "bytes \<Rightarrow> (bytes \<times> bytes) option" where
  "parse_str bs =
     (let ds = takeWhile is_digit bs; rest = dropWhile is_digit bs
      in case rest of
           [] \<Rightarrow> None
         | c # cs \<Rightarrow>
             (if c = 58 \<and> ds \<noteq> [] \<and> digits_val ds \<le> length cs
              then Some (take (digits_val ds) cs, drop (digits_val ds) cs) else None))"

fun bparse :: "nat \<Rightarrow> bytes \<Rightarrow> (bval \<times> bytes) option"
  and bparse_list :: "nat \<Rightarrow> bytes \<Rightarrow> (bval list \<times> bytes) option"
  and bparse_kvs :: "nat \<Rightarrow> bytes \<Rightarrow> ((bytes \<times> bval) list \<times> bytes) option" where
  "bparse 0 bs = None"
| "bparse (Suc f) [] = None"
| "bparse (Suc f) (c # cs) =
     (if c = 105 then
        (case dropWhile (\<lambda>x. x \<noteq> 101) cs of
           [] \<Rightarrow> None
         | _ # rest \<Rightarrow> map_option (\<lambda>i. (BInt i, rest)) (parse_int (takeWhile (\<lambda>x. x \<noteq> 101) cs)))
      else if c = 108 then map_option (\<lambda>(vs, rest). (BList vs, rest)) (bparse_list f cs)
      else if c = 100 then map_option (\<lambda>(kvs, rest). (BDict kvs, rest)) (bparse_kvs f cs)
      else map_option (\<lambda>(s, rest). (BStr s, rest)) (parse_str (c # cs)))"
| "bparse_list 0 bs = None"
| "bparse_list (Suc f) [] = None"
| "bparse_list (Suc f) (c # cs) =
     (if c = 101 then Some ([], cs)
      else (case bparse f (c # cs) of
              None \<Rightarrow> None
            | Some (v, rest) \<Rightarrow>
                map_option (\<lambda>(vs, rest'). (v # vs, rest')) (bparse_list f rest)))"
| "bparse_kvs 0 bs = None"
| "bparse_kvs (Suc f) [] = None"
| "bparse_kvs (Suc f) (c # cs) =
     (if c = 101 then Some ([], cs)
      else (case parse_str (c # cs) of
              None \<Rightarrow> None
            | Some (k, rest) \<Rightarrow>
                (case bparse f rest of
                   None \<Rightarrow> None
                 | Some (v, rest') \<Rightarrow>
                     map_option (\<lambda>(kvs, rest''). ((k, v) # kvs, rest'')) (bparse_kvs f rest'))))"

fun bfuel :: "bval \<Rightarrow> nat"
  and bfuel_list :: "bval list \<Rightarrow> nat"
  and bfuel_kvs :: "(bytes \<times> bval) list \<Rightarrow> nat" where
  "bfuel (BInt i) = 1"
| "bfuel (BStr s) = 1"
| "bfuel (BList vs) = Suc (bfuel_list vs)"
| "bfuel (BDict kvs) = Suc (bfuel_kvs kvs)"
| "bfuel_list [] = 1"
| "bfuel_list (v # vs) = Suc (max (bfuel v) (bfuel_list vs))"
| "bfuel_kvs [] = 1"
| "bfuel_kvs ((k, v) # kvs) = Suc (max (bfuel v) (bfuel_kvs kvs))"

text \<open>Decimal digits never contain the letter that ends them.\<close>

lemma not_digit_colon [simp]: "\<not> is_digit 58" and not_digit_e [simp]: "\<not> is_digit 101"
  by (simp_all add: is_digit_def)

lemma FormatInt_nat: "FormatInt (int n) = dec_nat n"
  by (simp add: FormatInt_def)

lemma takeWhile_digits:
  assumes "list_all is_digit ds" and "\<not> is_digit c"
  shows "takeWhile is_digit (ds @ c # cs) = ds" and "dropWhile is_digit (ds @ c # cs) = c # cs"
  using assms by (induction ds) auto

lemma parse_str_str [simp]: "parse_str (str s @ rest) = Some (s, rest)"
proof -
  have "list_all is_digit (dec_nat (length s))" by (rule dec_nat_digits)
  then show ?thesis
    by (simp add: parse_str_def str_def FormatInt_nat lit_def takeWhile_digits Let_def)
qed

lemma FormatInt_chars: "x \<in> set (FormatInt i) \<Longrightarrow> x \<noteq> 101"
  using dec_nat_digits [of "nat i"] dec_nat_digits [of "nat (- i)"]
  by (auto simp: FormatInt_def lit_def list_all_iff split: if_splits)

lemma parse_int_FormatInt [simp]: "parse_int (FormatInt i) = Some i"
proof (cases "i < 0")
  case True
  then show ?thesis
    by (simp add: FormatInt_def lit_def dec_nat_digits)
next
  case False
  obtain c cs where c: "dec_nat (nat i) = c # cs" by (cases "dec_nat (nat i)") auto
  with dec_nat_digits [of "nat i"] have "is_digit c" by simp
  then have "c \<noteq> 45" by (simp add: is_digit_not_sign)
  then have "parse_int (dec_nat (nat i)) = Some (int (digits_val (dec_nat (nat i))))"
    using dec_nat_digits [of "nat i"] unfolding c by simp
  with False show ?thesis by (simp add: FormatInt_def)
qed

lemma str_first:
  obtains c cs where "str s = c # cs" and "is_digit c"
proof -
  obtain c cs where "dec_nat (length s) = c # cs" by (cases "dec_nat (length s)") auto
  moreover with dec_nat_digits [of "length s"] have "is_digit c" by simp
  ultimately show ?thesis
    using that [of c "cs @ 58 # s"] by (simp add: str_def FormatInt_nat lit_def)
qed

lemma is_digit_not_letter: "is_digit c \<Longrightarrow> c \<noteq> 105 \<and> c \<noteq> 108 \<and> c \<noteq> 100 \<and> c \<noteq> 101"
  by (auto simp: is_digit_def)

lemma benc_first:
  obtains c cs where "benc v = c # cs" and "c \<noteq> 101"
proof (cases v)
  case (BStr s)
  obtain c cs where "str s = c # cs" and "is_digit c" by (rule str_first)
  with BStr show ?thesis using that by (simp add: is_digit_not_letter)
qed (use that in \<open>auto simp: integer_def lit_def\<close>)

lemma bparse_int:
  "bparse (Suc f) (integer i @ rest) = Some (BInt i, rest)"
proof -
  have "takeWhile (\<lambda>x. x \<noteq> 101) (FormatInt i @ 101 # rest) = FormatInt i"
    and "dropWhile (\<lambda>x. x \<noteq> 101) (FormatInt i @ 101 # rest) = 101 # rest"
    using FormatInt_chars [of _ i] by (simp_all add: takeWhile_append2 dropWhile_append2)
  then show ?thesis by (simp add: integer_def lit_def)
qed

lemma bparse_str: "bparse (Suc f) (str s @ rest) = Some (BStr s, rest)"
proof -
  obtain c cs where c: "str s = c # cs" and "is_digit c" by (rule str_first)
  moreover have "parse_str (c # cs @ rest) = Some (s, rest)"
    using parse_str_str [of s rest] c by simp
  ultimately show ?thesis by (simp add: is_digit_not_letter)
qed

lemma bparse_benc_all:
  "bfuel v \<le> f \<Longrightarrow> bparse f (benc v @ rest) = Some (v, rest)"
  "bfuel_list vs \<le> f \<Longrightarrow> bparse_list f (benc_list vs @ 101 # rest) = Some (vs, rest)"
  "bfuel_kvs kvs \<le> f \<Longrightarrow> bparse_kvs f (benc_kvs kvs @ 101 # rest) = Some (kvs, rest)"
proof (induction v and vs and kvs arbitrary: f rest and f rest and f rest
    rule: benc_benc_list_benc_kvs.induct)
  case (1 i)
  then show ?case by (cases f) (simp_all add: bparse_int del: bparse.simps(3))
next
  case (2 s)
  then show ?case by (cases f) (simp_all add: bparse_str del: bparse.simps(3))
next
  case (3 vs)
  then obtain g where "f = Suc g" and "bfuel_list vs \<le> g" by (cases f) auto
  with 3 show ?case by (simp add: lit_def)
next
  case (4 kvs)
  then obtain g where "f = Suc g" and "bfuel_kvs kvs \<le> g" by (cases f) auto
  with 4 show ?case by (simp add: lit_def)
next
  case 5
  then show ?case by (cases f) auto
next
  case (6 v vs)
  then obtain g where g: "f = Suc g" "bfuel v \<le> g" "bfuel_list vs \<le> g" by (cases f) auto
  obtain c cs where c: "benc v = c # cs" "c \<noteq> 101" by (rule benc_first)
  have "bparse g (c # cs @ benc_list vs @ 101 # rest) = Some (v, benc_list vs @ 101 # rest)"
    using "6.IH"(1) [OF g(2), of "benc_list vs @ 101 # rest"] c by simp
  with g c "6.IH"(2) [OF g(3), of rest] show ?case by simp
next
  case 7
  then show ?case by (cases f) auto
next
  case (8 k v kvs)
  then obtain g where g: "f = Suc g" "bfuel v \<le> g" "bfuel_kvs kvs \<le> g" by (cases f) auto
  obtain c cs where c: "str k = c # cs" "is_digit c" by (rule str_first)
  have "parse_str (c # cs @ benc v @ benc_kvs kvs @ 101 # rest)
          = Some (k, benc v @ benc_kvs kvs @ 101 # rest)"
    using parse_str_str [of k] c by simp
  with g c(2) "8.IH"(1) [OF g(2)] "8.IH"(2) [OF g(3), of rest] show ?case
    by (simp add: c(1) is_digit_not_letter)
qed

text \<open>The length of the printed value is enough fuel to parse it.\<close>

lemma benc_length_pos: "0 < length (benc v)"
  by (rule benc_first [of v]) simp

lemma bfuel_le_length:
  "bfuel v \<le> length (benc v)"
  "bfuel_list vs \<le> Suc (length (benc_list vs))"
  "bfuel_kvs kvs \<le> Suc (length (benc_kvs kvs))"
proof (induction v and vs and kvs rule: benc_benc_list_benc_kvs.induct)
  case (2 s)
  show ?case by (simp add: str_def)
next
  case (6 v vs)
  then show ?case using benc_length_pos [of v] by (simp del: length_greater_0_conv)
next
  case (8 k v kvs)
  then show ?case using benc_length_pos [of v] by (simp add: str_def del: length_greater_0_conv)
qed (simp_all add: integer_def)

definition bdecode :: "bytes \<Rightarrow> unit + bval" where
  "bdecode bs = (case bparse (length bs) bs of Some (v, []) \<Rightarrow> Inr v | _ \<Rightarrow> Inl ())"

interpretation bencode: codec benc bdecode "\<lambda>_. True"
proof
  fix v
  show "bdecode (benc v) = Inr v"
    using bparse_benc_all(1) [OF bfuel_le_length(1), of v "[]"] by (simp add: bdecode_def)
qed

section \<open>What the writer writes\<close>

lemma benc_kvs_append [simp]: "benc_kvs (xs @ ys) = benc_kvs xs @ benc_kvs ys"
  by (induction xs) auto

lemma write_slices_append: "write_slices bs d = d @ benc_list (map BStr bs)"
  by (induction bs arbitrary: d) (auto simp: dict_write_def str_def)

lemma list_enc_benc: "list_enc bs = benc (BList (map BStr bs))"
proof -
  have "concat (map str bs) = benc_list (map BStr bs)" by (induction bs) auto
  then show ?thesis by (simp add: list_enc_def)
qed

text \<open>Each operation appends one bencoded entry; this bundle is how the trackers' responses are read.\<close>

lemma Dict_String_append: "Dict_String k v d = d @ benc_kvs [(k, BStr v)]"
  and Dict_StringBytes_append: "Dict_StringBytes k v d = d @ benc_kvs [(k, BStr v)]"
  and Dict_Int64_append: "Dict_Int64 k i d = d @ benc_kvs [(k, BInt (sint i))]"
  and Dict_Dictionary_append: "Dict_Dictionary k (benc u) d = d @ benc_kvs [(k, u)]"
  and BytesliceSlice_append: "BytesliceSlice k bs d = d @ benc_kvs [(k, BList (map BStr bs))]"
  by (simp_all add: dict_op_defs write_slices_append str_def integer_def)

lemma StartDictionary_append: "StartDictionary k d = d @ str k @ lit ''d''"
  and StartDictionaryBytes_append: "StartDictionaryBytes k d = d @ str k @ lit ''d''"
  and EndDictionary_append: "EndDictionary d = d @ lit ''e''"
  and NewDictionary_eq: "NewDictionary = lit ''d''"
  and Dict_Reset_eq: "Dict_Reset d = NewDictionary"
  and GetBytes_eq: "GetBytes d = (d @ lit ''e'', d @ lit ''e'')"
  by (simp_all add: dict_op_defs str_def Let_def)

lemmas dict_writes =
  Dict_String_append Dict_StringBytes_append Dict_Int64_append BytesliceSlice_append
  StartDictionary_append StartDictionaryBytes_append EndDictionary_append NewDictionary_eq
  Dict_Reset_eq GetBytes_eq

text \<open>The bencoded value of what \<open>Any\<close> is given, where it has one.\<close>

fun any_bval :: "any_value \<Rightarrow> bval option"
  and any_kvs :: "(bytes \<times> any_value) list \<Rightarrow> (bytes \<times> bval) list option" where
  "any_bval (AnyString s) = Some (BStr s)"
| "any_bval (AnyBytes s) = Some (BStr s)"
| "any_bval (AnyStrings ss) = Some (BList (map BStr ss))"
| "any_bval (AnyMap kvs) = map_option BDict (any_kvs kvs)"
| "any_bval (AnyInt i) = Some (BInt i)"
| "any_bval (AnyUint n) = Some (BInt (int n))"
| "any_bval AnyOther = None"
| "any_kvs [] = Some []"
| "any_kvs ((k, v) # kvs) =
     (case any_bval v of None \<Rightarrow> None
      | Some b \<Rightarrow> map_option (\<lambda>bs. (k, b) # bs) (any_kvs kvs))"

lemma Any_bval:
  "any_bval v = Some b \<Longrightarrow> Any k v d = (d @ str k @ benc b, None)"
  "any_kvs kvs = Some bs \<Longrightarrow> Any_entries kvs d = d @ benc_kvs bs"
proof (induction k v d and kvs d arbitrary: b and bs rule: Any_Any_entries.induct)
  case (4 key kvs d)
  then show ?case by (auto simp: dict_write_def GetBytes_eq NewDictionary_eq)
next
  case (9 k v kvs d)
  then show ?case by (auto split: option.splits)
qed (auto simp: dict_write_def list_enc_benc)

end
