(* ===== verification/Pools.thy ===== *)
theory Pools
  imports Bencoding
begin

text \<open>
  The storage types of tracker/storage/types.go and the object pools of the \<open>pools\<close>
  package. A pool holds returned objects in its free list; \<open>Get\<close> may take any of them or
  make a fresh one, so it is given the run time's choice as a function of the free list.
\<close>

section \<open>Storage types\<close>

type_synonym hash = bytes
type_synonym peer_id = bytes

record peer =
  Complete :: bool
  IP :: addr
  Port :: uint16
  LastSeen :: int64

section \<open>Byte slices with spare capacity\<close>

text \<open>A slice that starts at its array: its length is \<open>slen\<close>, its capacity \<open>length (arr s)\<close>.\<close>

record byte_slice =
  arr :: bytes
  slen :: nat

definition slice_bytes :: "byte_slice \<Rightarrow> bytes" where
  "slice_bytes s = take (slen s) (arr s)"

definition make_slice :: "int64 \<Rightarrow> panic + byte_slice" where
  "make_slice n =
     (if sint n < 0 then Inl NegativeLength
      else Inr \<lparr>arr = replicate (nat (sint n)) 0, slen = nat (sint n)\<rparr>)"

section \<open>Pool\<close>

record 'a pool =
  pool_free :: "'a list"
  pool_new :: "panic + 'a"
  pool_reset :: "('a \<Rightarrow> panic + 'a) option"
  pool_created :: int32

definition NewPool :: "panic + 'a \<Rightarrow> ('a \<Rightarrow> panic + 'a) option \<Rightarrow> 'a pool" where
  "NewPool new reset =
     \<lparr>pool_free = [], pool_new = new, pool_reset = reset, pool_created = 0\<rparr>"

definition pool_make :: "'a pool \<Rightarrow> panic + ('a \<times> 'a pool)" where
  "pool_make p =
     (case pool_new p of Inl e \<Rightarrow> Inl e
      | Inr x \<Rightarrow> Inr (x, p\<lparr>pool_created := pool_created p + 1\<rparr>))"

definition Pool_Get :: "('a list \<Rightarrow> nat option) \<Rightarrow> 'a pool \<Rightarrow> panic + ('a \<times> 'a pool)" where
  "Pool_Get pick p =
     (case pick (pool_free p) of
        None \<Rightarrow> pool_make p
      | Some i \<Rightarrow>
          (if i < length (pool_free p)
           then Inr (pool_free p ! i,
                     p\<lparr>pool_free := take i (pool_free p) @ drop (Suc i) (pool_free p)\<rparr>)
           else pool_make p))"

fun run_reset :: "('a \<Rightarrow> panic + 'a) option \<Rightarrow> 'a \<Rightarrow> panic + 'a" where
  "run_reset None x = Inr x"
| "run_reset (Some f) x = f x"

definition Pool_Put :: "'a \<Rightarrow> 'a pool \<Rightarrow> panic + 'a pool" where
  "Pool_Put x p =
     bindP (run_reset (pool_reset p) x) (\<lambda>y. Inr (p\<lparr>pool_free := y # pool_free p\<rparr>))"

definition Pool_Created :: "'a pool \<Rightarrow> int32" where
  "Pool_Created p = pool_created p"

section \<open>The four pools\<close>

record pools =
  Peerlists4 :: "byte_slice pool"
  Peerlists6 :: "byte_slice pool"
  Dictionaries :: "dictionary pool"
  PeersPool :: "peer pool"

text \<open>
  The reset function of a peer-list pool assigns the shortened slice to its own parameter:
  the object that returns to the pool is unchanged, and only a slice of too small a
  capacity makes it panic.
\<close>

definition peerlist_reset :: "int64 \<Rightarrow> byte_slice \<Rightarrow> panic + byte_slice" where
  "peerlist_reset maxlen s =
     (if 0 \<le> sint maxlen \<and> nat (sint maxlen) \<le> length (arr s) then Inr s
      else Inl SliceOutOfRange)"

definition zero_peer :: peer where
  "zero_peer = \<lparr>Complete = False, IP = AddrZero, Port = 0, LastSeen = 0\<rparr>"

definition Initialize :: "int64 \<Rightarrow> pools" where
  "Initialize numwantLimit =
     (let peerlist4Max = 6 * numwantLimit; peerlist6Max = 18 * numwantLimit in
      \<lparr>Peerlists4 = NewPool (make_slice peerlist4Max) (Some (peerlist_reset peerlist4Max)),
       Peerlists6 = NewPool (make_slice peerlist6Max) (Some (peerlist_reset peerlist6Max)),
       Dictionaries = NewPool (Inr NewDictionary) (Some (\<lambda>d. Inr (Dict_Reset d))),
       PeersPool = NewPool (Inr zero_peer) None\<rparr>)"

section \<open>The contract of a pool\<close>

text \<open>
  What a pool promises its users: as long as every object put into it satisfies \<open>Q\<close>, every
  object taken out satisfies \<open>P\<close>. The laws are about the two functions the pool was made
  with.
\<close>

definition pool_holds ::
  "panic + 'a \<Rightarrow> ('a \<Rightarrow> panic + 'a) option \<Rightarrow> ('a \<Rightarrow> bool) \<Rightarrow> 'a pool \<Rightarrow> bool" where
  "pool_holds new reset P p \<longleftrightarrow>
     pool_new p = new \<and> pool_reset p = reset \<and> (\<forall>x \<in> set (pool_free p). P x)"

text \<open>The two outcomes of \<open>Get\<close>: a pooled object, or a fresh one.\<close>

lemma Pool_Get_cases:
  obtains (pooled) i where "i < length (pool_free p)"
      "Pool_Get pick p = Inr (pool_free p ! i,
         p\<lparr>pool_free := take i (pool_free p) @ drop (Suc i) (pool_free p)\<rparr>)"
  | (fresh) "Pool_Get pick p = pool_make p"
proof (cases "\<exists>i. pick (pool_free p) = Some i \<and> i < length (pool_free p)")
  case True
  then obtain i where "pick (pool_free p) = Some i" and "i < length (pool_free p)" by blast
  then show ?thesis by (intro pooled [of i]) (simp_all add: Pool_Get_def)
next
  case False
  then show ?thesis by (intro fresh) (auto simp: Pool_Get_def split: option.splits)
qed

locale pool_contract =
  fixes new :: "panic + 'a"
    and reset :: "('a \<Rightarrow> panic + 'a) option"
    and P :: "'a \<Rightarrow> bool"
    and Q :: "'a \<Rightarrow> bool"
  assumes new_P: "new = Inr x \<Longrightarrow> P x"
    and reset_P: "Q x \<Longrightarrow> run_reset reset x = Inr y \<Longrightarrow> P y"
begin

abbreviation holds :: "'a pool \<Rightarrow> bool" where
  "holds \<equiv> pool_holds new reset P"

lemma holds_NewPool: "holds (NewPool new reset)"
  by (simp add: pool_holds_def NewPool_def)

lemma make_holds: "holds p \<Longrightarrow> pool_make p = Inr (x, p') \<Longrightarrow> P x \<and> holds p'"
  using new_P by (auto simp: pool_holds_def pool_make_def split: sum.splits)

lemma Get_holds: "holds p \<Longrightarrow> Pool_Get pick p = Inr (x, p') \<Longrightarrow> P x \<and> holds p'"
proof (cases rule: Pool_Get_cases [of p pick])
  case (pooled i)
  assume "holds p" and "Pool_Get pick p = Inr (x, p')"
  with pooled show ?thesis
    by (auto simp: pool_holds_def dest: in_set_takeD in_set_dropD)
next
  case fresh
  assume "holds p" and "Pool_Get pick p = Inr (x, p')"
  with fresh show ?thesis by (intro make_holds) simp_all
qed

lemma Get_returns:
  assumes "holds p" and "new = Inr y"
  obtains x p' where "Pool_Get pick p = Inr (x, p')" "P x" "holds p'"
proof -
  have "\<exists>x p'. Pool_Get pick p = Inr (x, p')"
  proof (cases rule: Pool_Get_cases [of p pick])
    case (pooled i)
    then show ?thesis by simp
  next
    case fresh
    with assms show ?thesis by (simp add: pool_holds_def pool_make_def)
  qed
  then obtain x p' where g: "Pool_Get pick p = Inr (x, p')" by blast
  from Get_holds [OF assms(1) g] show ?thesis by (intro that [OF g]) simp_all
qed

lemma Put_holds: "holds p \<Longrightarrow> Q x \<Longrightarrow> Pool_Put x p = Inr p' \<Longrightarrow> holds p'"
  using reset_P [of x] by (auto simp: pool_holds_def Pool_Put_def bindP_Inr_iff)

lemma Put_returns:
  assumes "holds p" and "Q x" and "run_reset reset x = Inr y"
  obtains p' where "Pool_Put x p = Inr p'" "holds p'"
proof -
  have "Pool_Put x p = Inr (p\<lparr>pool_free := y # pool_free p\<rparr>)"
    using assms by (simp add: pool_holds_def Pool_Put_def)
  from Put_holds [OF assms(1,2) this] this show ?thesis by (intro that)
qed

end

definition cap_is :: "int64 \<Rightarrow> byte_slice \<Rightarrow> bool" where
  "cap_is n s \<longleftrightarrow> length (arr s) = nat (sint n) \<and> slen s \<le> length (arr s)"

interpretation peerlist: pool_contract "make_slice n" "Some (peerlist_reset n)" "cap_is n" "cap_is n"
  for n
  by unfold_locales (auto simp: make_slice_def peerlist_reset_def cap_is_def split: if_splits)

interpretation dictpool: pool_contract "Inr NewDictionary" "Some (\<lambda>d. Inr (Dict_Reset d))"
  "\<lambda>d. d = NewDictionary" "\<lambda>_. True"
  by unfold_locales (auto simp: Dict_Reset_eq)

interpretation peerpool: pool_contract "Inr zero_peer" None "\<lambda>_. True" "\<lambda>_. True"
  by unfold_locales auto

text \<open>All four pools, as made by \<open>Initialize\<close> for a peer limit.\<close>

definition pools_ok :: "int64 \<Rightarrow> pools \<Rightarrow> bool" where
  "pools_ok lim ps \<longleftrightarrow>
     peerlist.holds (6 * lim) (Peerlists4 ps) \<and> peerlist.holds (18 * lim) (Peerlists6 ps) \<and>
     dictpool.holds (Dictionaries ps) \<and> peerpool.holds (PeersPool ps)"

lemma pools_ok_Initialize: "pools_ok lim (Initialize lim)"
  by (simp add: pools_ok_def Initialize_def Let_def peerlist.holds_NewPool
      dictpool.holds_NewPool peerpool.holds_NewPool)

text \<open>Limits for which the buffer sizes do not overflow.\<close>

definition limit_ok :: "int64 \<Rightarrow> bool" where
  "limit_ok lim \<longleftrightarrow> 0 < unat lim \<and> unat lim < 2 ^ 58"

lemma uint_small: "unat (w :: int64) < 2 ^ 63 \<Longrightarrow> uint w < 2 ^ 63"
  by (simp only: unat_eq_nat_uint nat_less_iff uint_ge_0 of_nat_power of_nat_numeral)

lemma sint_small:
  assumes "unat (w :: int64) < 2 ^ 63"
  shows "sint w = int (unat w)"
proof -
  have "sint w = uint w"
    unfolding sint_uint
  proof (rule signed_take_bit_int_eq_self)
    have "- (2 ^ (LENGTH(64) - Suc 0)) \<le> (0 :: int)" by simp
    then show "- (2 ^ (LENGTH(64) - Suc 0)) \<le> uint w" by (rule order_trans) (rule uint_ge_0)
    show "uint w < 2 ^ (LENGTH(64) - Suc 0)" using uint_small [OF assms] by simp
  qed
  then show ?thesis by (simp only: uint_nat)
qed

lemma limit_ok_caps:
  assumes "limit_ok lim"
  shows "sint (6 * lim) = int (6 * unat lim)" and "sint (18 * lim) = int (18 * unat lim)"
proof -
  have "unat (6 * lim) = 6 * unat lim" and "unat (18 * lim) = 18 * unat lim"
    using assms by (simp_all add: limit_ok_def unat_word_ariths)
  then show "sint (6 * lim) = int (6 * unat lim)" and "sint (18 * lim) = int (18 * unat lim)"
    using assms by (subst sint_small; simp add: limit_ok_def)+
qed

lemma limit_ok_200 [simp]: "limit_ok 200"
  by (simp add: limit_ok_def)

lemma make_slice_ok: "0 \<le> sint n \<Longrightarrow> \<exists>s. make_slice n = Inr s"
  by (simp add: make_slice_def)

lemma peerlist_reset_ok: "0 \<le> sint n \<Longrightarrow> cap_is n s \<Longrightarrow> peerlist_reset n s = Inr s"
  by (simp add: peerlist_reset_def cap_is_def)

end
