(* ===== verification/Stats.thy ===== *)
theory Stats
  imports Pools
begin

text \<open>
  The counters of tracker/stats: the 64-bit atomic request, error, seed and leech counters
  of stats.go and the per-address counts of stats_slow.go, which are 16 bits wide.
\<close>

record stats =
  Hits :: int64
  Connects :: int64
  Announces :: int64
  Scrapes :: int64
  Seeds :: int64
  Leeches :: int64
  IPStats :: "(addr, int16) fmap"
  ServerErrors :: int64
  ClientErrors :: int64

section \<open>Address counts\<close>

text \<open>Reading a missing key of the map gives 0.\<close>

definition ip_count :: "(addr, int16) fmap \<Rightarrow> addr \<Rightarrow> int16" where
  "ip_count m ip = (case fmlookup m ip of Some n \<Rightarrow> n | None \<Rightarrow> 0)"

definition IPStats_Total :: "(addr, int16) fmap \<Rightarrow> nat" where
  "IPStats_Total m = fmsize m"

definition IPStats_Delete :: "addr \<Rightarrow> (addr, int16) fmap \<Rightarrow> (addr, int16) fmap" where
  "IPStats_Delete ip m = fmdrop ip m"

definition IPStats_Inc :: "addr \<Rightarrow> (addr, int16) fmap \<Rightarrow> (addr, int16) fmap" where
  "IPStats_Inc ip m = fmupd ip (ip_count m ip + 1) m"

definition IPStats_Dec :: "addr \<Rightarrow> (addr, int16) fmap \<Rightarrow> (addr, int16) fmap" where
  "IPStats_Dec ip m = fmupd ip (ip_count m ip - 1) m"

definition IPStats_Remove :: "addr \<Rightarrow> (addr, int16) fmap \<Rightarrow> (addr, int16) fmap" where
  "IPStats_Remove ip m =
     (let m' = fmupd ip (ip_count m ip - 1) m
      in if ip_count m' ip = 0 then fmdrop ip m' else m')"

lemma ip_count_Inc [simp]:
  "ip_count (IPStats_Inc ip m) a = (if a = ip then ip_count m a + 1 else ip_count m a)"
  by (simp add: IPStats_Inc_def ip_count_def)

lemma ip_count_Remove [simp]:
  "ip_count (IPStats_Remove ip m) a = (if a = ip then ip_count m a - 1 else ip_count m a)"
  by (auto simp: IPStats_Remove_def ip_count_def Let_def)

lemma fmdom'_Inc [simp]: "fmdom' (IPStats_Inc ip m) = insert ip (fmdom' m)"
  by (simp add: IPStats_Inc_def)

lemma fmdom'_Remove:
  "fmdom' (IPStats_Remove ip m) =
     (if ip_count m ip = 1 then fmdom' m - {ip} else insert ip (fmdom' m))"
  by (auto simp: IPStats_Remove_def ip_count_def Let_def)

section \<open>Counter updates\<close>

definition add_Hits :: "int64 \<Rightarrow> stats \<Rightarrow> stats" where
  "add_Hits n s = s\<lparr>Hits := Hits s + n\<rparr>"

definition add_Connects :: "int64 \<Rightarrow> stats \<Rightarrow> stats" where
  "add_Connects n s = s\<lparr>Connects := Connects s + n\<rparr>"

definition add_Announces :: "int64 \<Rightarrow> stats \<Rightarrow> stats" where
  "add_Announces n s = s\<lparr>Announces := Announces s + n\<rparr>"

definition add_Scrapes :: "int64 \<Rightarrow> stats \<Rightarrow> stats" where
  "add_Scrapes n s = s\<lparr>Scrapes := Scrapes s + n\<rparr>"

definition add_Seeds :: "int64 \<Rightarrow> stats \<Rightarrow> stats" where
  "add_Seeds n s = s\<lparr>Seeds := Seeds s + n\<rparr>"

definition add_Leeches :: "int64 \<Rightarrow> stats \<Rightarrow> stats" where
  "add_Leeches n s = s\<lparr>Leeches := Leeches s + n\<rparr>"

definition add_ServerErrors :: "int64 \<Rightarrow> stats \<Rightarrow> stats" where
  "add_ServerErrors n s = s\<lparr>ServerErrors := ServerErrors s + n\<rparr>"

definition add_ClientErrors :: "int64 \<Rightarrow> stats \<Rightarrow> stats" where
  "add_ClientErrors n s = s\<lparr>ClientErrors := ClientErrors s + n\<rparr>"

definition map_IPStats :: "((addr, int16) fmap \<Rightarrow> (addr, int16) fmap) \<Rightarrow> stats \<Rightarrow> stats" where
  "map_IPStats f s = s\<lparr>IPStats := f (IPStats s)\<rparr>"

lemmas stats_defs =
  add_Hits_def add_Connects_def add_Announces_def add_Scrapes_def add_Seeds_def add_Leeches_def
  add_ServerErrors_def add_ClientErrors_def map_IPStats_def

text \<open>The counters of requests and errors, which no database operation touches.\<close>

definition request_counts :: "stats \<Rightarrow> int64 list" where
  "request_counts s = [Hits s, Connects s, Announces s, Scrapes s, ServerErrors s, ClientErrors s]"

definition zero_stats :: stats where
  "zero_stats =
     \<lparr>Hits = 0, Connects = 0, Announces = 0, Scrapes = 0, Seeds = 0, Leeches = 0,
      IPStats = fmempty, ServerErrors = 0, ClientErrors = 0\<rparr>"

end
