(* ===== verification/Config.thy ===== *)
theory Config
  imports GoStd
begin

text \<open>
  The configuration record of config/config.go. Durations are 64-bit nanosecond counts, as
  \<open>time.Duration\<close> is.
\<close>

type_synonym duration = int64

record configuration =
  loaded :: bool
  LogLevel :: bytes
  ExpvarInterval :: duration
  Debug_Pprof :: int64
  Announce_Base :: duration
  Announce_Fuzz :: duration
  HTTP_Mode :: bytes
  HTTP_IP :: bytes
  HTTP_Port :: int64
  HTTP_Timeout_Read :: duration
  HTTP_Timeout_Write :: duration
  HTTP_Threads :: int64
  UDP_Enabled :: bool
  UDP_IP :: bytes
  UDP_Port :: int64
  UDP_Threads :: int64
  ConnDB_Validate :: bool
  ConnDB_Size :: uint64
  ConnDB_Trim :: duration
  ConnDB_Expiry :: duration
  Numwant_Default :: uint64
  Numwant_Limit :: uint64
  DB_Type :: bytes
  DB_Backup_Frequency :: duration
  DB_Backup_Type :: bytes
  DB_Backup_Path :: bytes
  DB_Trim :: duration
  DB_Expiry :: duration
  Path_Log :: bytes
  Path_Pid :: bytes

text \<open>
  \<open>int64(d.Seconds())\<close>: whole seconds, rounded towards zero. The floating-point detour of
  \<open>Seconds\<close> is exact for whole seconds below \<open>2 ^ 53\<close> and cannot reach the next second
  below 97 days, which covers every duration of a configuration file.
\<close>

definition Seconds :: "duration \<Rightarrow> int64" where
  "Seconds d = word_of_int (sgn (sint d) * (\<bar>sint d\<bar> div 1000000000))"

text \<open>\<open>int32(d.Seconds())\<close>.\<close>

definition Seconds32 :: "duration \<Rightarrow> int32" where
  "Seconds32 d = ucast (Seconds d)"

declare Seconds_def [eval_simps] Seconds32_def [eval_simps]

text \<open>The configuration that config/embedded/trakx.yaml ships, after \<open>Parse\<close>.\<close>

definition default_config :: configuration where
  "default_config =
     \<lparr>loaded = True, LogLevel = lit ''info'', ExpvarInterval = 1000000000, Debug_Pprof = 0,
      Announce_Base = 1800000000000, Announce_Fuzz = 300000000000,
      HTTP_Mode = lit ''enabled'', HTTP_IP = [], HTTP_Port = 1337,
      HTTP_Timeout_Read = 3000000000, HTTP_Timeout_Write = 10000000000, HTTP_Threads = 512,
      UDP_Enabled = True, UDP_IP = [], UDP_Port = 1337, UDP_Threads = 512,
      ConnDB_Validate = True, ConnDB_Size = 0, ConnDB_Trim = 600000000000,
      ConnDB_Expiry = 1800000000000, Numwant_Default = 75, Numwant_Limit = 200,
      DB_Type = lit ''gomap'', DB_Backup_Frequency = 0, DB_Backup_Type = lit ''none'',
      DB_Backup_Path = [], DB_Trim = 600000000000, DB_Expiry = 2400000000000,
      Path_Log = lit ''~/.cache/trakx/trakx.log'', Path_Pid = lit ''~/.cache/trakx/trakx.pid''\<rparr>"

end
