(* ===== verification/Database.thy ===== *)
theory Database
  imports Stats Config
begin

text \<open>
  The storage interface of tracker/storage/database.go: the state a database operation sees,
  the operations as a record of functions (Go's interface value), and the laws a database
  promises, as a locale over an abstract swarm. The trackers are written against the record
  and verified against the locale; the in-memory database provides both.
\<close>

section \<open>The world of an operation\<close>

text \<open>
  What the run time and the clock decide for one operation: the configuration and the build
  tag, the time, the random draws, the order in which \<open>range\<close> visits a peer map, and which
  pooled objects \<open>Get\<close> returns.
\<close>

record env =
  conf :: configuration
  fast :: bool
  now :: int64
  draw63 :: int64
  drawn :: nat
  peer_order :: "(peer_id, peer) fmap \<Rightarrow> peer_id list"
  pick4 :: "byte_slice list \<Rightarrow> nat option"
  pick6 :: "byte_slice list \<Rightarrow> nat option"
  pickd :: "dictionary list \<Rightarrow> nat option"
  pickp :: "peer list \<Rightarrow> nat option"

text \<open>\<open>rand.Int63\<close> draws 63 bits; \<open>rand.Int63n(n)\<close> and \<open>rand.Int31n(n)\<close> draw below \<open>n\<close>.\<close>

definition Int63 :: "env \<Rightarrow> int64" where
  "Int63 e = take_bit 63 (draw63 e)"

definition Intn :: "env \<Rightarrow> nat \<Rightarrow> nat" where
  "Intn e n = drawn e mod n"

definition env_ok :: "env \<Rightarrow> bool" where
  "env_ok e \<longleftrightarrow> (\<forall>m. enumerates (peer_order e m) m)"

text \<open>A concrete run time: sorted iteration and pools that always make fresh objects.\<close>

definition sample_env :: "int64 \<Rightarrow> env" where
  "sample_env t =
     \<lparr>conf = default_config, fast = False, now = t, draw63 = 5, drawn = 7,
      peer_order = sorted_order, pick4 = (\<lambda>_. None), pick6 = (\<lambda>_. None),
      pickd = (\<lambda>_. None), pickp = (\<lambda>_. None)\<rparr>"

lemma sample_env_sel [simp]:
  "conf (sample_env t) = default_config" "fast (sample_env t) = False" "now (sample_env t) = t"
  "peer_order (sample_env t) = sorted_order" "drawn (sample_env t) = 7" "draw63 (sample_env t) = 5"
  by (simp_all add: sample_env_def)

lemma env_ok_sample [simp]: "env_ok (sample_env t)"
  by (simp add: env_ok_def sample_env_def)

text \<open>
  The global state that database operations share: the counters, the pools (nil until
  \<open>pools.Initialize\<close> has run) and the database itself.
\<close>

record 'db world =
  w_stats :: stats
  w_pools :: "pools option"
  w_db :: 'db

section \<open>Pooled objects\<close>

text \<open>Both peer-list buffers go back to their pools.\<close>

definition put_peerlists :: "byte_slice \<Rightarrow> byte_slice \<Rightarrow> 'db world \<Rightarrow> panic + 'db world" where
  "put_peerlists s4 s6 w =
     (case w_pools w of
        None \<Rightarrow> Inl NilDereference
      | Some ps \<Rightarrow>
          bindP (Pool_Put s4 (Peerlists4 ps)) (\<lambda>p4.
          bindP (Pool_Put s6 (Peerlists6 ps)) (\<lambda>p6.
            Inr (w\<lparr>w_pools := Some (ps\<lparr>Peerlists4 := p4, Peerlists6 := p6\<rparr>)\<rparr>))))"

text \<open>\<open>pools.Dictionaries.Get\<close> and \<open>Put\<close>.\<close>

definition get_dictionary :: "env \<Rightarrow> 'db world \<Rightarrow> panic + (dictionary \<times> 'db world)" where
  "get_dictionary e w =
     (case w_pools w of
        None \<Rightarrow> Inl NilDereference
      | Some ps \<Rightarrow>
          bindP (Pool_Get (pickd e) (Dictionaries ps)) (\<lambda>(d, dp).
            Inr (d, w\<lparr>w_pools := Some (ps\<lparr>Dictionaries := dp\<rparr>)\<rparr>)))"

definition put_dictionary :: "dictionary \<Rightarrow> 'db world \<Rightarrow> panic + 'db world" where
  "put_dictionary d w =
     (case w_pools w of
        None \<Rightarrow> Inl NilDereference
      | Some ps \<Rightarrow>
          bindP (Pool_Put d (Dictionaries ps)) (\<lambda>dp.
            Inr (w\<lparr>w_pools := Some (ps\<lparr>Dictionaries := dp\<rparr>)\<rparr>)))"

section \<open>The interface\<close>

record 'db database =
  db_Save :: "env \<Rightarrow> addr \<Rightarrow> uint16 \<Rightarrow> bool \<Rightarrow> hash \<Rightarrow> peer_id \<Rightarrow> 'db world \<Rightarrow> panic + 'db world"
  db_Drop :: "env \<Rightarrow> hash \<Rightarrow> peer_id \<Rightarrow> 'db world \<Rightarrow> panic + 'db world"
  db_HashStats :: "hash \<Rightarrow> 'db \<Rightarrow> uint16 \<times> uint16"
  db_PeerList :: "env \<Rightarrow> hash \<Rightarrow> uint64 \<Rightarrow> bool \<Rightarrow> 'db world \<Rightarrow> panic + (bytes list \<times> 'db world)"
  db_PeerListBytes ::
    "env \<Rightarrow> hash \<Rightarrow> uint64 \<Rightarrow> 'db world \<Rightarrow> panic + ((byte_slice \<times> byte_slice) \<times> 'db world)"
  db_Hashes :: "'db \<Rightarrow> nat"

section \<open>The abstract swarm\<close>

text \<open>What a database stores: for every infohash, the peers of its swarm.\<close>

type_synonym swarm = "hash \<Rightarrow> peer_id \<Rightarrow> peer option"

definition swarm_save :: "hash \<Rightarrow> peer_id \<Rightarrow> peer \<Rightarrow> swarm \<Rightarrow> swarm" where
  "swarm_save h i p sw = sw(h := (sw h)(i := Some p))"

definition swarm_drop :: "hash \<Rightarrow> peer_id \<Rightarrow> swarm \<Rightarrow> swarm" where
  "swarm_drop h i sw = sw(h := (sw h)(i := None))"

definition swarm_expire :: "(peer \<Rightarrow> bool) \<Rightarrow> swarm \<Rightarrow> swarm" where
  "swarm_expire old sw = (\<lambda>h i. case sw h i of None \<Rightarrow> None | Some p \<Rightarrow> if old p then None else Some p)"

definition swarm_count :: "(peer \<Rightarrow> bool) \<Rightarrow> hash \<Rightarrow> swarm \<Rightarrow> nat" where
  "swarm_count P h sw = card {i. \<exists>p. sw h i = Some p \<and> P p}"

text \<open>The compact form of a peer: its address bytes and its port in network order.\<close>

definition compact :: "peer \<Rightarrow> bytes" where
  "compact p = AsSlice (IP p) @ put_be 2 (Port p)"

text \<open>
  A compact peer list of a swarm: its peers, each once, the IPv4 ones in the first list and the
  IPv6 ones in the second. All of them are there unless one of the lists has as many as the
  limit of the configuration allows, whatever number was wanted.
\<close>

definition compact_lists :: "int64 \<Rightarrow> (peer_id \<Rightarrow> peer option) \<Rightarrow> peer list \<Rightarrow> bytes \<Rightarrow> bytes \<Rightarrow> bool" where
  "compact_lists lim sw ps b4 b6 \<longleftrightarrow>
     (\<exists>ids. distinct ids \<and> map sw ids = map Some ps) \<and>
     b4 = concat (map compact (filter (\<lambda>p. \<not> Is6 (IP p)) ps)) \<and>
     b6 = concat (map compact (filter (\<lambda>p. Is6 (IP p)) ps)) \<and>
     (length ps = card (dom sw) \<or> length b4 = 6 * unat lim \<or> length b6 = 18 * unat lim)"

text \<open>The bencoded dictionary of a peer.\<close>

definition peer_bval :: "bool \<Rightarrow> peer_id \<Rightarrow> peer \<Rightarrow> bval" where
  "peer_bval rm i p =
     BDict ((if rm then [] else [(lit ''peer id'', BStr i)]) @
       [(lit ''ip'', BStr (AddrString (IP p))), (lit ''port'', BInt (int (unat (Port p))))])"

text \<open>
  A full peer list: distinct peers of the swarm with their ids, as many as were wanted and
  are there.
\<close>

definition listed_peers :: "(peer_id \<Rightarrow> peer option) \<Rightarrow> uint64 \<Rightarrow> (peer_id \<times> peer) list \<Rightarrow> bool" where
  "listed_peers sw n ips \<longleftrightarrow>
     distinct (map fst ips) \<and> (\<forall>x \<in> set ips. sw (fst x) = Some (snd x)) \<and>
     length ips = min (unat n) (card (dom sw))"

section \<open>The laws\<close>

definition world_ok :: "('db \<Rightarrow> bool) \<Rightarrow> int64 \<Rightarrow> 'db world \<Rightarrow> bool" where
  "world_ok dbinv lim w \<longleftrightarrow> dbinv (w_db w) \<and> (\<exists>ps. w_pools w = Some ps \<and> pools_ok lim ps)"

locale database_laws =
  fixes D :: "'db database"
    and dbinv :: "'db \<Rightarrow> bool"
    and swarm :: "'db \<Rightarrow> swarm"
  assumes Save_law:
    "world_ok dbinv lim w \<Longrightarrow> length h = 20 \<Longrightarrow> length i = 20 \<Longrightarrow> ip \<noteq> AddrZero \<Longrightarrow>
     \<exists>w'. db_Save D e ip port c h i w = Inr w' \<and> world_ok dbinv lim w' \<and>
       swarm (w_db w') =
         swarm_save h i \<lparr>Complete = c, IP = ip, Port = port, LastSeen = now e\<rparr> (swarm (w_db w)) \<and>
       request_counts (w_stats w') = request_counts (w_stats w)"
    and Drop_law:
    "world_ok dbinv lim w \<Longrightarrow>
     \<exists>w'. db_Drop D e h i w = Inr w' \<and> world_ok dbinv lim w' \<and>
       swarm (w_db w') = swarm_drop h i (swarm (w_db w)) \<and>
       request_counts (w_stats w') = request_counts (w_stats w)"
    and HashStats_law:
    "dbinv d \<Longrightarrow> db_HashStats D h d =
       (of_nat (swarm_count Complete h (swarm d)),
        of_nat (swarm_count (\<lambda>p. \<not> Complete p) h (swarm d)))"
    and PeerList_law:
    "world_ok dbinv lim w \<Longrightarrow> env_ok e \<Longrightarrow>
     \<exists>ips w'. db_PeerList D e h n rm w = Inr (map (\<lambda>x. benc (peer_bval rm (fst x) (snd x))) ips, w') \<and>
       world_ok dbinv lim w' \<and> w_db w' = w_db w \<and> w_stats w' = w_stats w \<and>
       listed_peers (swarm (w_db w) h) n ips"
    and PeerListBytes_law:
    "world_ok dbinv lim w \<Longrightarrow> limit_ok lim \<Longrightarrow> env_ok e \<Longrightarrow>
     \<exists>s4 s6 w'. db_PeerListBytes D e h n w = Inr ((s4, s6), w') \<and> world_ok dbinv lim w' \<and>
       w_db w' = w_db w \<and> w_stats w' = w_stats w \<and>
       cap_is (6 * lim) s4 \<and> cap_is (18 * lim) s6 \<and>
       (n \<noteq> 0 \<and> swarm (w_db w) h \<noteq> Map.empty \<longrightarrow>
          (\<exists>ps. compact_lists lim (swarm (w_db w) h) ps (slice_bytes s4) (slice_bytes s6)))"

text \<open>Taking a dictionary out of the pools and giving one back keeps the world.\<close>

lemma get_dictionary_ok:
  assumes "world_ok dbinv lim w"
  obtains w' where "get_dictionary e w = Inr (NewDictionary, w')" "world_ok dbinv lim w'"
    "w_db w' = w_db w" "w_stats w' = w_stats w"
proof -
  from assms obtain ps where ps: "w_pools w = Some ps" "pools_ok lim ps" "dbinv (w_db w)"
    by (auto simp: world_ok_def)
  from ps(2) have "dictpool.holds (Dictionaries ps)" by (simp add: pools_ok_def)
  then obtain d dp where g: "Pool_Get (pickd e) (Dictionaries ps) = Inr (d, dp)" "d = NewDictionary"
      "dictpool.holds dp" using dictpool.Get_returns [of _ NewDictionary] by metis
  show ?thesis
    by (rule that [of "w\<lparr>w_pools := Some (ps\<lparr>Dictionaries := dp\<rparr>)\<rparr>"])
      (use ps g in \<open>simp_all add: get_dictionary_def world_ok_def pools_ok_def\<close>)
qed

lemma put_dictionary_ok:
  assumes "world_ok dbinv lim w"
  obtains w' where "put_dictionary d w = Inr w'" "world_ok dbinv lim w'"
    "w_db w' = w_db w" "w_stats w' = w_stats w"
proof -
  from assms obtain ps where ps: "w_pools w = Some ps" "pools_ok lim ps" "dbinv (w_db w)"
    by (auto simp: world_ok_def)
  from ps(2) have "dictpool.holds (Dictionaries ps)" by (simp add: pools_ok_def)
  from dictpool.Put_returns [OF this TrueI, of d "Dict_Reset d"]
  obtain dp where p: "Pool_Put d (Dictionaries ps) = Inr dp" "dictpool.holds dp" by auto
  show ?thesis
    by (rule that [of "w\<lparr>w_pools := Some (ps\<lparr>Dictionaries := dp\<rparr>)\<rparr>"])
      (use ps p in \<open>simp_all add: put_dictionary_def world_ok_def pools_ok_def\<close>)
qed

text \<open>Returning the peer-list buffers.\<close>

lemma put_peerlists_ok:
  assumes "world_ok I lim w" and "limit_ok lim" and "cap_is (6 * lim) s4" and "cap_is (18 * lim) s6"
  obtains w' where "put_peerlists s4 s6 w = Inr w'" "world_ok I lim w'" "w_db w' = w_db w"
    "w_stats w' = w_stats w"
proof -
  from assms(1) obtain ps where ps: "w_pools w = Some ps" "pools_ok lim ps" by (auto simp: world_ok_def)
  then have h: "peerlist.holds (6 * lim) (Peerlists4 ps)" "peerlist.holds (18 * lim) (Peerlists6 ps)"
    by (simp_all add: pools_ok_def)
  have pos: "0 \<le> sint (6 * lim)" "0 \<le> sint (18 * lim)"
    unfolding limit_ok_caps [OF assms(2)] by simp_all
  have r4: "run_reset (Some (peerlist_reset (6 * lim))) s4 = Inr s4"
    using peerlist_reset_ok [OF pos(1) assms(3)] by simp
  have r6: "run_reset (Some (peerlist_reset (18 * lim))) s6 = Inr s6"
    using peerlist_reset_ok [OF pos(2) assms(4)] by simp
  obtain p4 where p4: "Pool_Put s4 (Peerlists4 ps) = Inr p4" "peerlist.holds (6 * lim) p4"
    using h(1) assms(3) r4 by (rule peerlist.Put_returns)
  obtain p6 where p6: "Pool_Put s6 (Peerlists6 ps) = Inr p6" "peerlist.holds (18 * lim) p6"
    using h(2) assms(4) r6 by (rule peerlist.Put_returns)
  show ?thesis
    by (rule that [of "w\<lparr>w_pools := Some (ps\<lparr>Peerlists4 := p4, Peerlists6 := p6\<rparr>)\<rparr>"])
      (use assms(1) ps p4 p6 in \<open>auto simp: put_peerlists_def world_ok_def pools_ok_def\<close>)
qed

end
