(* ===== verification/Memory.thy ===== *)
theory Memory
  imports Database
begin

text \<open>
  The in-memory database of tracker/storage/map: \<open>Memory\<close> and its \<open>PeerMap\<close>s with every
  operation of memory.go, peer.go, hash.go and expvar.go, in the sequential semantics of one
  operation at a time. What they guarantee is proved in MemorySpec.thy.
\<close>

section \<open>State\<close>

record peermap =
  CompleteN :: uint16
  IncompleteN :: uint16
  Peers :: "(peer_id, peer) fmap"

text \<open>The hash map is nil until \<open>make\<close> has run.\<close>

record memory =
  hashmap :: "(hash, peermap) fmap option"

definition entries :: "memory \<Rightarrow> (hash, peermap) fmap" where
  "entries db = (case hashmap db of None \<Rightarrow> fmempty | Some m \<Rightarrow> m)"

definition memory_make :: "memory \<Rightarrow> memory" where
  "memory_make db = db\<lparr>hashmap := Some fmempty\<rparr>"

definition empty_peermap :: peermap where
  "empty_peermap = \<lparr>CompleteN = 0, IncompleteN = 0, Peers = fmempty\<rparr>"

text \<open>Assigning into a map: it panics when the map is nil.\<close>

definition set_peermap :: "hash \<Rightarrow> peermap \<Rightarrow> memory \<Rightarrow> panic + memory" where
  "set_peermap h pm db =
     (case hashmap db of
        None \<Rightarrow> Inl NilMapWrite
      | Some m \<Rightarrow> Inr (db\<lparr>hashmap := Some (fmupd h pm m)\<rparr>))"

definition makePeermap :: "hash \<Rightarrow> memory \<Rightarrow> panic + (peermap \<times> memory)" where
  "makePeermap h db = bindP (set_peermap h empty_peermap db) (\<lambda>db'. Inr (empty_peermap, db'))"

definition Check :: "memory \<Rightarrow> bool" where
  "Check db \<longleftrightarrow> hashmap db \<noteq> None"

section \<open>Save and Drop\<close>

definition get_peer :: "env \<Rightarrow> pools option \<Rightarrow> panic + (peer \<times> pools option)" where
  "get_peer e ps =
     (case ps of
        None \<Rightarrow> Inl NilDereference
      | Some p \<Rightarrow>
          bindP (Pool_Get (pickp e) (PeersPool p))
            (\<lambda>(x, pp). Inr (x, Some (p\<lparr>PeersPool := pp\<rparr>))))"

definition put_peer :: "peer \<Rightarrow> pools option \<Rightarrow> panic + pools option" where
  "put_peer x ps =
     (case ps of
        None \<Rightarrow> Inl NilDereference
      | Some p \<Rightarrow> bindP (Pool_Put x (PeersPool p)) (\<lambda>pp. Inr (Some (p\<lparr>PeersPool := pp\<rparr>))))"

text \<open>The completion counts after a peer is saved; the counts are 16 bits wide.\<close>

definition save_counts :: "bool \<Rightarrow> peer \<Rightarrow> bool \<Rightarrow> peermap \<Rightarrow> peermap" where
  "save_counts peerExists peer complete pm =
     (if peerExists then
        (if \<not> Complete peer \<and> complete
         then pm\<lparr>IncompleteN := IncompleteN pm - 1, CompleteN := CompleteN pm + 1\<rparr>
         else if Complete peer \<and> \<not> complete
         then pm\<lparr>CompleteN := CompleteN pm - 1, IncompleteN := IncompleteN pm + 1\<rparr>
         else pm)
      else if complete then pm\<lparr>CompleteN := CompleteN pm + 1\<rparr>
      else pm\<lparr>IncompleteN := IncompleteN pm + 1\<rparr>)"

definition save_stats :: "bool \<Rightarrow> peer \<Rightarrow> addr \<Rightarrow> bool \<Rightarrow> stats \<Rightarrow> stats" where
  "save_stats peerExists peer ip complete s =
     (if peerExists then
        (let s1 = (if \<not> Complete peer \<and> complete then add_Seeds 1 (add_Leeches (-1) s)
                   else if Complete peer \<and> \<not> complete then add_Leeches 1 (add_Seeds (-1) s)
                   else s)
         in if IP peer \<noteq> ip
            then map_IPStats (\<lambda>m. IPStats_Inc ip (IPStats_Remove (IP peer) m)) s1
            else s1)
      else
        (let s1 = map_IPStats (IPStats_Inc ip) s
         in if complete then add_Seeds 1 s1 else add_Leeches 1 s1))"

definition Save ::
  "env \<Rightarrow> addr \<Rightarrow> uint16 \<Rightarrow> bool \<Rightarrow> hash \<Rightarrow> peer_id \<Rightarrow> memory world \<Rightarrow> panic + memory world" where
  "Save e ip port complete h i w =
     bindP (case fmlookup (entries (w_db w)) h of
              Some pm \<Rightarrow> Inr (pm, w_db w)
            | None \<Rightarrow> makePeermap h (w_db w))
       (\<lambda>(pm, db).
     let peerExists = (fmlookup (Peers pm) i \<noteq> None) in
     bindP (case fmlookup (Peers pm) i of
              Some p \<Rightarrow> Inr (p, w_pools w)
            | None \<Rightarrow> get_peer e (w_pools w))
       (\<lambda>(peer, ps).
     let pm1 = save_counts peerExists peer complete pm;
         st = (if fast e then w_stats w else save_stats peerExists peer ip complete (w_stats w));
         peer' = peer\<lparr>Complete := complete, IP := ip, Port := port, LastSeen := now e\<rparr>;
         pm2 = pm1\<lparr>Peers := fmupd i peer' (Peers pm1)\<rparr> in
     bindP (set_peermap h pm2 db)
       (\<lambda>db'. Inr (w\<lparr>w_stats := st, w_pools := ps, w_db := db'\<rparr>))))"

text \<open>The completion counts and the statistics when a peer leaves.\<close>

definition leave_counts :: "peer \<Rightarrow> peermap \<Rightarrow> peermap" where
  "leave_counts peer pm =
     (if Complete peer then pm\<lparr>CompleteN := CompleteN pm - 1\<rparr>
      else pm\<lparr>IncompleteN := IncompleteN pm - 1\<rparr>)"

definition leave_stats :: "peer \<Rightarrow> stats \<Rightarrow> stats" where
  "leave_stats peer s =
     map_IPStats (IPStats_Remove (IP peer))
       (if Complete peer then add_Seeds (-1) s else add_Leeches (-1) s)"

text \<open>\<open>delete\<close>, which trimming calls with the peer map locked.\<close>

definition delete_peer ::
  "env \<Rightarrow> peer \<Rightarrow> peer_id \<Rightarrow> peermap \<times> stats \<times> pools option
     \<Rightarrow> panic + (peermap \<times> stats \<times> pools option)" where
  "delete_peer e peer i = (\<lambda>(pm, st, ps).
     let pm1 = leave_counts peer (pm\<lparr>Peers := fmdrop i (Peers pm)\<rparr>);
         st1 = (if fast e then st else leave_stats peer st) in
     bindP (put_peer peer ps) (\<lambda>ps1. Inr (pm1, st1, ps1)))"

definition Drop :: "env \<Rightarrow> hash \<Rightarrow> peer_id \<Rightarrow> memory world \<Rightarrow> panic + memory world" where
  "Drop e h i w =
     (case fmlookup (entries (w_db w)) h of
        None \<Rightarrow> Inr w
      | Some pm \<Rightarrow>
          (case fmlookup (Peers pm) i of
             None \<Rightarrow> Inr w
           | Some peer \<Rightarrow>
               (let pm1 = leave_counts peer (pm\<lparr>Peers := fmdrop i (Peers pm)\<rparr>);
                    st = (if fast e then w_stats w else leave_stats peer (w_stats w)) in
                bindP (set_peermap h pm1 (w_db w)) (\<lambda>db.
                bindP (put_peer peer (w_pools w)) (\<lambda>ps.
                  Inr (w\<lparr>w_stats := st, w_pools := ps, w_db := db\<rparr>))))))"

section \<open>Trimming\<close>

text \<open>A peer has expired when it was last seen longer ago than the configured expiry.\<close>

definition expired :: "env \<Rightarrow> peer \<Rightarrow> bool" where
  "expired e p \<longleftrightarrow> sint (now e - LastSeen p) > sint (Seconds (DB_Expiry (conf e)))"

fun trim_peers ::
  "env \<Rightarrow> peer_id list \<Rightarrow> nat \<Rightarrow> peermap \<times> stats \<times> pools option
     \<Rightarrow> panic + (nat \<times> peermap \<times> stats \<times> pools option)" where
  "trim_peers e [] n (pm, st, ps) = Inr (n, pm, st, ps)"
| "trim_peers e (i # ids) n (pm, st, ps) =
     (case fmlookup (Peers pm) i of
        None \<Rightarrow> trim_peers e ids n (pm, st, ps)
      | Some peer \<Rightarrow>
          (if expired e peer
           then bindP (delete_peer e peer i (pm, st, ps)) (trim_peers e ids (Suc n))
           else trim_peers e ids n (pm, st, ps)))"

text \<open>
  \<open>trim\<close> over the infohashes in the order \<open>range\<close> visits them: the expired peers of each
  go, then the infohash itself when no peer is left. The result counts both.
\<close>

fun trim_hashes ::
  "env \<Rightarrow> hash list \<Rightarrow> nat \<times> nat \<Rightarrow> memory world \<Rightarrow> panic + ((nat \<times> nat) \<times> memory world)" where
  "trim_hashes e [] acc w = Inr (acc, w)"
| "trim_hashes e (h # hs) (peers, hashes) w =
     (case fmlookup (entries (w_db w)) h of
        None \<Rightarrow> trim_hashes e hs (peers, hashes) w
      | Some pm \<Rightarrow>
          bindP (trim_peers e (peer_order e (Peers pm)) peers (pm, w_stats w, w_pools w))
            (\<lambda>(peers', pm', st, ps).
          bindP (set_peermap h pm' (w_db w)) (\<lambda>db.
          let peersize = fmsize (Peers pm');
              db' = (if peersize = 0
                     then db\<lparr>hashmap := map_option (fmdrop h) (hashmap db)\<rparr> else db);
              w' = w\<lparr>w_stats := st, w_pools := ps, w_db := db'\<rparr> in
          trim_hashes e hs (peers', if peersize = 0 then Suc hashes else hashes) w')))"

definition trim ::
  "env \<Rightarrow> hash list \<Rightarrow> memory world \<Rightarrow> panic + ((nat \<times> nat) \<times> memory world)" where
  "trim e hs w = trim_hashes e hs (0, 0) w"

section \<open>Queries\<close>

definition Hashes :: "memory \<Rightarrow> nat" where
  "Hashes db = fmsize (entries db)"

definition HashStats :: "hash \<Rightarrow> memory \<Rightarrow> uint16 \<times> uint16" where
  "HashStats h db =
     (case fmlookup (entries db) h of
        None \<Rightarrow> (0, 0)
      | Some pm \<Rightarrow> (CompleteN pm, IncompleteN pm))"

definition cap_numwant :: "uint64 \<Rightarrow> peermap \<Rightarrow> nat" where
  "cap_numwant n pm =
     (if unat n > fmsize (Peers pm) then fmsize (Peers pm) else unat n)"

text \<open>
  \<open>PeerList\<close>: one bencoded dictionary per peer, until \<open>numWant\<close> are written. The pooled
  dictionary is closed by \<open>GetBytes\<close> and reset for the next peer.
\<close>

definition peer_dict :: "bool \<Rightarrow> peer_id \<Rightarrow> peer \<Rightarrow> dictionary \<Rightarrow> dictionary" where
  "peer_dict removePeerId i p d =
     Dict_Int64 (lit ''port'') (ucast (Port p))
       (Dict_String (lit ''ip'') (AddrString (IP p))
         (if removePeerId then d else Dict_String (lit ''peer id'') i d))"

fun peer_list_loop ::
  "bool \<Rightarrow> (peer_id, peer) fmap \<Rightarrow> peer_id list \<Rightarrow> nat \<Rightarrow> dictionary \<Rightarrow> bytes list
     \<Rightarrow> bytes list \<times> dictionary" where
  "peer_list_loop rm m [] n d acc = (acc @ replicate n [], d)"
| "peer_list_loop rm m (i # ids) n d acc =
     (case fmlookup m i of
        None \<Rightarrow> peer_list_loop rm m ids n d acc
      | Some p \<Rightarrow>
          (let b = fst (GetBytes (peer_dict rm i p d));
               d' = Dict_Reset (snd (GetBytes (peer_dict rm i p d)))
           in if n = 1 then (acc @ [b], d')
              else peer_list_loop rm m ids (n - 1) d' (acc @ [b])))"

definition with_dictionary ::
  "env \<Rightarrow> pools option \<Rightarrow> (dictionary \<Rightarrow> 'a \<times> dictionary) \<Rightarrow> panic + ('a \<times> pools option)" where
  "with_dictionary e ps f =
     (case ps of
        None \<Rightarrow> Inl NilDereference
      | Some p \<Rightarrow>
          bindP (Pool_Get (pickd e) (Dictionaries p)) (\<lambda>(d, dp).
          (case f d of (r, d') \<Rightarrow>
             bindP (Pool_Put d' dp) (\<lambda>dp'. Inr (r, Some (p\<lparr>Dictionaries := dp'\<rparr>))))))"

definition PeerList ::
  "env \<Rightarrow> hash \<Rightarrow> uint64 \<Rightarrow> bool \<Rightarrow> memory world \<Rightarrow> panic + (bytes list \<times> memory world)" where
  "PeerList e h numWant removePeerId w =
     (case fmlookup (entries (w_db w)) h of
        None \<Rightarrow> Inr ([], w)
      | Some pm \<Rightarrow>
          (let n = cap_numwant numWant pm in
           if n = 0 then Inr ([], w)
           else bindP (with_dictionary e (w_pools w)
                  (\<lambda>d. peer_list_loop removePeerId (Peers pm) (peer_order e (Peers pm)) n d []))
                (\<lambda>(peers, ps). Inr (peers, w\<lparr>w_pools := ps\<rparr>))))"

text \<open>
  \<open>PeerListBytes\<close>: the pooled buffers are filled in place. A write outside a buffer's
  capacity panics; \<open>copy\<close> from an empty address slice writes nothing. The loop ends when the
  buffer just written to has no room for another peer.
\<close>

fun plb_loop ::
  "peer list \<Rightarrow> nat \<Rightarrow> nat \<Rightarrow> bytes \<Rightarrow> bytes \<Rightarrow> panic + (nat \<times> nat \<times> bytes \<times> bytes)" where
  "plb_loop [] pos4 pos6 b4 b6 = Inr (pos4, pos6, b4, b6)"
| "plb_loop (p # ps) pos4 pos6 b4 b6 =
     (if Is6 (IP p) then
        (if pos6 + 18 > length b6 then Inl SliceOutOfRange
         else
           (let b6' = copy_at (pos6 + 16) (put_be 2 (Port p)) (copy_at pos6 (AsSlice (IP p)) b6);
                pos6' = pos6 + 18 in
            if pos6' + 18 > length b6' then Inr (pos4, pos6', b4, b6')
            else plb_loop ps pos4 pos6' b4 b6'))
      else
        (if pos4 + 6 > length b4 then Inl SliceOutOfRange
         else
           (let b4' = copy_at (pos4 + 4) (put_be 2 (Port p)) (copy_at pos4 (AsSlice (IP p)) b4);
                pos4' = pos4 + 6 in
            if pos4' + 6 > length b4' then Inr (pos4', pos6, b4', b6)
            else plb_loop ps pos4' pos6 b4' b6)))"

definition PeerListBytes ::
  "env \<Rightarrow> hash \<Rightarrow> uint64 \<Rightarrow> memory world
     \<Rightarrow> panic + ((byte_slice \<times> byte_slice) \<times> memory world)" where
  "PeerListBytes e h numWant w =
     (case w_pools w of
        None \<Rightarrow> Inl NilDereference
      | Some ps \<Rightarrow>
          bindP (Pool_Get (pick4 e) (Peerlists4 ps)) (\<lambda>(s4, p4).
          bindP (Pool_Get (pick6 e) (Peerlists6 ps)) (\<lambda>(s6, p6).
          let w' = w\<lparr>w_pools := Some (ps\<lparr>Peerlists4 := p4, Peerlists6 := p6\<rparr>)\<rparr> in
          (case fmlookup (entries (w_db w)) h of
             None \<Rightarrow> Inr ((s4, s6), w')
           | Some pm \<Rightarrow>
               if cap_numwant numWant pm = 0 then Inr ((s4, s6), w')
               else
                 bindP (plb_loop (List.map_filter (fmlookup (Peers pm)) (peer_order e (Peers pm)))
                          0 0 (arr s4) (arr s6))
                   (\<lambda>(pos4, pos6, b4, b6).
                      Inr ((\<lparr>arr = b4, slen = pos4\<rparr>, \<lparr>arr = b6, slen = pos6\<rparr>), w'))))))"

text \<open>\<open>SyncExpvars\<close>: recount every peer; the per-address counts are added to, not replaced.\<close>

datatype sync_error = NotInitiated

definition sync_peer :: "peer \<Rightarrow> (addr, int16) fmap \<times> int64 \<times> int64 \<Rightarrow> (addr, int16) fmap \<times> int64 \<times> int64" where
  "sync_peer p = (\<lambda>(ips, seeds, leeches).
     (IPStats_Inc (IP p) ips,
      if Complete p then seeds + 1 else seeds,
      if Complete p then leeches else leeches + 1))"

definition all_peers :: "env \<Rightarrow> hash list \<Rightarrow> memory \<Rightarrow> peer list" where
  "all_peers e hs db =
     concat (map (\<lambda>pm. List.map_filter (fmlookup (Peers pm)) (peer_order e (Peers pm)))
       (List.map_filter (fmlookup (entries db)) hs))"

definition SyncExpvars :: "env \<Rightarrow> hash list \<Rightarrow> memory world \<Rightarrow> memory world \<times> sync_error option" where
  "SyncExpvars e hs w =
     (if \<not> Check (w_db w) then (w, Some NotInitiated)
      else
        (case fold sync_peer (all_peers e hs (w_db w)) (IPStats (w_stats w), 0, 0) of
           (ips, seeds, leeches) \<Rightarrow>
             (w\<lparr>w_stats := (w_stats w)\<lparr>IPStats := (if fast e then IPStats (w_stats w) else ips),
                Seeds := seeds, Leeches := leeches\<rparr>\<rparr>, None)))"

section \<open>The database as an interface value\<close>

definition gomap :: "memory database" where
  "gomap =
     \<lparr>db_Save = Save, db_Drop = Drop, db_HashStats = HashStats, db_PeerList = PeerList,
      db_PeerListBytes = PeerListBytes, db_Hashes = Hashes\<rparr>"

end
