(* ===== verification/MemorySpec.thy ===== *)
theory MemorySpec
  imports Memory
begin

text \<open>
  The correctness of the in-memory database: its well-formedness invariant, the exact
  counters it keeps beside the peers, its refinement of the abstract swarm, and the laws of
  the storage interface.
\<close>

section \<open>Invariants\<close>

definition pm_ok :: "peermap \<Rightarrow> bool" where
  "pm_ok pm \<longleftrightarrow>
     CompleteN pm = of_nat (fmcount Complete (Peers pm)) \<and>
     IncompleteN pm = of_nat (fmcount (\<lambda>p. \<not> Complete p) (Peers pm)) \<and>
     (\<forall>i p. fmlookup (Peers pm) i = Some p \<longrightarrow> length i = 20 \<and> IP p \<noteq> AddrZero)"

definition mem_ok :: "memory \<Rightarrow> bool" where
  "mem_ok db \<longleftrightarrow>
     hashmap db \<noteq> None \<and>
     (\<forall>h pm. fmlookup (entries db) h = Some pm \<longrightarrow> length h = 20 \<and> pm_ok pm)"

definition mem_swarm :: "memory \<Rightarrow> swarm" where
  "mem_swarm db = (\<lambda>h i. case fmlookup (entries db) h of None \<Rightarrow> None | Some pm \<Rightarrow> fmlookup (Peers pm) i)"

lemma pm_ok_empty [simp]: "pm_ok empty_peermap"
  by (simp add: pm_ok_def empty_peermap_def)

lemma entries_made [simp]: "hashmap db = Some m \<Longrightarrow> entries db = m"
  by (simp add: entries_def)

lemma mem_ok_make [simp]: "mem_ok (memory_make db)"
  by (simp add: mem_ok_def memory_make_def entries_def)

lemma mem_swarm_make [simp]: "mem_swarm (memory_make db) = (\<lambda>h. Map.empty)"
  by (simp add: mem_swarm_def memory_make_def entries_def)

lemma pm_ok_save:
  assumes "pm_ok pm" and "length i = 20" and "ip \<noteq> AddrZero"
    and "fmlookup (Peers pm) i = Some p \<or> (fmlookup (Peers pm) i = None \<and> p' = p)"
    and p': "Complete p' = c" "IP p' = ip"
  shows "pm_ok ((save_counts (fmlookup (Peers pm) i \<noteq> None) p c pm)
           \<lparr>Peers := fmupd i p' (Peers pm)\<rparr>)"
proof (cases "fmlookup (Peers pm) i")
  case None
  then show ?thesis
    using assms(1-3) p' by (auto simp: pm_ok_def save_counts_def fmcount_upd)
next
  case (Some q)
  with assms(4) have "q = p" by simp
  with Some have i: "fmlookup (Peers pm) i = Some p" by simp
  note counts = fmcount_drop_Some [OF i, of Complete] fmcount_drop_Some [OF i, of "\<lambda>p. \<not> Complete p"]
  have "pm_ok ((save_counts True p c pm)\<lparr>Peers := fmupd i p' (Peers pm)\<rparr>)"
    using assms(1-3) p' unfolding pm_ok_def save_counts_def
    by (simp add: fmcount_upd counts)
  with i show ?thesis by simp
qed

lemma pm_ok_leave:
  assumes "pm_ok pm" and "fmlookup (Peers pm) i = Some p"
  shows "pm_ok (leave_counts p (pm\<lparr>Peers := fmdrop i (Peers pm)\<rparr>))"
  using assms fmcount_drop_Some [OF assms(2)]
  by (auto simp: pm_ok_def leave_counts_def)

lemma Peers_save_counts [simp]: "Peers (save_counts b p c pm) = Peers pm"
  by (simp add: save_counts_def)

lemma Peers_leave_counts [simp]: "Peers (leave_counts p pm) = Peers pm"
  by (simp add: leave_counts_def)

section \<open>Writing a peer map back\<close>

lemma set_peermap_ok:
  assumes "mem_ok db" and "length h = 20" and "pm_ok pm"
  obtains db' where "set_peermap h pm db = Inr db'" "mem_ok db'"
    "entries db' = fmupd h pm (entries db)"
    "mem_swarm db' = (mem_swarm db)(h := fmlookup (Peers pm))"
proof -
  from assms(1) obtain m where m: "hashmap db = Some m" by (auto simp: mem_ok_def)
  let ?db = "db\<lparr>hashmap := Some (fmupd h pm m)\<rparr>"
  show ?thesis
  proof (rule that [of ?db])
    show "set_peermap h pm db = Inr ?db" by (simp add: set_peermap_def m)
    show "mem_ok ?db" using assms m by (auto simp: mem_ok_def entries_def)
    show "entries ?db = fmupd h pm (entries db)" by (simp add: entries_def m)
    show "mem_swarm ?db = (mem_swarm db)(h := fmlookup (Peers pm))"
      by (auto simp: mem_swarm_def entries_def m fun_eq_iff)
  qed
qed

lemma lookup_or_make:
  assumes "mem_ok db" and "length h = 20"
  obtains pm db' where
    "(case fmlookup (entries db) h of Some pm \<Rightarrow> Inr (pm, db) | None \<Rightarrow> makePeermap h db)
       = Inr (pm, db')"
    "pm_ok pm" "mem_ok db'" "mem_swarm db' = mem_swarm db" "mem_swarm db h = fmlookup (Peers pm)"
proof (cases "fmlookup (entries db) h")
  case None
  obtain db' where db': "set_peermap h empty_peermap db = Inr db'" "mem_ok db'"
      "mem_swarm db' = (mem_swarm db)(h := fmlookup (Peers empty_peermap))"
    using set_peermap_ok [OF assms pm_ok_empty] by metis
  have n: "mem_swarm db h = fmlookup (Peers empty_peermap)"
    using None by (simp add: mem_swarm_def empty_peermap_def fun_eq_iff)
  show ?thesis
    by (rule that [of empty_peermap db']) (use None db' n in \<open>auto simp: makePeermap_def\<close>)
next
  case (Some pm)
  show ?thesis
    by (rule that [of pm db]) (use Some assms in \<open>auto simp: mem_ok_def mem_swarm_def\<close>)
qed

lemma get_peer_ok:
  assumes "pools_ok lim ps"
  obtains x ps' where "get_peer e (Some ps) = Inr (x, Some ps')" "pools_ok lim ps'"
proof -
  from assms have "peerpool.holds (PeersPool ps)" by (simp add: pools_ok_def)
  from peerpool.Get_returns [OF this refl] obtain x pp
    where "Pool_Get (pickp e) (PeersPool ps) = Inr (x, pp)" and "peerpool.holds pp" by metis
  with assms show ?thesis
    by (intro that [of x "ps\<lparr>PeersPool := pp\<rparr>"]) (auto simp: get_peer_def pools_ok_def)
qed

lemma put_peer_ok:
  assumes "pools_ok lim ps"
  obtains ps' where "put_peer x (Some ps) = Inr (Some ps')" "pools_ok lim ps'"
proof -
  from assms have "peerpool.holds (PeersPool ps)" by (simp add: pools_ok_def)
  from peerpool.Put_returns [OF this TrueI, of x x] obtain pp
    where "Pool_Put x (PeersPool ps) = Inr pp" and "peerpool.holds pp" by auto
  with assms show ?thesis
    by (intro that [of "ps\<lparr>PeersPool := pp\<rparr>"]) (auto simp: put_peer_def pools_ok_def)
qed

lemma lookup_or_get:
  assumes "w_pools w = Some ps" and "pools_ok lim ps"
  obtains p ps' where
    "(case m of Some p \<Rightarrow> Inr (p, w_pools w) | None \<Rightarrow> get_peer e (w_pools w)) = Inr (p, Some ps')"
    "pools_ok lim ps'" "m = Some p \<or> m = None"
proof (cases m)
  case None
  from get_peer_ok [OF assms(2), of e] obtain x ps'
    where "get_peer e (Some ps) = Inr (x, Some ps')" and "pools_ok lim ps'" by metis
  with None assms show ?thesis by (intro that [of x ps']) simp_all
next
  case (Some p)
  with assms show ?thesis by (intro that [of p ps]) simp_all
qed

section \<open>Save, Drop and HashStats against the swarm\<close>

lemma world_okE:
  assumes "world_ok mem_ok lim w"
  obtains ps where "mem_ok (w_db w)" "w_pools w = Some ps" "pools_ok lim ps"
  using assms by (auto simp: world_ok_def)

text \<open>
  \<open>Save\<close>, with every intermediate value named: which peer object it reads, and the state it
  leaves. The functional specification and the statistics both follow from it.
\<close>

lemma Save_result:
  assumes w: "world_ok mem_ok lim w" and h: "length h = 20" and i: "length i = 20"
    and ip: "ip \<noteq> AddrZero"
  obtains p w' where "Save e ip port c h i w = Inr w'" "world_ok mem_ok lim w'"
    "mem_swarm (w_db w') =
       swarm_save h i \<lparr>Complete = c, IP = ip, Port = port, LastSeen = now e\<rparr> (mem_swarm (w_db w))"
    "w_stats w' =
       (if fast e then w_stats w
        else save_stats (mem_swarm (w_db w) h i \<noteq> None) p ip c (w_stats w))"
    "mem_swarm (w_db w) h i = Some p \<or> mem_swarm (w_db w) h i = None"
proof -
  from w obtain ps where db: "mem_ok (w_db w)" and ps: "w_pools w = Some ps" "pools_ok lim ps"
    by (rule world_okE)
  from db h obtain pm db1 where pm:
      "(case fmlookup (entries (w_db w)) h of Some pm \<Rightarrow> Inr (pm, w_db w)
        | None \<Rightarrow> makePeermap h (w_db w)) = Inr (pm, db1)"
      "pm_ok pm" "mem_ok db1" "mem_swarm db1 = mem_swarm (w_db w)"
      "mem_swarm (w_db w) h = fmlookup (Peers pm)"
    by (rule lookup_or_make)
  obtain p ps' where p:
      "(case fmlookup (Peers pm) i of Some p \<Rightarrow> Inr (p, w_pools w)
        | None \<Rightarrow> get_peer e (w_pools w)) = Inr (p, Some ps')"
      "pools_ok lim ps'" "fmlookup (Peers pm) i = Some p \<or> fmlookup (Peers pm) i = None"
    using lookup_or_get [OF ps] by metis
  let ?p' = "p\<lparr>Complete := c, IP := ip, Port := port, LastSeen := now e\<rparr>"
  let ?pm1 = "save_counts (fmlookup (Peers pm) i \<noteq> None) p c pm"
  let ?pm2 = "?pm1\<lparr>Peers := fmupd i ?p' (Peers pm)\<rparr>"
  have "pm_ok ?pm2"
  proof (cases "fmlookup (Peers pm) i")
    case None
    then have "save_counts (fmlookup (Peers pm) i \<noteq> None) p c pm
      = save_counts (fmlookup (Peers pm) i \<noteq> None) ?p' c pm" by (simp add: save_counts_def)
    with None pm_ok_save [OF pm(2) i ip, of ?p' ?p' c] show ?thesis by simp
  next
    case (Some q)
    with p(3) pm_ok_save [OF pm(2) i ip, of p ?p' c] show ?thesis by simp
  qed
  from set_peermap_ok [OF pm(3) h this] obtain db2 where db2:
      "set_peermap h ?pm2 db1 = Inr db2" "mem_ok db2"
      "mem_swarm db2 = (mem_swarm db1)(h := fmlookup (Peers ?pm2))" by metis
  have p': "?p' = \<lparr>Complete = c, IP = ip, Port = port, LastSeen = now e\<rparr>" by simp
  let ?st = "if fast e then w_stats w
     else save_stats (fmlookup (Peers pm) i \<noteq> None) p ip c (w_stats w)"
  have "Save e ip port c h i w = Inr (w\<lparr>w_stats := ?st, w_pools := Some ps', w_db := db2\<rparr>)"
    unfolding Save_def pm(1) by (simp add: p(1) db2(1) Let_def del: not_None_eq)
  moreover have "mem_swarm db2 = swarm_save h i ?p' (mem_swarm (w_db w))"
    by (auto simp: db2(3) pm(4,5) swarm_save_def fun_eq_iff)
  ultimately show ?thesis
    by (intro that [of "w\<lparr>w_stats := ?st, w_pools := Some ps', w_db := db2\<rparr>" p])
      (use p(2,3) pm(5) db2(2) p' in \<open>auto simp: world_ok_def\<close>)
qed

lemma Drop_result:
  assumes w: "world_ok mem_ok lim w"
  obtains w' where "Drop e h i w = Inr w'" "world_ok mem_ok lim w'"
    "mem_swarm (w_db w') = swarm_drop h i (mem_swarm (w_db w))"
    "w_stats w' =
       (case mem_swarm (w_db w) h i of
          Some p \<Rightarrow> if fast e then w_stats w else leave_stats p (w_stats w)
        | None \<Rightarrow> w_stats w)"
proof -
  from w obtain ps where db: "mem_ok (w_db w)" and ps: "w_pools w = Some ps" "pools_ok lim ps"
    by (rule world_okE)
  show ?thesis
  proof (cases "mem_swarm (w_db w) h i")
    case None
    then have "Drop e h i w = Inr w"
      by (auto simp: Drop_def mem_swarm_def split: option.splits)
    moreover have "swarm_drop h i (mem_swarm (w_db w)) = mem_swarm (w_db w)"
      using None by (auto simp: swarm_drop_def fun_eq_iff)
    ultimately show ?thesis using None w by (intro that [of w]) simp_all
  next
    case (Some p)
    then obtain pm where pm: "fmlookup (entries (w_db w)) h = Some pm" "fmlookup (Peers pm) i = Some p"
      by (auto simp: mem_swarm_def split: option.splits)
    let ?pm = "leave_counts p (pm\<lparr>Peers := fmdrop i (Peers pm)\<rparr>)"
    have "length h = 20" and "pm_ok ?pm"
      using db pm by (auto simp: mem_ok_def pm_ok_leave)
    from set_peermap_ok [OF db this] obtain db2 where db2:
      "set_peermap h ?pm (w_db w) = Inr db2" "mem_ok db2"
      "mem_swarm db2 = (mem_swarm (w_db w))(h := fmlookup (Peers ?pm))" by metis
    obtain ps' where ps': "put_peer p (Some ps) = Inr (Some ps')" "pools_ok lim ps'"
      using ps(2) by (rule put_peer_ok)
    let ?st = "if fast e then w_stats w else leave_stats p (w_stats w)"
    have "Drop e h i w = Inr (w\<lparr>w_stats := ?st, w_pools := Some ps', w_db := db2\<rparr>)"
      by (simp add: Drop_def pm Let_def db2(1) ps ps'(1))
    moreover have "mem_swarm db2 = swarm_drop h i (mem_swarm (w_db w))"
      using pm by (subst db2(3)) (auto simp: fun_eq_iff swarm_drop_def mem_swarm_def)
    ultimately show ?thesis
      by (intro that [of "w\<lparr>w_stats := ?st, w_pools := Some ps', w_db := db2\<rparr>"])
        (use Some ps'(2) db2(2) in \<open>auto simp: world_ok_def\<close>)
  qed
qed

lemma HashStats_result:
  assumes "mem_ok db"
  shows "HashStats h db =
    (of_nat (swarm_count Complete h (mem_swarm db)),
     of_nat (swarm_count (\<lambda>p. \<not> Complete p) h (mem_swarm db)))"
proof (cases "fmlookup (entries db) h")
  case None
  then show ?thesis by (simp add: HashStats_def swarm_count_def mem_swarm_def)
next
  case (Some pm)
  with assms have "pm_ok pm" by (auto simp: mem_ok_def)
  with Some show ?thesis
    by (simp add: HashStats_def swarm_count_def mem_swarm_def pm_ok_def fmcount_def)
qed

section \<open>Counting over the whole swarm\<close>

definition swarm_total :: "(peer \<Rightarrow> bool) \<Rightarrow> swarm \<Rightarrow> nat" where
  "swarm_total P sw = card {(h, i). \<exists>p. sw h i = Some p \<and> P p}"

definition finite_swarm :: "swarm \<Rightarrow> bool" where
  "finite_swarm sw \<longleftrightarrow> finite {(h, i). sw h i \<noteq> None}"

lemma finite_mem_swarm [simp]: "finite_swarm (mem_swarm db)"
proof -
  have "{(h, i). mem_swarm db h i \<noteq> None} \<subseteq>
      (SIGMA h : fmdom' (entries db). fmdom' (Peers (the (fmlookup (entries db) h))))"
    by (auto simp: mem_swarm_def fmlookup_dom'_iff split: option.splits)
  then show ?thesis unfolding finite_swarm_def by (rule finite_subset) (auto intro!: finite_SigmaI)
qed

lemma finite_total_set:
  assumes "finite_swarm sw"
  shows "finite {(h, i). \<exists>p. sw h i = Some p \<and> P p}"
  by (rule finite_subset [OF _ assms [unfolded finite_swarm_def]]) auto

lemma finite_swarm_drop [simp]: "finite_swarm sw \<Longrightarrow> finite_swarm (swarm_drop h i sw)"
  unfolding finite_swarm_def by (rule finite_subset [rotated]) (auto simp: swarm_drop_def split: if_splits)

lemma finite_swarm_upd [simp]:
  assumes "finite_swarm sw"
  shows "finite_swarm (sw(h := fmlookup m))"
proof -
  have "{(h', i). (sw(h := fmlookup m)) h' i \<noteq> None}
      \<subseteq> {(h', i). sw h' i \<noteq> None} \<union> {h} \<times> fmdom' m"
    by (auto simp: fmlookup_dom'_iff split: if_splits)
  then show ?thesis
    unfolding finite_swarm_def
    by (rule finite_subset) (simp add: assms [unfolded finite_swarm_def] del: not_None_eq)
qed

lemma total_drop:
  assumes "finite_swarm sw"
  shows "swarm_total P sw = swarm_total P (swarm_drop h i sw) +
    (case sw h i of Some p \<Rightarrow> if P p then 1 else 0 | None \<Rightarrow> 0)"
proof -
  let ?A = "{(h, i). \<exists>p. sw h i = Some p \<and> P p}"
  have "{(h', i'). \<exists>p. swarm_drop h i sw h' i' = Some p \<and> P p} = ?A - {(h, i)}"
    by (auto simp: swarm_drop_def split: if_splits)
  then show ?thesis
    unfolding swarm_total_def using finite_total_set [OF assms, of P] card_Suc_Diff1 [of ?A "(h, i)"]
    by (auto split: option.splits)
qed

lemma total_save:
  assumes "finite_swarm sw"
  shows "swarm_total P (swarm_save h i p sw) =
    swarm_total P (swarm_drop h i sw) + (if P p then 1 else 0)"
proof -
  let ?A = "{(h', i'). \<exists>p. swarm_drop h i sw h' i' = Some p \<and> P p}"
  have "{(h', i'). \<exists>q. swarm_save h i p sw h' i' = Some q \<and> P q} =
      (if P p then insert (h, i) ?A else ?A)"
    by (auto simp: swarm_drop_def swarm_save_def split: if_splits)
  moreover have "(h, i) \<notin> ?A" by (simp add: swarm_drop_def)
  moreover have "finite ?A" using assms by (intro finite_total_set) simp
  ultimately show ?thesis unfolding swarm_total_def by simp
qed

section \<open>The global statistics match the swarm\<close>

definition stats_match :: "stats \<Rightarrow> swarm \<Rightarrow> bool" where
  "stats_match st sw \<longleftrightarrow>
     Seeds st = of_nat (swarm_total Complete sw) \<and>
     Leeches st = of_nat (swarm_total (\<lambda>p. \<not> Complete p) sw) \<and>
     (\<forall>a. ip_count (IPStats st) a = of_nat (swarm_total (\<lambda>p. IP p = a) sw))"

lemma leave_stats_match:
  assumes "finite_swarm sw" and "sw h i = Some p" and "stats_match st sw"
  shows "stats_match (leave_stats p st) (swarm_drop h i sw)"
  using assms(3) unfolding stats_match_def
  by (auto simp: leave_stats_def stats_defs total_drop [OF assms(1), of _ h i] assms(2))

lemma save_stats_match:
  assumes "finite_swarm sw" and "sw h i = Some p \<or> sw h i = None"
    and "Complete p' = c" and "IP p' = ip" and "stats_match st sw"
  shows "stats_match (save_stats (sw h i \<noteq> None) p ip c st) (swarm_save h i p' sw)"
proof (cases "sw h i")
  case None
  with assms(3-5) show ?thesis
    unfolding stats_match_def
    by (auto simp: save_stats_def stats_defs total_save [OF assms(1)]
        total_drop [OF assms(1), of _ h i] Let_def)
next
  case (Some q)
  with assms(2) have "sw h i = Some p" by simp
  with assms(3-5) show ?thesis
    unfolding stats_match_def
    by (auto simp: save_stats_def stats_defs total_save [OF assms(1)]
        total_drop [OF assms(1), of _ h i] Let_def)
qed

lemma request_counts_save [simp]: "request_counts (save_stats b p ip c st) = request_counts st"
  by (simp add: save_stats_def request_counts_def stats_defs Let_def)

lemma request_counts_leave [simp]: "request_counts (leave_stats p st) = request_counts st"
  by (simp add: leave_stats_def request_counts_def stats_defs)

section \<open>Trimming\<close>

lemma mem_swarm_at: "fmlookup (entries db) h = Some pm \<Longrightarrow> mem_swarm db h = fmlookup (Peers pm)"
  by (simp add: mem_swarm_def fun_eq_iff)

lemma fun_upd_drop: "(sw(h := fmlookup m))(h := fmlookup (fmdrop i m)) = swarm_drop h i (sw(h := fmlookup m))"
  by (auto simp: swarm_drop_def fun_eq_iff)

lemma delete_peer_result:
  assumes pm: "pm_ok pm" and ps: "pools_ok lim ps" and i: "fmlookup (Peers pm) i = Some p"
  obtains ps' where
    "delete_peer e p i (pm, st, Some ps) =
       Inr (leave_counts p (pm\<lparr>Peers := fmdrop i (Peers pm)\<rparr>),
            (if fast e then st else leave_stats p st), Some ps')"
    "pools_ok lim ps'" "pm_ok (leave_counts p (pm\<lparr>Peers := fmdrop i (Peers pm)\<rparr>))"
proof -
  obtain ps' where "put_peer p (Some ps) = Inr (Some ps')" "pools_ok lim ps'"
    using ps by (rule put_peer_ok)
  with pm_ok_leave [OF pm i] show ?thesis
    by (intro that [of ps']) (simp_all add: delete_peer_def Let_def)
qed

text \<open>
  What trimming one peer map establishes, relative to any swarm whose row \<open>h\<close> is this peer
  map: the expired peers of the visited ids are gone and every other peer is unchanged, the
  statistics still match, and the count grew by what disappeared.
\<close>

definition trimmed ::
  "env \<Rightarrow> peer_id set \<Rightarrow> (peer_id \<Rightarrow> peer option) \<Rightarrow> peer_id \<Rightarrow> peer option" where
  "trimmed e ids m =
     (\<lambda>i. case m i of None \<Rightarrow> None | Some p \<Rightarrow> if i \<in> ids \<and> expired e p then None else Some p)"

lemma trimmed_empty [simp]: "trimmed e {} m = m"
  by (auto simp: trimmed_def fun_eq_iff split: option.splits)

lemma trimmed_keep: "\<not> (\<exists>p. m i = Some p \<and> expired e p) \<Longrightarrow> trimmed e (insert i ids) m = trimmed e ids m"
  by (auto simp: trimmed_def fun_eq_iff split: option.splits)

lemma trimmed_drop:
  "fmlookup m i = Some p \<Longrightarrow> expired e p \<Longrightarrow>
   trimmed e (insert i ids) (fmlookup m) = trimmed e ids (fmlookup (fmdrop i m))"
  by (auto simp: trimmed_def fun_eq_iff split: option.splits)

definition trim_post ::
  "env \<Rightarrow> int64 \<Rightarrow> hash \<Rightarrow> swarm \<Rightarrow> peermap \<Rightarrow> stats \<Rightarrow> nat \<Rightarrow> peer_id set
     \<Rightarrow> nat \<times> peermap \<times> stats \<times> pools option \<Rightarrow> bool" where
  "trim_post e lim h sw pm st n ids = (\<lambda>(n', pm', st', ps').
     pm_ok pm' \<and> (\<exists>q. ps' = Some q \<and> pools_ok lim q) \<and>
     fmlookup (Peers pm') = trimmed e ids (fmlookup (Peers pm)) \<and>
     n' + swarm_total (expired e) (sw(h := fmlookup (Peers pm'))) =
       n + swarm_total (expired e) (sw(h := fmlookup (Peers pm))) \<and>
     request_counts st' = request_counts st \<and>
     (\<not> fast e \<and> stats_match st (sw(h := fmlookup (Peers pm))) \<longrightarrow>
        stats_match st' (sw(h := fmlookup (Peers pm')))) \<and>
     (fast e \<longrightarrow> st' = st))"

lemma trim_peers_result:
  assumes "pm_ok pm" and "pools_ok lim ps" and fin: "finite_swarm sw"
  shows "\<exists>r. trim_peers e ids n (pm, st, Some ps) = Inr r \<and> trim_post e lim h sw pm st n (set ids) r"
  using assms(1,2)
proof (induction ids arbitrary: pm ps st n)
  case Nil
  then show ?case by (auto simp: trim_post_def)
next
  case (Cons i ids)
  let ?sw = "sw(h := fmlookup (Peers pm))"
  show ?case
  proof (cases "\<exists>p. fmlookup (Peers pm) i = Some p \<and> expired e p")
    case False
    then have "trim_peers e (i # ids) n (pm, st, Some ps) = trim_peers e ids n (pm, st, Some ps)"
      by (auto split: option.splits)
    moreover have "trim_post e lim h sw pm st n (set ids) r \<Longrightarrow>
        trim_post e lim h sw pm st n (set (i # ids)) r" for r
      using trimmed_keep [where m = "fmlookup (Peers pm)" and i = i, OF False, of "set ids"] by (simp add: trim_post_def)
    ultimately show ?thesis using Cons.IH [OF Cons.prems, of n st] by auto
  next
    case True
    then obtain p where p: "fmlookup (Peers pm) i = Some p" "expired e p" by blast
    let ?pm = "leave_counts p (pm\<lparr>Peers := fmdrop i (Peers pm)\<rparr>)"
    let ?st = "if fast e then st else leave_stats p st"
    obtain ps' where d: "delete_peer e p i (pm, st, Some ps) = Inr (?pm, ?st, Some ps')"
        "pools_ok lim ps'" "pm_ok ?pm"
      using Cons.prems p(1) by (metis delete_peer_result)
    from Cons.IH [OF d(3,2), of "Suc n" ?st] obtain r where
      r: "trim_peers e ids (Suc n) (?pm, ?st, Some ps') = Inr r"
         "trim_post e lim h sw ?pm ?st (Suc n) (set ids) r" by blast
    have row: "sw(h := fmlookup (Peers ?pm)) = swarm_drop h i ?sw"
      by (auto simp: swarm_drop_def fun_eq_iff)
    have at: "?sw h i = Some p" using p by simp
    have fin': "finite_swarm ?sw" using fin by simp
    have "swarm_total (expired e) ?sw = Suc (swarm_total (expired e) (swarm_drop h i ?sw))"
      using p by (simp add: total_drop [OF fin', of _ h i])
    moreover have "stats_match st ?sw \<Longrightarrow> \<not> fast e \<Longrightarrow> stats_match ?st (swarm_drop h i ?sw)"
      using leave_stats_match [of ?sw h i p st, OF fin' at] by simp
    ultimately have "trim_post e lim h sw pm st n (set (i # ids)) r"
      using r(2) trimmed_drop [OF p, of "set ids"] unfolding trim_post_def row
      by (auto simp del: fun_upd_apply)
    with r(1) d(1) p show ?thesis by auto
  qed
qed

lemma trimmed_all:
  "set ids = fmdom' m \<Longrightarrow> trimmed e (set ids) (fmlookup m) = trimmed e UNIV (fmlookup m)"
  by (auto simp: trimmed_def fun_eq_iff fmlookup_dom'_iff split: option.splits)

lemma world_ok_db [simp]: "world_ok mem_ok lim w \<Longrightarrow> mem_ok (w_db w)"
  by (simp add: world_ok_def)

text \<open>
  What trimming establishes between two worlds: the visited rows of the swarm lost exactly
  their expired peers, an infohash without peers is gone, and both results count what
  disappeared.
\<close>

definition trims ::
  "env \<Rightarrow> int64 \<Rightarrow> hash set \<Rightarrow> nat \<times> nat \<Rightarrow> memory world \<Rightarrow> nat \<times> nat \<Rightarrow> memory world \<Rightarrow> bool" where
  "trims e lim hs = (\<lambda>(p, n) w (p', n') w'.
     world_ok mem_ok lim w' \<and>
     mem_swarm (w_db w') =
       (\<lambda>h. if h \<in> hs then trimmed e UNIV (mem_swarm (w_db w) h) else mem_swarm (w_db w) h) \<and>
     p' + swarm_total (expired e) (mem_swarm (w_db w')) =
       p + swarm_total (expired e) (mem_swarm (w_db w)) \<and>
     n' + fmsize (entries (w_db w')) = n + fmsize (entries (w_db w)) \<and>
     (\<forall>h pm. h \<in> hs \<and> fmlookup (entries (w_db w')) h = Some pm \<longrightarrow> Peers pm \<noteq> fmempty) \<and>
     (\<forall>h. h \<notin> hs \<longrightarrow> fmlookup (entries (w_db w')) h = fmlookup (entries (w_db w)) h) \<and>
     request_counts (w_stats w') = request_counts (w_stats w) \<and>
     (\<not> fast e \<and> stats_match (w_stats w) (mem_swarm (w_db w)) \<longrightarrow>
        stats_match (w_stats w') (mem_swarm (w_db w'))) \<and>
     (fast e \<longrightarrow> w_stats w' = w_stats w))"

lemma trims_refl: "world_ok mem_ok lim w \<Longrightarrow> trims e lim {} a w a w"
  by (cases a) (simp add: trims_def)

lemma trimmed_idem [simp]: "trimmed e UNIV (trimmed e UNIV m) = trimmed e UNIV m"
  by (auto simp: trimmed_def fun_eq_iff split: option.splits)

lemma trims_trans:
  assumes "trims e lim {h} a w b w1" and "trims e lim hs b w1 c w2"
  shows "trims e lim (insert h hs) a w c w2"
proof -
  obtain p n p1 n1 p2 n2 where abc: "a = (p, n)" "b = (p1, n1)" "c = (p2, n2)"
    by (metis surj_pair)
  note s1 = assms(1) [unfolded abc trims_def prod.case] and s2 = assms(2) [unfolded abc trims_def prod.case]
  have sw1: "mem_swarm (w_db w1) =
      (\<lambda>h'. if h' \<in> {h} then trimmed e UNIV (mem_swarm (w_db w) h') else mem_swarm (w_db w) h')"
    using s1 by blast
  have sw2: "mem_swarm (w_db w2) =
      (\<lambda>h'. if h' \<in> hs then trimmed e UNIV (mem_swarm (w_db w1) h') else mem_swarm (w_db w1) h')"
    using s2 by blast
  have m1: "mem_swarm (w_db w2) = (\<lambda>h'. if h' \<in> insert h hs
      then trimmed e UNIV (mem_swarm (w_db w) h') else mem_swarm (w_db w) h')"
    unfolding sw2 sw1 by (rule ext) simp
  have m2: "fmlookup (entries (w_db w2)) h' = Some pm \<Longrightarrow> h' \<in> insert h hs \<Longrightarrow> Peers pm \<noteq> fmempty"
    for h' pm using s1 s2 by (cases "h' \<in> hs") (metis, metis insert_iff)
  have m3: "h' \<notin> insert h hs \<Longrightarrow>
      fmlookup (entries (w_db w2)) h' = fmlookup (entries (w_db w)) h'" for h'
    using s1 s2 by simp
  show ?thesis
    unfolding abc trims_def prod.case
    by (intro conjI; insert s1 s2 m1 m2 m3; (linarith | argo | blast))
qed

lemma drop_empty_row:
  assumes "mem_ok db" and "fmlookup (entries db) h = Some pm" and "Peers pm = fmempty"
  defines "db' \<equiv> db\<lparr>hashmap := map_option (fmdrop h) (hashmap db)\<rparr>"
  shows "mem_ok db'" and "mem_swarm db' = mem_swarm db" and "entries db' = fmdrop h (entries db)"
proof -
  from assms(1) obtain m where m: "hashmap db = Some m" by (auto simp: mem_ok_def)
  show e: "entries db' = fmdrop h (entries db)" by (simp add: db'_def m entries_def)
  show "mem_ok db'"
    using assms(1) e unfolding mem_ok_def by (auto simp: db'_def m)
  show "mem_swarm db' = mem_swarm db"
    using assms(2,3) by (auto simp: mem_swarm_def e fun_eq_iff)
qed

lemma fmsize_upd_Some: "fmlookup m k = Some v \<Longrightarrow> fmsize (fmupd k u m) = fmsize m"
  unfolding fmsize_def by (simp add: fmlookup_dom'_iff insert_absorb)

lemma fmsize_drop_Some: "fmlookup m k = Some v \<Longrightarrow> Suc (fmsize (fmdrop k m)) = fmsize m"
  unfolding fmsize_def fmdom'_drop
  by (rule card.remove [symmetric, OF finite_fmdom']) (auto simp: fmlookup_dom'_iff)

lemma trim_one_hash:
  assumes w: "world_ok mem_ok lim w" and e: "env_ok e"
    and pm: "fmlookup (entries (w_db w)) h = Some pm"
  shows "\<exists>p' n' w'. trim_hashes e (h # hs) (p, n) w = trim_hashes e hs (p', n') w' \<and>
           trims e lim {h} (p, n) w (p', n') w'"
proof -
  let ?sw = "mem_swarm (w_db w)" and ?ids = "peer_order e (Peers pm)"
  from w obtain ps where db: "mem_ok (w_db w)" and ps: "w_pools w = Some ps" "pools_ok lim ps"
    by (rule world_okE)
  from db pm have h: "length h = 20" and pmok: "pm_ok pm" by (auto simp: mem_ok_def)
  have "set ?ids = fmdom' (Peers pm)" using e by (simp add: env_ok_def enumerates_def)
  note ids = trimmed_all [OF this]
  have row: "?sw(h := fmlookup (Peers pm)) = ?sw" using mem_swarm_at [OF pm] by (simp add: fun_upd_idem_iff)
  obtain p' pm' st' ps' where
    r: "trim_peers e ?ids p (pm, w_stats w, Some ps) = Inr (p', pm', st', ps')"
      "trim_post e lim h ?sw pm (w_stats w) p (set ?ids) (p', pm', st', ps')"
    using trim_peers_result [OF pmok ps(2) finite_mem_swarm, of e ?ids p "w_stats w" h "w_db w"] by auto
  note post = r(2) [unfolded trim_post_def prod.case row ids]
  from set_peermap_ok [OF db h, of pm'] post obtain db' where db':
    "set_peermap h pm' (w_db w) = Inr db'" "mem_ok db'" "entries db' = fmupd h pm' (entries (w_db w))"
    "mem_swarm db' = ?sw(h := fmlookup (Peers pm'))" by blast
  let ?gone = "Peers pm' = fmempty"
  let ?db = "if ?gone then db'\<lparr>hashmap := map_option (fmdrop h) (hashmap db')\<rparr> else db'"
  let ?w = "w\<lparr>w_stats := st', w_pools := ps', w_db := ?db\<rparr>"
  have at: "fmlookup (entries db') h = Some pm'" by (simp add: db'(3))
  have D: "mem_ok ?db" "mem_swarm ?db = mem_swarm db'"
      "entries ?db = (if ?gone then fmdrop h (entries db') else entries db')"
    using drop_empty_row [OF db'(2) at] db'(2) by auto
  have "fmsize (entries db') = fmsize (entries (w_db w))"
    unfolding db'(3) using pm by (rule fmsize_upd_Some)
  with D(3) fmsize_drop_Some [OF at]
  have "(if ?gone then Suc n else n) + fmsize (entries ?db) = n + fmsize (entries (w_db w))" by auto
  moreover have "fmlookup (Peers pm') = trimmed e UNIV (?sw h)"
    using post mem_swarm_at [OF pm] by simp
  then have "mem_swarm db' = (\<lambda>h'. if h' \<in> {h} then trimmed e UNIV (?sw h') else ?sw h')"
    unfolding db'(4) by auto
  ultimately have "trims e lim {h} (p, n) w (p', if ?gone then Suc n else n) ?w"
    unfolding trims_def prod.case using post [folded db'(4)] D db'(3)
    by (auto simp: world_ok_def simp del: fun_upd_apply)
  moreover have "trim_hashes e (h # hs) (p, n) w = trim_hashes e hs (p', if ?gone then Suc n else n) ?w"
    by (simp add: pm ps r(1) db'(1) Let_def)
  ultimately show ?thesis by blast
qed

lemma trim_hashes_result:
  assumes "world_ok mem_ok lim w" and "env_ok e"
  shows "\<exists>r w'. trim_hashes e hs a w = Inr (r, w') \<and> trims e lim (set hs) a w r w'"
  using assms(1)
proof (induction hs arbitrary: a w)
  case Nil
  then show ?case using trims_refl by (cases a) auto
next
  case (Cons h hs)
  obtain p n where a: "a = (p, n)" by (cases a)
  show ?case
  proof (cases "fmlookup (entries (w_db w)) h")
    case None
    then have "mem_swarm (w_db w) h = Map.empty" by (simp add: mem_swarm_def fun_eq_iff)
    with None Cons.prems have "trims e lim {h} a w a w"
      by (auto simp: trims_def a trimmed_def fun_eq_iff)
    moreover from None have "trim_hashes e (h # hs) a w = trim_hashes e hs a w" by (simp add: a)
    ultimately show ?thesis using Cons.IH [OF Cons.prems, of a] trims_trans by fastforce
  next
    case (Some pm)
    from trim_one_hash [OF Cons.prems assms(2) Some, of hs p n] obtain b w1 where
      1: "trim_hashes e (h # hs) a w = trim_hashes e hs b w1" "trims e lim {h} a w b w1"
      unfolding a by blast
    then have "world_ok mem_ok lim w1" unfolding a by (cases b) (simp add: trims_def)
    from Cons.IH [OF this, of b] 1 show ?thesis using trims_trans by fastforce
  qed
qed

section \<open>Compact peer lists\<close>

lemma length_compact: "IP p \<noteq> AddrZero \<Longrightarrow> length (compact p) = (if Is6 (IP p) then 18 else 6)"
  by (cases "IP p") (auto simp: compact_def)

lemma length_compact_part:
  assumes "\<forall>p \<in> set ps. IP p \<noteq> AddrZero"
  shows "length (concat (map compact (filter (\<lambda>p. \<not> Is6 (IP p)) ps))) = 6 * length (filter (\<lambda>p. \<not> Is6 (IP p)) ps)"
    and "length (concat (map compact (filter (\<lambda>p. Is6 (IP p)) ps))) = 18 * length (filter (\<lambda>p. Is6 (IP p)) ps)"
  using assms by (induction ps) (simp_all add: length_compact)

lemma reaches_limit:
  assumes "x = c * n" "x \<le> c * l" "c * l < x + (c :: nat)"
  shows "x = c * l"
proof -
  have "c * l < c * Suc n" using assms(1,3) by simp
  then have "l < Suc n" "0 < c" unfolding nat_mult_less_cancel_disj by simp_all
  with assms(1,2) show ?thesis by simp
qed

lemma card_dom_Peers: "card (dom (fmlookup (Peers pm))) = fmsize (Peers pm)"
  by (simp add: fmsize_def)

lemma copy_compact:
  "pos + length (compact p) \<le> length buf \<Longrightarrow> n = length (AsSlice (IP p)) \<Longrightarrow>
   copy_at (pos + n) (put_be 2 (Port p)) (copy_at pos (AsSlice (IP p)) buf) = copy_at pos (compact p) buf"
  by (simp add: copy_at_def compact_def min_def add.assoc)

lemma take_copy_compact:
  "pos + length (compact p) \<le> length buf \<Longrightarrow>
   take (pos + length (compact p)) (copy_at pos (compact p) buf) = take pos buf @ compact p"
  by (rule take_copy_at)

text \<open>
  The loop of \<open>PeerListBytes\<close> writes the compact forms of a prefix of the peers, in order,
  and stops early only when a buffer is full.
\<close>

lemma plb_loop_result:
  assumes "\<forall>p \<in> set ps. IP p \<noteq> AddrZero" and "pos4 + 6 \<le> length b4" and "pos6 + 18 \<le> length b6"
  shows "\<exists>k c4 c6 pos4' pos6'. plb_loop ps pos4 pos6 b4 b6 = Inr (pos4', pos6', c4, c6) \<and>
      k \<le> length ps \<and> length c4 = length b4 \<and> length c6 = length b6 \<and>
      pos4' \<le> length b4 \<and> pos6' \<le> length b6 \<and>
      take pos4' c4 = take pos4 b4 @ concat (map compact (filter (\<lambda>p. \<not> Is6 (IP p)) (take k ps))) \<and>
      take pos6' c6 = take pos6 b6 @ concat (map compact (filter (\<lambda>p. Is6 (IP p)) (take k ps))) \<and>
      (k = length ps \<or> length b4 < pos4' + 6 \<or> length b6 < pos6' + 18) \<and> (ps \<noteq> [] \<longrightarrow> 0 < k)"
    (is "\<exists>k c4 c6 pos4' pos6'. ?P ps pos4 pos6 b4 b6 k c4 c6 pos4' pos6'")
  using assms
proof (induction ps arbitrary: pos4 pos6 b4 b6)
  case Nil
  then show ?case by auto
next
  case (Cons p ps)
  then have p: "IP p \<noteq> AddrZero" and rest: "\<forall>p \<in> set ps. IP p \<noteq> AddrZero" by auto
  show ?case
  proof (cases "Is6 (IP p)")
    case True
    let ?c = "copy_at pos6 (compact p) b6"
    have len: "length (compact p) = 18" using p True by (simp add: length_compact)
    have eq: "copy_at (pos6 + 16) (put_be 2 (Port p)) (copy_at pos6 (AsSlice (IP p)) b6) = ?c"
      using Cons.prems(3) len by (intro copy_compact) (simp_all add: compact_def)
    have tk: "take (pos6 + 18) ?c = take pos6 b6 @ compact p" and ln: "length ?c = length b6"
      using take_copy_compact [of pos6 p b6] Cons.prems(3) by (simp_all add: len)
    show ?thesis
    proof (cases "pos6 + 18 + 18 > length b6")
      case full: True
      then have "?P (p # ps) pos4 pos6 b4 b6 1 b4 ?c pos4 (pos6 + 18)"
        using True Cons.prems tk ln eq by (simp add: Let_def)
      then show ?thesis by blast
    next
      case False
      then have room: "pos6 + 18 + 18 \<le> length ?c" by (simp add: ln)
      from Cons.IH [OF rest Cons.prems(2) room] obtain k c4 c6 pos4' pos6'
        where "?P ps pos4 (pos6 + 18) b4 ?c k c4 c6 pos4' pos6'" by blast
      then have "?P (p # ps) pos4 pos6 b4 b6 (Suc k) c4 c6 pos4' pos6'"
        using True Cons.prems False tk ln eq by (simp add: Let_def)
      then show ?thesis by blast
    qed
  next
    case False
    let ?c = "copy_at pos4 (compact p) b4"
    have len: "length (compact p) = 6" using p False by (simp add: length_compact)
    have eq: "copy_at (pos4 + 4) (put_be 2 (Port p)) (copy_at pos4 (AsSlice (IP p)) b4) = ?c"
      using Cons.prems(2) len by (intro copy_compact) (simp_all add: compact_def)
    have tk: "take (pos4 + 6) ?c = take pos4 b4 @ compact p" and ln: "length ?c = length b4"
      using take_copy_compact [of pos4 p b4] Cons.prems(2) by (simp_all add: len)
    show ?thesis
    proof (cases "pos4 + 6 + 6 > length b4")
      case full: True
      then have "?P (p # ps) pos4 pos6 b4 b6 1 ?c b6 (pos4 + 6) pos6"
        using False Cons.prems tk ln eq by (simp add: Let_def)
      then show ?thesis by blast
    next
      case nf: False
      then have room: "pos4 + 6 + 6 \<le> length ?c" by (simp add: ln)
      from Cons.IH [OF rest room Cons.prems(3)] obtain k c4 c6 pos4' pos6'
        where "?P ps (pos4 + 6) pos6 ?c b6 k c4 c6 pos4' pos6'" by blast
      then have "?P (p # ps) pos4 pos6 b4 b6 (Suc k) c4 c6 pos4' pos6'"
        using False Cons.prems nf tk ln eq by (simp add: Let_def)
      then show ?thesis by blast
    qed
  qed
qed

lemma map_filter_lookup:
  assumes "set ids \<subseteq> fmdom' m"
  shows "List.map_filter (fmlookup m) ids = map (\<lambda>i. the (fmlookup m i)) ids"
    and "map (fmlookup m) ids = map Some (List.map_filter (fmlookup m) ids)"
  using assms by (induction ids) (auto simp: List.map_filter_def fmlookup_dom'_iff)

text \<open>The peers of an infohash in the order \<open>range\<close> visits them.\<close>

definition ordered_peers :: "env \<Rightarrow> peermap \<Rightarrow> peer list" where
  "ordered_peers e pm = List.map_filter (fmlookup (Peers pm)) (peer_order e (Peers pm))"

lemma ordered_peers_ids:
  assumes "env_ok e"
  obtains ids where "distinct ids" "map (fmlookup (Peers pm)) ids = map Some (take k (ordered_peers e pm))"
proof -
  let ?ids = "peer_order e (Peers pm)"
  from assms have ids: "distinct ?ids" "set ?ids \<subseteq> fmdom' (Peers pm)"
    by (auto simp: env_ok_def enumerates_def)
  from map_filter_lookup(2) [OF ids(2)] have
    "map (fmlookup (Peers pm)) (take k ?ids) = map Some (take k (ordered_peers e pm))"
    by (metis ordered_peers_def take_map)
  with ids(1) show ?thesis by (intro that [of "take k ?ids"]) simp_all
qed

lemma set_ordered_peers: "set (ordered_peers e pm) \<subseteq> {p. \<exists>i. fmlookup (Peers pm) i = Some p}"
  by (auto simp: ordered_peers_def List.map_filter_def)

lemma length_ordered_peers: "env_ok e \<Longrightarrow> length (ordered_peers e pm) = fmsize (Peers pm)"
  unfolding ordered_peers_def env_ok_def
  by (subst map_filter_lookup(1)) (auto simp: enumerates_length enumerates_def)

text \<open>
  \<open>PeerListBytes\<close> never panics with pools of positive capacity. When peers are wanted and
  there are some, the buffers hold the compact forms of the first \<open>k\<close> peers visited, where
  \<open>k\<close> is everything unless a buffer filled up.
\<close>

definition plb_post :: "env \<Rightarrow> int64 \<Rightarrow> peermap \<Rightarrow> byte_slice \<Rightarrow> byte_slice \<Rightarrow> nat \<Rightarrow> bool" where
  "plb_post e lim pm s4 s6 k \<longleftrightarrow>
     0 < k \<and> k \<le> fmsize (Peers pm) \<and>
     slice_bytes s4 = concat (map compact (filter (\<lambda>p. \<not> Is6 (IP p)) (take k (ordered_peers e pm)))) \<and>
     slice_bytes s6 = concat (map compact (filter (\<lambda>p. Is6 (IP p)) (take k (ordered_peers e pm)))) \<and>
     (k = fmsize (Peers pm) \<or> 6 * unat lim < slen s4 + 6 \<or> 18 * unat lim < slen s6 + 18)"

lemma PeerListBytes_result:
  assumes w: "world_ok mem_ok lim w" and lim: "limit_ok lim" and e: "env_ok e"
  shows "\<exists>s4 s6 w'. PeerListBytes e h n w = Inr ((s4, s6), w') \<and> world_ok mem_ok lim w' \<and>
      w_db w' = w_db w \<and> w_stats w' = w_stats w \<and> cap_is (6 * lim) s4 \<and> cap_is (18 * lim) s6 \<and>
      (\<forall>pm. n \<noteq> 0 \<and> fmlookup (entries (w_db w)) h = Some pm \<and> Peers pm \<noteq> fmempty \<longrightarrow>
         (\<exists>k. plb_post e lim pm s4 s6 k))"
proof -
  from w obtain ps where db: "mem_ok (w_db w)" and ps: "w_pools w = Some ps" "pools_ok lim ps"
    by (rule world_okE)
  note caps = limit_ok_caps [OF lim]
  have pos: "0 \<le> sint (6 * lim)" "0 \<le> sint (18 * lim)" by (simp_all only: caps of_nat_0_le_iff)
  obtain x4 x6 where new: "make_slice (6 * lim) = Inr x4" "make_slice (18 * lim) = Inr x6"
    using make_slice_ok [OF pos(1)] make_slice_ok [OF pos(2)] by blast
  from ps(2) have pools: "peerlist.holds (6 * lim) (Peerlists4 ps)" "peerlist.holds (18 * lim) (Peerlists6 ps)"
    by (simp_all add: pools_ok_def)
  obtain s4 p4 where g4: "Pool_Get (pick4 e) (Peerlists4 ps) = Inr (s4, p4)"
      "cap_is (6 * lim) s4" "peerlist.holds (6 * lim) p4"
    using peerlist.Get_returns [OF pools(1) new(1)] by metis
  obtain s6 p6 where g6: "Pool_Get (pick6 e) (Peerlists6 ps) = Inr (s6, p6)"
      "cap_is (18 * lim) s6" "peerlist.holds (18 * lim) p6"
    using peerlist.Get_returns [OF pools(2) new(2)] by metis
  let ?w = "w\<lparr>w_pools := Some (ps\<lparr>Peerlists4 := p4, Peerlists6 := p6\<rparr>)\<rparr>"
  have w': "world_ok mem_ok lim ?w"
    using db ps(2) g4(3) g6(3) by (simp add: world_ok_def pools_ok_def)
  show ?thesis
  proof (cases "\<exists>pm. fmlookup (entries (w_db w)) h = Some pm \<and> cap_numwant n pm \<noteq> 0")
    case False
    then have "PeerListBytes e h n w = Inr ((s4, s6), ?w)"
      by (auto simp: PeerListBytes_def ps g4(1) g6(1) Let_def split: option.splits)
    moreover have "\<not> (n \<noteq> 0 \<and> fmlookup (entries (w_db w)) h = Some pm \<and> Peers pm \<noteq> fmempty)" for pm
      using False by (auto simp: cap_numwant_def unat_eq_zero split: if_splits)
    ultimately show ?thesis using w' g4(2) g6(2) by auto
  next
    case True
    then obtain pm where pm: "fmlookup (entries (w_db w)) h = Some pm" "cap_numwant n pm \<noteq> 0" by blast
    with db have "pm_ok pm" by (auto simp: mem_ok_def)
    then have ips: "\<forall>p \<in> set (ordered_peers e pm). IP p \<noteq> AddrZero"
      using set_ordered_peers [of e pm] by (auto simp: pm_ok_def)
    have len: "length (arr s4) = 6 * unat lim" "length (arr s6) = 18 * unat lim"
      using g4(2) g6(2) unfolding cap_is_def caps nat_int by blast+
    have room: "0 + 6 \<le> length (arr s4)" "0 + 18 \<le> length (arr s6)"
      using lim unfolding len limit_ok_def by simp_all
    from plb_loop_result [OF ips room] obtain k c4 c6 pos4 pos6 where
      l: "plb_loop (ordered_peers e pm) 0 0 (arr s4) (arr s6) = Inr (pos4, pos6, c4, c6)"
        "k \<le> length (ordered_peers e pm)" "length c4 = length (arr s4)" "length c6 = length (arr s6)"
        "pos4 \<le> length (arr s4)" "pos6 \<le> length (arr s6)"
        "take pos4 c4 = concat (map compact (filter (\<lambda>p. \<not> Is6 (IP p)) (take k (ordered_peers e pm))))"
        "take pos6 c6 = concat (map compact (filter (\<lambda>p. Is6 (IP p)) (take k (ordered_peers e pm))))"
        "k = length (ordered_peers e pm) \<or> length (arr s4) < pos4 + 6 \<or> length (arr s6) < pos6 + 18"
        "ordered_peers e pm \<noteq> [] \<longrightarrow> 0 < k"
      unfolding take_0 append_Nil by blast
    let ?s4 = "\<lparr>arr = c4, slen = pos4\<rparr>" and ?s6 = "\<lparr>arr = c6, slen = pos6\<rparr>"
    have "PeerListBytes e h n w = Inr ((?s4, ?s6), ?w)"
      using l(1) pm by (simp add: PeerListBytes_def ps g4(1) g6(1) Let_def ordered_peers_def)
    moreover have "cap_is (6 * lim) ?s4" "cap_is (18 * lim) ?s6"
      using g4(2) g6(2) l(3-6) by (simp_all add: cap_is_def)
    moreover have "plb_post e lim pm ?s4 ?s6 k" if "Peers pm \<noteq> fmempty"
      using l(2,7-10) that length_ordered_peers [OF e, of pm] len
      by (auto simp: plb_post_def slice_bytes_def simp flip: length_greater_0_conv)
    ultimately show ?thesis using w' pm(1) by fastforce
  qed
qed

section \<open>Peer lists\<close>

lemma sint_port [simp]: "sint (ucast (p :: uint16) :: int64) = int (unat p)"
proof -
  have u: "unat (ucast p :: int64) = unat p"
    unfolding unat_eq_nat_uint by (simp add: uint_up_ucast is_up)
  have "unat p < 2 ^ LENGTH(16)" by (rule unsigned_less)
  with u show ?thesis by (subst sint_small) simp_all
qed

lemma peer_dict_benc:
  "GetBytes (peer_dict rm i p NewDictionary) = (benc (peer_bval rm i p), benc (peer_bval rm i p))"
  by (simp add: peer_dict_def dict_writes peer_bval_def)

lemma peer_list_loop_result:
  assumes "set ids \<subseteq> fmdom' m" and "0 < n" and "n \<le> length ids"
  shows "peer_list_loop rm m ids n NewDictionary acc =
    (acc @ map (\<lambda>i. benc (peer_bval rm i (the (fmlookup m i)))) (take n ids), NewDictionary)"
  using assms
proof (induction ids arbitrary: n acc)
  case Nil
  then show ?case by simp
next
  case (Cons i ids)
  from Cons.prems(1) obtain p where p: "fmlookup m i = Some p" by (auto simp: fmlookup_dom'_iff)
  from Cons.prems(2) obtain k where k: "n = Suc k" by (cases n) auto
  show ?case
  proof (cases "n = 1")
    case True
    with p show ?thesis by (simp add: peer_dict_benc Dict_Reset_eq)
  next
    case False
    with k Cons.prems have "0 < k" "k \<le> length ids" "set ids \<subseteq> fmdom' m" by auto
    with Cons.IH [of k "acc @ [benc (peer_bval rm i p)]"] p k False
    show ?thesis by (simp add: peer_dict_benc Dict_Reset_eq)
  qed
qed

lemma PeerList_result:
  assumes w: "world_ok mem_ok lim w" and e: "env_ok e" and pm: "fmlookup (entries (w_db w)) h = Some pm"
  shows "\<exists>w'. PeerList e h n rm w =
      Inr (map (\<lambda>i. benc (peer_bval rm i (the (fmlookup (Peers pm) i))))
             (take (min (unat n) (fmsize (Peers pm))) (peer_order e (Peers pm))), w') \<and>
    world_ok mem_ok lim w' \<and> w_db w' = w_db w \<and> w_stats w' = w_stats w"
proof -
  from w obtain ps where db: "mem_ok (w_db w)" and ps: "w_pools w = Some ps" "pools_ok lim ps"
    by (rule world_okE)
  let ?n = "min (unat n) (fmsize (Peers pm))"
  have n: "cap_numwant n pm = ?n" by (simp add: cap_numwant_def min_def)
  show ?thesis
  proof (cases "?n = 0")
    case True
    have "PeerList e h n rm w = Inr ([], w)"
      using True unfolding PeerList_def pm by (simp only: option.case n Let_def simp_thms if_True)
    with True w show ?thesis by auto
  next
    case False
    from ps(2) have "dictpool.holds (Dictionaries ps)" by (simp add: pools_ok_def)
    then obtain d dp where g: "Pool_Get (pickd e) (Dictionaries ps) = Inr (d, dp)" "d = NewDictionary"
        "dictpool.holds dp" using dictpool.Get_returns [of _ NewDictionary] by metis
    from dictpool.Put_returns [OF g(3) TrueI, of NewDictionary "Dict_Reset NewDictionary"]
    obtain dp' where p: "Pool_Put NewDictionary dp = Inr dp'" "dictpool.holds dp'" by auto
    have ids: "set (peer_order e (Peers pm)) \<subseteq> fmdom' (Peers pm)" "?n \<le> length (peer_order e (Peers pm))"
      using e by (auto simp: env_ok_def enumerates_def enumerates_length)
    from False have "0 < ?n" by simp
    note loop = peer_list_loop_result [OF ids(1) this ids(2), of rm "[]"]
    let ?w = "w\<lparr>w_pools := Some (ps\<lparr>Dictionaries := dp'\<rparr>)\<rparr>"
    have "PeerList e h n rm w = Inr (map (\<lambda>i. benc (peer_bval rm i (the (fmlookup (Peers pm) i))))
             (take ?n (peer_order e (Peers pm))), ?w)"
      unfolding PeerList_def pm option.case n Let_def if_not_P [OF False]
      by (simp add: with_dictionary_def ps(1) g p loop)
    moreover have "world_ok mem_ok lim ?w"
      using db ps p(2) by (simp add: world_ok_def pools_ok_def)
    ultimately show ?thesis by (intro exI [of _ ?w]) simp
  qed
qed

lemma PeerList_listed:
  assumes w: "world_ok mem_ok lim w" and e: "env_ok e"
  shows "\<exists>ips w'. PeerList e h n rm w = Inr (map (\<lambda>x. benc (peer_bval rm (fst x) (snd x))) ips, w') \<and>
       world_ok mem_ok lim w' \<and> w_db w' = w_db w \<and> w_stats w' = w_stats w \<and>
       listed_peers (mem_swarm (w_db w) h) n ips"
proof (cases "fmlookup (entries (w_db w)) h")
  case None
  then have "listed_peers (mem_swarm (w_db w) h) n []" by (simp add: listed_peers_def mem_swarm_def dom_def)
  with None w show ?thesis
    by (intro exI [of _ "[]"] exI [of _ w]) (simp add: PeerList_def)
next
  case (Some pm)
  let ?ids = "take (min (unat n) (fmsize (Peers pm))) (peer_order e (Peers pm))"
  let ?ips = "map (\<lambda>i. (i, the (fmlookup (Peers pm) i))) ?ids"
  have en: "enumerates (peer_order e (Peers pm)) (Peers pm)" using e by (simp add: env_ok_def)
  from PeerList_result [OF w e Some, of n rm] obtain w' where
    "PeerList e h n rm w = Inr (map (\<lambda>i. benc (peer_bval rm i (the (fmlookup (Peers pm) i)))) ?ids, w')"
    "world_ok mem_ok lim w'" "w_db w' = w_db w" "w_stats w' = w_stats w" by blast
  moreover have "listed_peers (fmlookup (Peers pm)) n ?ips"
  proof -
    have "distinct (map fst ?ips)" using en by (simp add: enumerates_def comp_def)
    moreover have "\<forall>x \<in> set ?ips. fmlookup (Peers pm) (fst x) = Some (snd x)"
      using enumerates_lookup [OF en] by (auto dest: in_set_takeD)
    moreover have "length ?ips = min (unat n) (card (dom (fmlookup (Peers pm))))"
    proof -
      have "dom (fmlookup (Peers pm)) = fmdom' (Peers pm)" by (simp only: fmdom'_alt_def fmdom.rep_eq)
      moreover have "length ?ips = min (length (peer_order e (Peers pm))) (min (unat n) (fmsize (Peers pm)))"
        by (simp only: length_map length_take)
      ultimately show ?thesis
        unfolding enumerates_length [OF en] fmsize_def by (simp only: min.commute min.left_idem min.assoc)
    qed
    ultimately show ?thesis by (simp only: listed_peers_def)
  qed
  ultimately show ?thesis
    unfolding mem_swarm_at [OF Some]
    by (intro exI [of _ ?ips] exI [of _ w'] conjI) (simp_all only: list.map_comp comp_def fst_conv snd_conv)
qed

section \<open>The interface laws\<close>

interpretation gomap: database_laws gomap mem_ok mem_swarm
proof
  fix lim w e ip port c h i
  assume w: "world_ok mem_ok lim w" and "length (h :: hash) = 20" "length (i :: peer_id) = 20"
    and "ip \<noteq> AddrZero"
  then obtain p w' where "Save e ip port c h i w = Inr w'" "world_ok mem_ok lim w'"
    "mem_swarm (w_db w') =
       swarm_save h i \<lparr>Complete = c, IP = ip, Port = port, LastSeen = now e\<rparr> (mem_swarm (w_db w))"
    "w_stats w' =
       (if fast e then w_stats w
        else save_stats (mem_swarm (w_db w) h i \<noteq> None) p ip c (w_stats w))"
    by (rule Save_result)
  then show
    "\<exists>w'. db_Save gomap e ip port c h i w = Inr w' \<and> world_ok mem_ok lim w' \<and>
       mem_swarm (w_db w') = swarm_save h i
         \<lparr>Complete = c, IP = ip, Port = port, LastSeen = now e\<rparr> (mem_swarm (w_db w)) \<and>
       request_counts (w_stats w') = request_counts (w_stats w)"
    by (auto simp: gomap_def)
next
  fix lim w e h i
  assume w: "world_ok mem_ok lim w"
  obtain w' where "Drop e h i w = Inr w'" "world_ok mem_ok lim w'"
      "mem_swarm (w_db w') = swarm_drop h i (mem_swarm (w_db w))"
      "w_stats w' = (case mem_swarm (w_db w) h i of
         Some p \<Rightarrow> if fast e then w_stats w else leave_stats p (w_stats w) | None \<Rightarrow> w_stats w)"
    using w by (rule Drop_result)
  then show "\<exists>w'. db_Drop gomap e h i w = Inr w' \<and> world_ok mem_ok lim w' \<and>
       mem_swarm (w_db w') = swarm_drop h i (mem_swarm (w_db w)) \<and>
       request_counts (w_stats w') = request_counts (w_stats w)"
    by (auto simp: gomap_def split: option.splits)
next
  fix d h
  assume "mem_ok d"
  then show "db_HashStats gomap h d =
      (of_nat (swarm_count Complete h (mem_swarm d)),
       of_nat (swarm_count (\<lambda>p. \<not> Complete p) h (mem_swarm d)))"
    by (simp add: gomap_def HashStats_result)
next
  fix lim w e h n rm
  assume w: "world_ok mem_ok lim w" and e: "env_ok e"
  show "\<exists>ips w'. db_PeerList gomap e h n rm w = Inr (map (\<lambda>x. benc (peer_bval rm (fst x) (snd x))) ips, w') \<and>
       world_ok mem_ok lim w' \<and> w_db w' = w_db w \<and> w_stats w' = w_stats w \<and>
       listed_peers (mem_swarm (w_db w) h) n ips"
    using PeerList_listed [OF w e, of h n rm] by (simp add: gomap_def)
next
  fix lim w e h n
  assume a: "world_ok mem_ok lim w" "limit_ok lim" "env_ok e"
  from PeerListBytes_result [OF a, of h n] obtain s4 s6 w' where
    r: "PeerListBytes e h n w = Inr ((s4, s6), w')" "world_ok mem_ok lim w'" "w_db w' = w_db w"
      "w_stats w' = w_stats w" "cap_is (6 * lim) s4" "cap_is (18 * lim) s6"
      "\<And>pm. n \<noteq> 0 \<Longrightarrow> fmlookup (entries (w_db w)) h = Some pm \<Longrightarrow> Peers pm \<noteq> fmempty \<Longrightarrow>
         \<exists>k. plb_post e lim pm s4 s6 k" by blast
  have "\<exists>ps. compact_lists lim (mem_swarm (w_db w) h) ps (slice_bytes s4) (slice_bytes s6)"
    if "n \<noteq> 0" "mem_swarm (w_db w) h \<noteq> Map.empty"
  proof -
    from that(2) obtain pm where pm: "fmlookup (entries (w_db w)) h = Some pm"
      by (cases "fmlookup (entries (w_db w)) h") (auto simp: mem_swarm_def)
    from that(2) have "Peers pm \<noteq> fmempty" unfolding mem_swarm_at [OF pm] by auto
    from r(7) [OF that(1) pm this] obtain k where k: "plb_post e lim pm s4 s6 k" by blast
    let ?ps = "take k (ordered_peers e pm)"
    from a(3) obtain ids where ids: "distinct ids" "map (fmlookup (Peers pm)) ids = map Some ?ps"
      by (rule ordered_peers_ids)
    have "pm_ok pm" using a(1) pm by (auto simp: world_ok_def mem_ok_def)
    then have "\<forall>p \<in> set ?ps. IP p \<noteq> AddrZero"
      using set_ordered_peers [of e pm] set_take_subset [of k "ordered_peers e pm"] by (auto simp: pm_ok_def)
    note parts = length_compact_part [OF this]
    have "length (arr s4) = 6 * unat lim" "slen s4 \<le> 6 * unat lim" "length (arr s6) = 18 * unat lim" "slen s6 \<le> 18 * unat lim"
      using r(5,6) unfolding cap_is_def limit_ok_caps [OF a(2)] nat_int by simp_all
    then have "length (slice_bytes s4) = slen s4" "length (slice_bytes s6) = slen s6" "slen s4 \<le> 6 * unat lim" "slen s6 \<le> 18 * unat lim"
      by (simp_all add: slice_bytes_def)
    moreover have "length (slice_bytes s4) = 6 * length (filter (\<lambda>p. \<not> Is6 (IP p)) ?ps)"
      "length (slice_bytes s6) = 18 * length (filter (\<lambda>p. Is6 (IP p)) ?ps)"
      using k parts by (simp_all add: plb_post_def)
    moreover have "k = fmsize (Peers pm) \<or> 6 * unat lim < slen s4 + 6 \<or> 18 * unat lim < slen s6 + 18"
      using k by (simp add: plb_post_def)
    ultimately have "k = fmsize (Peers pm) \<or> length (slice_bytes s4) = 6 * unat lim \<or> length (slice_bytes s6) = 18 * unat lim"
      using reaches_limit [of "slen s4" 6] reaches_limit [of "slen s6" 18] by metis
    moreover have "length ?ps = k" using k length_ordered_peers [OF a(3), of pm] by (simp add: plb_post_def)
    moreover have "slice_bytes s4 = concat (map compact (filter (\<lambda>p. \<not> Is6 (IP p)) ?ps))"
      "slice_bytes s6 = concat (map compact (filter (\<lambda>p. Is6 (IP p)) ?ps))" using k by (simp_all only: plb_post_def)
    ultimately have "compact_lists lim (mem_swarm (w_db w) h) ?ps (slice_bytes s4) (slice_bytes s6)"
      unfolding compact_lists_def mem_swarm_at [OF pm] card_dom_Peers using ids by metis
    then show ?thesis ..
  qed
  with r show "\<exists>s4 s6 w'. db_PeerListBytes gomap e h n w = Inr ((s4, s6), w') \<and>
      world_ok mem_ok lim w' \<and> w_db w' = w_db w \<and> w_stats w' = w_stats w \<and>
      cap_is (6 * lim) s4 \<and> cap_is (18 * lim) s6 \<and>
      (n \<noteq> 0 \<and> mem_swarm (w_db w) h \<noteq> Map.empty \<longrightarrow>
        (\<exists>ps. compact_lists lim (mem_swarm (w_db w) h) ps (slice_bytes s4) (slice_bytes s6)))"
    by (auto simp: gomap_def)
qed

section \<open>Recounting the statistics\<close>

lemma fold_sync_peer:
  "fold sync_peer ps (ips, s, l) =
     (fold (\<lambda>p. IPStats_Inc (IP p)) ps ips,
      s + of_nat (length (filter Complete ps)),
      l + of_nat (length (filter (\<lambda>p. \<not> Complete p) ps)))"
  by (induction ps arbitrary: ips s l) (auto simp: sync_peer_def)

lemma ip_count_fold_Inc:
  "ip_count (fold (\<lambda>p. IPStats_Inc (IP p)) ps ips) a =
     ip_count ips a + of_nat (length (filter (\<lambda>p. IP p = a) ps))"
  by (induction ps arbitrary: ips) auto

lemma swarm_total_rows:
  "swarm_total P (mem_swarm db) = (\<Sum>h \<in> fmdom' (entries db). fmcount P (Peers (the (fmlookup (entries db) h))))"
proof -
  let ?row = "\<lambda>h. {i. \<exists>p. fmlookup (Peers (the (fmlookup (entries db) h))) i = Some p \<and> P p}"
  have "{(h, i). \<exists>p. mem_swarm db h i = Some p \<and> P p} = (SIGMA h : fmdom' (entries db). ?row h)"
    by (auto simp: mem_swarm_def fmlookup_dom'_iff split: option.splits)
  then show ?thesis
    unfolding swarm_total_def fmcount_def by (simp add: card_SigmaI)
qed

lemma length_filter_ordered:
  assumes "env_ok e"
  shows "length (filter P (ordered_peers e pm)) = fmcount P (Peers pm)"
proof -
  let ?ids = "peer_order e (Peers pm)" and ?m = "Peers pm"
  have ids: "distinct ?ids" "set ?ids = fmdom' ?m" using assms by (auto simp: env_ok_def enumerates_def)
  have "{i. \<exists>p. fmlookup ?m i = Some p \<and> P p} = set (filter (\<lambda>i. P (the (fmlookup ?m i))) ?ids)"
    by (auto simp: ids(2) fmlookup_dom'_iff)
  then have "fmcount P ?m = length (filter (\<lambda>i. P (the (fmlookup ?m i))) ?ids)"
    unfolding fmcount_def using ids(1) by (simp add: distinct_card del: set_filter)
  then show ?thesis
    unfolding ordered_peers_def by (subst map_filter_lookup(1)) (simp_all add: ids(2) filter_map o_def)
qed

lemma length_filter_all_peers:
  assumes "enumerates hs (entries db)" and "env_ok e"
  shows "length (filter P (all_peers e hs db)) = swarm_total P (mem_swarm db)"
proof -
  have hs: "distinct hs" "set hs = fmdom' (entries db)" using assms(1) by (auto simp: enumerates_def)
  have "all_peers e hs db = concat (map (\<lambda>h. ordered_peers e (the (fmlookup (entries db) h))) hs)"
    unfolding all_peers_def ordered_peers_def by (subst map_filter_lookup(1)) (simp_all add: hs o_def)
  then have "length (filter P (all_peers e hs db)) =
      sum_list (map (\<lambda>h. fmcount P (Peers (the (fmlookup (entries db) h)))) hs)"
    by (simp add: filter_concat length_concat o_def length_filter_ordered [OF assms(2)])
  also have "\<dots> = swarm_total P (mem_swarm db)"
    unfolding swarm_total_rows hs(2) [symmetric] using hs(1) by (rule sum_list_distinct_conv_sum_set)
  finally show ?thesis .
qed

lemma SyncExpvars_result:
  assumes "hashmap (w_db w) \<noteq> None" and "enumerates hs (entries (w_db w))" and "env_ok e"
    and "\<not> fast e" and "IPStats (w_stats w) = fmempty"
  shows "\<exists>w'. SyncExpvars e hs w = (w', None) \<and> w_db w' = w_db w \<and>
    stats_match (w_stats w') (mem_swarm (w_db w))"
  using assms
  by (auto simp: SyncExpvars_def Check_def fold_sync_peer stats_match_def ip_count_fold_Inc
      length_filter_all_peers ip_count_def [of fmempty])

section \<open>A running database\<close>

text \<open>The state after start-up with an empty database and the default peer limit.\<close>

definition start_world :: "memory world" where
  "start_world =
     \<lparr>w_stats = zero_stats, w_pools = Some (Initialize 200), w_db = memory_make \<lparr>hashmap = None\<rparr>\<rparr>"

lemma start_world_ok [simp]: "world_ok mem_ok 200 start_world"
  by (simp add: world_ok_def start_world_def pools_ok_Initialize)

lemma start_world_swarm [simp]: "mem_swarm (w_db start_world) = (\<lambda>h. Map.empty)"
  by (simp add: start_world_def)

lemma swarm_total_empty [simp]: "swarm_total P (\<lambda>h. Map.empty) = 0"
  by (simp add: swarm_total_def)

lemma start_world_stats [simp]: "stats_match (w_stats start_world) (\<lambda>h. Map.empty)"
  by (simp add: stats_match_def start_world_def zero_stats_def ip_count_def)

text \<open>A database holding one infohash with the given peers.\<close>

definition one_hash_world :: "hash \<Rightarrow> peermap \<Rightarrow> memory world" where
  "one_hash_world h pm = start_world\<lparr>w_db := \<lparr>hashmap = Some (fmupd h pm fmempty)\<rparr>\<rparr>"

lemma one_hash_entries [simp]: "entries (w_db (one_hash_world h pm)) = fmupd h pm fmempty"
  by (simp add: one_hash_world_def entries_def)

lemma one_hash_world_ok: "length h = 20 \<Longrightarrow> pm_ok pm \<Longrightarrow> world_ok mem_ok 200 (one_hash_world h pm)"
  by (auto simp: world_ok_def one_hash_world_def start_world_def pools_ok_Initialize mem_ok_def entries_def)

text \<open>A peer map with one IPv4 seed and one IPv6 leech, both last seen at time 0.\<close>

definition two_peers :: peermap where
  "two_peers =
     \<lparr>CompleteN = 1, IncompleteN = 1,
      Peers = fmupd (replicate 20 1) \<lparr>Complete = True, IP = Addr4 0x0A000001, Port = 6881, LastSeen = 0\<rparr>
             (fmupd (replicate 20 2) \<lparr>Complete = False, IP = Addr6 1 [], Port = 6882, LastSeen = 0\<rparr> fmempty)\<rparr>"

lemma replicate20_neq [simp]: "replicate 20 (1 :: byte) \<noteq> replicate 20 2" "replicate 20 (2 :: byte) \<noteq> replicate 20 1"
  by (simp_all add: replicate_eq_replicate)

lemma two_peers_ok [simp]: "pm_ok two_peers"
  by (auto simp: pm_ok_def two_peers_def fmcount_upd fmdrop_fmupd split: if_splits)

lemma two_peers_counts: "CompleteN two_peers = 1" "IncompleteN two_peers = 1"
  by (simp_all add: two_peers_def)

lemma cap_numwant_eq_0: "cap_numwant n pm = 0 \<longleftrightarrow> n = 0 \<or> Peers pm = fmempty"
  by (auto simp: cap_numwant_def unat_eq_zero simp flip: fmsize_0_iff)

section \<open>Properties\<close>

text \<open>
  C8: \<open>Save\<close> never panics on a well-formed database and refines the abstract swarm: the peer
  is stored under its infohash and peer id with the given address, port, completion flag and
  the current time, every other peer is unchanged, the completion counters of every infohash
  stay exact, and so do the global seed, leech and address statistics (unless they are
  compiled out).
\<close>

theorem Save_refines_swarm:
  assumes "world_ok mem_ok lim w" and "length h = 20" and "length i = 20" and "ip \<noteq> AddrZero"
  shows "\<exists>w'. Save e ip port c h i w = Inr w' \<and> world_ok mem_ok lim w' \<and>
    mem_swarm (w_db w') =
      swarm_save h i \<lparr>Complete = c, IP = ip, Port = port, LastSeen = now e\<rparr> (mem_swarm (w_db w)) \<and>
    (\<not> fast e \<and> stats_match (w_stats w) (mem_swarm (w_db w)) \<longrightarrow>
       stats_match (w_stats w') (mem_swarm (w_db w')))"
proof -
  obtain p w' where r: "Save e ip port c h i w = Inr w'" "world_ok mem_ok lim w'"
    "mem_swarm (w_db w') =
       swarm_save h i \<lparr>Complete = c, IP = ip, Port = port, LastSeen = now e\<rparr> (mem_swarm (w_db w))"
    "w_stats w' = (if fast e then w_stats w
        else save_stats (mem_swarm (w_db w) h i \<noteq> None) p ip c (w_stats w))"
    "mem_swarm (w_db w) h i = Some p \<or> mem_swarm (w_db w) h i = None"
    using assms by (rule Save_result)
  with save_stats_match [OF finite_mem_swarm r(5)] show ?thesis by simp
qed

theorem Save_refines_swarm_witness:
  "\<exists>w'. Save (sample_env 1000) (Addr4 0x0A000001) 6881 True (replicate 20 1) (replicate 20 2) start_world
      = Inr w' \<and> stats_match (w_stats w') (mem_swarm (w_db w'))"
  using Save_refines_swarm [OF start_world_ok, of "replicate 20 1" "replicate 20 2" "Addr4 0x0A000001"
      "sample_env 1000" 6881 True]
  by auto

text \<open>
  C10: \<open>Drop\<close> removes exactly the given peer of the given infohash, whether or not it is
  there, and keeps every counter and statistic exact.
\<close>

theorem Drop_refines_swarm:
  assumes "world_ok mem_ok lim w"
  shows "\<exists>w'. Drop e h i w = Inr w' \<and> world_ok mem_ok lim w' \<and>
    mem_swarm (w_db w') = swarm_drop h i (mem_swarm (w_db w)) \<and>
    (\<not> fast e \<and> stats_match (w_stats w) (mem_swarm (w_db w)) \<longrightarrow>
       stats_match (w_stats w') (mem_swarm (w_db w')))"
proof -
  obtain w' where r: "Drop e h i w = Inr w'" "world_ok mem_ok lim w'"
    "mem_swarm (w_db w') = swarm_drop h i (mem_swarm (w_db w))"
    "w_stats w' = (case mem_swarm (w_db w) h i of
       Some p \<Rightarrow> if fast e then w_stats w else leave_stats p (w_stats w) | None \<Rightarrow> w_stats w)"
    using assms by (rule Drop_result)
  have "mem_swarm (w_db w) h i = None \<Longrightarrow> swarm_drop h i (mem_swarm (w_db w)) = mem_swarm (w_db w)"
    by (auto simp: swarm_drop_def fun_eq_iff)
  with r leave_stats_match [OF finite_mem_swarm, of "w_db w" h i] show ?thesis
    by (cases "mem_swarm (w_db w) h i") auto
qed

theorem Drop_refines_swarm_witness:
  "\<exists>w'. Drop (sample_env 1000) (replicate 20 3) (replicate 20 1)
      (one_hash_world (replicate 20 3) two_peers) = Inr w' \<and>
    mem_swarm (w_db w') (replicate 20 3) (replicate 20 1) = None"
  using Drop_refines_swarm [OF one_hash_world_ok [OF _ two_peers_ok],
      of "replicate 20 3" "sample_env 1000" "replicate 20 3" "replicate 20 1"]
  by (auto simp: swarm_drop_def)

text \<open>
  C9: \<open>trim\<close>, for every order in which the maps are visited, removes exactly the expired
  peers of the whole swarm and every infohash left without peers, returns how many of each it
  removed, and keeps the counters and the statistics exact.
\<close>

theorem trim_expires_swarm:
  assumes "world_ok mem_ok lim w" and "env_ok e" and hs: "enumerates hs (entries (w_db w))"
  shows "\<exists>peers hashes w'. trim e hs w = Inr ((peers, hashes), w') \<and> world_ok mem_ok lim w' \<and>
    mem_swarm (w_db w') = swarm_expire (expired e) (mem_swarm (w_db w)) \<and>
    peers = swarm_total (expired e) (mem_swarm (w_db w)) \<and>
    hashes = fmsize (entries (w_db w)) - fmsize (entries (w_db w')) \<and>
    (\<forall>h pm. fmlookup (entries (w_db w')) h = Some pm \<longrightarrow> Peers pm \<noteq> fmempty) \<and>
    (\<not> fast e \<and> stats_match (w_stats w) (mem_swarm (w_db w)) \<longrightarrow>
       stats_match (w_stats w') (mem_swarm (w_db w')))"
proof -
  from trim_hashes_result [OF assms(1,2), of hs "(0, 0)"] obtain p n w' where
    r: "trim e hs w = Inr ((p, n), w')" "trims e lim (set hs) (0, 0) w (p, n) w'"
    unfolding trim_def by auto
  note post = r(2) [unfolded trims_def prod.case]
  have dom: "h \<notin> set hs \<Longrightarrow> mem_swarm (w_db w) h = Map.empty"
    "h \<notin> set hs \<Longrightarrow> fmlookup (entries (w_db w')) h = None" for h
    using enumerates_lookup [OF hs, of h] post by (auto simp: mem_swarm_def fun_eq_iff)
  have sw: "mem_swarm (w_db w') = swarm_expire (expired e) (mem_swarm (w_db w))"
    using post dom(1) by (auto simp: swarm_expire_def trimmed_def fun_eq_iff split: option.splits)
  have "swarm_total (expired e) (swarm_expire (expired e) (mem_swarm (w_db w))) = 0"
    unfolding swarm_total_def swarm_expire_def
    by (auto simp: card_eq_0_iff split: option.splits if_splits)
  then have "p = swarm_total (expired e) (mem_swarm (w_db w))" using post sw by simp
  moreover have "n = fmsize (entries (w_db w)) - fmsize (entries (w_db w'))" using post by linarith
  moreover have "Peers pm \<noteq> fmempty" if "fmlookup (entries (w_db w')) h = Some pm" for h pm
    using post that dom(2) by (cases "h \<in> set hs") (blast, simp)
  ultimately show ?thesis using r(1) post sw by blast
qed

theorem trim_expires_swarm_witness:
  "\<exists>peers hashes w'. trim (sample_env 2401) [replicate 20 3] (one_hash_world (replicate 20 3) two_peers)
      = Inr ((peers, hashes), w') \<and> mem_swarm (w_db w') = (\<lambda>h. Map.empty)"
proof -
  have "enumerates [replicate 20 3] (entries (w_db (one_hash_world (replicate 20 3) two_peers)))"
    by (simp add: enumerates_def)
  then obtain p n w' where
    "trim (sample_env 2401) [replicate 20 3] (one_hash_world (replicate 20 3) two_peers) = Inr ((p, n), w')"
    "mem_swarm (w_db w') = swarm_expire (expired (sample_env 2401))
       (mem_swarm (w_db (one_hash_world (replicate 20 3) two_peers)))"
    using trim_expires_swarm [OF one_hash_world_ok [OF _ two_peers_ok], of "replicate 20 3"
        "sample_env 2401" "[replicate 20 3]"] by (auto simp del: one_hash_entries)
  then show ?thesis
    by (auto simp: swarm_expire_def mem_swarm_def two_peers_def expired_def
        default_config_def Seconds_def fun_eq_iff split: option.splits)
qed

text \<open>
  \<open>HashStats\<close> returns the number of complete and of incomplete peers of the infohash,
  both modulo \<open>2 ^ 16\<close>, and zeros for an unknown infohash.
\<close>

theorem HashStats_counts_peers:
  assumes "world_ok mem_ok lim w"
  shows "HashStats h (w_db w) =
    (of_nat (swarm_count Complete h (mem_swarm (w_db w))),
     of_nat (swarm_count (\<lambda>p. \<not> Complete p) h (mem_swarm (w_db w))))"
  using assms by (simp add: HashStats_result)

theorem HashStats_counts_peers_witness:
  "HashStats (replicate 20 3) (w_db (one_hash_world (replicate 20 3) two_peers)) = (1, 1) \<and>
   of_nat (swarm_count Complete (replicate 20 3)
     (mem_swarm (w_db (one_hash_world (replicate 20 3) two_peers)))) = (1 :: uint16)"
  using HashStats_counts_peers [OF one_hash_world_ok [OF _ two_peers_ok], of "replicate 20 3" "replicate 20 3"]
  by (simp add: HashStats_def two_peers_counts)

text \<open>
  C28: \<open>PeerListBytes\<close> on a known, non-empty infohash with a positive \<open>numWant\<close> fills the two
  buffers with the compact forms (address bytes, then the port in network order) of the first
  \<open>k\<close> peers visited, IPv4 and IPv6 apart, where \<open>k\<close> is the whole swarm unless one of the
  buffers, of \<open>6 * limit\<close> and \<open>18 * limit\<close> bytes, filled up. It never writes outside them
  and changes nothing but the pools.
\<close>

theorem PeerListBytes_compact_prefix:
  assumes "world_ok mem_ok lim w" and "limit_ok lim" and "env_ok e" and "n \<noteq> 0"
    and pm: "fmlookup (entries (w_db w)) h = Some pm" "Peers pm \<noteq> fmempty"
  shows "\<exists>s4 s6 w' k. PeerListBytes e h n w = Inr ((s4, s6), w') \<and>
    w_db w' = w_db w \<and> w_stats w' = w_stats w \<and> 0 < k \<and> k \<le> fmsize (Peers pm) \<and>
    slice_bytes s4 = concat (map compact (filter (\<lambda>p. \<not> Is6 (IP p)) (take k (ordered_peers e pm)))) \<and>
    slice_bytes s6 = concat (map compact (filter (\<lambda>p. Is6 (IP p)) (take k (ordered_peers e pm)))) \<and>
    (k = fmsize (Peers pm) \<or> 6 * unat lim < slen s4 + 6 \<or> 18 * unat lim < slen s6 + 18)"
  using PeerListBytes_result [OF assms(1-3), of h n] assms(4) pm unfolding plb_post_def by blast

theorem PeerListBytes_compact_prefix_witness:
  "\<exists>s4 s6 w' k. PeerListBytes (sample_env 0) (replicate 20 3) 50 (one_hash_world (replicate 20 3) two_peers)
      = Inr ((s4, s6), w') \<and>
    slice_bytes s4 = concat (map compact (filter (\<lambda>p. \<not> Is6 (IP p)) (take k (ordered_peers (sample_env 0) two_peers))))"
proof -
  have "Peers two_peers \<noteq> fmempty"
    by (metis fmempty_lookup fmupd_lookup option.distinct(1) peermap.simps(3) two_peers_def)
  with PeerListBytes_compact_prefix [OF one_hash_world_ok [OF _ two_peers_ok] limit_ok_200 env_ok_sample,
      of "replicate 20 3" 50 "replicate 20 3" two_peers 0]
  show ?thesis by auto
qed

text \<open>
  \<open>PeerListBytes\<close> does not cap the peer list at \<open>numWant\<close>: any two positive values give
  the same result, so only the size of the pooled buffers bounds it.
\<close>

theorem PeerListBytes_ignores_numWant:
  assumes "n \<noteq> 0" and "n' \<noteq> 0"
  shows "PeerListBytes e h n w = PeerListBytes e h n' w"
  using assms by (simp add: PeerListBytes_def cap_numwant_eq_0 cong: option.case_cong)

theorem PeerListBytes_ignores_numWant_witness:
  "PeerListBytes (sample_env 0) (replicate 20 3) 1 (one_hash_world (replicate 20 3) two_peers) =
   PeerListBytes (sample_env 0) (replicate 20 3) 2 (one_hash_world (replicate 20 3) two_peers)"
  by (rule PeerListBytes_ignores_numWant) simp_all

text \<open>
  With \<open>numWant\<close> 0, or for an unknown infohash, \<open>PeerListBytes\<close> returns the pooled
  buffers as they are: whole fresh buffers are \<open>6 * limit\<close> and \<open>18 * limit\<close> zero bytes, not
  empty lists.
\<close>

theorem PeerListBytes_zero_returns_buffers:
  assumes ps: "w_pools w = Some (Initialize lim)" and lim: "limit_ok lim"
    and none: "n = 0 \<or> fmlookup (entries (w_db w)) h = None"
  shows "\<exists>s4 s6 w'. PeerListBytes e h n w = Inr ((s4, s6), w') \<and>
    slice_bytes s4 = replicate (6 * unat lim) 0 \<and> slice_bytes s6 = replicate (18 * unat lim) 0"
proof -
  note caps = limit_ok_caps [OF lim]
  have new: "make_slice (6 * lim) = Inr \<lparr>arr = replicate (6 * unat lim) 0, slen = 6 * unat lim\<rparr>"
    "make_slice (18 * lim) = Inr \<lparr>arr = replicate (18 * unat lim) 0, slen = 18 * unat lim\<rparr>"
    unfolding make_slice_def caps nat_int by simp_all
  have get: "Pool_Get pick (NewPool (Inr x) r) = Inr (x, (NewPool (Inr x) r)\<lparr>pool_created := 1\<rparr>)"
    for pick and x :: byte_slice and r
    by (simp add: Pool_Get_def NewPool_def pool_make_def split: option.splits)
  from none have "(case fmlookup (entries (w_db w)) h of None \<Rightarrow> True | Some pm \<Rightarrow> cap_numwant n pm = 0)"
    by (auto simp: cap_numwant_def split: option.splits)
  then show ?thesis
    by (auto simp: PeerListBytes_def ps Initialize_def Let_def new get slice_bytes_def
        split: option.splits)
qed

theorem PeerListBytes_zero_returns_buffers_witness:
  "\<exists>s4 s6 w'. PeerListBytes (sample_env 0) (replicate 20 3) 0 start_world = Inr ((s4, s6), w') \<and>
    slice_bytes s4 = replicate 1200 0 \<and> slice_bytes s6 = replicate 3600 0"
  using PeerListBytes_zero_returns_buffers [of start_world 200 0 "replicate 20 3" "sample_env 0"]
  by (simp add: start_world_def)

text \<open>
  \<open>PeerList\<close> on a known infohash returns the bencoded dictionaries of the first
  \<open>min numWant size\<close> peers visited, with the peer id only when the client wants it, and
  leaves the database as it was.
\<close>

theorem PeerList_dictionaries:
  assumes "world_ok mem_ok lim w" and "env_ok e" and "fmlookup (entries (w_db w)) h = Some pm"
  shows "\<exists>w'. PeerList e h n rm w =
      Inr (map (\<lambda>i. benc (peer_bval rm i (the (fmlookup (Peers pm) i))))
             (take (min (unat n) (fmsize (Peers pm))) (peer_order e (Peers pm))), w') \<and>
    world_ok mem_ok lim w' \<and> w_db w' = w_db w \<and> w_stats w' = w_stats w"
  using assms by (rule PeerList_result)

theorem PeerList_dictionaries_witness:
  "\<exists>peers w'. PeerList (sample_env 0) (replicate 20 3) 1 True (one_hash_world (replicate 20 3) two_peers)
      = Inr (peers, w') \<and>
    peers = map (\<lambda>i. benc (peer_bval True i (the (fmlookup (Peers two_peers) i))))
      (take (min 1 (fmsize (Peers two_peers))) (sorted_order (Peers two_peers)))"
  using PeerList_dictionaries [OF one_hash_world_ok [OF _ two_peers_ok] env_ok_sample,
      of "replicate 20 3" "replicate 20 3" two_peers 0 1 True]
  by auto

text \<open>
  \<open>SyncExpvars\<close> on a made database, starting from empty address counts, makes the seed,
  leech and per-address statistics equal to those of the stored swarm.
\<close>

theorem SyncExpvars_matches_swarm:
  assumes "hashmap (w_db w) \<noteq> None" and "enumerates hs (entries (w_db w))" and "env_ok e"
    and "\<not> fast e" and "IPStats (w_stats w) = fmempty"
  shows "\<exists>w'. SyncExpvars e hs w = (w', None) \<and> w_db w' = w_db w \<and>
    stats_match (w_stats w') (mem_swarm (w_db w))"
  using assms by (rule SyncExpvars_result)

theorem SyncExpvars_matches_swarm_witness:
  "\<exists>w'. SyncExpvars (sample_env 0) [replicate 20 3] (one_hash_world (replicate 20 3) two_peers) = (w', None) \<and>
    stats_match (w_stats w') (mem_swarm (w_db (one_hash_world (replicate 20 3) two_peers)))"
proof -
  let ?w = "one_hash_world (replicate 20 3) two_peers"
  have "enumerates [replicate 20 3] (entries (w_db ?w))" by (simp add: enumerates_def)
  moreover have "hashmap (w_db ?w) \<noteq> None" "IPStats (w_stats ?w) = fmempty"
    by (simp_all add: one_hash_world_def start_world_def zero_stats_def)
  ultimately show ?thesis
    using SyncExpvars_matches_swarm [of ?w "[replicate 20 3]" "sample_env 0"] by auto
qed

end
