(* ===== verification/StorageCodec.thy ===== *)
theory StorageCodec
  imports MemorySpec
begin

text \<open>
  The binary snapshot of the peer database, tracker/storage/map/encode_binary.go: the encoder
  over any iteration order, the decoder with its errors and panics and the partial state it
  leaves behind, and the round trip between them.
\<close>

section \<open>Encoding\<close>

definition bool_byte :: "bool \<Rightarrow> byte" where
  "bool_byte b = (if b then 1 else 0)"

definition encode_peer :: "peer_id \<Rightarrow> peer \<Rightarrow> bytes" where
  "encode_peer i p =
     i @ [bool_byte (Complete p)] @ put_le 4 (word_of_nat (length (AsSlice (IP p))) :: int32) @
     AsSlice (IP p) @ put_le 2 (Port p) @ put_le 8 (LastSeen p)"

fun encode_peers :: "(peer_id, peer) fmap \<Rightarrow> peer_id list \<Rightarrow> bytes" where
  "encode_peers m [] = []"
| "encode_peers m (i # ids) =
     (case fmlookup m i of None \<Rightarrow> [] | Some p \<Rightarrow> encode_peer i p) @ encode_peers m ids"

fun encode_hashes :: "env \<Rightarrow> (hash, peermap) fmap \<Rightarrow> hash list \<Rightarrow> bytes" where
  "encode_hashes e m [] = []"
| "encode_hashes e m (h # hs) =
     (case fmlookup m h of
        None \<Rightarrow> []
      | Some pm \<Rightarrow>
          h @ put_le 4 (word_of_nat (fmsize (Peers pm)) :: uint32) @
          encode_peers (Peers pm) (peer_order e (Peers pm))) @
     encode_hashes e m hs"

definition encodeBinary :: "env \<Rightarrow> hash list \<Rightarrow> memory \<Rightarrow> bytes" where
  "encodeBinary e hs db = encode_hashes e (entries db) hs"

section \<open>Decoding\<close>

datatype decode_error = IOError io_error | AddrFromSliceFailed

text \<open>Decoding one peer stops with an error or, on a negative address length, panics.\<close>

datatype decode_stop = Fails decode_error | Panics panic

definition read_field :: "nat \<Rightarrow> bytes \<Rightarrow> decode_stop + (bytes \<times> bytes)" where
  "read_field n bs =
     (case read_full n bs of Inl e \<Rightarrow> Inl (Fails (IOError e)) | Inr x \<Rightarrow> Inr x)"

definition decode_peer :: "bytes \<Rightarrow> decode_stop + (peer \<times> bytes)" where
  "decode_peer bs =
     bindP (read_field 1 bs) (\<lambda>(complete, bs1).
     bindP (read_field 4 bs1) (\<lambda>(addrSliceLen, bs2).
     let n = sint (get_le addrSliceLen :: int32) in
     if n < 0 then Inl (Panics NegativeLength)
     else
     bindP (read_field (nat n) bs2) (\<lambda>(addrSlice, bs3).
     case AddrFromSlice addrSlice of
       None \<Rightarrow> Inl (Fails AddrFromSliceFailed)
     | Some ip \<Rightarrow>
         bindP (read_field 2 bs3) (\<lambda>(port, bs4).
         bindP (read_field 8 bs4) (\<lambda>(lastSeen, bs5).
         Inr (\<lparr>Complete = hd complete \<noteq> 0, IP = ip, Port = get_le port, LastSeen = get_le lastSeen\<rparr>,
              bs5))))))"

text \<open>
  The peers of one infohash: the map so far, its complete peers, the total number of peers
  and the pools. An error keeps what was decoded before it.
\<close>

type_synonym decode_state = "(peer_id, peer) fmap \<times> uint16 \<times> nat \<times> pools option"

fun decode_peers ::
  "env \<Rightarrow> nat \<Rightarrow> bytes \<Rightarrow> decode_state \<Rightarrow> panic + (decode_error option \<times> bytes \<times> decode_state)" where
  "decode_peers e 0 bs st = Inr (None, bs, st)"
| "decode_peers e (Suc count) bs (m, complete, peers, ps) =
     (case read_full 20 bs of
        Inl er \<Rightarrow> Inr (Some (IOError er), bs, m, complete, peers, ps)
      | Inr (i, bs1) \<Rightarrow>
          bindP (get_peer e ps) (\<lambda>(_, ps1).
          (case decode_peer bs1 of
             Inl (Panics p) \<Rightarrow> Inl p
           | Inl (Fails er) \<Rightarrow> Inr (Some er, bs1, m, complete, peers, ps1)
           | Inr (peer, bs2) \<Rightarrow>
               decode_peers e count bs2
                 (fmupd i peer m, if Complete peer then complete + 1 else complete,
                  Suc peers, ps1))))"

text \<open>The outcomes of decoding a field and a peer.\<close>

lemma read_field_result:
  obtains (fails) er where "read_field n bs = Inl (Fails er)"
  | (reads) xs ys where "read_field n bs = Inr (xs, ys)" "length ys \<le> length bs"
proof (cases "read_full n bs")
  case (Inl er)
  then show ?thesis by (intro fails [of "IOError er"]) (simp add: read_field_def)
next
  case (Inr x)
  then obtain xs ys where "read_full n bs = Inr (xs, ys)" by (cases x) simp
  then show ?thesis by (intro reads [of xs ys]) (auto simp: read_field_def read_full_Inr)
qed

lemma decode_peer_result:
  obtains (fails) er where "decode_peer bs = Inl (Fails er)"
  | (negative) "decode_peer bs = Inl (Panics NegativeLength)"
  | (peer) p bs' where "decode_peer bs = Inr (p, bs')" "plain_addr (IP p)" "length bs' \<le> length bs"
proof (cases rule: read_field_result [of 1 bs])
  case 1: (reads c bs1)
  show ?thesis
  proof (cases rule: read_field_result [of 4 bs1])
    case 2: (reads l bs2)
    let ?n = "sint (get_le l :: int32)"
    show ?thesis
    proof (cases "?n < 0")
      case False
      show ?thesis
      proof (cases rule: read_field_result [of "nat ?n" bs2])
        case 3: (reads a bs3)
        show ?thesis
        proof (cases "AddrFromSlice a")
          case (Some ip)
          show ?thesis
          proof (cases rule: read_field_result [of 2 bs3])
            case 4: (reads po bs4)
            show ?thesis
              by (cases rule: read_field_result [of 8 bs4])
                (use 1 2 3 4 False Some AddrFromSlice_plain [OF Some] fails peer in
                  \<open>auto simp: decode_peer_def Let_def\<close>)
          qed (use 1 2 3 False Some fails in \<open>auto simp: decode_peer_def Let_def\<close>)
        qed (use 1 2 3 False fails in \<open>auto simp: decode_peer_def Let_def\<close>)
      qed (use 1 2 False fails in \<open>auto simp: decode_peer_def Let_def\<close>)
    qed (use 1 2 negative in \<open>auto simp: decode_peer_def Let_def\<close>)
  qed (use 1 fails in \<open>auto simp: decode_peer_def\<close>)
qed (use fails in \<open>auto simp: decode_peer_def\<close>)

lemma decode_peer_shorter: "decode_peer bs = Inr (p, bs') \<Longrightarrow> length bs' \<le> length bs"
  by (cases rule: decode_peer_result [of bs]) auto

lemma decode_peer_plain: "decode_peer bs = Inr (p, bs') \<Longrightarrow> plain_addr (IP p)"
  by (cases rule: decode_peer_result [of bs]) auto

lemma decode_peer_panic: "decode_peer bs = Inl (Panics p) \<Longrightarrow> p = NegativeLength"
  by (cases rule: decode_peer_result [of bs]) auto

lemma decode_peers_shorter:
  "decode_peers e n bs st = Inr (er, bs', st') \<Longrightarrow> length bs' \<le> length bs"
proof (induction e n bs st rule: decode_peers.induct)
  case (2 e n bs m c k ps)
  show ?case
  proof (cases "read_full 20 bs")
    case (Inl er)
    with "2.prems" show ?thesis by simp
  next
    case (Inr y)
    then obtain i bs1 where i: "read_full 20 bs = Inr (i, bs1)" by (cases y) simp
    then have shorter: "length bs1 \<le> length bs" by (auto simp: read_full_Inr)
    obtain g ps1 where g: "get_peer e ps = Inr (g, ps1)"
      using "2.prems" i by (cases "get_peer e ps") auto
    show ?thesis
    proof (cases "decode_peer bs1")
      case (Inl stop)
      with "2.prems" i g shorter show ?thesis by (cases stop) auto
    next
      case Inr': (Inr z)
      then obtain p bs2 where z: "decode_peer bs1 = Inr (p, bs2)" by (cases z) simp
      from "2.IH" [OF i refl g refl z refl] "2.prems" i g z have "length bs' \<le> length bs2" by simp
      with decode_peer_shorter [OF z] shorter show ?thesis by simp
    qed
  qed
qed simp

text \<open>
  The outer loop: it ends cleanly when no byte is left before an infohash. The counters of a
  peer map are set once all its peers are read, the incomplete one from the size of the map.
\<close>

type_synonym decode_result = "nat \<times> nat \<times> decode_error option"

function decode_hashes ::
  "env \<Rightarrow> bytes \<Rightarrow> nat \<Rightarrow> nat \<Rightarrow> memory world \<Rightarrow> panic + (decode_result \<times> memory world)" where
  "decode_hashes e bs peers hashes w =
     (case read_full 20 bs of
        Inl EOF \<Rightarrow> Inr ((peers, hashes, None), w)
      | Inl UnexpectedEOF \<Rightarrow> Inr ((peers, hashes, Some (IOError UnexpectedEOF)), w)
      | Inr (h, bs1) \<Rightarrow>
          bindP (makePeermap h (w_db w)) (\<lambda>(pm, db).
          (case read_full 4 bs1 of
             Inl er \<Rightarrow> Inr ((peers, hashes, Some (IOError er)), w\<lparr>w_db := db\<rparr>)
           | Inr (count, bs2) \<Rightarrow>
               bindP (decode_peers e (unat (get_le count :: uint32)) bs2 (Peers pm, 0, peers, w_pools w))
                 (\<lambda>(err, bs3, m, complete, peers', ps).
               (case err of
                  Some er \<Rightarrow>
                    bindP (set_peermap h (pm\<lparr>Peers := m\<rparr>) db) (\<lambda>db'.
                      Inr ((peers', hashes, Some er), w\<lparr>w_db := db', w_pools := ps\<rparr>))
                | None \<Rightarrow>
                    bindP (set_peermap h \<lparr>CompleteN = complete,
                        IncompleteN = word_of_nat (fmsize m) - complete, Peers = m\<rparr> db) (\<lambda>db'.
                      decode_hashes e bs3 peers' (Suc hashes) (w\<lparr>w_db := db', w_pools := ps\<rparr>)))))))"
  by pat_completeness auto
termination
  by (relation "measure (\<lambda>(e, bs, p, h, w). length bs)")
    (auto simp: read_full_Inr dest!: decode_peers_shorter)

declare decode_hashes.simps [simp del]

definition decodeBinary :: "env \<Rightarrow> bytes \<Rightarrow> memory world \<Rightarrow> panic + (decode_result \<times> memory world)" where
  "decodeBinary e data w = decode_hashes e data 0 0 (w\<lparr>w_db := memory_make (w_db w)\<rparr>)"

section \<open>Round trip\<close>

lemma read_field_append [simp]: "length xs = n \<Longrightarrow> read_field n (xs @ ys) = Inr (xs, ys)"
  by (simp add: read_field_def)

lemma read_field_Cons [simp]: "read_field (Suc 0) (x # ys) = Inr ([x], ys)"
  using read_field_append [of "[x]" "Suc 0" ys] by simp

lemma sint_addr_len: "sint (word_of_nat (length (AsSlice a)) :: int32) = int (length (AsSlice a))"
  by (simp add: length_AsSlice)

lemma decode_encode_peer:
  assumes "plain_addr (IP p)"
  shows "decode_peer (drop (length i) (encode_peer i p) @ rest) = Inr (p, rest)"
proof -
  have len: "sint (get_le (put_le 4 (word_of_nat (length (AsSlice (IP p))) :: int32)) :: int32)
      = int (length (AsSlice (IP p)))"
    by (simp add: sint_addr_len)
  show ?thesis
    unfolding decode_peer_def encode_peer_def
    using assms len by (simp add: Let_def bool_byte_def)
qed

lemma encode_peer_split: "encode_peer i p @ rest = i @ drop (length i) (encode_peer i p) @ rest"
  by (simp add: encode_peer_def)

lemma decode_encode_peers:
  assumes "set ids \<subseteq> fmdom' m"
    and "\<forall>i p. fmlookup m i = Some p \<longrightarrow> length i = 20 \<and> plain_addr (IP p)" and "pools_ok lim ps"
  shows "\<exists>ps'. decode_peers e (length ids) (encode_peers m ids @ rest) (m0, c, k, Some ps) =
      Inr (None, rest, fold (\<lambda>i. fmupd i (the (fmlookup m i))) ids m0,
        c + word_of_nat (length (filter (\<lambda>i. Complete (the (fmlookup m i))) ids)), k + length ids, Some ps')
    \<and> pools_ok lim ps'"
  using assms(1,3)
proof (induction ids arbitrary: m0 c k ps)
  case Nil
  then show ?case by auto
next
  case (Cons i ids)
  from Cons.prems(1) obtain p where p: "fmlookup m i = Some p" by (auto simp: fmlookup_dom'_iff)
  with assms(2) have i: "length i = 20" "plain_addr (IP p)" by auto
  obtain x ps1 where g: "get_peer e (Some ps) = Inr (x, Some ps1)" "pools_ok lim ps1"
    using Cons.prems(2) by (rule get_peer_ok)
  let ?rest = "encode_peers m ids @ rest"
  have "encode_peers m (i # ids) @ rest = i @ drop (length i) (encode_peer i p) @ ?rest"
    by (simp add: p encode_peer_split [of i p])
  with i g(1) decode_encode_peer [OF i(2), of i ?rest]
  have "decode_peers e (length (i # ids)) (encode_peers m (i # ids) @ rest) (m0, c, k, Some ps) =
      decode_peers e (length ids) ?rest
        (fmupd i p m0, if Complete p then c + 1 else c, Suc k, Some ps1)" by simp
  moreover from Cons.IH [of ps1 "fmupd i p m0" "if Complete p then c + 1 else c" "Suc k"] Cons.prems g(2)
  obtain ps' where "decode_peers e (length ids) ?rest
        (fmupd i p m0, if Complete p then c + 1 else c, Suc k, Some ps1) =
      Inr (None, rest, fold (\<lambda>i. fmupd i (the (fmlookup m i))) ids (fmupd i p m0),
        (if Complete p then c + 1 else c) +
          word_of_nat (length (filter (\<lambda>i. Complete (the (fmlookup m i))) ids)), Suc k + length ids, Some ps')"
      "pools_ok lim ps'" by auto
  ultimately show ?case using p by auto
qed

text \<open>Databases that a snapshot keeps: no address zones and counts that fit their 32 bits.\<close>

definition snapshot_ok :: "(hash, peermap) fmap \<Rightarrow> bool" where
  "snapshot_ok m \<longleftrightarrow>
     (\<forall>h pm. fmlookup m h = Some pm \<longrightarrow> length h = 20 \<and> pm_ok pm \<and> fmsize (Peers pm) < 2 ^ 32 \<and>
        (\<forall>i p. fmlookup (Peers pm) i = Some p \<longrightarrow> plain_addr (IP p)))"

lemma length_filter_enumerates:
  assumes "enumerates ids m"
  shows "length (filter (\<lambda>i. P (the (fmlookup m i))) ids) = fmcount P m"
proof -
  have "{i. \<exists>p. fmlookup m i = Some p \<and> P p} = set (filter (\<lambda>i. P (the (fmlookup m i))) ids)"
    using assms by (auto simp: enumerates_def fmlookup_dom'_iff)
  then show ?thesis
    unfolding fmcount_def using assms by (simp add: enumerates_def distinct_card del: set_filter)
qed

lemma incomplete_from_size:
  "pm_ok pm \<Longrightarrow> word_of_nat (fmsize (Peers pm)) - CompleteN pm = IncompleteN pm"
  by (simp add: pm_ok_def flip: fmcount_not [of Complete])

lemma read_hash_count:
  fixes n :: uint32
  assumes "length h = 20"
  shows "read_full 20 (h @ put_le 4 n @ rest) = Inr (h, put_le 4 n @ rest)"
    and "read_full 4 (put_le 4 n @ rest) = Inr (put_le 4 n, rest)"
  using assms by simp_all

text \<open>Decoding what was written for one infohash.\<close>

lemma decode_one_hash:
  assumes ok: "snapshot_ok m" "env_ok e" and h: "fmlookup m h = Some pm"
    and w: "hashmap (w_db w) = Some m0" "w_pools w = Some ps" "pools_ok lim ps"
  shows "\<exists>ps'. pools_ok lim ps' \<and>
    decode_hashes e' (h @ put_le 4 (word_of_nat (fmsize (Peers pm)) :: uint32) @
        encode_peers (Peers pm) (peer_order e (Peers pm)) @ rest) k n w =
      decode_hashes e' rest (k + fmsize (Peers pm)) (Suc n)
        (w\<lparr>w_db := (w_db w)\<lparr>hashmap := Some (fmupd h pm m0)\<rparr>, w_pools := Some ps'\<rparr>)"
proof -
  from ok(1) h have pm: "length h = 20" "pm_ok pm" "fmsize (Peers pm) < 2 ^ 32"
    "\<forall>i p. fmlookup (Peers pm) i = Some p \<longrightarrow> plain_addr (IP p)" by (auto simp: snapshot_ok_def)
  let ?ids = "peer_order e (Peers pm)" and ?n = "word_of_nat (fmsize (Peers pm)) :: uint32"
  have ids: "enumerates ?ids (Peers pm)" using ok(2) by (simp add: env_ok_def)
  then have sub: "set ?ids \<subseteq> fmdom' (Peers pm)" by (simp add: enumerates_def)
  have peers: "\<forall>i p. fmlookup (Peers pm) i = Some p \<longrightarrow> length i = 20 \<and> plain_addr (IP p)"
    using pm by (auto simp: pm_ok_def)
  obtain ps' where ps': "pools_ok lim ps'"
    "decode_peers e' (length ?ids) (encode_peers (Peers pm) ?ids @ rest) (fmempty, 0, k, Some ps) =
       Inr (None, rest, Peers pm, CompleteN pm, k + fmsize (Peers pm), Some ps')"
    using decode_encode_peers [OF sub peers w(3), of e' rest fmempty 0 k] pm(2)
    by (auto simp: fold_upd_all [OF ids] length_filter_enumerates [OF ids] enumerates_length [OF ids] pm_ok_def)
  have n: "unat ?n = length ?ids"
    using pm(3) by (simp add: enumerates_length [OF ids] unat_of_nat)
  let ?db = "(w_db w)\<lparr>hashmap := Some (fmupd h empty_peermap m0)\<rparr>"
  have "\<lparr>CompleteN = CompleteN pm, IncompleteN = word_of_nat (fmsize (Peers pm)) - CompleteN pm,
      Peers = Peers pm\<rparr> = pm" by (simp add: incomplete_from_size [OF pm(2)])
  moreover have "Peers empty_peermap = fmempty" by (simp add: empty_peermap_def)
  ultimately have "decode_hashes e' (h @ put_le 4 ?n @ encode_peers (Peers pm) ?ids @ rest) k n w =
      decode_hashes e' rest (k + fmsize (Peers pm)) (Suc n)
        (w\<lparr>w_db := (w_db w)\<lparr>hashmap := Some (fmupd h pm m0)\<rparr>, w_pools := Some ps'\<rparr>)"
    using pm(1) ps'(2) n w(1,2)
    by (subst decode_hashes.simps) (simp add: makePeermap_def set_peermap_def)
  with ps'(1) show ?thesis by blast
qed

lemma decode_hashes_Nil: "decode_hashes e [] k n w = Inr ((k, n, None), w)"
  by (subst decode_hashes.simps) (simp add: read_full_def)

lemma decode_encode_hashes:
  assumes ok: "snapshot_ok m" "env_ok e" and "set hs \<subseteq> fmdom' m"
    and "hashmap (w_db w) = Some m0" "w_pools w = Some ps" "pools_ok lim ps"
  shows "\<exists>ps'. pools_ok lim ps' \<and>
    decode_hashes e' (encode_hashes e m hs) k n w =
      Inr ((k + sum_list (map (\<lambda>h. fmsize (Peers (the (fmlookup m h)))) hs), n + length hs, None),
        w\<lparr>w_db := (w_db w)\<lparr>hashmap := Some (fold (\<lambda>h. fmupd h (the (fmlookup m h))) hs m0)\<rparr>,
          w_pools := Some ps'\<rparr>)"
  using assms(3-)
proof (induction hs arbitrary: k n w m0 ps)
  case Nil
  then show ?case by (auto simp: decode_hashes_Nil)
next
  case (Cons h hs)
  from Cons.prems(1) obtain pm where pm: "fmlookup m h = Some pm" by (auto simp: fmlookup_dom'_iff)
  obtain ps' where s: "pools_ok lim ps'" "decode_hashes e' (encode_hashes e m (h # hs)) k n w =
      decode_hashes e' (encode_hashes e m hs) (k + fmsize (Peers pm)) (Suc n)
        (w\<lparr>w_db := (w_db w)\<lparr>hashmap := Some (fmupd h pm m0)\<rparr>, w_pools := Some ps'\<rparr>)"
    using decode_one_hash [OF ok pm Cons.prems(2-4), of e' "encode_hashes e m hs" k n] pm by auto
  let ?w = "w\<lparr>w_db := (w_db w)\<lparr>hashmap := Some (fmupd h pm m0)\<rparr>, w_pools := Some ps'\<rparr>"
  from Cons.IH [of ?w "fmupd h pm m0" ps' "k + fmsize (Peers pm)" "Suc n"] Cons.prems(1) s(1)
  show ?case unfolding s(2) by (auto simp: pm add.assoc)
qed

text \<open>The whole snapshot, into any database with initialised pools.\<close>

lemma decode_encode:
  assumes ok: "snapshot_ok (entries db)" "env_ok e" "enumerates hs (entries db)"
    and "w_pools w = Some ps" "pools_ok lim ps"
  obtains ps' where "pools_ok lim ps'"
    "decodeBinary e' (encodeBinary e hs db) w =
      Inr ((swarm_total (\<lambda>_. True) (mem_swarm db), fmsize (entries db), None),
        w\<lparr>w_db := \<lparr>hashmap = Some (entries db)\<rparr>, w_pools := Some ps'\<rparr>)"
proof -
  let ?m = "entries db" and ?w = "w\<lparr>w_db := memory_make (w_db w)\<rparr>"
  have hs: "distinct hs" "set hs = fmdom' ?m" using ok(3) by (auto simp: enumerates_def)
  have "sum_list (map (\<lambda>h. fmsize (Peers (the (fmlookup ?m h)))) hs) = swarm_total (\<lambda>_. True) (mem_swarm db)"
    unfolding swarm_total_rows hs(2) [symmetric] fmsize_fmcount
    using hs(1) by (rule sum_list_distinct_conv_sum_set)
  with decode_encode_hashes [OF ok(1,2), of hs ?w fmempty ps lim e' 0 0] assms(4,5) hs(2)
    fold_upd_all [OF ok(3)] enumerates_length [OF ok(3)]
  show ?thesis
    by (auto simp: decodeBinary_def encodeBinary_def memory_make_def intro: that)
qed

section \<open>The snapshot as a codec\<close>

text \<open>
  The decoder seen from outside: the stored map it leaves behind, or nothing when it panics or
  reports an error. The receiving world is any one with initialised pools.
\<close>

definition snapshot_decode :: "env \<Rightarrow> memory world \<Rightarrow> bytes \<Rightarrow> unit + (hash, peermap) fmap" where
  "snapshot_decode e w bs =
     (case decodeBinary e bs w of
        Inr ((_, _, None), w') \<Rightarrow> Inr (entries (w_db w'))
      | _ \<Rightarrow> Inl ())"

definition snapshot_encode :: "env \<Rightarrow> (hash, peermap) fmap \<Rightarrow> bytes" where
  "snapshot_encode e m = encodeBinary e (sorted_order m) \<lparr>hashmap = Some m\<rparr>"

interpretation snapshot: codec "snapshot_encode e" "snapshot_decode e' w"
  "\<lambda>m. snapshot_ok m \<and> env_ok e \<and> (\<exists>lim ps. w_pools w = Some ps \<and> pools_ok lim ps)" for e e' w
proof unfold_locales
  fix m
  assume a: "snapshot_ok m \<and> env_ok e \<and> (\<exists>lim ps. w_pools w = Some ps \<and> pools_ok lim ps)"
  then obtain lim ps where ps: "w_pools w = Some ps" "pools_ok lim ps" by blast
  have e: "entries \<lparr>hashmap = Some m\<rparr> = m" by (simp add: entries_def)
  obtain ps' where "decodeBinary e' (encodeBinary e (sorted_order m) \<lparr>hashmap = Some m\<rparr>) w =
      Inr ((swarm_total (\<lambda>_. True) (mem_swarm \<lparr>hashmap = Some m\<rparr>), fmsize m, None),
        w\<lparr>w_db := \<lparr>hashmap = Some m\<rparr>, w_pools := Some ps'\<rparr>)"
    using decode_encode [of "\<lparr>hashmap = Some m\<rparr>" e "sorted_order m" w ps lim e'] a ps e by auto
  then show "snapshot_decode e' w (snapshot_encode e m) = Inr m"
    by (simp add: snapshot_decode_def snapshot_encode_def e)
qed

text \<open>Two different databases never have the same snapshot.\<close>

lemma snapshot_injective:
  assumes "snapshot_ok m" "snapshot_ok m'" "env_ok e" "snapshot_encode e m = snapshot_encode e m'"
  shows "m = m'"
  by (rule snapshot.encode_inj [where w = start_world])
    (use assms pools_ok_Initialize in \<open>auto simp: start_world_def\<close>)

section \<open>Arbitrary snapshots\<close>

text \<open>What every loaded database satisfies, whatever the bytes were.\<close>

definition peers_wf :: "(peer_id, peer) fmap \<Rightarrow> bool" where
  "peers_wf m \<longleftrightarrow> (\<forall>i p. fmlookup m i = Some p \<longrightarrow> length i = 20 \<and> plain_addr (IP p))"

definition rows_wf :: "memory \<Rightarrow> bool" where
  "rows_wf db \<longleftrightarrow>
     hashmap db \<noteq> None \<and>
     (\<forall>h pm. fmlookup (entries db) h = Some pm \<longrightarrow> length h = 20 \<and> peers_wf (Peers pm))"

lemma peers_wf_empty [simp]: "peers_wf fmempty"
  by (simp add: peers_wf_def)

lemma set_peermap_rows:
  assumes "rows_wf db" "length h = 20" "peers_wf (Peers pm)"
  obtains db' where "set_peermap h pm db = Inr db'" "rows_wf db'"
proof -
  from assms(1) obtain m where "hashmap db = Some m" by (auto simp: rows_wf_def)
  with assms show ?thesis
    by (intro that [of "db\<lparr>hashmap := Some (fmupd h pm m)\<rparr>"])
      (auto simp: set_peermap_def rows_wf_def entries_def)
qed

lemma decode_peers_safe:
  assumes "pools_ok lim ps" and "peers_wf m"
  shows "decode_peers e n bs (m, c, k, Some ps) = Inl NegativeLength \<or>
    (\<exists>er bs' m' c' k' ps'. decode_peers e n bs (m, c, k, Some ps) = Inr (er, bs', m', c', k', Some ps') \<and>
       pools_ok lim ps' \<and> peers_wf m')"
  using assms
proof (induction n arbitrary: bs m c k ps)
  case 0
  then show ?case by simp
next
  case (Suc n)
  obtain x ps1 where g: "get_peer e (Some ps) = Inr (x, Some ps1)" "pools_ok lim ps1"
    using Suc.prems(1) by (rule get_peer_ok)
  show ?case
  proof (cases "read_full 20 bs")
    case (Inl er)
    with Suc.prems show ?thesis by simp
  next
    case (Inr y)
    then obtain i bs1 where i: "read_full 20 bs = Inr (i, bs1)" by (cases y) simp
    then have len: "length i = 20" by (simp add: read_full_Inr)
    show ?thesis
    proof (cases "decode_peer bs1")
      case (Inl stop)
      with Suc.prems i g show ?thesis by (cases stop) (auto dest: decode_peer_panic)
    next
      case (Inr z)
      then obtain p bs2 where z: "decode_peer bs1 = Inr (p, bs2)" by (cases z) simp
      have "peers_wf (fmupd i p m)"
        using Suc.prems(2) len decode_peer_plain [OF z] by (simp add: peers_wf_def)
      from Suc.IH [OF g(2) this] show ?thesis using i g(1) z by simp
    qed
  qed
qed

definition loads :: "int64 \<Rightarrow> stats \<Rightarrow> panic + (decode_result \<times> memory world) \<Rightarrow> bool" where
  "loads lim st r \<longleftrightarrow>
     r = Inl NegativeLength \<or>
     (\<exists>x w'. r = Inr (x, w') \<and> rows_wf (w_db w') \<and> w_stats w' = st \<and>
        (\<exists>ps'. w_pools w' = Some ps' \<and> pools_ok lim ps'))"

lemma decode_hashes_safe:
  assumes "rows_wf (w_db w)" "w_pools w = Some ps" "pools_ok lim ps"
  shows "loads lim (w_stats w) (decode_hashes e bs k n w)"
  using assms
proof (induction "length bs" arbitrary: bs k n w ps rule: less_induct)
  case less
  show ?case
  proof (cases "read_full 20 bs")
    case (Inl er)
    with less.prems show ?thesis by (cases er) (subst decode_hashes.simps, simp add: loads_def)+
  next
    case (Inr y)
    then obtain h bs1 where h: "read_full 20 bs = Inr (h, bs1)" by (cases y) simp
    then have len: "length h = 20" "length bs1 < length bs" by (auto simp: read_full_Inr)
    have em: "Peers empty_peermap = fmempty" by (simp add: empty_peermap_def)
    obtain db where db: "set_peermap h empty_peermap (w_db w) = Inr db" "rows_wf db"
      using set_peermap_rows [OF less.prems(1) len(1), of empty_peermap] em by auto
    then have mk: "makePeermap h (w_db w) = Inr (empty_peermap, db)" by (simp add: makePeermap_def)
    show ?thesis
    proof (cases "read_full 4 bs1")
      case (Inl er)
      with h mk db less.prems show ?thesis by (subst decode_hashes.simps) (simp add: loads_def)
    next
      case (Inr z)
      then obtain cnt bs2 where c: "read_full 4 bs1 = Inr (cnt, bs2)" by (cases z) simp
      let ?d = "decode_peers e (unat (get_le cnt :: uint32)) bs2 (fmempty, 0, k, Some ps)"
      consider "?d = Inl NegativeLength"
        | er bs3 m' c' k' ps' where "?d = Inr (er, bs3, m', c', k', Some ps')" "pools_ok lim ps'" "peers_wf m'"
        using decode_peers_safe [OF less.prems(3) peers_wf_empty] by blast
      then show ?thesis
      proof cases
        case 1
        with h mk c less.prems show ?thesis
          by (subst decode_hashes.simps) (simp add: loads_def em)
      next
        case (2 er bs3 m' c' k' ps')
        have short: "length bs3 < length bs"
          using decode_peers_shorter [OF 2(1)] c len by (auto simp: read_full_Inr)
        show ?thesis
        proof (cases er)
          case None
          let ?pm = "\<lparr>CompleteN = c', IncompleteN = word_of_nat (fmsize m') - c', Peers = m'\<rparr>"
          obtain db' where db': "set_peermap h ?pm db = Inr db'" "rows_wf db'"
            using set_peermap_rows [OF db(2) len(1), of ?pm] 2(3) by auto
          with None h mk c 2 less.prems less.hyps [OF short, of "w\<lparr>w_db := db', w_pools := Some ps'\<rparr>" ps' k' "Suc n"]
          show ?thesis by (subst decode_hashes.simps) (simp add: em)
        next
          case (Some er')
          obtain db' where db': "set_peermap h (empty_peermap\<lparr>Peers := m'\<rparr>) db = Inr db'" "rows_wf db'"
            using set_peermap_rows [OF db(2) len(1), of "empty_peermap\<lparr>Peers := m'\<rparr>"] 2(3) by auto
          with Some h mk c 2 less.prems show ?thesis
            by (subst decode_hashes.simps) (simp add: em loads_def)
        qed
      qed
    qed
  qed
qed

text \<open>Loading before the pools exist.\<close>

lemma decode_hashes_nil_pools:
  assumes ok: "snapshot_ok m" "env_ok e" and "set hs \<subseteq> fmdom' m" and "hashmap (w_db w) = Some m0"
    and "w_pools w = None" and "\<exists>h \<in> set hs. \<exists>pm. fmlookup m h = Some pm \<and> Peers pm \<noteq> fmempty"
  shows "decode_hashes e' (encode_hashes e m hs) k n w = Inl NilDereference"
  using assms(3-)
proof (induction hs arbitrary: k n w m0)
  case Nil
  then show ?case by simp
next
  case (Cons h hs)
  from Cons.prems(1) obtain pm where pm: "fmlookup m h = Some pm" by (auto simp: fmlookup_dom'_iff)
  with ok(1) have wf: "length h = 20" "fmsize (Peers pm) < 2 ^ 32" "pm_ok pm" by (auto simp: snapshot_ok_def)
  let ?ids = "peer_order e (Peers pm)" and ?n = "word_of_nat (fmsize (Peers pm)) :: uint32"
  have ids: "enumerates ?ids (Peers pm)" using ok(2) by (simp add: env_ok_def)
  have n: "unat ?n = length ?ids" using wf(2) by (simp add: enumerates_length [OF ids] unat_of_nat)
  have em: "Peers empty_peermap = fmempty" by (simp add: empty_peermap_def)
  show ?case
  proof (cases ?ids)
    case Nil
    then have "Peers pm = fmempty" using enumerates_length [OF ids] by (simp flip: fmsize_0_iff)
    with Cons.prems(4) pm have "\<exists>h \<in> set hs. \<exists>pm. fmlookup m h = Some pm \<and> Peers pm \<noteq> fmempty" by auto
    with Cons.IH [of "w\<lparr>w_db := (w_db w)\<lparr>hashmap := Some (fmupd h \<lparr>CompleteN = 0,
          IncompleteN = 0, Peers = fmempty\<rparr> m0)\<rparr>, w_pools := None\<rparr>"
          "fmupd h \<lparr>CompleteN = 0, IncompleteN = 0, Peers = fmempty\<rparr> m0"] Cons.prems pm wf n Nil
    show ?thesis
      by (subst decode_hashes.simps)
        (simp add: \<open>Peers pm = fmempty\<close> makePeermap_def set_peermap_def em)
  next
    case (Cons i ids')
    then obtain p where "fmlookup (Peers pm) i = Some p" using enumerates_lookup [OF ids, of i] by auto
    with wf(3) have i: "length i = 20" "fmlookup (Peers pm) i = Some p" by (auto simp: pm_ok_def)
    let ?rest = "encode_peers (Peers pm) ids' @ encode_hashes e m hs"
    have "encode_peers (Peers pm) ?ids @ encode_hashes e m hs = i @ drop (length i) (encode_peer i p) @ ?rest"
      using Cons i(2) by (simp add: encode_peer_split [of i p])
    then have "decode_peers e' (length ?ids) (encode_peers (Peers pm) ?ids @ encode_hashes e m hs)
        (fmempty, 0, k, None) = Inl NilDereference"
      using Cons i(1) by (simp add: get_peer_def)
    with Cons.prems(2,3) pm wf n show ?thesis
      by (subst decode_hashes.simps) (simp add: makePeermap_def set_peermap_def em)
  qed
qed

section \<open>Properties\<close>

text \<open>
  C24: loading the snapshot of a well-formed database, in whatever order it was written,
  restores exactly that database, its counters included, and reports the number of its peers
  and infohashes; the statistics are not touched.
\<close>

theorem snapshot_roundtrip:
  assumes "mem_ok db" and "snapshot_ok (entries db)" and "env_ok e" and "enumerates hs (entries db)"
    and "world_ok mem_ok lim w"
  shows "\<exists>w'. decodeBinary e' (encodeBinary e hs db) w =
      Inr ((swarm_total (\<lambda>_. True) (mem_swarm db), Hashes db, None), w') \<and>
    w_db w' = db \<and> w_stats w' = w_stats w \<and> world_ok mem_ok lim w'"
proof -
  obtain ps where ps: "w_pools w = Some ps" "pools_ok lim ps"
    using assms(5) by (auto simp: world_ok_def)
  obtain ps' where r: "pools_ok lim ps'" "decodeBinary e' (encodeBinary e hs db) w =
      Inr ((swarm_total (\<lambda>_. True) (mem_swarm db), fmsize (entries db), None),
        w\<lparr>w_db := \<lparr>hashmap = Some (entries db)\<rparr>, w_pools := Some ps'\<rparr>)"
    using assms(2-4) ps by (rule decode_encode)
  have "\<lparr>hashmap = Some (entries db)\<rparr> = db"
    using assms(1) by (cases db) (auto simp: mem_ok_def entries_def)
  with r assms(1) show ?thesis by (simp add: Hashes_def world_ok_def)
qed

lemma two_peers_snapshot [simp]: "length h = 20 \<Longrightarrow> snapshot_ok (fmupd h two_peers fmempty)"
proof -
  have "fmsize (Peers two_peers) < 2 ^ 32"
    by (simp add: two_peers_def fmsize_fmcount fmcount_upd fmdrop_fmupd)
  moreover have "fmlookup (Peers two_peers) i = Some p \<Longrightarrow> plain_addr (IP p)" for i p
    by (auto simp: two_peers_def split: if_splits)
  ultimately show "length h = 20 \<Longrightarrow> snapshot_ok (fmupd h two_peers fmempty)"
    by (auto simp: snapshot_ok_def)
qed

lemma one_hash_mem_ok [simp]: "length h = 20 \<Longrightarrow> mem_ok (w_db (one_hash_world h two_peers))"
  using one_hash_world_ok [OF _ two_peers_ok] by (simp add: world_ok_def)

theorem snapshot_roundtrip_witness:
  "\<exists>w' r. decodeBinary (sample_env 0) (encodeBinary (sample_env 0) [replicate 20 3]
      (w_db (one_hash_world (replicate 20 3) two_peers))) start_world = Inr (r, w') \<and>
    w_db w' = w_db (one_hash_world (replicate 20 3) two_peers)"
  using snapshot_roundtrip [of "w_db (one_hash_world (replicate 20 3) two_peers)" "sample_env 0"
      "[replicate 20 3]" 200 start_world "sample_env 0"]
  by auto

text \<open>
  C29: whatever the bytes are, loading a snapshot returns: it either panics on a negative
  address length, its only panic once the pools exist, or leaves a made database whose
  infohashes and peer ids have 20 bytes and whose addresses are valid, with the statistics as
  they were, together with the counts or the error it met.
\<close>

theorem decodeBinary_safe:
  assumes "w_pools w = Some ps" and "pools_ok lim ps"
  shows "decodeBinary e data w = Inl NegativeLength \<or>
    (\<exists>x w'. decodeBinary e data w = Inr (x, w') \<and> rows_wf (w_db w') \<and> w_stats w' = w_stats w)"
proof -
  have "rows_wf (w_db (w\<lparr>w_db := memory_make (w_db w)\<rparr>))"
    by (simp add: rows_wf_def memory_make_def entries_def)
  from decode_hashes_safe [OF this, of ps lim e data 0 0] assms
  show ?thesis by (auto simp: decodeBinary_def loads_def)
qed

theorem decodeBinary_safe_witness:
  "\<exists>x w'. decodeBinary (sample_env 0) [1, 2, 3] start_world = Inr (x, w') \<and> rows_wf (w_db w')"
proof -
  have "decodeBinary (sample_env 0) [1, 2, 3] start_world \<noteq> Inl NegativeLength"
    unfolding decodeBinary_def by (subst decode_hashes.simps) (simp add: read_full_def)
  with decodeBinary_safe [of start_world "Initialize 200" 200 "sample_env 0" "[1, 2, 3]"]
  show ?thesis by (auto simp: start_world_def pools_ok_Initialize)
qed

text \<open>
  Loading the snapshot of any database that holds a peer panics with a nil dereference
  when the peer pool has not been initialised yet.
\<close>

theorem load_before_pools_panics:
  assumes "snapshot_ok (entries db)" and "env_ok e" and "enumerates hs (entries db)"
    and "mem_swarm db h i \<noteq> None" and "w_pools w = None"
  shows "decodeBinary e' (encodeBinary e hs db) w = Inl NilDereference"
proof -
  from assms(4) obtain pm where pm: "fmlookup (entries db) h = Some pm" "fmlookup (Peers pm) i \<noteq> None"
    by (auto simp: mem_swarm_def split: option.splits)
  then have "Peers pm \<noteq> fmempty" by auto
  moreover have "h \<in> set hs" using pm(1) enumerates_lookup [OF assms(3)] by auto
  ultimately show ?thesis
    unfolding decodeBinary_def encodeBinary_def
    using assms(1,2,3,5) pm(1)
    by (intro decode_hashes_nil_pools) (auto simp: enumerates_def memory_make_def)
qed

theorem load_before_pools_panics_witness:
  "decodeBinary (sample_env 0) (encodeBinary (sample_env 0) [replicate 20 3]
      (w_db (one_hash_world (replicate 20 3) two_peers))) (start_world\<lparr>w_pools := None\<rparr>) = Inl NilDereference"
proof (rule load_before_pools_panics [of _ _ _ "replicate 20 3" "replicate 20 1"])
  show "mem_swarm (w_db (one_hash_world (replicate 20 3) two_peers)) (replicate 20 3) (replicate 20 1) \<noteq> None"
    by (simp add: mem_swarm_def two_peers_def)
qed simp_all

end
