(* ===== verification/ConnDb.thy ===== *)
theory ConnDb
  imports Config "HOL-Library.Product_Lexorder"
begin

text \<open>
  The connection database of the UDP tracker, tracker/udp/conndb.go: which connection id was
  issued to which address, its trimming, its binary encoding and the files it is kept in.
  The binary encoding round-trips, and what \<open>check\<close> accepts is characterised by the history
  of issued ids and trims.
\<close>

section \<open>State and operations\<close>

type_synonym addr_port = "addr \<times> uint16"

record connectionInfo =
  ID :: int64
  TimeStamp :: int64

record connectionDatabase =
  connectionMap :: "(addr_port, connectionInfo) fmap"
  expiry :: int64

definition conn_make :: "connectionDatabase \<Rightarrow> connectionDatabase" where
  "conn_make db = db\<lparr>connectionMap := fmempty\<rparr>"

definition newConnectionDatabase :: "duration \<Rightarrow> connectionDatabase" where
  "newConnectionDatabase d = conn_make \<lparr>connectionMap = fmempty, expiry = Seconds d\<rparr>"

definition conn_size :: "connectionDatabase \<Rightarrow> nat" where
  "conn_size db = fmsize (connectionMap db)"

text \<open>\<open>add\<close> is given the time it reads from the clock.\<close>

definition conn_add :: "int64 \<Rightarrow> int64 \<Rightarrow> addr_port \<Rightarrow> connectionDatabase \<Rightarrow> connectionDatabase" where
  "conn_add t i a db = db\<lparr>connectionMap := fmupd a \<lparr>ID = i, TimeStamp = t\<rparr> (connectionMap db)\<rparr>"

definition conn_check :: "int64 \<Rightarrow> addr_port \<Rightarrow> connectionDatabase \<Rightarrow> bool" where
  "conn_check i a db =
     (case fmlookup (connectionMap db) a of None \<Rightarrow> False | Some cid \<Rightarrow> ID cid = i)"

text \<open>\<open>trim\<close> visits the map in some order and deletes while it does.\<close>

definition conn_expired :: "int64 \<Rightarrow> int64 \<Rightarrow> connectionInfo \<Rightarrow> bool" where
  "conn_expired ex epoch c \<longleftrightarrow> sint (epoch - TimeStamp c) > sint ex"

fun conn_trim_loop ::
  "int64 \<Rightarrow> addr_port list \<Rightarrow> nat \<Rightarrow> connectionDatabase \<Rightarrow> nat \<times> connectionDatabase" where
  "conn_trim_loop epoch [] n db = (n, db)"
| "conn_trim_loop epoch (k # ks) n db =
     (case fmlookup (connectionMap db) k of
        None \<Rightarrow> conn_trim_loop epoch ks n db
      | Some conn \<Rightarrow>
          (if conn_expired (expiry db) epoch conn
           then conn_trim_loop epoch ks (Suc n) (db\<lparr>connectionMap := fmdrop k (connectionMap db)\<rparr>)
           else conn_trim_loop epoch ks n db))"

definition conn_trim :: "int64 \<Rightarrow> addr_port list \<Rightarrow> connectionDatabase \<Rightarrow> nat \<times> connectionDatabase" where
  "conn_trim epoch ks db = conn_trim_loop epoch ks 0 db"

section \<open>Binary encoding\<close>

definition marshall_conn :: "addr_port \<Rightarrow> connectionInfo \<Rightarrow> bytes" where
  "marshall_conn a c =
     (let addrSlice = AsSlice (fst a) in
      [of_nat (length addrSlice)] @ addrSlice @ put_le 2 (snd a) @
      put_le 8 (ID c) @ put_le 8 (TimeStamp c))"

definition marshallBinary :: "addr_port list \<Rightarrow> connectionDatabase \<Rightarrow> bytes" where
  "marshallBinary ks db =
     put_le 4 (of_nat (conn_size db) :: uint32) @
     concat (map (\<lambda>a. case fmlookup (connectionMap db) a of
                        None \<Rightarrow> [] | Some c \<Rightarrow> marshall_conn a c) ks)"

datatype conn_error = ConnRead io_error | ConnAddr

definition conn_read :: "nat \<Rightarrow> bytes \<Rightarrow> conn_error + (bytes \<times> bytes)" where
  "conn_read n bs = (case read_full n bs of Inl e \<Rightarrow> Inl (ConnRead e) | Inr x \<Rightarrow> Inr x)"

definition unmarshall_conn :: "bytes \<Rightarrow> conn_error + ((addr_port \<times> connectionInfo) \<times> bytes)" where
  "unmarshall_conn bs =
     bindP (conn_read 1 bs) (\<lambda>(addrSliceLen, bs1).
     bindP (conn_read (unat (hd addrSliceLen)) bs1) (\<lambda>(addrSlice, bs2).
     bindP (conn_read 2 bs2) (\<lambda>(port, bs3).
     bindP (conn_read 16 bs3) (\<lambda>(info, bs4).
     case AddrFromSlice addrSlice of
       None \<Rightarrow> Inl ConnAddr
     | Some a \<Rightarrow>
         Inr (((a, get_le port),
               \<lparr>ID = get_le (take 8 info), TimeStamp = get_le (drop 8 info)\<rparr>), bs4)))))"

text \<open>An error keeps the connections read before it.\<close>

fun unmarshall_conns ::
  "nat \<Rightarrow> bytes \<Rightarrow> connectionDatabase \<Rightarrow> conn_error option \<times> connectionDatabase" where
  "unmarshall_conns 0 bs db = (None, db)"
| "unmarshall_conns (Suc n) bs db =
     (case unmarshall_conn bs of
        Inl er \<Rightarrow> (Some er, db)
      | Inr ((a, c), bs') \<Rightarrow>
          unmarshall_conns n bs' (db\<lparr>connectionMap := fmupd a c (connectionMap db)\<rparr>))"

definition unmarshallBinary ::
  "bytes \<Rightarrow> connectionDatabase \<Rightarrow> conn_error option \<times> connectionDatabase" where
  "unmarshallBinary data db =
     (case conn_read 4 data of
        Inl er \<Rightarrow> (Some er, conn_make db)
      | Inr (n, bs) \<Rightarrow> unmarshall_conns (unat (get_le n :: uint32)) bs (conn_make db))"

section \<open>Files\<close>

text \<open>
  The connection database is kept in a file in \<open>encoding/gob\<close> form. The gob coder and the
  operating system's files are parameters: \<open>gob_enc\<close> and \<open>gob_dec\<close> code a map, \<open>gob_dec\<close>
  returns what it decoded before an error as well. \<open>Encode\<close>'s error is ignored by the code, so
  only the bytes it wrote matter.
\<close>

type_synonym conn_map = "(addr_port, connectionInfo) fmap"

record gob_coder =
  gob_enc :: "conn_map \<Rightarrow> bytes"
  gob_dec :: "bytes \<Rightarrow> conn_map \<Rightarrow> bool \<times> conn_map"

record 'fs file_system =
  WriteFile :: "bytes \<Rightarrow> bytes \<Rightarrow> 'fs \<Rightarrow> bool \<times> 'fs"
  ReadFile :: "bytes \<Rightarrow> 'fs \<Rightarrow> bytes option"

datatype conn_file_error = WriteFailed | ReadFailed | DecodeFailed

definition gobEncode :: "gob_coder \<Rightarrow> connectionDatabase \<Rightarrow> bytes" where
  "gobEncode g db = gob_enc g (connectionMap db)"

definition gobDecode :: "gob_coder \<Rightarrow> bytes \<Rightarrow> connectionDatabase \<Rightarrow> bool \<times> connectionDatabase" where
  "gobDecode g data db =
     (let db' = conn_make db in
      case gob_dec g data (connectionMap db') of (ok, m) \<Rightarrow> (ok, db'\<lparr>connectionMap := m\<rparr>))"

definition writeToFile ::
  "gob_coder \<Rightarrow> 'fs file_system \<Rightarrow> bytes \<Rightarrow> connectionDatabase \<Rightarrow> 'fs \<Rightarrow> conn_file_error option \<times> 'fs" where
  "writeToFile g F path db fs =
     (case WriteFile F path (gobEncode g db) fs of
        (ok, fs') \<Rightarrow> (if ok then None else Some WriteFailed, fs'))"

definition loadFromFile ::
  "gob_coder \<Rightarrow> 'fs file_system \<Rightarrow> bytes \<Rightarrow> 'fs \<Rightarrow> connectionDatabase
     \<Rightarrow> conn_file_error option \<times> connectionDatabase" where
  "loadFromFile g F path fs db =
     (case ReadFile F path fs of
        None \<Rightarrow> (Some ReadFailed, db)
      | Some data \<Rightarrow>
          (case gobDecode g data db of
             (ok, db') \<Rightarrow> (if ok then None else Some DecodeFailed, db')))"

section \<open>Trimming removes the expired connections\<close>

text \<open>Address-port pairs are quantified over whole in this theory.\<close>

declare split_paired_All [simp del] split_paired_Ex [simp del]

lemma conn_trim_loop_result:
  "conn_trim_loop t ks n db = (n', db') \<Longrightarrow> distinct ks \<Longrightarrow>
   expiry db' = expiry db \<and>
   n' = n + card {a \<in> set ks. \<exists>c. fmlookup (connectionMap db) a = Some c \<and> conn_expired (expiry db) t c} \<and>
   (\<forall>a. fmlookup (connectionMap db') a =
      (case fmlookup (connectionMap db) a of
         None \<Rightarrow> None
       | Some c \<Rightarrow> if a \<in> set ks \<and> conn_expired (expiry db) t c then None else Some c))"
proof (induction t ks n db arbitrary: n' db' rule: conn_trim_loop.induct)
  case (1 t n db)
  then show ?case by (auto split: option.splits)
next
  case (2 t k ks n db)
  let ?E = "\<lambda>K. {a \<in> K. \<exists>c. fmlookup (connectionMap db) a = Some c \<and> conn_expired (expiry db) t c}"
  show ?case
  proof (cases "\<exists>c. fmlookup (connectionMap db) k = Some c \<and> conn_expired (expiry db) t c")
    case True
    then obtain c where c: "fmlookup (connectionMap db) k = Some c" "conn_expired (expiry db) t c" by blast
    let ?db = "db\<lparr>connectionMap := fmdrop k (connectionMap db)\<rparr>"
    have run: "conn_trim_loop t ks (Suc n) ?db = (n', db')" and ks: "distinct ks" "k \<notin> set ks"
      using 2(4,5) c by simp_all
    note ih = 2(2) [OF c run ks(1)]
    have "{a \<in> set ks. \<exists>c. fmlookup (connectionMap ?db) a = Some c \<and> conn_expired (expiry db) t c} = ?E (set ks)"
      using ks by auto
    moreover have "?E (set (k # ks)) = insert k (?E (set ks))" using c by auto
    moreover have "card (insert k (?E (set ks))) = Suc (card (?E (set ks)))" using ks by simp
    ultimately show ?thesis using ih c by (auto split: option.splits)
  next
    case False
    then have "?E (set (k # ks)) = ?E (set ks)" by auto
    moreover have "conn_trim_loop t ks n db = (n', db')" "distinct ks"
      using 2(4,5) False by (auto split: option.splits if_splits)
    ultimately show ?thesis
      using 2(1) [of n' db'] 2(3) [of _ n' db'] False
      by (cases "fmlookup (connectionMap db) k") (auto split: option.splits)
  qed
qed

lemma conn_trim_result:
  assumes "conn_trim t ks db = (n, db')" and "enumerates ks (connectionMap db)"
  shows "db' = db\<lparr>connectionMap := fmfilter (\<lambda>a. \<not> conn_expired (expiry db) t (the (fmlookup (connectionMap db) a)))
      (connectionMap db)\<rparr>"
    and "n = fmcount (conn_expired (expiry db) t) (connectionMap db)"
proof -
  have ks: "distinct ks" "set ks = fmdom' (connectionMap db)"
    using assms(2) by (auto simp: enumerates_def)
  note r = conn_trim_loop_result [OF assms(1) [unfolded conn_trim_def] ks(1)]
  have in_ks: "fmlookup (connectionMap db) a = Some c \<Longrightarrow> a \<in> set ks" for a c
    by (auto simp: ks(2) fmlookup_dom'_iff)
  have "connectionMap db' = fmfilter (\<lambda>a. \<not> conn_expired (expiry db) t (the (fmlookup (connectionMap db) a)))
      (connectionMap db)"
    using r by (intro fmap_ext) (auto split: option.splits dest: in_ks)
  with r show "db' = db\<lparr>connectionMap := fmfilter (\<lambda>a. \<not> conn_expired (expiry db) t (the (fmlookup (connectionMap db) a)))
      (connectionMap db)\<rparr>" by (cases db; cases db') simp
  have "{a \<in> set ks. \<exists>c. fmlookup (connectionMap db) a = Some c \<and> conn_expired (expiry db) t c} =
      {a. \<exists>c. fmlookup (connectionMap db) a = Some c \<and> conn_expired (expiry db) t c}"
    using in_ks by auto
  with r show "n = fmcount (conn_expired (expiry db) t) (connectionMap db)" by (simp add: fmcount_def)
qed

lemma conn_trim_lookup:
  assumes "enumerates ks (connectionMap db)"
  shows "fmlookup (connectionMap (snd (conn_trim t ks db))) a = Some c \<longleftrightarrow>
      fmlookup (connectionMap db) a = Some c \<and> \<not> conn_expired (expiry db) t c"
    and "expiry (snd (conn_trim t ks db)) = expiry db"
  using conn_trim_result(1) [OF prod.collapse [symmetric] assms, of t] by auto

section \<open>The binary round trip\<close>

text \<open>Maps that the encoding keeps: no address zones and a count that fits 32 bits.\<close>

definition conn_map_ok :: "conn_map \<Rightarrow> bool" where
  "conn_map_ok m \<longleftrightarrow> fmsize m < 2 ^ 32 \<and> (\<forall>a c. fmlookup m a = Some c \<longrightarrow> plain_addr (fst a))"

lemma conn_read_append [simp]: "length xs = n \<Longrightarrow> conn_read n (xs @ ys) = Inr (xs, ys)"
  by (simp add: conn_read_def)

lemma conn_read_Cons [simp]: "conn_read (Suc 0) (x # ys) = Inr ([x], ys)"
  using conn_read_append [of "[x]" "Suc 0" ys] by simp

lemma unat_addr_len [simp]: "unat (of_nat (length (AsSlice a)) :: byte) = length (AsSlice a)"
  using length_AsSlice_le [of a] by (simp add: unat_of_nat)

lemma unmarshall_marshall_conn:
  assumes "plain_addr (fst a)"
  shows "unmarshall_conn (marshall_conn a c @ rest) = Inr ((a, c), rest)"
proof -
  have "conn_read 16 (put_le 8 (ID c) @ put_le 8 (TimeStamp c) @ rest) =
      Inr (put_le 8 (ID c) @ put_le 8 (TimeStamp c), rest)"
    using conn_read_append [of "put_le 8 (ID c) @ put_le 8 (TimeStamp c)" 16 rest] by simp
  with assms show ?thesis
    by (cases a) (simp add: unmarshall_conn_def marshall_conn_def Let_def)
qed

lemma unmarshall_marshall_conns:
  assumes "set ks \<subseteq> fmdom' m" and "\<forall>a c. fmlookup m a = Some c \<longrightarrow> plain_addr (fst a)"
  shows "unmarshall_conns (length ks)
      (concat (map (\<lambda>a. case fmlookup m a of None \<Rightarrow> [] | Some c \<Rightarrow> marshall_conn a c) ks) @ rest) db =
    (None, db\<lparr>connectionMap := fold (\<lambda>a. fmupd a (the (fmlookup m a))) ks (connectionMap db)\<rparr>)"
  using assms(1)
proof (induction ks arbitrary: db)
  case Nil
  then show ?case by simp
next
  case (Cons k ks)
  from Cons.prems obtain c where "fmlookup m k = Some c" by (auto simp: fmlookup_dom'_iff)
  with Cons assms(2) show ?case by (simp add: unmarshall_marshall_conn)
qed

lemma unmarshall_marshall:
  assumes "conn_map_ok (connectionMap db)" and "enumerates ks (connectionMap db)"
  shows "unmarshallBinary (marshallBinary ks db) db' = (None, db'\<lparr>connectionMap := connectionMap db\<rparr>)"
proof -
  have n: "unat (of_nat (conn_size db) :: uint32) = length ks"
    using assms by (simp add: conn_map_ok_def conn_size_def enumerates_length unat_of_nat)
  show ?thesis
    using unmarshall_marshall_conns [of ks "connectionMap db" "[]" "conn_make db'"] assms
    by (simp add: unmarshallBinary_def marshallBinary_def n conn_map_ok_def enumerates_def
        fold_upd_all conn_make_def)
qed

text \<open>
  A map has many encodings, one for each order. A fixed order makes the encoding a codec: two
  different maps never share one.
\<close>

definition conn_decode :: "connectionDatabase \<Rightarrow> bytes \<Rightarrow> conn_error + conn_map" where
  "conn_decode db bs =
     (case unmarshallBinary bs db of
        (None, db') \<Rightarrow> Inr (connectionMap db') | (Some er, _) \<Rightarrow> Inl er)"

interpretation conndb: codec "\<lambda>m. marshallBinary (ord m) \<lparr>connectionMap = m, expiry = 0\<rparr>"
  "conn_decode db" "\<lambda>m. conn_map_ok m \<and> enumerates (ord m) m" for ord db
  by unfold_locales (simp add: conn_decode_def unmarshall_marshall)

section \<open>What the database accepts, by its history\<close>

datatype conn_event = Issued int64 int64 addr_port | Trimmed int64

inductive conn_step :: "connectionDatabase \<Rightarrow> conn_event \<Rightarrow> connectionDatabase \<Rightarrow> bool" where
  issue: "conn_step db (Issued t i a) (conn_add t i a db)"
| trim: "enumerates ks (connectionMap db) \<Longrightarrow> conn_step db (Trimmed t) (snd (conn_trim t ks db))"

inductive conn_run :: "connectionDatabase \<Rightarrow> conn_event list \<Rightarrow> connectionDatabase \<Rightarrow> bool" where
  start: "conn_run db [] db"
| step: "conn_run db evs db' \<Longrightarrow> conn_step db' ev db'' \<Longrightarrow> conn_run db (evs @ [ev]) db''"

text \<open>
  A connection stands after a history when it was issued to the address, nothing was issued to
  that address since, and no trim since then found it expired.
\<close>

definition stands :: "int64 \<Rightarrow> conn_event list \<Rightarrow> addr_port \<Rightarrow> connectionInfo \<Rightarrow> bool" where
  "stands ex evs a c \<longleftrightarrow>
     (\<exists>pre post. evs = pre @ Issued (TimeStamp c) (ID c) a # post \<and>
        (\<forall>ev \<in> set post. case ev of Issued _ _ b \<Rightarrow> b \<noteq> a | Trimmed t \<Rightarrow> \<not> conn_expired ex t c))"

lemma stands_Nil [simp]: "\<not> stands ex [] a c"
  by (simp add: stands_def)

lemma stands_snoc:
  "stands ex (evs @ [ev]) a c \<longleftrightarrow>
     ev = Issued (TimeStamp c) (ID c) a \<or>
     (stands ex evs a c \<and> (case ev of Issued _ _ b \<Rightarrow> b \<noteq> a | Trimmed t \<Rightarrow> \<not> conn_expired ex t c))"
    (is "?l \<longleftrightarrow> ?r")
proof
  assume ?l
  then obtain pre post where s: "evs @ [ev] = pre @ Issued (TimeStamp c) (ID c) a # post"
    "\<forall>ev \<in> set post. case ev of Issued _ _ b \<Rightarrow> b \<noteq> a | Trimmed t \<Rightarrow> \<not> conn_expired ex t c"
    unfolding stands_def by blast
  show ?r
  proof (cases post rule: rev_cases)
    case Nil
    with s show ?thesis by simp
  next
    case (snoc post' ev')
    with s have "evs = pre @ Issued (TimeStamp c) (ID c) a # post'" "ev' = ev" by simp_all
    with s(2) snoc show ?thesis unfolding stands_def by auto
  qed
next
  assume ?r
  then show ?l
  proof
    assume "ev = Issued (TimeStamp c) (ID c) a"
    then show ?l unfolding stands_def by (intro exI [of _ evs] exI [of _ "[]"]) simp
  next
    assume r: "stands ex evs a c \<and> (case ev of Issued _ _ b \<Rightarrow> b \<noteq> a | Trimmed t \<Rightarrow> \<not> conn_expired ex t c)"
    then obtain pre post where "evs = pre @ Issued (TimeStamp c) (ID c) a # post"
      "\<forall>ev \<in> set post. case ev of Issued _ _ b \<Rightarrow> b \<noteq> a | Trimmed t \<Rightarrow> \<not> conn_expired ex t c"
      unfolding stands_def by blast
    with r show ?l
      unfolding stands_def by (intro exI [of _ pre] exI [of _ "post @ [ev]"]) auto
  qed
qed

lemma conn_run_stands:
  assumes "conn_run db0 evs db" and "connectionMap db0 = fmempty"
  shows "expiry db = expiry db0 \<and>
    (\<forall>a c. fmlookup (connectionMap db) a = Some c \<longleftrightarrow> stands (expiry db0) evs a c)"
  using assms
proof (induction rule: conn_run.induct)
  case (start db)
  then show ?case by simp
next
  case (step db evs db' ev db'')
  then have ih: "expiry db' = expiry db"
    "\<forall>a c. fmlookup (connectionMap db') a = Some c \<longleftrightarrow> stands (expiry db) evs a c" by simp_all
  from step.hyps(2) show ?case
  proof cases
    case (issue t i a)
    have "fmlookup (connectionMap (conn_add t i a db')) b = Some c \<longleftrightarrow>
        (if b = a then c = \<lparr>ID = i, TimeStamp = t\<rparr> else stands (expiry db) evs b c)" for b c
      using ih(2) by (auto simp: conn_add_def)
    with issue ih(1) show ?thesis
      by (auto simp: stands_snoc conn_add_def)
  next
    case (trim ks t)
    with ih conn_trim_lookup [OF trim(3), of t] show ?thesis by (auto simp: stands_snoc)
  qed
qed

section \<open>Properties\<close>

text \<open>
  C23: after any history of issued ids and trims, \<open>check\<close> accepts an id from an address if and
  only if it is the id issued last to that address and no later trim found it older than the
  configured expiry. In particular an id outlives its expiry until the next trim.
\<close>

theorem check_iff_issued:
  assumes "conn_run (newConnectionDatabase d) evs db"
  shows "conn_check i a db \<longleftrightarrow>
    (\<exists>pre t post. evs = pre @ Issued t i a # post \<and>
       (\<forall>ev \<in> set post. case ev of Issued _ _ b \<Rightarrow> b \<noteq> a
          | Trimmed t' \<Rightarrow> \<not> conn_expired (Seconds d) t' \<lparr>ID = i, TimeStamp = t\<rparr>))"
proof -
  have "connectionMap (newConnectionDatabase d) = fmempty"
    by (simp add: newConnectionDatabase_def conn_make_def)
  from conn_run_stands [OF assms this]
  have "fmlookup (connectionMap db) a = Some c \<longleftrightarrow> stands (Seconds d) evs a c" for c
    by (simp add: newConnectionDatabase_def conn_make_def)
  then have "conn_check i a db \<longleftrightarrow> (\<exists>c. ID c = i \<and> stands (Seconds d) evs a c)"
    by (fastforce simp: conn_check_def split: option.splits)
  also have "\<dots> \<longleftrightarrow> (\<exists>t. stands (Seconds d) evs a \<lparr>ID = i, TimeStamp = t\<rparr>)"
    by (metis connectionInfo.select_convs(1) connectionInfo.surjective unit.exhaust)
  finally show ?thesis unfolding stands_def by auto
qed

theorem check_iff_issued_witness:
  "\<exists>db. conn_run (newConnectionDatabase 1800000000000) [Issued 100 7 (Addr4 1, 9), Trimmed 1900] db \<and>
     conn_check 7 (Addr4 1, 9) db"
proof -
  let ?db = "conn_add 100 7 (Addr4 1, 9) (newConnectionDatabase 1800000000000)"
  let ?db' = "snd (conn_trim 1900 [(Addr4 1, 9)] ?db)"
  have "enumerates [(Addr4 1, 9)] (connectionMap ?db)"
    by (simp add: enumerates_def conn_add_def newConnectionDatabase_def conn_make_def)
  then have "conn_run (newConnectionDatabase 1800000000000) (([] @ [Issued 100 7 (Addr4 1, 9)]) @ [Trimmed 1900]) ?db'"
    by (rule conn_run.step [OF conn_run.step [OF conn_run.start conn_step.issue] conn_step.trim])
  then have run: "conn_run (newConnectionDatabase 1800000000000) [Issued 100 7 (Addr4 1, 9), Trimmed 1900] ?db'"
    by simp
  have "\<not> conn_expired (Seconds 1800000000000) 1900 \<lparr>ID = 7, TimeStamp = 100\<rparr>"
    by (simp add: conn_expired_def Seconds_def)
  then have "conn_check 7 (Addr4 1, 9) ?db'"
    unfolding check_iff_issued [OF run]
    by (intro exI [of _ "[]"] exI [of _ "100"] exI [of _ "[Trimmed 1900]"]) simp
  with run show ?thesis by auto
qed

text \<open>
  \<open>trim\<close> removes exactly the connections older than the expiry, whatever the order in
  which the map is visited, and reports their number.
\<close>

theorem conn_trim_filters:
  assumes "enumerates ks (connectionMap db)"
  shows "conn_trim t ks db =
    (fmcount (conn_expired (expiry db) t) (connectionMap db),
     db\<lparr>connectionMap := fmfilter (\<lambda>a. \<not> conn_expired (expiry db) t (the (fmlookup (connectionMap db) a)))
       (connectionMap db)\<rparr>)"
  using conn_trim_result [OF _ assms, of t] by (metis prod.collapse)

theorem conn_trim_filters_witness:
  "conn_trim 1901 [(Addr4 1, 9)] (conn_add 100 7 (Addr4 1, 9) (newConnectionDatabase 1800000000000)) =
    (1, newConnectionDatabase 1800000000000)"
proof -
  let ?db = "conn_add 100 7 (Addr4 1, 9) (newConnectionDatabase 1800000000000)"
  have db: "?db = \<lparr>connectionMap = fmupd (Addr4 1, 9) \<lparr>ID = 7, TimeStamp = 100\<rparr> fmempty, expiry = 1800\<rparr>"
    by (simp add: conn_add_def newConnectionDatabase_def conn_make_def Seconds_def)
  have "enumerates [(Addr4 1, 9)] (connectionMap ?db)" by (simp add: db enumerates_def)
  note r = conn_trim_filters [OF this, of 1901]
  have "fmcount (conn_expired (expiry ?db) 1901) (connectionMap ?db) = 1"
    by (simp add: db conn_expired_def fmcount_upd)
  moreover have "fmfilter (\<lambda>a. \<not> conn_expired (expiry ?db) 1901 (the (fmlookup (connectionMap ?db) a)))
      (connectionMap ?db) = fmempty"
    by (rule fmap_ext) (simp add: db conn_expired_def)
  ultimately have "conn_trim 1901 [(Addr4 1, 9)] ?db = (1, ?db\<lparr>connectionMap := fmempty\<rparr>)"
    using r by simp
  then show ?thesis by (simp add: conn_add_def newConnectionDatabase_def conn_make_def Seconds_def)
qed

text \<open>
  The binary encoding of a connection database, written in any order, decodes without an
  error to the same connections, whatever the receiving database held before.
\<close>

theorem conn_binary_roundtrip:
  assumes "conn_map_ok (connectionMap db)" and "enumerates ks (connectionMap db)"
  shows "unmarshallBinary (marshallBinary ks db) db' = (None, db'\<lparr>connectionMap := connectionMap db\<rparr>)"
  using assms by (rule unmarshall_marshall)

theorem conn_binary_roundtrip_witness:
  "unmarshallBinary (marshallBinary [(Addr6 1 [], 9)] (conn_add 100 7 (Addr6 1 [], 9) (newConnectionDatabase 5)))
     (newConnectionDatabase 5) =
   (None, conn_add 100 7 (Addr6 1 [], 9) (newConnectionDatabase 5))"
proof -
  let ?db = "conn_add 100 7 (Addr6 1 [], 9) (newConnectionDatabase 5)"
  have "conn_map_ok (connectionMap ?db)"
    by (auto simp: conn_map_ok_def conn_add_def newConnectionDatabase_def conn_make_def
        fmsize_fmcount fmcount_upd split: if_splits)
  moreover have "enumerates [(Addr6 1 [], 9)] (connectionMap ?db)"
    by (simp add: enumerates_def conn_add_def newConnectionDatabase_def conn_make_def)
  ultimately show ?thesis
    by (subst conn_binary_roundtrip) (simp_all add: conn_add_def newConnectionDatabase_def conn_make_def)
qed

text \<open>
  A connection database that was written to its file is loaded back unchanged, given a
  file system that returns what was written and a gob coder that decodes what it encoded.
\<close>

theorem conn_file_roundtrip:
  assumes "writeToFile g F path db fs = (None, fs')"
    and "\<And>data fs fs'. WriteFile F path data fs = (True, fs') \<Longrightarrow> ReadFile F path fs' = Some data"
    and "gob_dec g (gob_enc g (connectionMap db)) fmempty = (True, connectionMap db)"
  shows "loadFromFile g F path fs' db' = (None, db'\<lparr>connectionMap := connectionMap db\<rparr>)"
proof -
  have "WriteFile F path (gobEncode g db) fs = (True, fs')"
    using assms(1) by (auto simp: writeToFile_def split: prod.splits if_splits)
  from assms(2) [OF this] show ?thesis
    using assms(3) by (simp add: loadFromFile_def gobDecode_def gobEncode_def conn_make_def)
qed

text \<open>
  A coder and a file system that satisfy this: the binary encoding with the addresses in order, and
  one file.
\<close>

definition sample_gob :: gob_coder where
  "sample_gob =
     \<lparr>gob_enc = \<lambda>m. marshallBinary (sorted_order m) \<lparr>connectionMap = m, expiry = 0\<rparr>,
      gob_dec = \<lambda>bs m.
        case unmarshallBinary bs \<lparr>connectionMap = m, expiry = 0\<rparr> of (er, db) \<Rightarrow> (er = None, connectionMap db)\<rparr>"

definition one_file :: "bytes file_system" where
  "one_file = \<lparr>WriteFile = \<lambda>p d fs. (True, d), ReadFile = \<lambda>p fs. Some fs\<rparr>"

definition sample_conns :: connectionDatabase where
  "sample_conns = conn_add 100 7 (Addr6 1 [], 9) (conn_add 99 8 (Addr4 5, 6881) (newConnectionDatabase 5))"

lemma sample_gob_ok: "conn_map_ok m \<Longrightarrow> gob_dec sample_gob (gob_enc sample_gob m) m' = (True, m)"
  by (simp add: sample_gob_def unmarshall_marshall)

lemma sample_conns_ok: "conn_map_ok (connectionMap sample_conns)"
  by (auto simp: sample_conns_def conn_map_ok_def conn_add_def newConnectionDatabase_def conn_make_def
      fmsize_fmcount fmcount_upd split: if_splits)

lemma one_file_written:
  "writeToFile g one_file path db fs = (None, gobEncode g db)"
  "WriteFile one_file path data fs = (True, fs') \<Longrightarrow> ReadFile one_file path fs' = Some data"
  by (simp_all add: writeToFile_def one_file_def)

theorem conn_file_roundtrip_witness:
  "loadFromFile sample_gob one_file [] (gobEncode sample_gob sample_conns) (newConnectionDatabase 5) =
   (None, sample_conns)"
  using conn_file_roundtrip [OF one_file_written(1), of "[]" sample_gob sample_conns "newConnectionDatabase 5",
      OF one_file_written(2) sample_gob_ok [OF sample_conns_ok]]
  by (simp add: sample_conns_def conn_add_def newConnectionDatabase_def conn_make_def)

declare split_paired_All [simp] split_paired_Ex [simp]

end
