(* ===== verification/UdpProtocol.thy ===== *)
theory UdpProtocol
  imports GoStd
begin

text \<open>
  The messages of the UDP tracker protocol, tracker/udp/protocol: their structs, and their
  encoders and decoders field by field, with the panics and the errors of the decoders. The
  messages round-trip; the scrape response is encoded behind a block of zero bytes.
\<close>

section \<open>Types and constants\<close>

type_synonym action = int32
type_synonym event = int32

definition EventNone :: event where [simp, eval_simps]: "EventNone = 0"
definition EventCompleted :: event where [simp, eval_simps]: "EventCompleted = 1"
definition EventStarted :: event where [simp, eval_simps]: "EventStarted = 2"
definition EventStopped :: event where [simp, eval_simps]: "EventStopped = 3"

definition ActionConnect :: action where [simp, eval_simps]: "ActionConnect = 0"
definition ActionAnnounce :: action where [simp, eval_simps]: "ActionAnnounce = 1"
definition ActionScrape :: action where [simp, eval_simps]: "ActionScrape = 2"
definition ActionError :: action where [simp, eval_simps]: "ActionError = 3"
definition ActionHeartbeat :: action where [simp, eval_simps]: "ActionHeartbeat = 4"

definition HeartbeatRequest :: bytes where
  "HeartbeatRequest = [0, 0, 0, 0, 0, 0, 0, 0, 0, 0, 0, ucast ActionHeartbeat, 0, 0, 0, 0]"

definition HeartbeatOk :: bytes where
  "HeartbeatOk = [0xFF]"

definition UDPTrackerMagic :: int64 where
  "UDPTrackerMagic = 0x41727101980"

record announce =
  a_ConnectionID :: int64
  a_Action :: action
  a_TransactionID :: int32
  a_InfoHash :: bytes
  a_PeerID :: bytes
  a_Downloaded :: int64
  a_Left :: int64
  a_Uploaded :: int64
  a_Event :: event
  a_IP :: uint32
  a_Key :: uint32
  a_NumWant :: int32
  a_Port :: uint16

record announce_resp =
  ar_Action :: action
  ar_TransactionID :: int32
  ar_Interval :: int32
  ar_Leechers :: int32
  ar_Seeders :: int32
  ar_Peers :: bytes

record connect =
  c_ProtcolID :: int64
  c_Action :: action
  c_TransactionID :: int32

record connect_resp =
  cr_Action :: action
  cr_TransactionID :: int32
  cr_ConnectionID :: int64

record error_msg =
  e_Action :: action
  e_TransactionID :: int32
  e_ErrorString :: bytes

record scrape =
  s_ConnectionID :: int64
  s_Action :: action
  s_TransactionID :: int32
  s_InfoHashes :: "bytes list"

record scrape_info =
  si_Complete :: int32
  si_Incomplete :: int32
  si_Downloaded :: int32

record scrape_resp =
  sr_Action :: action
  sr_TransactionID :: int32
  sr_Info :: "scrape_info list"

text \<open>The zero values that the handlers declare before decoding.\<close>

definition zero_announce :: announce where
  "zero_announce =
     \<lparr>a_ConnectionID = 0, a_Action = 0, a_TransactionID = 0, a_InfoHash = replicate 20 0,
      a_PeerID = replicate 20 0, a_Downloaded = 0, a_Left = 0, a_Uploaded = 0, a_Event = 0,
      a_IP = 0, a_Key = 0, a_NumWant = 0, a_Port = 0\<rparr>"

definition zero_connect :: connect where
  "zero_connect = \<lparr>c_ProtcolID = 0, c_Action = 0, c_TransactionID = 0\<rparr>"

definition zero_scrape :: scrape where
  "zero_scrape = \<lparr>s_ConnectionID = 0, s_Action = 0, s_TransactionID = 0, s_InfoHashes = []\<rparr>"

section \<open>Encoders\<close>

text \<open>
  \<open>Marshall\<close> returns an error or the bytes. Writing fixed-size data to a \<open>bytes.Buffer\<close> never
  fails, so the models always return the bytes.
\<close>

type_synonym marshalled = "io_error + bytes"

definition Announce_Marshall :: "announce \<Rightarrow> marshalled" where
  "Announce_Marshall a = Inr (
     put_be 8 (a_ConnectionID a) @ put_be 4 (a_Action a) @ put_be 4 (a_TransactionID a) @
     a_InfoHash a @ a_PeerID a @ put_be 8 (a_Downloaded a) @ put_be 8 (a_Left a) @
     put_be 8 (a_Uploaded a) @ put_be 4 (a_Event a) @ put_be 4 (a_IP a) @ put_be 4 (a_Key a) @
     put_be 4 (a_NumWant a) @ put_be 2 (a_Port a))"

definition AnnounceResp_Marshall :: "announce_resp \<Rightarrow> marshalled" where
  "AnnounceResp_Marshall ar = Inr (
     put_be 4 (ar_Action ar) @ put_be 4 (ar_TransactionID ar) @ put_be 4 (ar_Interval ar) @
     put_be 4 (ar_Leechers ar) @ put_be 4 (ar_Seeders ar) @ ar_Peers ar)"

definition Connect_Marshall :: "connect \<Rightarrow> marshalled" where
  "Connect_Marshall c = Inr (
     put_be 8 (c_ProtcolID c) @ put_be 4 (c_Action c) @ put_be 4 (c_TransactionID c))"

definition ConnectResp_Marshall :: "connect_resp \<Rightarrow> marshalled" where
  "ConnectResp_Marshall cr = Inr (
     put_be 4 (cr_Action cr) @ put_be 4 (cr_TransactionID cr) @ put_be 8 (cr_ConnectionID cr))"

definition Error_Marshall :: "error_msg \<Rightarrow> marshalled" where
  "Error_Marshall e = Inr (
     put_be 4 (e_Action e) @ put_be 4 (e_TransactionID e) @ e_ErrorString e)"

definition put_scrape_info :: "scrape_info \<Rightarrow> bytes" where
  "put_scrape_info i =
     put_be 4 (si_Complete i) @ put_be 4 (si_Incomplete i) @ put_be 4 (si_Downloaded i)"

text \<open>
  The buffer of a scrape response is created from a slice of \<open>8 + 12 n\<close> zero bytes, which
  \<open>bytes.NewBuffer\<close> takes as the buffer's contents: the message is appended to them.
\<close>

definition ScrapeResp_Marshall :: "scrape_resp \<Rightarrow> marshalled" where
  "ScrapeResp_Marshall sr = Inr (
     replicate (8 + length (sr_Info sr) * 12) 0 @
     put_be 4 (sr_Action sr) @ put_be 4 (sr_TransactionID sr) @
     concat (map put_scrape_info (sr_Info sr)))"

section \<open>Decoders\<close>

text \<open>
  A decoder updates the struct it is called on and returns the error it met. \<open>binary.Read\<close> of
  a struct reads all its bytes before it assigns any field.
\<close>

definition announce_of :: "bytes \<Rightarrow> announce" where
  "announce_of d =
     \<lparr>a_ConnectionID = get_be (take 8 d), a_Action = get_be (take 4 (drop 8 d)),
      a_TransactionID = get_be (take 4 (drop 12 d)), a_InfoHash = take 20 (drop 16 d),
      a_PeerID = take 20 (drop 36 d), a_Downloaded = get_be (take 8 (drop 56 d)),
      a_Left = get_be (take 8 (drop 64 d)), a_Uploaded = get_be (take 8 (drop 72 d)),
      a_Event = get_be (take 4 (drop 80 d)), a_IP = get_be (take 4 (drop 84 d)),
      a_Key = get_be (take 4 (drop 88 d)), a_NumWant = get_be (take 4 (drop 92 d)),
      a_Port = get_be (take 2 (drop 96 d))\<rparr>"

text \<open>The error of \<open>binary.Read\<close> is wrapped and dropped: \<open>Announce.Unmarshall\<close> returns nil.\<close>

definition Announce_Unmarshall :: "bytes \<Rightarrow> announce \<Rightarrow> announce \<times> io_error option" where
  "Announce_Unmarshall data a =
     (case read_full 98 data of
        Inl _ \<Rightarrow> (a, None)
      | Inr (d, _) \<Rightarrow> (announce_of d, None))"

definition Connect_Unmarshall :: "bytes \<Rightarrow> connect \<Rightarrow> connect \<times> io_error option" where
  "Connect_Unmarshall data c =
     (case read_full 16 data of
        Inl er \<Rightarrow> (c, Some er)
      | Inr (d, _) \<Rightarrow>
          (\<lparr>c_ProtcolID = get_be (take 8 d), c_Action = get_be (take 4 (drop 8 d)),
            c_TransactionID = get_be (drop 12 d)\<rparr>, None))"

definition ConnectResp_Unmarshall ::
  "bytes \<Rightarrow> connect_resp \<Rightarrow> connect_resp \<times> io_error option" where
  "ConnectResp_Unmarshall data cr =
     (case read_full 16 data of
        Inl er \<Rightarrow> (cr, Some er)
      | Inr (d, _) \<Rightarrow>
          (\<lparr>cr_Action = get_be (take 4 d), cr_TransactionID = get_be (take 4 (drop 4 d)),
            cr_ConnectionID = get_be (drop 8 d)\<rparr>, None))"

text \<open>
  The other decoders read field by field: \<open>read_into n upd\<close> reads \<open>n\<close> bytes and assigns them,
  unless an earlier field has failed.
\<close>

type_synonym 's reading = "bytes \<times> 's \<times> io_error option"

fun read_into :: "nat \<Rightarrow> (bytes \<Rightarrow> 's \<Rightarrow> 's) \<Rightarrow> 's reading \<Rightarrow> 's reading" where
  "read_into n upd (bs, s, Some er) = (bs, s, Some er)"
| "read_into n upd (bs, s, None) =
     (case read_full n bs of
        Inl er \<Rightarrow> (bs, s, Some er)
      | Inr (x, bs') \<Rightarrow> (bs', upd x s, None))"

definition AnnounceResp_Unmarshall ::
  "bytes \<Rightarrow> announce_resp \<Rightarrow> panic + (announce_resp \<times> io_error option)" where
  "AnnounceResp_Unmarshall data ar =
     (if length data < 20 then Inl NegativeLength
      else
        (let n = length data - 20;
             start = (data, ar\<lparr>ar_Peers := replicate n 0\<rparr>, None);
             r1 = read_into 4 (\<lambda>x. ar_Action_update (\<lambda>_. get_be x)) start;
             r2 = read_into 4 (\<lambda>x. ar_TransactionID_update (\<lambda>_. get_be x)) r1;
             r3 = read_into 4 (\<lambda>x. ar_Interval_update (\<lambda>_. get_be x)) r2;
             r4 = read_into 4 (\<lambda>x. ar_Leechers_update (\<lambda>_. get_be x)) r3;
             r5 = read_into 4 (\<lambda>x. ar_Seeders_update (\<lambda>_. get_be x)) r4;
             r6 = read_into n (\<lambda>x. ar_Peers_update (\<lambda>_. x)) r5
         in Inr (snd r6)))"

definition Error_Unmarshall :: "bytes \<Rightarrow> error_msg \<Rightarrow> panic + (error_msg \<times> io_error option)" where
  "Error_Unmarshall data e =
     (if length data < 8 then Inl NegativeLength
      else
        (let n = length data - 8;
             start = (data, e\<lparr>e_ErrorString := replicate n 0\<rparr>, None);
             r1 = read_into 4 (\<lambda>x. e_Action_update (\<lambda>_. get_be x)) start;
             r2 = read_into 4 (\<lambda>x. e_TransactionID_update (\<lambda>_. get_be x)) r1;
             r3 = read_into n (\<lambda>x. e_ErrorString_update (\<lambda>_. x)) r2
         in Inr (snd r3)))"

primrec chunks :: "nat \<Rightarrow> nat \<Rightarrow> bytes \<Rightarrow> bytes list" where
  "chunks n 0 bs = []"
| "chunks n (Suc k) bs = take n bs # chunks n k (drop n bs)"

text \<open>The division rounds towards zero, so a short request asks for no infohash.\<close>

definition Scrape_Unmarshall :: "bytes \<Rightarrow> scrape \<Rightarrow> scrape \<times> io_error option" where
  "Scrape_Unmarshall data s =
     (let k = (length data - 16) div 20;
          start = (data, s\<lparr>s_InfoHashes := replicate k (replicate 20 0)\<rparr>, None);
          r1 = read_into 8 (\<lambda>x. s_ConnectionID_update (\<lambda>_. get_be x)) start;
          r2 = read_into 4 (\<lambda>x. s_Action_update (\<lambda>_. get_be x)) r1;
          r3 = read_into 4 (\<lambda>x. s_TransactionID_update (\<lambda>_. get_be x)) r2;
          r4 = read_into (20 * k) (\<lambda>x. s_InfoHashes_update (\<lambda>_. chunks 20 k x)) r3
      in snd r4)"

section \<open>Round trips\<close>

fun no_error :: "'s \<times> io_error option \<Rightarrow> io_error + 's" where
  "no_error (s, None) = Inr s"
| "no_error (s, Some er) = Inl er"

definition marshalled_bytes :: "marshalled \<Rightarrow> bytes" where
  "marshalled_bytes m = (case m of Inl _ \<Rightarrow> [] | Inr bs \<Rightarrow> bs)"

lemma marshalled_bytes_Inr [simp]: "marshalled_bytes (Inr bs) = bs"
  by (simp add: marshalled_bytes_def)

lemmas marshall_defs = Announce_Marshall_def AnnounceResp_Marshall_def Connect_Marshall_def
  ConnectResp_Marshall_def Error_Marshall_def ScrapeResp_Marshall_def

text \<open>Reading fields of a known prefix.\<close>

lemma read_into_append [simp]:
  "length x = n \<Longrightarrow> read_into n upd (x @ bs, s, None) = (bs, upd x s, None)"
  by simp

lemma read_into_all [simp]: "read_into (length x) upd (x, s, None) = ([], upd x s, None)"
  using read_into_append [of x "length x" upd "[]" s] by simp

definition announce_ok :: "announce \<Rightarrow> bool" where
  "announce_ok a \<longleftrightarrow> length (a_InfoHash a) = 20 \<and> length (a_PeerID a) = 20"

lemma announce_of_marshall:
  "announce_ok a \<Longrightarrow> announce_of (marshalled_bytes (Announce_Marshall a)) = a"
  by (simp add: announce_of_def Announce_Marshall_def announce_ok_def)

lemma length_announce:
  "announce_ok a \<Longrightarrow> length (marshalled_bytes (Announce_Marshall a)) = 98"
  by (simp add: Announce_Marshall_def announce_ok_def)

lemma announce_unmarshall_append:
  assumes "announce_ok a"
  shows "Announce_Unmarshall (marshalled_bytes (Announce_Marshall a) @ rest) a0 = (a, None)"
  using read_full_append [OF length_announce [OF assms], of rest] announce_of_marshall [OF assms]
  by (simp add: Announce_Unmarshall_def)

lemma connect_unmarshall_append:
  "Connect_Unmarshall (marshalled_bytes (Connect_Marshall c) @ rest) c0 = (c, None)"
proof -
  have "length (marshalled_bytes (Connect_Marshall c)) = 16" by (simp add: Connect_Marshall_def)
  from read_full_append [OF this, of rest] show ?thesis
    by (simp add: Connect_Unmarshall_def Connect_Marshall_def)
qed

lemma connect_resp_unmarshall_append:
  "ConnectResp_Unmarshall (marshalled_bytes (ConnectResp_Marshall c) @ rest) c0 = (c, None)"
proof -
  have "length (marshalled_bytes (ConnectResp_Marshall c)) = 16" by (simp add: ConnectResp_Marshall_def)
  from read_full_append [OF this, of rest] show ?thesis
    by (simp add: ConnectResp_Unmarshall_def ConnectResp_Marshall_def)
qed

lemma announce_resp_unmarshall:
  "AnnounceResp_Unmarshall (marshalled_bytes (AnnounceResp_Marshall ar)) ar0 = Inr (ar, None)"
  by (simp add: AnnounceResp_Unmarshall_def AnnounceResp_Marshall_def Let_def
      del: read_into.simps)

lemma error_unmarshall: "Error_Unmarshall (marshalled_bytes (Error_Marshall e)) e0 = Inr (e, None)"
  by (simp add: Error_Unmarshall_def Error_Marshall_def Let_def del: read_into.simps)

interpretation announce_msg: codec "\<lambda>a. marshalled_bytes (Announce_Marshall a)"
  "\<lambda>bs. no_error (Announce_Unmarshall bs a0)" announce_ok for a0
  by unfold_locales (use announce_unmarshall_append [of _ "[]"] in simp)

interpretation connect_msg: codec "\<lambda>c. marshalled_bytes (Connect_Marshall c)"
  "\<lambda>bs. no_error (Connect_Unmarshall bs c0)" "\<lambda>_. True" for c0
  by unfold_locales (use connect_unmarshall_append [of _ "[]"] in simp)

interpretation connect_resp_msg: codec "\<lambda>c. marshalled_bytes (ConnectResp_Marshall c)"
  "\<lambda>bs. no_error (ConnectResp_Unmarshall bs c0)" "\<lambda>_. True" for c0
  by unfold_locales (use connect_resp_unmarshall_append [of _ "[]"] in simp)

interpretation announce_resp_msg: codec "\<lambda>a. marshalled_bytes (AnnounceResp_Marshall a)"
  "\<lambda>bs. case AnnounceResp_Unmarshall bs a0 of Inl _ \<Rightarrow> Inl EOF | Inr r \<Rightarrow> no_error r" "\<lambda>_. True" for a0
  by unfold_locales (simp add: announce_resp_unmarshall)

interpretation error_msg: codec "\<lambda>e. marshalled_bytes (Error_Marshall e)"
  "\<lambda>bs. case Error_Unmarshall bs e0 of Inl _ \<Rightarrow> Inl EOF | Inr r \<Rightarrow> no_error r" "\<lambda>_. True" for e0
  by unfold_locales (simp add: error_unmarshall)

section \<open>Decoding any request\<close>

lemma put_get_take:
  "length x = n \<Longrightarrow> 8 * n \<le> LENGTH('a::len) \<Longrightarrow> put_be n (get_be x :: 'a word) = x"
  using put_get_be [where 'a = 'a, of x] by simp

lemma announce_fields:
  assumes "length d = 98"
  shows "marshalled_bytes (Announce_Marshall (announce_of d)) = d"
proof -
  have "d = take 8 d @ take 4 (drop 8 d) @ take 4 (drop 12 d) @ take 20 (drop 16 d) @
      take 20 (drop 36 d) @ take 8 (drop 56 d) @ take 8 (drop 64 d) @ take 8 (drop 72 d) @
      take 4 (drop 80 d) @ take 4 (drop 84 d) @ take 4 (drop 88 d) @ take 4 (drop 92 d) @
      take 2 (drop 96 d)"
    using assms take_add [of 8 90 d] take_add [of 4 86 "drop 8 d"] take_add [of 4 82 "drop 12 d"]
      take_add [of 20 62 "drop 16 d"] take_add [of 20 42 "drop 36 d"] take_add [of 8 34 "drop 56 d"]
      take_add [of 8 26 "drop 64 d"] take_add [of 8 18 "drop 72 d"] take_add [of 4 14 "drop 80 d"]
      take_add [of 4 10 "drop 84 d"] take_add [of 4 6 "drop 88 d"] take_add [of 4 2 "drop 92 d"]
    by simp
  with assms show ?thesis
    by (simp add: Announce_Marshall_def announce_of_def put_get_take)
qed

lemma length_chunks [simp]: "length (chunks n k bs) = k"
  by (induction k arbitrary: bs) auto

lemma nth_chunks: "i < k \<Longrightarrow> chunks n k bs ! i = take n (drop (n * i) bs)"
proof (induction k arbitrary: i bs)
  case 0
  then show ?case by simp
next
  case (Suc k)
  then show ?case by (cases i) (simp_all add: add.commute)
qed

text \<open>A request of at least 16 bytes, split into its fields.\<close>

lemma scrape_request:
  assumes "16 \<le> length d"
  shows "Scrape_Unmarshall d s =
    (\<lparr>s_ConnectionID = get_be (take 8 d), s_Action = get_be (take 4 (drop 8 d)),
      s_TransactionID = get_be (take 4 (drop 12 d)),
      s_InfoHashes = chunks 20 ((length d - 16) div 20) (take (20 * ((length d - 16) div 20)) (drop 16 d))\<rparr>, None)"
proof -
  let ?k = "(length d - 16) div 20"
  have "20 * ?k \<le> length d - 16" by simp
  with assms have len: "16 + 20 * ?k \<le> length d" by linarith
  have "read_full 8 d = Inr (take 8 d, drop 8 d)"
    "read_full 4 (drop 8 d) = Inr (take 4 (drop 8 d), drop 12 d)"
    "read_full 4 (drop 12 d) = Inr (take 4 (drop 12 d), drop 16 d)"
    "read_full (20 * ?k) (drop 16 d) = Inr (take (20 * ?k) (drop 16 d), drop (20 * ?k) (drop 16 d))"
    using assms len unfolding read_full_def by simp_all
  then show ?thesis by (simp add: Scrape_Unmarshall_def Let_def)
qed

section \<open>Properties\<close>

text \<open>
  Announce requests: decoding an encoded request gives it back whatever follows it in the
  datagram, and encoding what was decoded from any datagram of at least 98 bytes gives back
  its first 98 bytes, so no field is lost, moved or truncated.
\<close>

theorem announce_roundtrip:
  "(announce_ok a \<longrightarrow>
      Announce_Unmarshall (marshalled_bytes (Announce_Marshall a) @ rest) a0 = (a, None)) \<and>
   (98 \<le> length d \<longrightarrow>
      Announce_Marshall (fst (Announce_Unmarshall d a0)) = Inr (take 98 d))"
proof (intro conjI impI)
  assume "announce_ok a"
  then show "Announce_Unmarshall (marshalled_bytes (Announce_Marshall a) @ rest) a0 = (a, None)"
    by (rule announce_unmarshall_append)
next
  assume d: "98 \<le> length d"
  then have "fst (Announce_Unmarshall d a0) = announce_of (take 98 d)"
    by (simp add: Announce_Unmarshall_def read_full_def)
  moreover have "marshalled_bytes (Announce_Marshall (announce_of (take 98 d))) = take 98 d"
    using d by (intro announce_fields) simp
  ultimately show "Announce_Marshall (fst (Announce_Unmarshall d a0)) = Inr (take 98 d)"
    by (simp add: Announce_Marshall_def)
qed

theorem announce_roundtrip_witness:
  "Announce_Unmarshall (marshalled_bytes (Announce_Marshall zero_announce) @ [1, 2]) zero_announce = (zero_announce, None)
   \<and> Announce_Marshall (fst (Announce_Unmarshall (replicate 100 7) zero_announce)) = Inr (replicate 98 7)"
proof -
  have "announce_ok zero_announce" by (simp add: announce_ok_def zero_announce_def)
  with announce_roundtrip [of zero_announce "[1, 2]" zero_announce "replicate 100 7"] show ?thesis by simp
qed

text \<open>
  \<open>Announce.Unmarshall\<close> reports success on a request that is too short, and leaves the
  struct as it was.
\<close>

theorem announce_unmarshall_hides_errors:
  assumes "length d < 98"
  shows "Announce_Unmarshall d a = (a, None)"
  using assms by (simp add: Announce_Unmarshall_def read_full_def)

theorem announce_unmarshall_hides_errors_witness:
  "Announce_Unmarshall [1, 2, 3] zero_announce = (zero_announce, None)"
  by (rule announce_unmarshall_hides_errors) simp

text \<open>
  C30: connect requests and the connect, announce and error responses decode from their
  encodings to the same message, over whatever value the receiver's struct had; the decoders
  of the two variable-length responses panic on every input shorter than their fixed part.
\<close>

theorem response_roundtrips:
  "Connect_Unmarshall (marshalled_bytes (Connect_Marshall c) @ rest) c0 = (c, None) \<and>
   ConnectResp_Unmarshall (marshalled_bytes (ConnectResp_Marshall cr) @ rest) cr0 = (cr, None) \<and>
   AnnounceResp_Unmarshall (marshalled_bytes (AnnounceResp_Marshall ar)) ar0 = Inr (ar, None) \<and>
   Error_Unmarshall (marshalled_bytes (Error_Marshall em)) em0 = Inr (em, None) \<and>
   (AnnounceResp_Unmarshall d ar0 = Inl NegativeLength \<longleftrightarrow> length d < 20) \<and>
   (Error_Unmarshall d em0 = Inl NegativeLength \<longleftrightarrow> length d < 8)"
  by (simp add: connect_unmarshall_append connect_resp_unmarshall_append announce_resp_unmarshall
      error_unmarshall) (simp add: AnnounceResp_Unmarshall_def Error_Unmarshall_def Let_def)

text \<open>
  A scrape request of at least 16 bytes always decodes; the infohashes are the
  consecutive 20-byte blocks after the header, and up to 19 bytes left over are ignored.
\<close>

theorem scrape_request_blocks:
  assumes "16 \<le> length d"
  shows "\<exists>s. Scrape_Unmarshall d s0 = (s, None) \<and> s_TransactionID s = get_be (take 4 (drop 12 d)) \<and>
    length (s_InfoHashes s) = (length d - 16) div 20 \<and>
    (\<forall>i < length (s_InfoHashes s). s_InfoHashes s ! i = take 20 (drop (16 + 20 * i) d))"
proof -
  let ?k = "(length d - 16) div 20"
  have "20 * ?k \<le> length d - 16" by simp
  then have "\<forall>i < ?k. chunks 20 ?k (take (20 * ?k) (drop 16 d)) ! i = take 20 (drop (16 + 20 * i) d)"
    by (auto simp: nth_chunks drop_take add.commute)
  then show ?thesis by (simp add: scrape_request [OF assms])
qed

theorem scrape_request_blocks_witness:
  "\<exists>s. Scrape_Unmarshall (replicate 40 1) zero_scrape = (s, None) \<and> length (s_InfoHashes s) = 1"
  using scrape_request_blocks [of "replicate 40 1" zero_scrape] by auto

text \<open>
  An encoded scrape response starts with as many zero bytes as the whole message needs:
  a client that reads the header sees a connect response with transaction id 0, and the
  message itself follows behind.
\<close>

theorem scrape_response_shifted:
  "\<exists>bs. ScrapeResp_Marshall sr = Inr bs \<and> length bs = 2 * (8 + 12 * length (sr_Info sr)) \<and>
     get_be (take 4 bs) = ActionConnect \<and> get_be (take 4 (drop 4 bs)) = (0 :: int32) \<and>
     drop (8 + 12 * length (sr_Info sr)) bs =
       put_be 4 (sr_Action sr) @ put_be 4 (sr_TransactionID sr) @ concat (map put_scrape_info (sr_Info sr))"
proof -
  have "length (concat (map put_scrape_info infos)) = 12 * length infos" for infos
    by (induction infos) (simp_all add: put_scrape_info_def)
  then show ?thesis
    by (simp add: ScrapeResp_Marshall_def mult.commute numeral_eq_Suc)
qed

end
