(* ===== verification/UdpTracker.thy ===== *)
theory UdpTracker
  imports Database ConnDb UdpProtocol
begin

text \<open>
  The UDP tracker of tracker/udp: its start-up, the dispatch of a datagram, the connect,
  announce and scrape handlers and their error responses, over any database that implements
  the storage interface. A datagram is handled as one step; the datagrams sent are recorded in
  the order of the writes to the socket.
\<close>

section \<open>State\<close>

text \<open>A \<open>net.UDPAddr\<close>: the bytes of its IP and its port.\<close>

record udp_addr =
  ua_IP :: bytes
  ua_Port :: int64

record 'db udp_tracker =
  u_conndb :: connectionDatabase
  u_world :: "'db world"
  u_sent :: "(udp_addr \<times> bytes) list"

definition udp_stats :: "(stats \<Rightarrow> stats) \<Rightarrow> 'db udp_tracker \<Rightarrow> 'db udp_tracker" where
  "udp_stats f u = u\<lparr>u_world := (u_world u)\<lparr>w_stats := f (w_stats (u_world u))\<rparr>\<rparr>"

definition WriteToUDP :: "bytes \<Rightarrow> udp_addr \<Rightarrow> 'db udp_tracker \<Rightarrow> 'db udp_tracker" where
  "WriteToUDP msg remote u = u\<lparr>u_sent := u_sent u @ [(remote, msg)]\<rparr>"

section \<open>Error responses\<close>

definition newClientError :: "bytes \<Rightarrow> int32 \<Rightarrow> 'db udp_tracker \<Rightarrow> bytes \<times> 'db udp_tracker" where
  "newClientError msg txid u =
     (marshalled_bytes (Error_Marshall
        \<lparr>e_Action = ActionError, e_TransactionID = txid, e_ErrorString = msg\<rparr>),
      udp_stats (add_ClientErrors 1) u)"

definition newServerError :: "int32 \<Rightarrow> 'db udp_tracker \<Rightarrow> bytes \<times> 'db udp_tracker" where
  "newServerError txid u =
     (marshalled_bytes (Error_Marshall
        \<lparr>e_Action = ActionError, e_TransactionID = txid, e_ErrorString = lit ''internal err''\<rparr>),
      udp_stats (add_ServerErrors 1) u)"

definition client_error :: "string \<Rightarrow> int32 \<Rightarrow> udp_addr \<Rightarrow> 'db udp_tracker \<Rightarrow> 'db udp_tracker" where
  "client_error msg txid remote u =
     (case newClientError (lit msg) txid u of (bs, u') \<Rightarrow> WriteToUDP bs remote u')"

definition server_error :: "int32 \<Rightarrow> udp_addr \<Rightarrow> 'db udp_tracker \<Rightarrow> 'db udp_tracker" where
  "server_error txid remote u = (case newServerError txid u of (bs, u') \<Rightarrow> WriteToUDP bs remote u')"

text \<open>The end of every handler: send the encoded response, or a server error.\<close>

definition respond ::
  "marshalled \<Rightarrow> int32 \<Rightarrow> udp_addr \<Rightarrow> 'db udp_tracker \<Rightarrow> 'db udp_tracker" where
  "respond m txid remote u =
     (case m of Inl _ \<Rightarrow> server_error txid remote u | Inr bs \<Rightarrow> WriteToUDP bs remote u)"

section \<open>Connect\<close>

definition udp_connect ::
  "env \<Rightarrow> connect \<Rightarrow> udp_addr \<Rightarrow> addr_port \<Rightarrow> 'db udp_tracker \<Rightarrow> 'db udp_tracker" where
  "udp_connect e c remote a u =
     (let u1 = udp_stats (add_Connects 1) u;
          i = Int63 e;
          u2 = u1\<lparr>u_conndb := conn_add (now e) i a (u_conndb u1)\<rparr>;
          resp = \<lparr>cr_Action = ActionConnect, cr_TransactionID = c_TransactionID c, cr_ConnectionID = i\<rparr>
      in respond (ConnectResp_Marshall resp) (c_TransactionID c) remote u2)"

section \<open>Announce\<close>

definition announce_numwant :: "env \<Rightarrow> int32 \<Rightarrow> int32" where
  "announce_numwant e n =
     (if sint n < 1 then ucast (Numwant_Default (conf e))
      else if sint n > sint (ucast (Numwant_Limit (conf e)) :: int32) then ucast (Numwant_Limit (conf e))
      else n)"

definition announce_interval :: "env \<Rightarrow> int32" where
  "announce_interval e =
     (let fuzz = Seconds32 (Announce_Fuzz (conf e)) in
      if sint fuzz > 0
      then Seconds32 (Announce_Base (conf e)) + of_nat (Intn e (nat (sint fuzz)))
      else Seconds32 (Announce_Base (conf e)))"

definition udp_announce ::
  "'db database \<Rightarrow> env \<Rightarrow> announce \<Rightarrow> udp_addr \<Rightarrow> addr_port \<Rightarrow> 'db udp_tracker
     \<Rightarrow> panic + 'db udp_tracker" where
  "udp_announce D e an remote a u =
     (let u1 = udp_stats (add_Announces 1) u; txid = a_TransactionID an in
      if a_Port an = 0 then Inr (client_error ''bad port'' txid remote u1)
      else
        (let an1 = an\<lparr>a_NumWant := announce_numwant e (a_NumWant an)\<rparr> in
         if a_Event an1 = EventStopped then
           bindP (db_Drop D e (a_InfoHash an1) (a_PeerID an1) (u_world u1)) (\<lambda>w.
             let resp = \<lparr>ar_Action = ActionAnnounce, ar_TransactionID = txid, ar_Interval = -1,
                         ar_Leechers = -1, ar_Seeders = -1, ar_Peers = []\<rparr> in
             Inr (respond (AnnounceResp_Marshall resp) txid remote (u1\<lparr>u_world := w\<rparr>)))
         else
           (let peerComplete = (a_Event an1 = EventCompleted \<or> a_Left an1 = 0) in
            bindP (db_Save D e (fst a) (a_Port an1) peerComplete (a_InfoHash an1) (a_PeerID an1)
                     (u_world u1)) (\<lambda>w1.
            case db_HashStats D (a_InfoHash an1) (w_db w1) of (complete, incomplete) \<Rightarrow>
            bindP (db_PeerListBytes D e (a_InfoHash an1) (scast (a_NumWant an1)) w1) (\<lambda>((peers4, peers6), w2).
            let resp = \<lparr>ar_Action = ActionAnnounce, ar_TransactionID = txid,
                        ar_Interval = announce_interval e,
                        ar_Leechers = ucast incomplete, ar_Seeders = ucast complete,
                        ar_Peers = (if Is4 (fst a) then slice_bytes peers4 else slice_bytes peers6)\<rparr>;
                m = AnnounceResp_Marshall resp in
            bindP (put_peerlists peers4 peers6 w2) (\<lambda>w3.
              Inr (respond m txid remote (u1\<lparr>u_world := w3\<rparr>))))))))"

section \<open>Scrape\<close>

text \<open>The loop over the infohashes; a hash of a wrong length ends it with \<open>None\<close>.\<close>

fun scrape_loop ::
  "'db database \<Rightarrow> 'db \<Rightarrow> bytes list \<Rightarrow> scrape_info list \<Rightarrow> scrape_info list option" where
  "scrape_loop D db [] infos = Some infos"
| "scrape_loop D db (h # hs) infos =
     (if length h \<noteq> 20 then None
      else
        (case db_HashStats D h db of (complete, incomplete) \<Rightarrow>
           scrape_loop D db hs
             (infos @ [\<lparr>si_Complete = ucast complete, si_Incomplete = ucast incomplete,
                        si_Downloaded = -1\<rparr>])))"

definition udp_scrape ::
  "'db database \<Rightarrow> scrape \<Rightarrow> udp_addr \<Rightarrow> 'db udp_tracker \<Rightarrow> 'db udp_tracker" where
  "udp_scrape D sc remote u =
     (let u1 = udp_stats (add_Scrapes 1) u; txid = s_TransactionID sc in
      if length (s_InfoHashes sc) > 74 then client_error ''74 hashes max'' txid remote u1
      else
        (case scrape_loop D (w_db (u_world u1)) (s_InfoHashes sc) [] of
           None \<Rightarrow> client_error ''bad hash'' txid remote u1
         | Some infos \<Rightarrow>
             respond (ScrapeResp_Marshall
                \<lparr>sr_Action = ActionScrape, sr_TransactionID = txid, sr_Info = infos\<rparr>)
               txid remote u1))"

section \<open>Dispatch\<close>

definition remote_addr :: "udp_addr \<Rightarrow> addr option" where
  "remote_addr remote = AddrFromSlice (ua_IP remote)"

text \<open>The address and port a request comes from; a bad address is the zero address.\<close>

definition remote_addr_port :: "udp_addr \<Rightarrow> addr_port" where
  "remote_addr_port remote =
     (Unmap (case remote_addr remote of None \<Rightarrow> AddrZero | Some a \<Rightarrow> a), ucast (ua_Port remote))"

definition process ::
  "'db database \<Rightarrow> env \<Rightarrow> bytes \<Rightarrow> udp_addr \<Rightarrow> 'db udp_tracker \<Rightarrow> panic + 'db udp_tracker" where
  "process D e data remote u =
     (if length data \<le> 11 then Inl IndexOutOfRange
      else if length data < 16 then Inl SliceOutOfRange
      else
        (let u0 = udp_stats (add_Hits 1) u;
             action = ucast (data ! 11) :: action;
             txid = get_be (take 4 (drop 12 data));
             u1 = (if remote_addr remote = None then snd (newServerError txid u0) else u0);
             a = remote_addr_port remote in
         if sint action > sint ActionHeartbeat then Inr (client_error ''bad action'' txid remote u1)
         else if action = ActionHeartbeat then Inr (WriteToUDP HeartbeatOk remote u1)
         else if action = ActionConnect then
           (case Connect_Unmarshall data zero_connect of
              (c, er) \<Rightarrow>
                let u2 = (if er \<noteq> None then server_error txid remote u1 else u1) in
                Inr (udp_connect e c remote a u2))
         else
           (let connid = get_be (take 8 data) in
            if \<not> conn_check connid a (u_conndb u1) \<and> ConnDB_Validate (conf e)
            then Inr (client_error ''bad connection id'' txid remote u1)
            else if action = ActionAnnounce then
              (if length data < 98 then Inr (client_error ''bad announce size'' txid remote u1)
               else
                 (case Announce_Unmarshall data zero_announce of
                    (an, Some _) \<Rightarrow> Inr (server_error txid remote u1)
                  | (an, None) \<Rightarrow> udp_announce D e an remote a u1))
            else if action = ActionScrape then
              (case Scrape_Unmarshall data zero_scrape of
                 (sc, Some _) \<Rightarrow> Inr (server_error txid remote u1)
               | (sc, None) \<Rightarrow> Inr (udp_scrape D sc remote u1))
            else Inr u1)))"

text \<open>
  One round of a serving thread: the datagram is cut to the size of the receive buffer and
  dropped when it is shorter than a connect request.
\<close>

definition requestSizeMax :: nat where
  "requestSizeMax = 1496"

definition receive ::
  "'db database \<Rightarrow> env \<Rightarrow> bytes \<Rightarrow> udp_addr \<Rightarrow> 'db udp_tracker \<Rightarrow> panic + 'db udp_tracker" where
  "receive D e datagram remote u =
     (let data = take requestSizeMax datagram in
      if length data > 15 then process D e data remote u else Inr u)"

section \<open>Start-up and shutdown\<close>

definition conn_path :: "bytes \<Rightarrow> bytes" where
  "conn_path cachePath = cachePath @ lit ''conn.db''"

text \<open>\<open>Init\<close>: load the saved connections, or start with none.\<close>

definition udp_init ::
  "gob_coder \<Rightarrow> 'fs file_system \<Rightarrow> bytes \<Rightarrow> 'fs \<Rightarrow> configuration \<Rightarrow> 'db world \<Rightarrow> 'db udp_tracker" where
  "udp_init g F cachePath fs c w =
     (case loadFromFile g F (conn_path cachePath) fs (newConnectionDatabase (ConnDB_Expiry c)) of
        (er, db) \<Rightarrow>
          \<lparr>u_conndb = (if er \<noteq> None then conn_make db else db), u_world = w, u_sent = []\<rparr>)"

text \<open>The tracker may be nil when its server is disabled.\<close>

definition Connections :: "'db udp_tracker option \<Rightarrow> int" where
  "Connections u = (case u of None \<Rightarrow> -1 | Some u \<Rightarrow> int (conn_size (u_conndb u)))"

definition WriteConns ::
  "gob_coder \<Rightarrow> 'fs file_system \<Rightarrow> bytes \<Rightarrow> 'db udp_tracker option \<Rightarrow> 'fs \<Rightarrow> conn_file_error option \<times> 'fs" where
  "WriteConns g F cachePath u fs =
     (case u of
        None \<Rightarrow> (None, fs)
      | Some u \<Rightarrow> writeToFile g F (conn_path cachePath) (u_conndb u) fs)"

end
