(* ===== verification/UdpSpec.thy ===== *)
theory UdpSpec
  imports UdpTracker MemorySpec
begin

text \<open>
  What the UDP tracker promises, as a relation between a request, the abstract state before
  and after it (the issued connection ids and the swarms) and the datagrams sent back; the
  proof, inside the storage interface's locale, that the handlers implement it for every
  database that keeps the laws; and its consequences for the in-memory database.
\<close>

section \<open>The specification\<close>

record udp_state =
  A_conns :: conn_map
  A_swarm :: swarm

definition txid_bytes :: "bytes \<Rightarrow> bytes" where
  "txid_bytes d = take 4 (drop 12 d)"

definition error_reply :: "bytes \<Rightarrow> string \<Rightarrow> bytes" where
  "error_reply d msg = put_be 4 ActionError @ txid_bytes d @ lit msg"

definition request_hashes :: "bytes \<Rightarrow> bytes list" where
  "request_hashes d =
     chunks 20 ((length d - 16) div 20) (take (20 * ((length d - 16) div 20)) (drop 16 d))"

definition admitted :: "env \<Rightarrow> bytes \<Rightarrow> udp_addr \<Rightarrow> udp_state \<Rightarrow> bool" where
  "admitted e d r s \<longleftrightarrow>
     \<not> ConnDB_Validate (conf e) \<or>
     (\<exists>c. fmlookup (A_conns s) (remote_addr_port r) = Some c \<and> ID c = get_be (take 8 d))"

text \<open>The counts of a swarm as the messages carry them.\<close>

definition seeders :: "hash \<Rightarrow> swarm \<Rightarrow> int32" where
  "seeders h sw = ucast (of_nat (swarm_count Complete h sw) :: uint16)"

definition leechers :: "hash \<Rightarrow> swarm \<Rightarrow> int32" where
  "leechers h sw = ucast (of_nat (swarm_count (\<lambda>p. \<not> Complete p) h sw) :: uint16)"

definition announced_peer :: "env \<Rightarrow> udp_addr \<Rightarrow> announce \<Rightarrow> peer" where
  "announced_peer e r an =
     \<lparr>Complete = (a_Event an = EventCompleted \<or> a_Left an = 0), IP = fst (remote_addr_port r),
      Port = a_Port an, LastSeen = now e\<rparr>"

definition scraped :: "swarm \<Rightarrow> hash \<Rightarrow> bytes" where
  "scraped sw h = put_be 4 (seeders h sw) @ put_be 4 (leechers h sw) @ replicate 4 0xFF"

inductive udp_spec :: "int64 \<Rightarrow> env \<Rightarrow> bytes \<Rightarrow> udp_addr \<Rightarrow> udp_state \<Rightarrow> udp_state \<Rightarrow> bytes list \<Rightarrow> bool"
  for lim :: int64 and e :: env and d :: bytes and r :: udp_addr and s :: udp_state where
  bad_action: "4 < d ! 11 \<Longrightarrow> udp_spec lim e d r s s [error_reply d ''bad action'']"
| heartbeat: "d ! 11 = 4 \<Longrightarrow> udp_spec lim e d r s s [HeartbeatOk]"
| connected: "d ! 11 = 0 \<Longrightarrow>
    udp_spec lim e d r s
      (s\<lparr>A_conns := fmupd (remote_addr_port r) \<lparr>ID = Int63 e, TimeStamp = now e\<rparr> (A_conns s)\<rparr>)
      [put_be 4 ActionConnect @ txid_bytes d @ put_be 8 (Int63 e)]"
| refused: "d ! 11 \<in> {1, 2, 3} \<Longrightarrow> \<not> admitted e d r s \<Longrightarrow>
    udp_spec lim e d r s s [error_reply d ''bad connection id'']"
| short_announce: "d ! 11 = 1 \<Longrightarrow> admitted e d r s \<Longrightarrow> length d < 98 \<Longrightarrow>
    udp_spec lim e d r s s [error_reply d ''bad announce size'']"
| bad_port: "d ! 11 = 1 \<Longrightarrow> admitted e d r s \<Longrightarrow> 98 \<le> length d \<Longrightarrow>
    an = announce_of (take 98 d) \<Longrightarrow> a_Port an = 0 \<Longrightarrow>
    udp_spec lim e d r s s [error_reply d ''bad port'']"
| stopped: "d ! 11 = 1 \<Longrightarrow> admitted e d r s \<Longrightarrow> 98 \<le> length d \<Longrightarrow>
    an = announce_of (take 98 d) \<Longrightarrow> a_Port an \<noteq> 0 \<Longrightarrow> a_Event an = EventStopped \<Longrightarrow>
    udp_spec lim e d r s (s\<lparr>A_swarm := swarm_drop (a_InfoHash an) (a_PeerID an) (A_swarm s)\<rparr>)
      [put_be 4 ActionAnnounce @ txid_bytes d @ replicate 12 0xFF]"
| announced: "d ! 11 = 1 \<Longrightarrow> admitted e d r s \<Longrightarrow> 98 \<le> length d \<Longrightarrow>
    an = announce_of (take 98 d) \<Longrightarrow> a_Port an \<noteq> 0 \<Longrightarrow> a_Event an \<noteq> EventStopped \<Longrightarrow>
    sw = swarm_save (a_InfoHash an) (a_PeerID an) (announced_peer e r an) (A_swarm s) \<Longrightarrow>
    compact_lists lim (sw (a_InfoHash an)) ps b4 b6 \<Longrightarrow>
    udp_spec lim e d r s (s\<lparr>A_swarm := sw\<rparr>)
      [put_be 4 ActionAnnounce @ txid_bytes d @ put_be 4 (announce_interval e) @
       put_be 4 (leechers (a_InfoHash an) sw) @ put_be 4 (seeders (a_InfoHash an) sw) @
       (if Is4 (fst (remote_addr_port r)) then b4 else b6)]"
| scrape: "d ! 11 = 2 \<Longrightarrow> admitted e d r s \<Longrightarrow>
    udp_spec lim e d r s s
      [replicate (8 + 12 * length (request_hashes d)) 0 @ put_be 4 ActionScrape @ txid_bytes d @
       concat (map (scraped (A_swarm s)) (request_hashes d))]"
| ignored: "d ! 11 = 3 \<Longrightarrow> admitted e d r s \<Longrightarrow> udp_spec lim e d r s s []"

section \<open>Requests the tracker receives\<close>

definition remote_ok :: "udp_addr \<Rightarrow> bool" where
  "remote_ok r \<longleftrightarrow> length (ua_IP r) = 4 \<or> length (ua_IP r) = 16"

definition request_ok :: "bytes \<Rightarrow> bool" where
  "request_ok d \<longleftrightarrow> 16 \<le> length d \<and> length d \<le> requestSizeMax"

text \<open>Configurations whose peer limits are not zero as 32-bit numbers.\<close>

definition numwant_ok :: "configuration \<Rightarrow> bool" where
  "numwant_ok c \<longleftrightarrow>
     (ucast (Numwant_Default c) :: int32) \<noteq> 0 \<and> (ucast (Numwant_Limit c) :: int32) \<noteq> 0"

lemma remote_addr_ok:
  assumes "remote_ok r"
  obtains a where "remote_addr r = Some a" "fst (remote_addr_port r) = Unmap a" "plain_addr (Unmap a)"
proof -
  from assms obtain a where a: "remote_addr r = Some a"
    by (auto simp: remote_ok_def remote_addr_def AddrFromSlice_def)
  then have "plain_addr a" by (auto simp: remote_addr_def dest: AddrFromSlice_plain)
  with a show ?thesis by (intro that [of a]) (auto simp: remote_addr_port_def plain_addr_Unmap)
qed

lemma remote_addr_nonzero: "remote_ok r \<Longrightarrow> fst (remote_addr_port r) \<noteq> AddrZero"
  by (erule remote_addr_ok) (metis plain_addr.simps(1))

lemma announce_numwant_nonzero:
  assumes "numwant_ok (conf e)"
  shows "(scast (announce_numwant e n) :: uint64) \<noteq> 0"
proof -
  have "announce_numwant e n \<noteq> 0"
    using assms by (auto simp: announce_numwant_def numwant_ok_def)
  moreover have "x = 0" if "(scast x :: uint64) = 0" for x :: int32
  proof -
    have "sint (scast x :: uint64) = sint x" by (rule sint_up_scast) (simp add: is_up)
    with that have "sint x = 0" by simp
    then show ?thesis by (simp only: signed_eq_0_iff)
  qed
  ultimately show ?thesis by blast
qed

lemma put_txid [simp]:
  "request_ok d \<Longrightarrow> put_be 4 (get_be (take 4 (drop 12 d)) :: int32) = txid_bytes d"
  unfolding txid_bytes_def by (rule put_get_take) (auto simp: request_ok_def min_def)

lemma length_request_hashes: "length (request_hashes d) = (length d - 16) div 20"
  by (simp add: request_hashes_def)

lemma request_hashes_20: "h \<in> set (request_hashes d) \<Longrightarrow> length h = 20"
proof -
  assume "h \<in> set (request_hashes d)"
  then obtain i where i: "i < (length d - 16) div 20" "h = request_hashes d ! i"
    by (auto simp: in_set_conv_nth length_request_hashes)
  have "20 * i + 20 \<le> 20 * ((length d - 16) div 20)" using i(1) by simp
  also have "\<dots> \<le> length d - 16" by simp
  finally show "length h = 20" using i by (simp add: request_hashes_def nth_chunks drop_take)
qed

lemma unat_byte_int32 [simp]: "sint (ucast (b :: byte) :: int32) = int (unat b)"
proof -
  have "uint (ucast b :: int32) = uint b" by (simp add: uint_up_ucast is_up)
  moreover have "uint b < 256" using uint_lt2p [of b] by simp
  moreover have "0 \<le> uint b" by simp
  ultimately have "sint (ucast b :: int32) = uint b"
    unfolding sint_uint by (simp only:) (rule signed_take_bit_int_eq_self, rule order_trans [OF _ uint_ge_0], simp_all)
  then show ?thesis by simp
qed

lemma action_gt: "sint (ucast (b :: byte) :: int32) > sint ActionHeartbeat \<longleftrightarrow> 4 < b"
  unfolding unat_byte_int32 word_less_nat_alt by (simp del: of_nat_unat)

lemma action_eq: "(ucast (b :: byte) :: int32) = ucast c \<longleftrightarrow> b = c"
proof -
  have "uint (ucast x :: int32) = uint x" for x :: byte by (simp add: uint_up_ucast is_up)
  then show ?thesis by (metis word_uint_eq_iff)
qed

lemma action_cases:
  "((ucast (b :: byte) :: int32) = ActionConnect) = (b = 0)"
  "((ucast (b :: byte) :: int32) = ActionAnnounce) = (b = 1)"
  "((ucast (b :: byte) :: int32) = ActionScrape) = (b = 2)"
  "((ucast (b :: byte) :: int32) = ActionHeartbeat) = (b = 4)"
  using action_eq [of b 0] action_eq [of b 1] action_eq [of b 2] action_eq [of b 4] by simp_all

section \<open>What a handler leaves behind\<close>

definition udp_abs :: "('db \<Rightarrow> swarm) \<Rightarrow> 'db udp_tracker \<Rightarrow> udp_state" where
  "udp_abs sw u = \<lparr>A_conns = connectionMap (u_conndb u), A_swarm = sw (w_db (u_world u))\<rparr>"

definition udp_post ::
  "('db \<Rightarrow> bool) \<Rightarrow> ('db \<Rightarrow> swarm) \<Rightarrow> int64 \<Rightarrow> env \<Rightarrow> bytes \<Rightarrow> udp_addr
     \<Rightarrow> 'db udp_tracker \<Rightarrow> 'db udp_tracker \<Rightarrow> bool" where
  "udp_post dbinv sw lim e d r u u' \<longleftrightarrow>
     world_ok dbinv lim (u_world u') \<and> expiry (u_conndb u') = expiry (u_conndb u) \<and>
     (\<exists>out. udp_spec lim e d r (udp_abs sw u) (udp_abs sw u') out \<and>
        u_sent u' = u_sent u @ map (Pair r) out)"

lemma udp_stats_sel [simp]:
  "u_conndb (udp_stats f u) = u_conndb u" "u_sent (udp_stats f u) = u_sent u"
  "w_db (u_world (udp_stats f u)) = w_db (u_world u)"
  "w_pools (u_world (udp_stats f u)) = w_pools (u_world u)"
  "w_stats (u_world (udp_stats f u)) = f (w_stats (u_world u))"
  by (simp_all add: udp_stats_def)

lemma WriteToUDP_sel [simp]:
  "u_conndb (WriteToUDP m r u) = u_conndb u" "u_sent (WriteToUDP m r u) = u_sent u @ [(r, m)]"
  "u_world (WriteToUDP m r u) = u_world u"
  by (simp_all add: WriteToUDP_def)

lemma client_error_sel [simp]:
  "u_conndb (client_error msg t r u) = u_conndb u"
  "u_sent (client_error msg t r u) = u_sent u @ [(r, put_be 4 ActionError @ put_be 4 t @ lit msg)]"
  "w_db (u_world (client_error msg t r u)) = w_db (u_world u)"
  "w_pools (u_world (client_error msg t r u)) = w_pools (u_world u)"
  "w_stats (u_world (client_error msg t r u)) = add_ClientErrors 1 (w_stats (u_world u))"
  by (simp_all add: client_error_def newClientError_def Error_Marshall_def)

lemma respond_Inr [simp]: "respond (Inr bs) t r u = WriteToUDP bs r u"
  by (simp add: respond_def)

lemma world_ok_stats [simp]: "world_ok I lim (u_world (udp_stats f u)) = world_ok I lim (u_world u)"
  by (simp add: world_ok_def)

lemma world_ok_client_error [simp]:
  "world_ok I lim (u_world (client_error msg t r u)) = world_ok I lim (u_world u)"
  by (simp add: world_ok_def)

lemma udp_abs_same [simp]:
  "udp_abs sw (udp_stats f u) = udp_abs sw u" "udp_abs sw (client_error msg t r u) = udp_abs sw u"
  "udp_abs sw (WriteToUDP m r u) = udp_abs sw u"
  by (simp_all add: udp_abs_def)

lemma udp_stats_twice [simp]: "udp_stats g (udp_stats f u) = udp_stats (g o f) u"
  by (simp add: udp_stats_def)

text \<open>The dispatch for a request of at least 16 bytes from a parsable address.\<close>

lemma process_dispatch:
  assumes "request_ok d" and "remote_ok r"
  shows "process D e d r u =
    (let txid = get_be (take 4 (drop 12 d)); u1 = udp_stats (add_Hits 1) u; a = remote_addr_port r in
     if 4 < d ! 11 then Inr (client_error ''bad action'' txid r u1)
     else if d ! 11 = 4 then Inr (WriteToUDP HeartbeatOk r u1)
     else if d ! 11 = 0 then
       (case Connect_Unmarshall d zero_connect of
          (c, er) \<Rightarrow> Inr (udp_connect e c r a (if er \<noteq> None then server_error txid r u1 else u1)))
     else if \<not> conn_check (get_be (take 8 d)) a (u_conndb u) \<and> ConnDB_Validate (conf e)
     then Inr (client_error ''bad connection id'' txid r u1)
     else if d ! 11 = 1 then
       (if length d < 98 then Inr (client_error ''bad announce size'' txid r u1)
        else udp_announce D e (announce_of (take 98 d)) r a u1)
     else if d ! 11 = 2 then
       (case Scrape_Unmarshall d zero_scrape of
          (sc, Some _) \<Rightarrow> Inr (server_error txid r u1)
        | (sc, None) \<Rightarrow> Inr (udp_scrape D sc r u1))
     else Inr u1)"
proof -
  obtain a where a: "remote_addr r = Some a" using assms(2) by (rule remote_addr_ok)
  have len: "\<not> length d \<le> 11" "\<not> length d < 16" using assms(1) by (simp_all add: request_ok_def)
  show ?thesis
    unfolding process_def Let_def action_gt action_cases
    using a len by (simp add: Announce_Unmarshall_def read_full_def)
qed

text \<open>Errors that change nothing but a counter, and the client is told of.\<close>

lemma udp_post_error:
  assumes "world_ok I lim (u_world u)" and "request_ok d"
    and "udp_spec lim e d r (udp_abs sw u) (udp_abs sw u) [error_reply d msg]"
  shows "udp_post I sw lim e d r u (client_error msg (get_be (take 4 (drop 12 d))) r (udp_stats f u))"
  using assms by (auto simp: udp_post_def error_reply_def)

lemma udp_post_reply:
  assumes "world_ok I lim (u_world u)" and "udp_spec lim e d r (udp_abs sw u) (udp_abs sw u) [m]"
  shows "udp_post I sw lim e d r u (WriteToUDP m r (udp_stats f u))"
  using assms by (auto simp: udp_post_def)

text \<open>The fields of a decoded announce request that the responses echo.\<close>

lemma announce_of_fields:
  assumes "98 \<le> length d"
  shows "a_TransactionID (announce_of (take 98 d)) = get_be (take 4 (drop 12 d))"
    and "length (a_InfoHash (announce_of (take 98 d))) = 20"
    and "length (a_PeerID (announce_of (take 98 d))) = 20"
  using assms by (simp_all add: announce_of_def drop_take min_def)

lemma announce_request: "98 \<le> length d \<Longrightarrow> Announce_Unmarshall d a = (announce_of (take 98 d), None)"
  by (simp add: Announce_Unmarshall_def read_full_def)

lemma connect_request:
  "16 \<le> length d \<Longrightarrow> \<exists>c. Connect_Unmarshall d c0 = (c, None) \<and>
     c_TransactionID c = get_be (take 4 (drop 12 d))"
  by (simp add: Connect_Unmarshall_def read_full_def drop_take)

lemma put_minus_one [simp]: "put_be 4 (- 1 :: int32) = replicate 4 0xFF"
proof -
  have "(- 1 :: int32) = 0xFFFFFFFF" by simp
  moreover have "put_be 4 (0xFFFFFFFF :: int32) = [0xFF, 0xFF, 0xFF, 0xFF]" by (simp add: eval_simps)
  moreover have "[0xFF, 0xFF, 0xFF, 0xFF] = replicate 4 (0xFF :: byte)" by (simp add: numeral_eq_Suc)
  ultimately show ?thesis by (simp only:)
qed

section \<open>The handlers implement the specification\<close>

context database_laws
begin

abbreviation abs_udp :: "'db udp_tracker \<Rightarrow> udp_state" where
  "abs_udp \<equiv> udp_abs swarm"

abbreviation post :: "int64 \<Rightarrow> env \<Rightarrow> bytes \<Rightarrow> udp_addr \<Rightarrow> 'db udp_tracker \<Rightarrow> 'db udp_tracker \<Rightarrow> bool" where
  "post \<equiv> udp_post dbinv swarm"

lemma connect_post:
  assumes "world_ok dbinv lim (u_world u)" and "request_ok d" and "d ! 11 = 0"
    and "c_TransactionID c = get_be (take 4 (drop 12 d))"
  shows "post lim e d r u (udp_connect e c r (remote_addr_port r) (udp_stats f u))"
  unfolding udp_post_def
proof (intro conjI exI)
  show "udp_spec lim e d r (abs_udp u) (abs_udp (udp_connect e c r (remote_addr_port r) (udp_stats f u)))
      [put_be 4 ActionConnect @ txid_bytes d @ put_be 8 (Int63 e)]"
    using udp_spec.connected [of d lim e r "abs_udp u"] assms(3)
    by (simp add: udp_connect_def Let_def ConnectResp_Marshall_def conn_add_def udp_abs_def)
qed (use assms in \<open>simp_all add: udp_connect_def Let_def ConnectResp_Marshall_def conn_add_def world_ok_def\<close>)

lemma scrape_loop_result:
  assumes "dbinv db" and "\<forall>h \<in> set hs. length h = 20"
  shows "\<exists>infos'. scrape_loop D db hs infos = Some (infos @ infos') \<and> length infos' = length hs \<and>
    concat (map put_scrape_info infos') = concat (map (scraped (swarm db)) hs)"
  using assms(2)
proof (induction hs arbitrary: infos)
  case Nil
  then show ?case by simp
next
  case (Cons h hs)
  let ?i = "\<lparr>si_Complete = seeders h (swarm db), si_Incomplete = leechers h (swarm db), si_Downloaded = -1\<rparr>"
  from Cons.IH [of "infos @ [?i]"] Cons.prems obtain infos' where
    "scrape_loop D db hs (infos @ [?i]) = Some (infos @ ?i # infos')" "length infos' = length hs"
    "concat (map put_scrape_info infos') = concat (map (scraped (swarm db)) hs)" by auto
  moreover have "scrape_loop D db (h # hs) infos = scrape_loop D db hs (infos @ [?i])"
    using Cons.prems by (simp add: HashStats_law [OF assms(1)] seeders_def leechers_def)
  moreover have "put_scrape_info ?i = scraped (swarm db) h"
    by (simp add: put_scrape_info_def scraped_def)
  ultimately show ?case by (intro exI [of _ "?i # infos'"]) simp
qed

lemma scrape_post:
  assumes "world_ok dbinv lim (u_world u)" and d: "request_ok d" and "d ! 11 = 2"
    and "admitted e d r (abs_udp u)" and "Scrape_Unmarshall d s0 = (sc, None)"
  shows "post lim e d r u (udp_scrape D sc r (udp_stats f u))"
proof -
  have sc: "s_TransactionID sc = get_be (take 4 (drop 12 d))" "s_InfoHashes sc = request_hashes d"
    using assms(5) d scrape_request [of d s0] by (auto simp: request_ok_def request_hashes_def)
  have "dbinv (w_db (u_world u))" using assms(1) by (simp add: world_ok_def)
  then obtain infos where infos: "scrape_loop D (w_db (u_world u)) (request_hashes d) [] = Some infos"
    "length infos = length (request_hashes d)"
    "concat (map put_scrape_info infos) = concat (map (scraped (swarm (w_db (u_world u)))) (request_hashes d))"
    using scrape_loop_result [of "w_db (u_world u)" "request_hashes d" "[]"] request_hashes_20 by auto
  have "length (request_hashes d) \<le> 74"
  proof -
    have "length d - 16 \<le> 1480" using d by (auto simp: request_ok_def requestSizeMax_def)
    from div_le_mono [OF this, of 20] show ?thesis by (simp add: length_request_hashes)
  qed
  with infos sc d have "udp_scrape D sc r (udp_stats f u) = WriteToUDP
      (replicate (8 + 12 * length (request_hashes d)) 0 @ put_be 4 ActionScrape @ txid_bytes d @
       concat (map (scraped (A_swarm (abs_udp u))) (request_hashes d))) r (udp_stats (add_Scrapes 1 o f) u)"
    by (simp add: udp_scrape_def Let_def ScrapeResp_Marshall_def mult.commute udp_abs_def udp_stats_def)
  with udp_post_reply [OF assms(1) udp_spec.scrape [OF assms(3,4)]] show ?thesis by simp
qed

lemma announce_stopped:
  assumes w: "world_ok dbinv lim (u_world u)" and d: "request_ok d" "d ! 11 = 1" "98 \<le> length d"
    and adm: "admitted e d r (abs_udp u)" and an: "an = announce_of (take 98 d)"
    and st: "a_Port an \<noteq> 0" "a_Event an = EventStopped"
  shows "\<exists>u'. udp_announce D e an r (remote_addr_port r) (udp_stats f u) = Inr u' \<and> post lim e d r u u'"
proof -
  note fields = announce_of_fields [OF d(3), folded an]
  let ?u = "udp_stats (add_Announces 1 o f) u"
  obtain w' where w': "db_Drop D e (a_InfoHash an) (a_PeerID an) (u_world ?u) = Inr w'"
    "world_ok dbinv lim w'"
    "swarm (w_db w') = swarm_drop (a_InfoHash an) (a_PeerID an) (swarm (w_db (u_world u)))"
    using Drop_law [of lim "u_world ?u" e "a_InfoHash an" "a_PeerID an"] w by auto
  let ?bs = "put_be 4 ActionAnnounce @ txid_bytes d @ replicate 12 0xFF"
  let ?u' = "WriteToUDP ?bs r (?u\<lparr>u_world := w'\<rparr>)"
  have "replicate 4 (0xFF :: byte) @ replicate 4 0xFF @ replicate 4 0xFF = replicate 12 0xFF"
    by (simp flip: replicate_add)
  then have run: "udp_announce D e an r (remote_addr_port r) (udp_stats f u) = Inr ?u'"
    using st w'(1) d(1) by (simp add: udp_announce_def Let_def AnnounceResp_Marshall_def fields)
  have "udp_spec lim e d r (abs_udp u) (abs_udp ?u') [?bs]"
    using udp_spec.stopped [OF d(2) adm d(3) an st] w'(3) by (simp add: udp_abs_def)
  with w'(2) run show ?thesis by (auto simp: udp_post_def)
qed

lemma announce_saved:
  assumes w: "world_ok dbinv lim (u_world u)" and lim: "limit_ok lim" and e: "env_ok e" "numwant_ok (conf e)"
    and r: "remote_ok r" and d: "request_ok d" "d ! 11 = 1" "98 \<le> length d"
    and adm: "admitted e d r (abs_udp u)" and an: "an = announce_of (take 98 d)"
    and st: "a_Port an \<noteq> 0" "a_Event an \<noteq> EventStopped"
  shows "\<exists>u'. udp_announce D e an r (remote_addr_port r) (udp_stats f u) = Inr u' \<and> post lim e d r u u'"
proof -
  note fields = announce_of_fields [OF d(3), folded an]
  let ?u = "udp_stats (add_Announces 1 o f) u"
  let ?a = "fst (remote_addr_port r)" and ?h = "a_InfoHash an" and ?p = "announced_peer e r an"
  let ?c = "a_Event an = EventCompleted \<or> a_Left an = 0"
  let ?sw = "swarm_save ?h (a_PeerID an) ?p (swarm (w_db (u_world u)))"
  let ?n = "scast (announce_numwant e (a_NumWant an)) :: uint64"
  obtain w1 where w1: "db_Save D e ?a (a_Port an) ?c ?h (a_PeerID an) (u_world ?u) = Inr w1"
    "world_ok dbinv lim w1" "swarm (w_db w1) = ?sw"
    using Save_law [of lim "u_world ?u" ?h "a_PeerID an" ?a e "a_Port an" ?c] w fields remote_addr_nonzero [OF r]
    by (auto simp: announced_peer_def)
  have stats: "db_HashStats D ?h (w_db w1) =
      (of_nat (swarm_count Complete ?h ?sw), of_nat (swarm_count (\<lambda>p. \<not> Complete p) ?h ?sw))"
    using HashStats_law [of "w_db w1" ?h] w1 by (simp add: world_ok_def)
  have "?sw ?h \<noteq> Map.empty" by (auto simp: swarm_save_def fun_eq_iff)
  then obtain s4 s6 w2 ps where w2: "db_PeerListBytes D e ?h ?n w1 = Inr ((s4, s6), w2)"
    "world_ok dbinv lim w2" "w_db w2 = w_db w1" "cap_is (6 * lim) s4" "cap_is (18 * lim) s6"
    "compact_lists lim (?sw ?h) ps (slice_bytes s4) (slice_bytes s6)"
    using PeerListBytes_law [OF w1(2) lim e(1), of ?h ?n] w1(3) announce_numwant_nonzero [OF e(2)] by auto
  obtain w3 where w3: "put_peerlists s4 s6 w2 = Inr w3" "world_ok dbinv lim w3" "w_db w3 = w_db w2"
    using w2(2) lim w2(4,5) by (rule put_peerlists_ok)
  let ?bs = "put_be 4 ActionAnnounce @ txid_bytes d @ put_be 4 (announce_interval e) @
    put_be 4 (leechers ?h ?sw) @ put_be 4 (seeders ?h ?sw) @
    (if Is4 ?a then slice_bytes s4 else slice_bytes s6)"
  let ?u' = "WriteToUDP ?bs r (?u\<lparr>u_world := w3\<rparr>)"
  have run: "udp_announce D e an r (remote_addr_port r) (udp_stats f u) = Inr ?u'"
    using st w1(1) w2(1) w3(1) d(1)
    by (simp add: udp_announce_def Let_def AnnounceResp_Marshall_def fields stats leechers_def seeders_def)
  have "udp_spec lim e d r (abs_udp u) (abs_udp ?u') [?bs]"
    using udp_spec.announced [where sw = ?sw and ps = ps and s = "abs_udp u",
        OF d(2) adm d(3) an st _ w2(6)] w1(3) w2(3) w3(3) by (simp add: udp_abs_def)
  with w3(2) run show ?thesis by (auto simp: udp_post_def)
qed

lemma announce_post:
  assumes w: "world_ok dbinv lim (u_world u)" and lim: "limit_ok lim" and e: "env_ok e" "numwant_ok (conf e)"
    and r: "remote_ok r" and d: "request_ok d" "d ! 11 = 1" "98 \<le> length d"
    and adm: "admitted e d r (abs_udp u)"
  shows "\<exists>u'. udp_announce D e (announce_of (take 98 d)) r (remote_addr_port r) (udp_stats f u) = Inr u' \<and>
    post lim e d r u u'"
proof (cases "a_Port (announce_of (take 98 d)) = 0")
  case True
  with udp_post_error [OF w d(1) udp_spec.bad_port [OF d(2) adm d(3) refl True], where f = "add_Announces 1 o f"]
  show ?thesis by (simp add: udp_announce_def Let_def announce_of_fields [OF d(3)])
next
  case False
  with announce_stopped [OF w d adm refl False, of f] announce_saved [OF w lim e r d adm refl False, of f]
  show ?thesis by blast
qed

text \<open>The whole dispatch.\<close>

theorem process_post:
  assumes w: "world_ok dbinv lim (u_world u)" and lim: "limit_ok lim" and e: "env_ok e" "numwant_ok (conf e)"
    and r: "remote_ok r" and d: "request_ok d"
  shows "\<exists>u'. process D e d r u = Inr u' \<and> post lim e d r u u'"
proof -
  let ?act = "d ! 11" and ?txid = "get_be (take 4 (drop 12 d)) :: int32"
  let ?u = "udp_stats (add_Hits 1) u"
  have len: "16 \<le> length d" using d by (simp add: request_ok_def)
  have check: "\<not> conn_check (get_be (take 8 d)) (remote_addr_port r) (u_conndb u) \<and> ConnDB_Validate (conf e)
      \<longleftrightarrow> \<not> admitted e d r (abs_udp u)"
    by (auto simp: conn_check_def udp_abs_def admitted_def split: option.splits)
  note dispatch = process_dispatch [OF d r, of D e u, unfolded Let_def check]
  have act: "\<not> 4 < ?act \<Longrightarrow> ?act \<in> {0, 1, 2, 3, 4}"
    by (simp add: word_less_nat_alt word_unat_eq_iff) linarith
  consider "4 < ?act" | "?act = 4" | "?act = 0" | "?act \<in> {1, 2, 3}" "\<not> admitted e d r (abs_udp u)"
    | "?act = 1" "admitted e d r (abs_udp u)" | "?act = 2" "admitted e d r (abs_udp u)"
    | "?act = 3" "admitted e d r (abs_udp u)"
    using act by fastforce
  then show ?thesis
  proof cases
    case 1
    show ?thesis
      unfolding dispatch using udp_post_error [OF w d udp_spec.bad_action [OF 1], where f = "add_Hits 1"] 1
      by simp
  next
    case 2
    show ?thesis
      unfolding dispatch using udp_post_reply [OF w udp_spec.heartbeat [OF 2], where f = "add_Hits 1"] 2
      by simp
  next
    case 3
    obtain c where c: "Connect_Unmarshall d zero_connect = (c, None)" "c_TransactionID c = ?txid"
      using connect_request [OF len] by metis
    show ?thesis
      unfolding dispatch using connect_post [OF w d 3 c(2), where f = "add_Hits 1"] 3 c(1) by simp
  next
    case 4
    show ?thesis
      unfolding dispatch using udp_post_error [OF w d udp_spec.refused [OF 4], where f = "add_Hits 1"] 4
      by auto
  next
    case 5
    show ?thesis
    proof (cases "length d < 98")
      case True
      show ?thesis
        unfolding dispatch
        using udp_post_error [OF w d udp_spec.short_announce [OF 5 True], where f = "add_Hits 1"] 5 True
        by simp
    next
      case False
      then have "98 \<le> length d" by simp
      from announce_post [OF w lim e r d 5(1) this 5(2), where f = "add_Hits 1"] show ?thesis
        unfolding dispatch using 5 False by simp
    qed
  next
    case 6
    obtain sc where sc: "Scrape_Unmarshall d zero_scrape = (sc, None)"
      using scrape_request [OF len] by blast
    show ?thesis
      unfolding dispatch using scrape_post [OF w d 6 sc, where f = "add_Hits 1"] 6 sc by simp
  next
    case 7
    have "post lim e d r u ?u"
      using w udp_spec.ignored [OF 7] by (auto simp: udp_post_def)
    then show ?thesis unfolding dispatch using 7 by simp
  qed
qed

end

end
