(* ===== verification/UdpProps.thy ===== *)
theory UdpProps
  imports UdpSpec
begin


lemma udp_abs_mem [simp]:
  "udp_abs mem_swarm u = \<lparr>A_conns = connectionMap (u_conndb u), A_swarm = mem_swarm (w_db (u_world u))\<rparr>"
  by (simp add: udp_abs_def)

lemma length_txid_bytes [simp]: "request_ok d \<Longrightarrow> length (txid_bytes d) = 4"
  by (auto simp: txid_bytes_def request_ok_def min_def)

section \<open>A running tracker\<close>

text \<open>
  The states a tracker reaches: datagrams of any content from any parsable address, trims of
  the connection database and of the peer database, in any order, each with its own clock,
  randomness and iteration order.
\<close>

inductive udp_reach :: "memory udp_tracker \<Rightarrow> memory udp_tracker \<Rightarrow> bool" for u0 where
  start: "udp_reach u0 u0"
| datagram: "udp_reach u0 u \<Longrightarrow> env_ok e \<Longrightarrow> numwant_ok (conf e) \<Longrightarrow> remote_ok r \<Longrightarrow>
    receive gomap e d r u = Inr u' \<Longrightarrow> udp_reach u0 u'"
| trim_conns: "udp_reach u0 u \<Longrightarrow> enumerates ks (connectionMap (u_conndb u)) \<Longrightarrow>
    udp_reach u0 (u\<lparr>u_conndb := snd (conn_trim t ks (u_conndb u))\<rparr>)"
| trim_peers: "udp_reach u0 u \<Longrightarrow> env_ok e \<Longrightarrow> enumerates hs (entries (w_db (u_world u))) \<Longrightarrow>
    trim e hs (u_world u) = Inr (n, w) \<Longrightarrow> udp_reach u0 (u\<lparr>u_world := w\<rparr>)"

text \<open>Every stored connection id was sent to its address, in a connect response.\<close>

definition conns_sent :: "memory udp_tracker \<Rightarrow> bool" where
  "conns_sent u \<longleftrightarrow>
     (\<forall>a c. fmlookup (connectionMap (u_conndb u)) a = Some c \<longrightarrow>
        (\<exists>r txid. remote_addr_port r = a \<and> length txid = 4 \<and>
           (r, put_be 4 ActionConnect @ txid @ put_be 8 (ID c)) \<in> set (u_sent u)))"

lemma request_ok_receive: "length (take requestSizeMax d) > 15 \<Longrightarrow> request_ok (take requestSizeMax d)"
  by (simp add: request_ok_def requestSizeMax_def)

lemma receive_post:
  assumes "world_ok mem_ok lim (u_world u)" "limit_ok lim" "env_ok e" "numwant_ok (conf e)" "remote_ok r"
    and "receive gomap e d r u = Inr u'"
  shows "u' = u \<or> udp_post mem_ok mem_swarm lim e (take requestSizeMax d) r u u'"
proof (cases "length (take requestSizeMax d) > 15")
  case True
  with gomap.process_post [OF assms(1-5) request_ok_receive [OF True]] assms(6)
  show ?thesis by (auto simp: receive_def Let_def)
next
  case False
  with assms(6) show ?thesis by (auto simp: receive_def Let_def split: if_splits)
qed

lemma conns_sent_spec:
  assumes "conns_sent u" and "udp_spec lim e d r (udp_abs mem_swarm u) (udp_abs mem_swarm u') out"
    and "u_sent u' = u_sent u @ map (Pair r) out" and "request_ok d"
  shows "conns_sent u'"
proof -
  have keep: "connectionMap (u_conndb u') = connectionMap (u_conndb u) \<Longrightarrow> conns_sent u'"
    using assms(1,3) unfolding conns_sent_def by fastforce
  from assms(2) show ?thesis
  proof cases
    case connected
    then have m: "connectionMap (u_conndb u') =
        fmupd (remote_addr_port r) \<lparr>ID = Int63 e, TimeStamp = now e\<rparr> (connectionMap (u_conndb u))"
      and out: "out = [put_be 4 ActionConnect @ txid_bytes d @ put_be 8 (Int63 e)]" by simp_all
    show ?thesis
      unfolding conns_sent_def
    proof (intro allI impI)
      fix a c
      assume c: "fmlookup (connectionMap (u_conndb u')) a = Some c"
      show "\<exists>r' txid. remote_addr_port r' = a \<and> length txid = 4 \<and>
          (r', put_be 4 ActionConnect @ txid @ put_be 8 (ID c)) \<in> set (u_sent u')"
      proof (cases "a = remote_addr_port r")
        case True
        with c m have "ID c = Int63 e" by auto
        with True show ?thesis
          by (intro exI [of _ r] exI [of _ "txid_bytes d"]) (simp add: assms(3,4) out)
      next
        case False
        with c m have "fmlookup (connectionMap (u_conndb u)) a = Some c" by simp
        with assms(1) obtain r' txid where "remote_addr_port r' = a" "length txid = 4"
          "(r', put_be 4 ActionConnect @ txid @ put_be 8 (ID c)) \<in> set (u_sent u)"
          unfolding conns_sent_def by blast
        then show ?thesis using assms(3) by auto
      qed
    qed
  qed (use keep in simp_all)
qed

lemma reach_invariant:
  assumes "udp_reach u0 u" and "world_ok mem_ok lim (u_world u0)" and "limit_ok lim"
    and "connectionMap (u_conndb u0) = fmempty"
  shows "world_ok mem_ok lim (u_world u) \<and> conns_sent u"
  using assms(1)
proof induction
  case start
  with assms show ?case by (simp add: conns_sent_def)
next
  case (datagram u e r d u')
  then consider "u' = u" | "udp_post mem_ok mem_swarm lim e (take requestSizeMax d) r u u'" "length (take requestSizeMax d) > 15"
    using receive_post [of lim u e r d u'] assms(3) by (auto simp: receive_def Let_def split: if_splits)
  then show ?case
  proof cases
    case 1
    with datagram.IH show ?thesis by simp
  next
    case 2
    with conns_sent_spec [of u lim e "take requestSizeMax d" r u'] datagram.IH request_ok_receive
    show ?thesis unfolding udp_post_def by blast
  qed
next
  case (trim_conns u ks t)
  then show ?case
    using conn_trim_lookup(1) [of ks "u_conndb u" t] by (auto simp: conns_sent_def)
next
  case (trim_peers u e hs n w)
  obtain res w' where "trim e hs (u_world u) = Inr (res, w')" "world_ok mem_ok lim w'"
    using trim_hashes_result [of lim "u_world u" e hs "(0, 0)"] trim_peers
    by (auto simp: trim_def trims_def)
  with trim_peers show ?case by (simp add: conns_sent_def)
qed

section \<open>A client that connects and announces\<close>

lemma connect_announce_run:
  assumes ok: "world_ok mem_ok lim (u_world u)" "limit_ok lim" "remote_ok r"
    and e: "env_ok e" "numwant_ok (conf e)" "env_ok e'" "numwant_ok (conf e')"
    and d: "16 \<le> length d" "length d \<le> requestSizeMax" "d ! 11 = 0"
    and a: "98 \<le> length d'" "length d' \<le> requestSizeMax" "d' ! 11 = 1"
    and "connid": "take 8 d' = put_be 8 (Int63 e)"
    and an: "an = announce_of (take 98 d')" "a_Port an \<noteq> 0" "a_Event an \<noteq> EventStopped"
  shows "\<exists>u' u'' b. process gomap e d r u = Inr u' \<and> process gomap e' d' r u' = Inr u'' \<and>
    mem_swarm (w_db (u_world u'')) =
      swarm_save (a_InfoHash an) (a_PeerID an) (announced_peer e' r an) (mem_swarm (w_db (u_world u))) \<and>
    u_sent u'' = u_sent u @
      [(r, put_be 4 ActionConnect @ txid_bytes d @ put_be 8 (Int63 e)),
       (r, put_be 4 ActionAnnounce @ txid_bytes d' @ put_be 4 (announce_interval e') @
           put_be 4 (leechers (a_InfoHash an) (mem_swarm (w_db (u_world u'')))) @
           put_be 4 (seeders (a_InfoHash an) (mem_swarm (w_db (u_world u'')))) @ b)]"
proof -
  have req: "request_ok d" "request_ok d'" using d a by (simp_all add: request_ok_def)
  obtain u' out where p: "process gomap e d r u = Inr u'" "u_sent u' = u_sent u @ map (Pair r) out"
    "world_ok mem_ok lim (u_world u')" "udp_spec lim e d r (udp_abs mem_swarm u) (udp_abs mem_swarm u') out"
    using gomap.process_post [OF ok(1,2) e(1,2) ok(3) req(1)] unfolding udp_post_def by blast
  from p(4) d(3) have c: "connectionMap (u_conndb u') =
      fmupd (remote_addr_port r) \<lparr>ID = Int63 e, TimeStamp = now e\<rparr> (connectionMap (u_conndb u))"
    "mem_swarm (w_db (u_world u')) = mem_swarm (w_db (u_world u))"
    "out = [put_be 4 ActionConnect @ txid_bytes d @ put_be 8 (Int63 e)]" by (cases; simp)+
  obtain u'' out' where q: "process gomap e' d' r u' = Inr u''" "u_sent u'' = u_sent u' @ map (Pair r) out'"
    "udp_spec lim e' d' r (udp_abs mem_swarm u') (udp_abs mem_swarm u'') out'"
    using gomap.process_post [OF p(3) ok(2) e(3,4) ok(3) req(2)] unfolding udp_post_def by blast
  have adm: "admitted e' d' r (udp_abs mem_swarm u')" by (simp add: admitted_def c(1) "connid")
  from q(3) show ?thesis
  proof cases
    case (announced an' sw ps b4 b6)
    with p(1,2) q(1,2) c an show ?thesis by (auto simp: announced_peer_def)
  qed (use a adm an in simp_all)
qed

section \<open>A sample run\<close>

definition start_udp :: "memory udp_tracker" where
  "start_udp = \<lparr>u_conndb = newConnectionDatabase 1800000000000, u_world = start_world, u_sent = []\<rparr>"

lemma start_udp_sel [simp]:
  "u_world start_udp = start_world" "connectionMap (u_conndb start_udp) = fmempty" "u_sent start_udp = []"
  by (simp_all add: start_udp_def newConnectionDatabase_def conn_make_def)

lemma numwant_ok_default [simp]: "numwant_ok default_config"
  by (simp add: numwant_ok_def default_config_def)

definition loopback :: udp_addr where
  "loopback = \<lparr>ua_IP = [127, 0, 0, 1], ua_Port = 9\<rparr>"

lemma loopback_ok [simp]: "remote_ok loopback"
  by (simp add: remote_ok_def loopback_def)

lemma get_be_zeros [simp]: "get_be (replicate n 0) = 0"
  by (induction n) simp_all

definition sample_announce :: bytes where
  "sample_announce =
     put_be 8 (5 :: int64) @ [0, 0, 0, 1, 0, 0, 0, 9] @ replicate 20 3 @ replicate 20 4 @
     replicate 24 0 @ replicate 12 0 @ replicate 4 0 @ [26, 225]"

lemma sample_announce_fields:
  "length sample_announce = 98" "take 8 sample_announce = put_be 8 (5 :: int64)" "sample_announce ! 11 = 1"
  "a_InfoHash (announce_of sample_announce) = replicate 20 3"
  "a_PeerID (announce_of sample_announce) = replicate 20 4"
  "a_Port (announce_of sample_announce) = 6881" "a_Event (announce_of sample_announce) = 0"
  by (simp_all add: announce_of_def sample_announce_def eval_simps nth_append)

lemma sample_connection [simp]: "Int63 (sample_env 5) = 5"
  by (simp add: Int63_def eval_simps)

section \<open>Properties\<close>

text \<open>
  C1: handling any datagram of 16 to 1496 bytes from a parsable address never panics and
  implements the tracker's specification: the dispatch on the action byte, the check of the
  connection id, every error message, the effect on the issued connection ids and on the
  swarms, and the exact bytes of the answer, with the swarm's counts modulo \<open>2 ^ 16\<close> and the
  compact list of all peers of the announced infohash in the client's address family, unless one of
  the lists of the two families has reached the limit.
\<close>

theorem process_implements_spec:
  assumes "world_ok mem_ok lim (u_world u)" and "limit_ok lim" and "env_ok e" and "numwant_ok (conf e)"
    and "remote_ok r" and "16 \<le> length d" and "length d \<le> requestSizeMax"
  shows "\<exists>u' out. process gomap e d r u = Inr u' \<and>
    udp_spec lim e d r
      \<lparr>A_conns = connectionMap (u_conndb u), A_swarm = mem_swarm (w_db (u_world u))\<rparr>
      \<lparr>A_conns = connectionMap (u_conndb u'), A_swarm = mem_swarm (w_db (u_world u'))\<rparr> out \<and>
    u_sent u' = u_sent u @ map (Pair r) out \<and> world_ok mem_ok lim (u_world u')"
  using gomap.process_post [OF assms(1-5), of d] assms(6,7)
  by (auto simp: request_ok_def udp_post_def)

theorem process_implements_spec_witness:
  "\<exists>u' out. process gomap (sample_env 5) HeartbeatRequest loopback start_udp = Inr u' \<and>
     u_sent u' = map (Pair loopback) out \<and> out = [HeartbeatOk]"
proof -
  obtain u' out where p: "process gomap (sample_env 5) HeartbeatRequest loopback start_udp = Inr u'"
    "udp_spec 200 (sample_env 5) HeartbeatRequest loopback
      \<lparr>A_conns = connectionMap (u_conndb start_udp), A_swarm = mem_swarm (w_db (u_world start_udp))\<rparr>
      \<lparr>A_conns = connectionMap (u_conndb u'), A_swarm = mem_swarm (w_db (u_world u'))\<rparr> out"
    "u_sent u' = u_sent start_udp @ map (Pair loopback) out"
    using process_implements_spec [of 200 start_udp "sample_env 5" loopback HeartbeatRequest]
    by (auto simp: HeartbeatRequest_def requestSizeMax_def)
  moreover have "out = [HeartbeatOk]"
    using p(2) by (cases rule: udp_spec.cases) (simp_all add: HeartbeatRequest_def)
  ultimately show ?thesis by simp
qed

text \<open>
  C21: with validation on, a client that does not own a connection id gets at most one answer,
  of at most 25 bytes, and cannot change the swarms; only a connect request changes the issued
  connection ids, and only for the address it came from. So a forged source address cannot
  turn the tracker into an amplifier.
\<close>

theorem no_amplification:
  assumes ok: "world_ok mem_ok lim (u_world u)" "limit_ok lim" "env_ok e" "numwant_ok (conf e)" "remote_ok r"
    and d: "16 \<le> length d" "length d \<le> requestSizeMax" and "ConnDB_Validate (conf e)"
    and no: "\<not> conn_check (get_be (take 8 d)) (remote_addr_port r) (u_conndb u)"
  shows "\<exists>u' out. process gomap e d r u = Inr u' \<and> u_sent u' = u_sent u @ map (Pair r) out \<and>
    length out \<le> 1 \<and> (\<forall>b \<in> set out. length b \<le> 25) \<and>
    mem_swarm (w_db (u_world u')) = mem_swarm (w_db (u_world u)) \<and>
    (\<forall>a. a \<noteq> remote_addr_port r \<or> d ! 11 \<noteq> 0 \<longrightarrow>
       fmlookup (connectionMap (u_conndb u')) a = fmlookup (connectionMap (u_conndb u)) a)"
proof -
  have req: "request_ok d" using d by (simp add: request_ok_def)
  obtain u' out where p: "process gomap e d r u = Inr u'" "u_sent u' = u_sent u @ map (Pair r) out"
    "udp_spec lim e d r (udp_abs mem_swarm u) (udp_abs mem_swarm u') out"
    using gomap.process_post [OF ok req] unfolding udp_post_def by blast
  have "\<not> admitted e d r (udp_abs mem_swarm u)"
    using assms(8) no by (auto simp: admitted_def conn_check_def split: option.splits)
  with p(3) have "length out \<le> 1 \<and> (\<forall>b \<in> set out. length b \<le> 25) \<and>
    mem_swarm (w_db (u_world u')) = mem_swarm (w_db (u_world u)) \<and>
    (\<forall>a. a \<noteq> remote_addr_port r \<or> d ! 11 \<noteq> 0 \<longrightarrow>
       fmlookup (connectionMap (u_conndb u')) a = fmlookup (connectionMap (u_conndb u)) a)"
    by (cases rule: udp_spec.cases) (simp_all add: error_reply_def HeartbeatOk_def req del: udp_abs_mem, simp_all)
  with p(1,2) show ?thesis by blast
qed

theorem no_amplification_witness:
  "\<exists>u' out. process gomap (sample_env 5) (replicate 98 1) loopback start_udp = Inr u' \<and>
     u_sent u' = map (Pair loopback) out \<and> length out \<le> 1 \<and> (\<forall>b \<in> set out. length b \<le> 25)"
proof -
  have "ConnDB_Validate (conf (sample_env 5))" by (simp add: default_config_def)
  moreover have "\<not> conn_check (get_be (take 8 (replicate 98 1))) (remote_addr_port loopback) (u_conndb start_udp)"
    by (simp add: conn_check_def)
  ultimately show ?thesis
    using no_amplification [of 200 start_udp "sample_env 5" loopback "replicate 98 1"]
    by (auto simp: requestSizeMax_def)
qed

text \<open>
  In every state a tracker reaches, whatever was sent to it, with whatever trims in
  between, the next datagram is handled without a panic and leaves the peer database
  well-formed, with exact counters.
\<close>

theorem tracker_never_panics:
  assumes "udp_reach u0 u" and "world_ok mem_ok lim (u_world u0)" and "limit_ok lim"
    and "connectionMap (u_conndb u0) = fmempty"
    and "env_ok e" and "numwant_ok (conf e)" and "remote_ok r"
  shows "\<exists>u'. receive gomap e d r u = Inr u' \<and> world_ok mem_ok lim (u_world u')"
proof (cases "length (take requestSizeMax d) > 15")
  case True
  have "world_ok mem_ok lim (u_world u)" using reach_invariant [OF assms(1-4)] by simp
  from gomap.process_post [OF this assms(3,5-7) request_ok_receive [OF True]] True
  show ?thesis by (auto simp: receive_def Let_def udp_post_def)
next
  case False
  with reach_invariant [OF assms(1-4)] show ?thesis by (auto simp: receive_def Let_def)
qed

theorem tracker_never_panics_witness:
  "\<exists>u'. receive gomap (sample_env 9) [1, 2, 3] loopback start_udp = Inr u' \<and> world_ok mem_ok 200 (u_world u')"
  by (rule tracker_never_panics [OF udp_reach.start]) simp_all



text \<open>
  Every answer but the heartbeat's and the scrape's carries the transaction id of its
  request in bytes 4 to 7, and goes to the sender of the request.
\<close>

theorem answers_echo_transaction:
  assumes ok: "world_ok mem_ok lim (u_world u)" "limit_ok lim" "env_ok e" "numwant_ok (conf e)" "remote_ok r"
    and d: "16 \<le> length d" "length d \<le> requestSizeMax" "d ! 11 \<noteq> 2" "d ! 11 \<noteq> 4"
  shows "\<exists>u' out. process gomap e d r u = Inr u' \<and> u_sent u' = u_sent u @ map (Pair r) out \<and>
    (\<forall>b \<in> set out. take 4 (drop 4 b) = take 4 (drop 12 d))"
proof -
  have req: "request_ok d" using d by (simp add: request_ok_def)
  obtain u' out where p: "process gomap e d r u = Inr u'" "u_sent u' = u_sent u @ map (Pair r) out"
    "udp_spec lim e d r (udp_abs mem_swarm u) (udp_abs mem_swarm u') out"
    using gomap.process_post [OF ok req] unfolding udp_post_def by blast
  have tx: "take 4 (txid_bytes d) = take 4 (drop 12 d)" by (simp add: txid_bytes_def)
  from p(3) d(3,4) have "\<forall>b \<in> set out. take 4 (drop 4 b) = take 4 (drop 12 d)"
    by cases (auto simp: error_reply_def length_txid_bytes [OF req] tx)
  with p(1,2) show ?thesis by blast
qed

theorem answers_echo_transaction_witness:
  "\<exists>u' out. process gomap (sample_env 5) (replicate 98 1) loopback start_udp = Inr u' \<and>
     u_sent u' = map (Pair loopback) out \<and>
     (\<forall>b \<in> set out. take 4 (drop 4 b) = take 4 (drop 12 (replicate 98 1)))"
proof -
  have "(replicate 98 1 :: bytes) ! 11 = 1" by (rule nth_replicate) simp
  then have "(replicate 98 1 :: bytes) ! 11 \<noteq> 2" "(replicate 98 1 :: bytes) ! 11 \<noteq> 4" by simp_all
  then show ?thesis
    using answers_echo_transaction [of 200 start_udp "sample_env 5" loopback "replicate 98 1"]
    by (simp add: requestSizeMax_def)
qed

text \<open>
  C22: a client that connects and then announces with the id it was given is served: its
  announce stores the peer with the address it came from, and is answered with an announce
  response that carries the swarm's counts, itself included.
\<close>

theorem connect_then_announce:
  assumes ok: "world_ok mem_ok lim (u_world u)" "limit_ok lim" "remote_ok r"
    and e: "env_ok e" "numwant_ok (conf e)" "env_ok e'" "numwant_ok (conf e')"
    and d: "16 \<le> length d" "length d \<le> requestSizeMax" "d ! 11 = 0"
    and a: "98 \<le> length d'" "length d' \<le> requestSizeMax" "d' ! 11 = 1"
    and "connid": "take 8 d' = put_be 8 (Int63 e)"
    and an: "an = announce_of (take 98 d')" "a_Port an \<noteq> 0" "a_Event an \<noteq> EventStopped"
  shows "\<exists>u' u'' b. process gomap e d r u = Inr u' \<and> process gomap e' d' r u' = Inr u'' \<and>
    mem_swarm (w_db (u_world u'')) =
      swarm_save (a_InfoHash an) (a_PeerID an) (announced_peer e' r an) (mem_swarm (w_db (u_world u))) \<and>
    u_sent u'' = u_sent u @
      [(r, put_be 4 ActionConnect @ txid_bytes d @ put_be 8 (Int63 e)),
       (r, put_be 4 ActionAnnounce @ txid_bytes d' @ put_be 4 (announce_interval e') @
           put_be 4 (leechers (a_InfoHash an) (mem_swarm (w_db (u_world u'')))) @
           put_be 4 (seeders (a_InfoHash an) (mem_swarm (w_db (u_world u'')))) @ b)]"
  using assms by (rule connect_announce_run)

theorem connect_then_announce_witness:
  "\<exists>u' u''. process gomap (sample_env 5) (replicate 16 0) loopback start_udp = Inr u' \<and>
     process gomap (sample_env 6) sample_announce loopback u' = Inr u'' \<and>
     mem_swarm (w_db (u_world u'')) (replicate 20 3) (replicate 20 4) \<noteq> None"
  using connect_then_announce [of 200 start_udp loopback "sample_env 5" "sample_env 6" "replicate 16 0"
      sample_announce "announce_of sample_announce"] sample_announce_fields
  by (auto simp: requestSizeMax_def swarm_save_def)

text \<open>
  The connections survive a restart: when \<open>WriteConns\<close> succeeded, a tracker that starts
  from the file accepts exactly the connection ids the old one accepted, given a file system
  that returns what was written and a gob coder that decodes what it encoded.
\<close>

theorem restart_keeps_connections:
  assumes "WriteConns g F dir (Some u) fs = (None, fs')"
    and "\<And>data fs fs'. WriteFile F (conn_path dir) data fs = (True, fs') \<Longrightarrow> ReadFile F (conn_path dir) fs' = Some data"
    and "gob_dec g (gob_enc g (connectionMap (u_conndb u))) fmempty = (True, connectionMap (u_conndb u))"
  shows "conn_check i a (u_conndb (udp_init g F dir fs' c w)) = conn_check i a (u_conndb u) \<and>
    Connections (Some (udp_init g F dir fs' c w)) = Connections (Some u)"
proof -
  have "WriteFile F (conn_path dir) (gobEncode g (u_conndb u)) fs = (True, fs')"
    using assms(1) by (auto simp: WriteConns_def writeToFile_def split: prod.splits if_splits)
  from assms(2) [OF this] have "u_conndb (udp_init g F dir fs' c w) =
      (newConnectionDatabase (ConnDB_Expiry c))\<lparr>connectionMap := connectionMap (u_conndb u)\<rparr>"
    using assms(3) by (simp add: udp_init_def loadFromFile_def gobDecode_def gobEncode_def conn_make_def
        newConnectionDatabase_def)
  then show ?thesis
    by (simp add: conn_check_def Connections_def conn_size_def)
qed

theorem restart_keeps_connections_witness:
  "conn_check 7 (Addr6 1 [], 9) (u_conndb (udp_init sample_gob one_file []
     (gobEncode sample_gob sample_conns) default_config start_world))"
proof -
  let ?u = "start_udp\<lparr>u_conndb := sample_conns\<rparr>"
  have "WriteConns sample_gob one_file [] (Some ?u) [] = (None, gobEncode sample_gob sample_conns)"
    by (simp add: WriteConns_def one_file_written)
  moreover have "gob_dec sample_gob (gob_enc sample_gob (connectionMap (u_conndb ?u))) fmempty =
      (True, connectionMap (u_conndb ?u))"
    using sample_gob_ok [OF sample_conns_ok] by simp
  ultimately have "conn_check 7 (Addr6 1 [], 9) (u_conndb (udp_init sample_gob one_file []
      (gobEncode sample_gob sample_conns) default_config start_world)) = conn_check 7 (Addr6 1 [], 9) (u_conndb ?u)"
    using restart_keeps_connections [of sample_gob one_file "[]" ?u "[]" "gobEncode sample_gob sample_conns" 7 "(Addr6 1 [], 9)"
        default_config start_world] one_file_written(2) by blast
  then show ?thesis by (simp add: sample_conns_def conn_check_def conn_add_def)
qed

end
