(* ===== verification/GoNet.thy ===== *)
theory GoNet
  imports GoStd
begin

text \<open>
  More of Go's standard library, as the HTTP tracker uses it: \<open>base64.StdEncoding\<close>,
  \<open>bytes.LastIndex\<close>, \<open>netip.ParseAddr\<close>, and the indices and slice expressions of \<open>int\<close>s that
  may be -1 or out of range. None of it has a place under src/.
\<close>

section \<open>Indices and slices\<close>

definition Index :: "bytes \<Rightarrow> bytes \<Rightarrow> int" where
  "Index bs sep = (case bytes_index bs sep of None \<Rightarrow> -1 | Some i \<Rightarrow> int i)"

fun LastIndex_nat :: "bytes \<Rightarrow> bytes \<Rightarrow> nat option" where
  "LastIndex_nat [] sep = (if sep = [] then Some 0 else None)"
| "LastIndex_nat (b # bs) sep =
     (case LastIndex_nat bs sep of
        Some i \<Rightarrow> Some (Suc i)
      | None \<Rightarrow> if has_prefix (b # bs) sep then Some 0 else None)"

definition LastIndex :: "bytes \<Rightarrow> bytes \<Rightarrow> int" where
  "LastIndex bs sep = (case LastIndex_nat bs sep of None \<Rightarrow> -1 | Some i \<Rightarrow> int i)"

text \<open>The slice expression \<open>data[lo:hi]\<close> on a slice whose length is its capacity.\<close>

definition go_slice :: "bytes \<Rightarrow> int \<Rightarrow> int \<Rightarrow> panic + bytes" where
  "go_slice bs lo hi =
     (if 0 \<le> lo \<and> lo \<le> hi \<and> hi \<le> int (length bs)
      then Inr (take (nat (hi - lo)) (drop (nat lo) bs)) else Inl SliceOutOfRange)"

declare Index_def [eval_simps] LastIndex_def [eval_simps] go_slice_def [eval_simps]

lemma Index_bounds: "Index bs sep = -1 \<or> (0 \<le> Index bs sep \<and> Index bs sep + int (length sep) \<le> int (length bs))"
  using bytes_index_Some [of bs sep] by (fastforce simp: Index_def split: option.splits)

lemma LastIndex_bounds:
  "LastIndex_nat bs sep = Some i \<Longrightarrow> i + length sep \<le> length bs"
proof (induction bs arbitrary: i)
  case Nil
  then show ?case by (simp split: if_splits)
next
  case (Cons b bs)
  then show ?case
    by (auto split: option.splits if_splits simp: has_prefix_take simp del: take_Cons')
      (metis length_Cons length_take min.cobounded1)
qed

lemma go_slice_ok: "0 \<le> lo \<Longrightarrow> lo \<le> hi \<Longrightarrow> hi \<le> int (length bs) \<Longrightarrow> \<exists>x. go_slice bs lo hi = Inr x"
  by (simp add: go_slice_def)

section \<open>base64\<close>

definition b64_val :: "byte \<Rightarrow> byte option" where
  "b64_val c =
     (if 65 \<le> c \<and> c \<le> 90 then Some (c - 65)
      else if 97 \<le> c \<and> c \<le> 122 then Some (c - 71)
      else if 48 \<le> c \<and> c \<le> 57 then Some (c + 4)
      else if c = 43 then Some 62
      else if c = 47 then Some 63
      else None)"

text \<open>
  \<open>Decode\<close> ignores line feeds and carriage returns, takes four characters at a time, and
  accepts padding only at the end of a complete last group; the unused bits of that group are
  not checked.
\<close>

fun b64_groups :: "bytes \<Rightarrow> bytes option" where
  "b64_groups [] = Some []"
| "b64_groups (a # b # c # d # rest) =
     (case (b64_val a, b64_val b) of
        (Some x, Some y) \<Rightarrow>
          (case (b64_val c, b64_val d) of
             (Some z, Some v) \<Rightarrow>
               map_option (\<lambda>bs. [push_bit 2 x OR drop_bit 4 y, push_bit 4 y OR drop_bit 2 z, push_bit 6 z OR v] @ bs)
                 (b64_groups rest)
           | (Some z, None) \<Rightarrow>
               if d = 61 \<and> rest = [] then Some [push_bit 2 x OR drop_bit 4 y, push_bit 4 y OR drop_bit 2 z]
               else None
           | (None, _) \<Rightarrow>
               if c = 61 \<and> d = 61 \<and> rest = [] then Some [push_bit 2 x OR drop_bit 4 y] else None)
      | _ \<Rightarrow> None)"
| "b64_groups _ = None"

definition b64_decode :: "bytes \<Rightarrow> bytes option" where
  "b64_decode bs = b64_groups (filter (\<lambda>c. c \<noteq> 10 \<and> c \<noteq> 13) bs)"

lemma b64_groups_length: "b64_groups bs = Some out \<Longrightarrow> length out \<le> length bs"
proof (induction bs arbitrary: out rule: b64_groups.induct)
  case (2 a b c d rest)
  then show ?case by (fastforce split: option.splits if_splits)
qed simp_all

lemma b64_decode_length: "b64_decode bs = Some out \<Longrightarrow> length out \<le> length bs"
  unfolding b64_decode_def using b64_groups_length length_filter_le order_trans by blast

lemma b64_decode_example: "b64_decode (lit ''R0VUIC9zY3JhcGU/aW5mb19oYXNoPQ=='') = Some (lit ''GET /scrape?info_hash='')"
  by (simp add: b64_decode_def b64_val_def eval_simps)

section \<open>Parsing addresses\<close>

text \<open>\<open>parseIPv4\<close>: the state is the fields so far, the value and the number of digits of the current one.\<close>

fun parse_octets :: "bytes \<Rightarrow> nat list \<Rightarrow> nat \<Rightarrow> nat \<Rightarrow> nat list option" where
  "parse_octets [] fs v n = (if length fs < 3 \<or> n = 0 then None else Some (fs @ [v]))"
| "parse_octets (c # cs) fs v n =
     (if is_digit c then
        (if n = 1 \<and> v = 0 then None
         else if 255 < 10 * v + (unat c - 48) then None
         else parse_octets cs fs (10 * v + (unat c - 48)) (Suc n))
      else if c = 46 then
        (if n = 0 \<or> length fs = 3 then None else parse_octets cs (fs @ [v]) 0 0)
      else None)"

definition parse_v4 :: "bytes \<Rightarrow> bytes option" where
  "parse_v4 s = map_option (map of_nat) (parse_octets s [] 0 0)"

definition hex_val :: "byte \<Rightarrow> nat option" where
  "hex_val c =
     (if 48 \<le> c \<and> c \<le> 57 then Some (unat c - 48)
      else if 97 \<le> c \<and> c \<le> 102 then Some (unat c - 87)
      else if 65 \<le> c \<and> c \<le> 70 then Some (unat c - 55)
      else None)"

text \<open>The leading hexadecimal digits of a field, with what follows them.\<close>

fun hex_field :: "bytes \<Rightarrow> nat \<Rightarrow> nat \<Rightarrow> nat \<times> nat \<times> bytes" where
  "hex_field [] acc off = (acc, off, [])"
| "hex_field (c # cs) acc off =
     (case hex_val c of
        None \<Rightarrow> (acc, off, c # cs)
      | Some v \<Rightarrow> hex_field cs (16 * acc + v) (Suc off))"

text \<open>
  The loop of \<open>parseIPv6\<close> after the zone and a leading double colon are taken off: the bytes
  so far and the position of the double colon. A field longer than four digits fails, an
  embedded IPv4 address ends the address.
\<close>

fun v6_fields :: "nat \<Rightarrow> bytes \<Rightarrow> bytes \<Rightarrow> nat option \<Rightarrow> (bytes \<times> nat option \<times> bytes) option" where
  "v6_fields 0 s ip ell = Some (ip, ell, s)"
| "v6_fields (Suc k) s ip ell =
     (case hex_field s 0 0 of (acc, off, s') \<Rightarrow>
        if 4 < off \<or> off = 0 then None
        else if s' \<noteq> [] \<and> hd s' = 46 then
          (if (ell = None \<and> length ip \<noteq> 12) \<or> 12 < length ip then None
           else map_option (\<lambda>v4. (ip @ v4, ell, [])) (parse_v4 s))
        else
          (let ip' = ip @ [of_nat (acc div 256), of_nat (acc mod 256)] in
           case s' of
             [] \<Rightarrow> Some (ip', ell, [])
           | c # s1 \<Rightarrow>
               if c \<noteq> 58 \<or> s1 = [] then None
               else if hd s1 = 58 then
                 (if ell \<noteq> None then None
                  else if tl s1 = [] then Some (ip', Some (length ip'), [])
                  else v6_fields k (tl s1) ip' (Some (length ip')))
               else v6_fields k s1 ip' ell))"

definition expand_v6 :: "bytes \<Rightarrow> nat option \<Rightarrow> bytes option" where
  "expand_v6 ip ell =
     (case ell of
        None \<Rightarrow> if length ip = 16 then Some ip else None
      | Some e \<Rightarrow>
          if length ip < 16 then Some (take e ip @ replicate (16 - length ip) 0 @ drop e ip) else None)"

definition parse_v6 :: "bytes \<Rightarrow> addr option" where
  "parse_v6 input =
     (let (s, zone, zone_ok) =
        (case bytes_index input [37] of
           None \<Rightarrow> (input, [], True)
         | Some i \<Rightarrow> (take i input, drop (Suc i) input, drop (Suc i) input \<noteq> [])) in
      if \<not> zone_ok then None
      else if s = [58, 58] then Some (Addr6 0 zone)
      else
        (case (if has_prefix s [58, 58] then v6_fields 8 (drop 2 s) [] (Some 0) else v6_fields 8 s [] None) of
           None \<Rightarrow> None
         | Some (ip, ell, rest) \<Rightarrow>
             if rest \<noteq> [] then None
             else map_option (\<lambda>b. Addr6 (get_be b) zone) (expand_v6 ip ell)))"

definition ParseAddr :: "bytes \<Rightarrow> addr option" where
  "ParseAddr s =
     (case filter (\<lambda>c. c = 46 \<or> c = 58 \<or> c = 37) s of
        [] \<Rightarrow> None
      | c # _ \<Rightarrow>
          if c = 46 then map_option (\<lambda>b. Addr4 (get_be b)) (parse_v4 s)
          else if c = 58 then parse_v6 s
          else None)"

lemmas parse_addr_eval [eval_simps] = ParseAddr_def parse_v4_def parse_v6_def hex_val_def expand_v6_def

lemma v6_fields_numeral [eval_simps]:
  "v6_fields (numeral k) s ip ell =
     (case hex_field s 0 0 of (acc, off, s') \<Rightarrow>
        if 4 < off \<or> off = 0 then None
        else if s' \<noteq> [] \<and> hd s' = 46 then
          (if (ell = None \<and> length ip \<noteq> 12) \<or> 12 < length ip then None
           else map_option (\<lambda>v4. (ip @ v4, ell, [])) (parse_v4 s))
        else
          (let ip' = ip @ [of_nat (acc div 256), of_nat (acc mod 256)] in
           case s' of
             [] \<Rightarrow> Some (ip', ell, [])
           | c # s1 \<Rightarrow>
               if c \<noteq> 58 \<or> s1 = [] then None
               else if hd s1 = 58 then
                 (if ell \<noteq> None then None
                  else if tl s1 = [] then Some (ip', Some (length ip'), [])
                  else v6_fields (pred_numeral k) (tl s1) ip' (Some (length ip')))
               else v6_fields (pred_numeral k) s1 ip' ell))"
  by (simp only: numeral_eq_Suc v6_fields.simps)

lemma get_be_zeros_append: "get_be (replicate n 0 @ bs) = get_be bs"
  by (induction n) simp_all

lemma ParseAddr_examples:
  "ParseAddr (lit ''127.0.0.1'') = Some (Addr4 0x7F000001)"
  "ParseAddr (lit ''1.2.3'') = None" "ParseAddr (lit ''1.2.3.256'') = None" "ParseAddr [] = None"
  "ParseAddr (lit ''::1'') = Some (Addr6 1 [])" "ParseAddr (lit ''fe80::1%eth0'') = Some (Addr6 0xFE800000000000000000000000000001 (lit ''eth0''))"
  by (simp_all add: eval_simps Let_def get_be_zeros_append)

text \<open>Every IPv4 address parses from its text.\<close>

lemma parse_octets_digit:
  assumes "x < 10" and "n = 1 \<longrightarrow> v \<noteq> 0" and "10 * v + x < 256"
  shows "parse_octets ((48 + of_nat x) # cs) fs v n = parse_octets cs fs (10 * v + x) (Suc n)"
proof -
  have "is_digit (48 + of_nat x)" "unat (48 + of_nat x :: byte) - 48 = x"
    using assms(1) by (simp_all add: is_digit_digit unat_digit)
  with assms(2,3) show ?thesis by auto
qed

lemma dec_nat_step: "10 \<le> v \<Longrightarrow> dec_nat v = dec_nat (v div 10) @ [48 + of_nat (v mod 10)]"
  by (subst dec_nat.simps) simp

lemma dec_nat_digit: "v < 10 \<Longrightarrow> dec_nat v = [48 + of_nat v]"
  by (subst dec_nat.simps) simp

lemma parse_octets_dec:
  assumes "v < 256"
  shows "\<exists>n > 0. parse_octets (dec_nat v @ cs) fs 0 0 = parse_octets cs fs v n"
proof -
  consider "v < 10" | "10 \<le> v" "v < 100" | "100 \<le> v" by linarith
  then show ?thesis
  proof cases
    case 1
    then have "parse_octets (dec_nat v @ cs) fs 0 0 = parse_octets cs fs v (Suc 0)"
      using parse_octets_digit [of v 0 0 cs fs] assms by (simp add: dec_nat_digit)
    then show ?thesis by blast
  next
    case 2
    define x y where xy: "x = v div 10" "y = v mod 10"
    then have v: "v = 10 * x + y" "x < 10" "0 < x" "y < 10" using 2 by auto
    have "dec_nat v = [48 + of_nat x, 48 + of_nat y]"
      using 2 v(2) by (simp add: dec_nat_step [of v] dec_nat_digit flip: xy)
    then have "parse_octets (dec_nat v @ cs) fs 0 0 = parse_octets cs fs v (Suc (Suc 0))"
      using parse_octets_digit [of x 0 0 "(48 + of_nat y) # cs" fs] parse_octets_digit [of y "Suc 0" x cs fs] v assms
      by (simp del: parse_octets.simps)
    then show ?thesis by blast
  next
    case 3
    define x y z where xyz: "x = v div 100" "y = (v div 10) mod 10" "z = v mod 10"
    have x: "v div 10 div 10 = x" unfolding xyz by (simp add: div_mult2_eq [symmetric])
    have d: "v div 10 = 10 * x + y" "v div 10 div 10 = x" "v = 10 * (v div 10) + z"
      using mult_div_mod_eq [of 10 "v div 10"] x unfolding xyz by simp_all
    have b: "x < 10" "0 < x" "y < 10" "z < 10" "10 * x + y < 256" using 3 assms d unfolding xyz by auto
    have v: "v = 10 * (10 * x + y) + z" using d by simp
    have "dec_nat v = [48 + of_nat x, 48 + of_nat y, 48 + of_nat z]"
      using 3 b(1) by (simp add: dec_nat_step [of v] dec_nat_step [of "v div 10"] dec_nat_digit d(2) flip: xyz(2,3))
    then have "parse_octets (dec_nat v @ cs) fs 0 0 = parse_octets cs fs v (Suc (Suc (Suc 0)))"
      using parse_octets_digit [of x 0 0 "(48 + of_nat y) # (48 + of_nat z) # cs" fs]
        parse_octets_digit [of y "Suc 0" x "(48 + of_nat z) # cs" fs]
        parse_octets_digit [of z "Suc (Suc 0)" "10 * x + y" cs fs] v b assms
      by (simp del: parse_octets.simps)
    then show ?thesis by blast
  qed
qed

lemma parse_octets_dot:
  assumes "v < 256" "length fs < 3"
  shows "parse_octets (dec_nat v @ 46 # cs) fs 0 0 = parse_octets cs (fs @ [v]) 0 0"
proof -
  obtain n where "n > 0" "parse_octets (dec_nat v @ 46 # cs) fs 0 0 = parse_octets (46 # cs) fs v n"
    using parse_octets_dec [OF assms(1)] by blast
  with assms(2) show ?thesis by (simp add: is_digit_def)
qed

lemma ParseAddr_v4: "ParseAddr (AddrString (Addr4 w)) = Some (Addr4 w)"
proof -
  obtain a b c d where w: "put_be 4 w = [a, b, c, d]"
    by (simp add: eval_simps)
  have u: "unat x < 256" for x :: byte using unsigned_less [of x] by simp
  let ?s = "dec_nat (unat a) @ 46 # dec_nat (unat b) @ 46 # dec_nat (unat c) @ 46 # dec_nat (unat d)"
  have s: "AddrString (Addr4 w) = ?s" by (simp add: string4_def w)
  obtain n where "n > 0" "parse_octets (dec_nat (unat d) @ []) [unat a, unat b, unat c] 0 0 =
      parse_octets [] [unat a, unat b, unat c] (unat d) n"
    using parse_octets_dec [OF u] by blast
  then have "parse_octets ?s [] 0 0 = Some [unat a, unat b, unat c, unat d]"
    using u by (simp add: parse_octets_dot)
  then have v4: "parse_v4 ?s = Some [a, b, c, d]" by (simp add: parse_v4_def)
  have "filter (\<lambda>c. c = 46 \<or> c = 58 \<or> c = 37) (dec_nat n) = []" for n
    using dec_nat_digits [of n] by (auto simp: filter_empty_conv list_all_iff is_digit_def)
  then have "filter (\<lambda>c. c = 46 \<or> c = 58 \<or> c = 37) ?s = [46, 46, 46]" by simp
  then have "ParseAddr ?s = Some (Addr4 (get_be [a, b, c, d]))" by (simp add: ParseAddr_def v4)
  moreover have "get_be [a, b, c, d] = w" using get_put_be [where n = 4 and w = w] w by simp
  ultimately show ?thesis unfolding s by simp
qed

section \<open>Hosts and ports (net)\<close>

text \<open>
  \<open>JoinHostPort\<close>, the string of a TCP address, and \<open>SplitHostPort\<close> with its errors as
  \<open>None\<close>. The string form of a mapped IPv4 address is the IPv4 one.
\<close>

definition JoinHostPort :: "bytes \<Rightarrow> bytes \<Rightarrow> bytes" where
  "JoinHostPort host port =
     (if 58 \<in> set host then lit ''['' @ host @ lit '']:'' @ port else host @ lit '':'' @ port)"

definition TCPAddrString :: "addr \<times> uint16 \<Rightarrow> bytes" where
  "TCPAddrString a = JoinHostPort (AddrString (Unmap (fst a))) (dec_nat (unat (snd a)))"

definition SplitHostPort :: "bytes \<Rightarrow> (bytes \<times> bytes) option" where
  "SplitHostPort hp =
     (case LastIndex_nat hp (lit '':'') of
        None \<Rightarrow> None
      | Some i \<Rightarrow>
          (if hd hp = 91 then
             (case bytes_index hp (lit '']'') of
                None \<Rightarrow> None
              | Some fin \<Rightarrow>
                  if Suc fin \<noteq> i then None
                  else if 91 \<in> set (drop 1 hp) \<or> 93 \<in> set (drop (Suc fin) hp) then None
                  else Some (take (fin - 1) (drop 1 hp), drop (Suc i) hp))
           else if 58 \<in> set (take i hp) then None
           else if 91 \<in> set hp \<or> 93 \<in> set hp then None
           else Some (take i hp, drop (Suc i) hp)))"

declare JoinHostPort_def [eval_simps] TCPAddrString_def [eval_simps] SplitHostPort_def [eval_simps]

lemma LastIndex_none: "58 \<notin> set bs \<Longrightarrow> LastIndex_nat bs (lit '':'') = None"
  by (induction bs) (auto simp: lit_def)

lemma LastIndex_join: "58 \<notin> set port \<Longrightarrow> LastIndex_nat (host @ 58 # port) (lit '':'') = Some (length host)"
proof (induction host)
  case Nil
  then show ?case using LastIndex_none [of port] by (simp add: lit_def)
qed simp

lemma SplitHostPort_join:
  assumes "host \<noteq> []" "58 \<notin> set host" "91 \<notin> set host" "93 \<notin> set host" "list_all is_digit port"
  shows "SplitHostPort (JoinHostPort host port) = Some (host, port)"
proof -
  have p: "58 \<notin> set port" "91 \<notin> set port" "93 \<notin> set port"
    using assms(5) by (auto simp: list_all_iff is_digit_def)
  have "JoinHostPort host port = host @ 58 # port" using assms(2) by (simp add: JoinHostPort_def lit_def)
  moreover have "hd (host @ 58 # port) \<noteq> 91" using assms by (cases host) auto
  ultimately show ?thesis
    using assms p LastIndex_join [OF p(1), of host] by (simp add: SplitHostPort_def)
qed

lemma string4_chars: "list_all (\<lambda>c. is_digit c \<or> c = 46) (string4 w)"
proof -
  have "list_all (\<lambda>c. is_digit c \<or> c = 46) (sep_join 46 (map (\<lambda>b. dec_nat (unat b)) bs))" for bs :: bytes
    by (induction bs rule: induct_list012)
      (use dec_nat_digits in \<open>auto simp: list_all_iff\<close>)
  then show ?thesis by (simp add: string4_def)
qed

text \<open>The host of an IPv4 connection is its address again.\<close>

lemma ParseAddr_remote:
  "\<exists>port. SplitHostPort (TCPAddrString (Addr4 w, p)) = Some (AddrString (Addr4 w), port)"
proof -
  have "58 \<notin> set (string4 w)" "91 \<notin> set (string4 w)" "93 \<notin> set (string4 w)"
    using string4_chars [of w] by (auto simp: list_all_iff is_digit_def)
  moreover have "string4 w \<noteq> []" by (simp add: string4_def put_be_numeral)
  ultimately show ?thesis
    using SplitHostPort_join [of "string4 w" "dec_nat (unat p)"] dec_nat_digits
    by (simp add: TCPAddrString_def)
qed

end
