(* ===== verification/HttpParser.thy ===== *)
theory HttpParser
  imports GoNet
begin

text \<open>
  The request parser of the HTTP tracker, tracker/http/parser.go: the in-place unescaping, the
  splitting of the query into at most 45 parameters, and \<open>parse\<close> over a worker's whole receive
  buffer, which it changes. The second half proves that the unescaping equals the usual
  percent-decoding, that parsing never panics, and what it makes of a well-formed request.
\<close>

section \<open>Unescaping\<close>

text \<open>Characters that are no hexadecimal digit count as 0.\<close>

definition fromHexChar :: "byte \<Rightarrow> byte" where
  "fromHexChar c =
     (if 48 \<le> c \<and> c \<le> 57 then c - 48
      else if 97 \<le> c \<and> c \<le> 102 then c - 97 + 10
      else if 65 \<le> c \<and> c \<le> 70 then c - 65 + 10
      else 0)"

text \<open>The shift of everything after position \<open>x\<close> left by two.\<close>

function shift_left :: "nat \<Rightarrow> bytes \<Rightarrow> bytes" where
  "shift_left x bs =
     (if x + 3 < length bs then shift_left (Suc x) (bs[x + 1 := bs ! (x + 3)]) else bs)"
  by pat_completeness auto
termination by (relation "measure (\<lambda>(x, bs). length bs - x)") auto

declare shift_left.simps [simp del]

text \<open>The loop: the slice, its current length, and the position. The result is the slice and its length.\<close>

function unescape_loop :: "bytes \<Rightarrow> nat \<Rightarrow> nat \<Rightarrow> bytes \<times> nat option" where
  "unescape_loop bs l i =
     (if i < l then
        (if bs ! i = 37 then
           (if l \<le> i + 2 then (bs, None)
            else
              (let a = fromHexChar (bs ! (i + 1)); b = fromHexChar (bs ! (i + 2)) in
               unescape_loop (shift_left i (bs[i := push_bit 4 a OR b])) (l - 2) (Suc i)))
         else unescape_loop bs l (Suc i))
      else (bs, Some l))"
  by pat_completeness auto
termination by (relation "measure (\<lambda>(bs, l, i). l - i)") auto

declare unescape_loop.simps [simp del]

text \<open>The slice after the in-place changes, and the part of it that is returned (nil for an error).\<close>

definition unescapeFast :: "bytes \<Rightarrow> bytes \<times> bytes option" where
  "unescapeFast bs =
     (case unescape_loop bs (length bs) 0 of
        (bs', None) \<Rightarrow> (bs', None)
      | (bs', Some l) \<Rightarrow> (bs', Some (take l bs')))"

section \<open>Splitting the query\<close>

definition maxparams :: nat where
  "maxparams = 45"

text \<open>The bounds of the parameters found so far, in order, and the index of the next one.\<close>

fun split_params ::
  "bytes \<Rightarrow> nat \<Rightarrow> nat \<Rightarrow> nat \<Rightarrow> (nat \<times> nat) list \<Rightarrow> (nat \<times> nat) list \<times> nat" where
  "split_params [] i pos pIndex segs = (segs, pIndex)"
| "split_params (c # cs) i pos pIndex segs =
     (if maxparams \<le> pIndex then (segs, pIndex)
      else if c = 38 then split_params cs (Suc i) (Suc i) (Suc pIndex) (segs @ [(pos, i)])
      else if cs = [] then split_params cs (Suc i) pos pIndex (segs @ [(pos, Suc i)])
      else split_params cs (Suc i) pos pIndex segs)"

text \<open>Every parameter is unescaped in place; a missing (nil) or invalid one ends the loop.\<close>

fun unescape_params ::
  "bytes \<Rightarrow> (nat \<times> nat) option list \<Rightarrow> bytes list \<Rightarrow> bytes \<times> bytes list option" where
  "unescape_params q [] ps = (q, Some ps)"
| "unescape_params q (None # ss) ps = (q, None)"
| "unescape_params q (Some (a, b) # ss) ps =
     (case unescapeFast (take (b - a) (drop a q)) of
        (seg, r) \<Rightarrow>
          (case r of
             None \<Rightarrow> (copy_at a seg q, None)
           | Some v \<Rightarrow> unescape_params (copy_at a seg q) ss (ps @ [v])))"

section \<open>Parsing\<close>

datatype parse_error = InvalidParse | Base64Error

record parsed =
  p_Path :: bytes
  p_Params :: "bytes option list"
  p_URLend :: int
  p_Method :: bytes
  p_pathstart :: int
  p_pathend :: int

type_synonym parse_result = "panic + ((parse_error + parsed) \<times> bytes)"

text \<open>
  The parser proper, on the bytes it looks at, with those bytes after it. The path and the
  method alias them, so they are cut out last.
\<close>

definition parse_request :: "bytes \<Rightarrow> parse_result" where
  "parse_request data =
     (let URLend = Index data (lit '' HTTP/'');
          pathstart = Index data (lit ''GET /'') + 4;
          pathend = Index data (lit ''?'');
          methodend = Index data (lit '' /'') in
      if methodend = -1 then Inr (Inl InvalidParse, data)
      else if URLend = -1 then Inr (Inl InvalidParse, data)
      else if URLend < 5 then Inr (Inl InvalidParse, data)
      else if pathstart > URLend then Inr (Inl InvalidParse, data)
      else if pathend \<noteq> -1 \<and> pathend < URLend then
        (if pathend < pathstart then Inr (Inl InvalidParse, data)
         else
           bindP (go_slice data (pathend + 1) URLend) (\<lambda>q.
           case split_params q 0 0 0 [] of (segs, k) \<Rightarrow>
           let pIndex = (if k = maxparams then k - 1 else k);
               slots = map Some segs @ replicate (maxparams - length segs) None in
           case unescape_params q (take (Suc pIndex) slots) [] of (q', r) \<Rightarrow>
           let data' = copy_at (nat (pathend + 1)) q' data in
           (case r of
              None \<Rightarrow> Inr (Inl InvalidParse, data')
            | Some ps \<Rightarrow>
                bindP (go_slice data' 0 methodend) (\<lambda>method.
                bindP (go_slice data' pathstart pathend) (\<lambda>path.
                  Inr (Inr \<lparr>p_Path = path,
                            p_Params = map Some ps @ replicate (maxparams - length ps) None,
                            p_URLend = URLend, p_Method = method,
                            p_pathstart = pathstart, p_pathend = pathend\<rparr>, data'))))))
      else
        bindP (go_slice data 0 methodend) (\<lambda>method.
        bindP (go_slice data pathstart URLend) (\<lambda>path.
          Inr (Inr \<lparr>p_Path = path, p_Params = replicate maxparams None, p_URLend = URLend,
                    p_Method = method, p_pathstart = pathstart, p_pathend = pathend\<rparr>, data))))"

text \<open>
  \<open>parse\<close> on the whole buffer. A request that starts with the base64 form of GET is decoded
  into the front of the buffer; \<open>left\<close> gives what the decoder leaves in the buffer otherwise,
  which the library does not specify.
\<close>

definition parse :: "(bytes \<Rightarrow> bytes) \<Rightarrow> bytes \<Rightarrow> nat \<Rightarrow> parse_result" where
  "parse left data sz =
     (if has_prefix data (lit ''R0VU'') then
        bindP (go_slice data 0 (int sz)) (\<lambda>src.
        case b64_decode src of
          None \<Rightarrow> Inr (Inl Base64Error, left data)
        | Some decoded \<Rightarrow>
            bindP (parse_request decoded) (\<lambda>(r, decoded').
              Inr (r, decoded' @ drop (length decoded) (left data))))
      else parse_request data)"

section \<open>Unescaping is percent-decoding\<close>

fun percent_decode :: "bytes \<Rightarrow> bytes option" where
  "percent_decode [] = Some []"
| "percent_decode (c # cs) =
     (if c = 37 then
        (case cs of
           a # b # rest \<Rightarrow>
             map_option ((#) (push_bit 4 (fromHexChar a) OR fromHexChar b)) (percent_decode rest)
         | _ \<Rightarrow> None)
      else map_option ((#) c) (percent_decode cs))"

lemma length_shift_left [simp]: "length (shift_left x bs) = length bs"
proof (induction x bs rule: shift_left.induct)
  case (1 x bs)
  then show ?case by (subst shift_left.simps) simp
qed

lemma take_shift_left:
  "x + 3 \<le> length bs \<Longrightarrow> take (length bs - 2) (shift_left x bs) = take (Suc x) bs @ drop (x + 3) bs"
proof (induction x bs rule: shift_left.induct)
  case (1 x bs)
  show ?case
  proof (cases "x + 3 < length bs")
    case True
    let ?bs = "bs[x + 1 := bs ! (x + 3)]"
    have "take (length bs - 2) (shift_left x bs) = take (length ?bs - 2) (shift_left (Suc x) ?bs)"
      using True by (subst shift_left.simps) simp
    also have "\<dots> = take (Suc (Suc x)) ?bs @ drop (x + 4) bs"
      using "1.IH" True by (simp add: add.commute)
    also have "take (Suc (Suc x)) ?bs = take (Suc x) bs @ [bs ! (x + 3)]"
      using True by (subst take_Suc_conv_app_nth) simp_all
    also have "(take (Suc x) bs @ [bs ! (x + 3)]) @ drop (x + 4) bs = take (Suc x) bs @ drop (x + 3) bs"
      using Cons_nth_drop_Suc [OF True] by (simp add: add.commute)
    finally show ?thesis .
  next
    case False
    with "1.prems" have "length bs - 2 = Suc x" "drop (x + 3) bs = []" by simp_all
    with False show ?thesis by (subst shift_left.simps) (simp only: if_False append_Nil2)
  qed
qed

lemma unescape_loop_result:
  "i \<le> l \<Longrightarrow> l \<le> length bs \<Longrightarrow>
   length (fst (unescape_loop bs l i)) = length bs \<and>
   (case unescape_loop bs l i of
      (bs', None) \<Rightarrow> percent_decode (drop i (take l bs)) = None
    | (bs', Some l') \<Rightarrow> l' \<le> length bs \<and>
        map_option ((@) (take i bs)) (percent_decode (drop i (take l bs))) = Some (take l' bs'))"
proof (induction bs l i rule: unescape_loop.induct)
  case (1 bs l i)
  show ?case
  proof (cases "i < l")
    case False
    with "1.prems" show ?thesis by (subst (1 2) unescape_loop.simps) simp
  next
    case i: True
    let ?rest = "drop (Suc i) (take l bs)"
    have hd: "drop i (take l bs) = bs ! i # ?rest"
      using i "1.prems" by (subst Cons_nth_drop_Suc [symmetric]) simp_all
    show ?thesis
    proof (cases "bs ! i = 37")
      case False
      have "take (Suc i) bs = take i bs @ [bs ! i]" using i "1.prems" by (simp add: take_Suc_conv_app_nth)
      with "1.IH"(2) [OF i False] "1.prems" i False show ?thesis
        by (subst (1 2) unescape_loop.simps) (auto simp: hd split: prod.splits option.splits)
    next
      case pc: True
      show ?thesis
      proof (cases "l \<le> i + 2")
        case True
        then have "length ?rest \<le> 1" by simp
        then have "percent_decode (drop i (take l bs)) = None"
          by (cases ?rest; cases "tl ?rest") (auto simp: hd pc)
        with i pc True show ?thesis by (subst (1 2) unescape_loop.simps) simp
      next
        case False
        define v where "v = push_bit 4 (fromHexChar (bs ! (i + 1))) OR fromHexChar (bs ! (i + 2))"
        let ?bs = "shift_left i (bs[i := v])"
        have len: "i + 3 \<le> length (bs[i := v])" using False "1.prems" by simp
        have "?rest = bs ! (i + 1) # bs ! (i + 2) # drop (i + 3) (take l bs)"
          using False "1.prems"
          by (subst Cons_nth_drop_Suc [symmetric], simp, subst Cons_nth_drop_Suc [symmetric])
            (simp_all add: numeral_3_eq_3)
        then have dec: "percent_decode (drop i (take l bs)) =
            map_option ((#) v) (percent_decode (drop (i + 3) (take l bs)))"
          by (simp add: hd pc v_def)
        have t: "take (length bs - 2) ?bs = take i bs @ v # drop (i + 3) bs"
          using take_shift_left [OF len] "1.prems" i by (simp add: take_Suc_conv_app_nth)
        have "take (l - 2) ?bs = take (l - 2) (take (length bs - 2) ?bs)" using "1.prems" by (simp add: min_def)
        also have "\<dots> = take i bs @ v # take (l - 3 - i) (drop (i + 3) bs)"
        proof -
          have "l - 2 = i + Suc (l - 3 - i)" using False by simp
          moreover have "length (take i bs) = i" using i "1.prems" by simp
          ultimately have "take (l - 2) (take i bs @ v # drop (i + 3) bs) =
              take (i + Suc (l - 3 - i)) (take i bs @ v # drop (i + 3) bs)" by simp
          also have "\<dots> = take i bs @ v # take (l - 3 - i) (drop (i + 3) bs)"
            using \<open>length (take i bs) = i\<close> unfolding take_append by simp
          finally show ?thesis unfolding t .
        qed
        finally have t': "take (l - 2) ?bs = take i bs @ v # drop (i + 3) (take l bs)"
          by (simp add: drop_take add.commute)
        have rest: "drop (Suc i) (take (l - 2) ?bs) = drop (i + 3) (take l bs)"
          unfolding t' using i "1.prems" by simp
        have "Suc i \<le> length bs - 2" using False "1.prems" by linarith
        then have "take (Suc i) ?bs = take (Suc i) (take (length bs - 2) ?bs)"
          by (simp only: take_take min_absorb1)
        then have pre: "take (Suc i) ?bs = take i bs @ [v]"
          unfolding t using i "1.prems" by simp
        have eq: "unescape_loop bs l i = unescape_loop ?bs (l - 2) (Suc i)"
          using i pc False by (subst unescape_loop.simps) (simp add: v_def Let_def)
        have "Suc i \<le> l - 2" "l - 2 \<le> length ?bs" using False "1.prems" by simp_all
        note ih = "1.IH"(1) [OF i pc False refl refl, folded v_def, OF this, unfolded rest pre]
        show ?thesis
        proof (cases "unescape_loop ?bs (l - 2) (Suc i)")
          case (Pair bs' r)
          with ih show ?thesis
            unfolding eq dec by (cases r) (auto simp: option.map_comp o_def)
        qed
      qed
    qed
  qed
qed

lemma unescapeFast_result:
  "length (fst (unescapeFast bs)) = length bs \<and> snd (unescapeFast bs) = percent_decode bs"
  using unescape_loop_result [of 0 "length bs" bs]
  by (auto simp: unescapeFast_def split: prod.splits option.splits)

section \<open>Splitting\<close>

text \<open>The query cut at every ampersand.\<close>

fun split_amp :: "bytes \<Rightarrow> bytes list" where
  "split_amp [] = [[]]"
| "split_amp (c # cs) =
     (if c = 38 then [] # split_amp cs
      else (case split_amp cs of [] \<Rightarrow> [[c]] | s # ss \<Rightarrow> (c # s) # ss))"

definition seg_of :: "bytes \<Rightarrow> nat \<times> nat \<Rightarrow> bytes" where
  "seg_of q ab = take (snd ab - fst ab) (drop (fst ab) q)"

text \<open>Segments are in order and do not overlap.\<close>

fun segs_ok :: "nat \<Rightarrow> nat \<Rightarrow> (nat \<times> nat) list \<Rightarrow> bool" where
  "segs_ok lo hi [] = (lo \<le> Suc hi)"
| "segs_ok lo hi ((a, b) # ss) = (lo \<le> a \<and> a \<le> b \<and> b \<le> hi \<and> segs_ok (Suc b) hi ss)"

definition split_state :: "nat \<Rightarrow> nat \<Rightarrow> nat \<Rightarrow> nat \<Rightarrow> (nat \<times> nat) list \<Rightarrow> bool" where
  "split_state lo i pos pIndex segs \<longleftrightarrow>
     segs_ok lo i segs \<and> pos = (if segs = [] then lo else Suc (snd (last segs))) \<and> pos \<le> i \<and>
     pIndex = length segs \<and> pIndex \<le> maxparams"

definition split_done :: "nat \<Rightarrow> nat \<Rightarrow> (nat \<times> nat) list \<times> nat \<Rightarrow> bool" where
  "split_done lo hi r \<longleftrightarrow>
     (case r of (segs, k) \<Rightarrow> segs_ok lo hi segs \<and> k \<le> maxparams \<and> length segs \<le> maxparams \<and>
        k \<le> length segs \<and> length segs \<le> Suc k)"

lemma segs_ok_mono: "segs_ok lo i ss \<Longrightarrow> i \<le> j \<Longrightarrow> segs_ok lo j ss"
  by (induction ss arbitrary: lo) auto

lemma segs_ok_add:
  "segs_ok lo i segs \<Longrightarrow> pos = (if segs = [] then lo else Suc (snd (last segs))) \<Longrightarrow>
   pos \<le> b \<Longrightarrow> b \<le> j \<Longrightarrow> i \<le> j \<Longrightarrow> segs_ok lo j (segs @ [(pos, b)])"
proof (induction segs arbitrary: lo)
  case (Cons s ss)
  then show ?case by (cases s; cases "ss = []") auto
qed auto

lemma split_params_done:
  "split_state lo i pos pIndex segs \<Longrightarrow>
   split_done lo (i + length cs) (split_params cs i pos pIndex segs)"
proof (induction cs i pos pIndex segs rule: split_params.induct)
  case (1 i pos pIndex segs)
  then show ?case by (simp add: split_state_def split_done_def)
next
  case (2 c cs i pos pIndex segs)
  note st = "2.prems" [unfolded split_state_def]
  show ?case
  proof (cases "maxparams \<le> pIndex")
    case True
    with st segs_ok_mono [of lo i segs "i + length (c # cs)"] show ?thesis by (simp add: split_done_def)
  next
    case F: False
    show ?thesis
    proof (cases "c = 38")
      case True
      have "split_state lo (Suc i) (Suc i) (Suc pIndex) (segs @ [(pos, i)])"
        using st F segs_ok_add [of lo i segs pos i "Suc i"] by (simp add: split_state_def)
      from "2.IH"(1) [OF F True this] F True show ?thesis by simp
    next
      case c: False
      show ?thesis
      proof (cases "cs = []")
        case True
        with F c st segs_ok_add [of lo i segs pos "Suc i" "Suc i"] show ?thesis
          by (simp add: split_done_def)
      next
        case False
        have "split_state lo (Suc i) pos pIndex segs"
          using st segs_ok_mono [of lo i segs "Suc i"] by (simp add: split_state_def)
        from "2.IH"(3) [OF F c False this] F c False show ?thesis by simp
      qed
    qed
  qed
qed

text \<open>The loop finds the parameters of a query that fits, unless the last one is empty.\<close>

lemma split_amp_nonempty [simp]: "split_amp cs \<noteq> []"
  by (cases cs) (auto split: list.splits)

lemma split_amp_cons:
  assumes "c \<noteq> 38"
  shows "hd (split_amp (c # cs)) = c # hd (split_amp cs)" "tl (split_amp (c # cs)) = tl (split_amp cs)"
    "length (split_amp (c # cs)) = length (split_amp cs)"
proof -
  obtain s ss where "split_amp cs = s # ss" by (meson list.exhaust split_amp_nonempty)
  with assms show "hd (split_amp (c # cs)) = c # hd (split_amp cs)"
    "tl (split_amp (c # cs)) = tl (split_amp cs)" "length (split_amp (c # cs)) = length (split_amp cs)"
    by simp_all
qed

lemma split_params_amp:
  assumes "cs \<noteq> []" "last cs \<noteq> 38" "pIndex + length (split_amp cs) \<le> maxparams" "pos \<le> i"
    and "q = pre @ cs" "length pre = i"
  shows "\<exists>segs'. split_params cs i pos pIndex segs = (segs @ segs', pIndex + length segs' - 1) \<and>
    map (seg_of q) segs' = (drop pos pre @ hd (split_amp cs)) # tl (split_amp cs) \<and> fst (hd segs') = pos"
  using assms
proof (induction cs arbitrary: i pos pIndex segs pre)
  case Nil
  then show ?case by simp
next
  case (Cons c cs)
  have F: "\<not> maxparams \<le> pIndex" using Cons.prems(3) split_amp_nonempty [of "c # cs"]
    by (cases "split_amp (c # cs)") auto
  have q: "q = (pre @ [c]) @ cs" using Cons.prems(5) by simp
  have seg: "seg_of q (pos, i) = drop pos pre"
    using Cons.prems(4-6) by (simp add: seg_of_def)
  show ?case
  proof (cases "c = 38")
    case True
    with Cons.prems(2) have cs: "cs \<noteq> []" "last cs \<noteq> 38" by (auto split: if_splits)
    have "Suc pIndex + length (split_amp cs) \<le> maxparams" using Cons.prems(3) True by simp
    from Cons.IH [OF cs this _ q, of "Suc i" "Suc i" "segs @ [(pos, i)]"] Cons.prems(6) obtain segs' where
      "split_params cs (Suc i) (Suc i) (Suc pIndex) (segs @ [(pos, i)]) =
         ((segs @ [(pos, i)]) @ segs', Suc pIndex + length segs' - 1)"
      "map (seg_of q) segs' = (drop (Suc i) (pre @ [c]) @ hd (split_amp cs)) # tl (split_amp cs)" by auto
    with True F seg Cons.prems(6) show ?thesis
      by (intro exI [of _ "(pos, i) # segs'"]) auto
  next
    case c: False
    show ?thesis
    proof (cases "cs = []")
      case True
      have "seg_of q (pos, Suc i) = drop pos pre @ [c]"
        using Cons.prems(4-6) True by (simp add: seg_of_def)
      with True c F show ?thesis by (intro exI [of _ "[(pos, Suc i)]"]) simp
    next
      case False
      then have cs: "cs \<noteq> []" "last cs \<noteq> 38" using Cons.prems(2) by auto
      have "length (split_amp (c # cs)) = length (split_amp cs)" by (rule split_amp_cons [OF c])
      then have k: "pIndex + length (split_amp cs) \<le> maxparams" using Cons.prems(3) by simp
      have "pos \<le> Suc i" "length (pre @ [c]) = Suc i" using Cons.prems(4,6) by simp_all
      from Cons.IH [OF cs k this(1) q this(2), of segs] obtain segs' where
        ih: "split_params cs (Suc i) pos pIndex segs = (segs @ segs', pIndex + length segs' - 1) \<and>
          map (seg_of q) segs' = (drop pos (pre @ [c]) @ hd (split_amp cs)) # tl (split_amp cs) \<and>
          fst (hd segs') = pos" ..
      have "split_params (c # cs) i pos pIndex segs = split_params cs (Suc i) pos pIndex segs"
        using c F False by simp
      moreover have "hd (split_amp (c # cs)) = c # hd (split_amp cs)" "tl (split_amp (c # cs)) = tl (split_amp cs)"
        by (rule split_amp_cons [OF c])+
      moreover have "drop pos (pre @ [c]) = drop pos pre @ [c]" using Cons.prems(4,6) by simp
      ultimately have "split_params (c # cs) i pos pIndex segs = (segs @ segs', pIndex + length segs' - 1) \<and>
        map (seg_of q) segs' = (drop pos pre @ hd (split_amp (c # cs))) # tl (split_amp (c # cs)) \<and>
        fst (hd segs') = pos"
        using ih by (simp only: append_assoc append_Cons append_Nil)
      then show ?thesis ..
    qed
  qed
qed

section \<open>Unescaping the parameters\<close>

lemma seg_of_copy:
  assumes "a + length seg < fst ab \<or> snd ab \<le> fst ab" "a + length seg \<le> length q"
  shows "seg_of (copy_at a seg q) ab = seg_of q ab"
  using assms by (auto simp: seg_of_def copy_at_def min_def)

lemma seg_of_later:
  "segs_ok (Suc b) (length q) ss \<Longrightarrow> a + length seg \<le> b \<Longrightarrow> b \<le> length q \<Longrightarrow>
   map (seg_of (copy_at a seg q)) ss = map (seg_of q) ss"
proof (induction ss arbitrary: b)
  case (Cons s ss)
  obtain c d where s: "s = (c, d)" by (cases s)
  with Cons.prems have "segs_ok (Suc d) (length q) ss" "a + length seg \<le> d" "d \<le> length q" by auto
  from Cons.IH [OF this] Cons.prems s show ?case by (simp add: seg_of_copy)
qed simp

lemma unescape_params_result:
  assumes "segs_ok lo (length q) segs"
  shows "snd (unescape_params q (map Some segs) ps) =
    map_option ((@) ps) (those (map (percent_decode o seg_of q) segs))"
  using assms
proof (induction segs arbitrary: lo q ps)
  case Nil
  then show ?case by simp
next
  case (Cons s segs)
  obtain a b where s: "s = (a, b)" by (cases s)
  let ?seg = "take (b - a) (drop a q)"
  obtain seg r where u: "unescapeFast ?seg = (seg, r)" by (cases "unescapeFast ?seg")
  have res: "length seg = length ?seg" "r = percent_decode (seg_of q (a, b))"
    using unescapeFast_result [of ?seg] u by (auto simp: seg_of_def)
  have ab: "a \<le> b" "b \<le> length q" "segs_ok (Suc b) (length q) segs" using Cons.prems s by auto
  have len: "a + length seg \<le> b" "length (copy_at a seg q) = length q" using res(1) ab by simp_all
  have "map (seg_of (copy_at a seg q)) segs = map (seg_of q) segs"
    by (rule seg_of_later [OF ab(3) len(1) ab(2)])
  then have later: "map (percent_decode o seg_of (copy_at a seg q)) segs = map (percent_decode o seg_of q) segs"
    by (metis list.map_comp)
  show ?case
  proof (cases r)
    case None
    with s u res show ?thesis by simp
  next
    case (Some v)
    have "segs_ok (Suc b) (length (copy_at a seg q)) segs" using ab(3) len(2) by simp
    note ih = Cons.IH [OF this, of "ps @ [v]", unfolded later]
    have "percent_decode (seg_of q (a, b)) = Some v" using res(2) Some by simp
    with ih s u Some show ?thesis by (simp add: option.map_comp o_def)
  qed
qed

lemma unescape_params_missing: "snd (unescape_params q (map Some segs @ None # ss) ps) = None"
  by (induction segs arbitrary: q ps) (auto split: prod.splits option.splits)

lemma unescape_params_length:
  assumes "segs_ok lo (length q) segs"
  shows "length (fst (unescape_params q (take n (map Some segs @ replicate k None)) ps)) = length q"
  using assms
proof (induction segs arbitrary: lo q ps n)
  case Nil
  then show ?case by (cases n; cases k) auto
next
  case (Cons s segs)
  obtain a b where s: "s = (a, b)" by (cases s)
  let ?seg = "take (b - a) (drop a q)"
  obtain seg r where u: "unescapeFast ?seg = (seg, r)" by (cases "unescapeFast ?seg")
  have res: "length seg = length ?seg" using unescapeFast_result [of ?seg] u by auto
  have ab: "a \<le> b" "b \<le> length q" "segs_ok (Suc b) (length q) segs" using Cons.prems s by auto
  have len: "length (copy_at a seg q) = length q" using res ab by simp
  have "segs_ok (Suc b) (length (copy_at a seg q)) segs" using ab(3) len by simp
  from Cons.IH [OF this] s u len show ?case by (cases n) (auto split: option.splits)
qed

text \<open>What the unescaping does to the buffer: nothing before the parameters, nothing at all without escapes.\<close>

lemma copy_at_self: "copy_at a (take n (drop a q)) q = q"
  by (simp add: copy_at_def min_def) (metis append_take_drop_id drop_drop add.commute)

lemma unescape_params_prefix:
  assumes "segs_ok lo (length q) segs"
  shows "take lo (fst (unescape_params q (map Some segs) ps)) = take lo q"
  using assms
proof (induction segs arbitrary: lo q ps)
  case (Cons s segs)
  obtain a b where s: "s = (a, b)" by (cases s)
  let ?seg = "take (b - a) (drop a q)"
  obtain seg r where u: "unescapeFast ?seg = (seg, r)" by (cases "unescapeFast ?seg")
  have res: "length seg = length ?seg" using unescapeFast_result [of ?seg] u by auto
  have ab: "lo \<le> a" "a \<le> b" "b \<le> length q" "segs_ok (Suc b) (length q) segs" using Cons.prems s by auto
  have len: "length (copy_at a seg q) = length q" using res ab by simp
  have pre: "take lo (copy_at a seg q) = take lo q" using ab by (simp add: copy_at_def min_def)
  have "segs_ok (Suc b) (length (copy_at a seg q)) segs" using ab(4) len by simp
  from Cons.IH [OF this] have "take (Suc b) (fst (unescape_params (copy_at a seg q) (map Some segs) ps')) =
      take (Suc b) (copy_at a seg q)" for ps' .
  then have "take lo (take (Suc b) (fst (unescape_params (copy_at a seg q) (map Some segs) ps'))) =
      take lo (take (Suc b) (copy_at a seg q))" for ps' by simp
  then have "take lo (fst (unescape_params (copy_at a seg q) (map Some segs) ps')) = take lo q" for ps'
    using ab pre by (simp add: min_def split: if_splits)
  with s u pre show ?case by (cases r) simp_all
qed simp

lemma unescape_loop_plain: "37 \<notin> set bs \<Longrightarrow> l \<le> length bs \<Longrightarrow> unescape_loop bs l i = (bs, Some l)"
proof (induction bs l i rule: unescape_loop.induct)
  case (1 bs l i)
  show ?case
  proof (cases "i < l")
    case True
    then have "bs ! i \<noteq> 37" using 1 by (metis nth_mem order_less_le_trans)
    with 1 True show ?thesis by (subst unescape_loop.simps) simp
  next
    case False
    then show ?thesis by (subst unescape_loop.simps) simp
  qed
qed

lemma unescapeFast_plain: "37 \<notin> set bs \<Longrightarrow> unescapeFast bs = (bs, Some bs)"
  by (simp add: unescapeFast_def unescape_loop_plain)

lemma unescape_params_plain: "37 \<notin> set q \<Longrightarrow> fst (unescape_params q (map Some segs) ps) = q"
proof (induction segs arbitrary: ps)
  case (Cons s segs)
  obtain a b where s: "s = (a, b)" by (cases s)
  let ?seg = "take (b - a) (drop a q)"
  have "37 \<notin> set ?seg" using Cons.prems by (meson in_set_dropD in_set_takeD)
  then have "unescapeFast ?seg = (?seg, Some ?seg)" by (rule unescapeFast_plain)
  with Cons s show ?case by (simp add: copy_at_self)
qed simp

text \<open>The first parameter is decoded at its place in the buffer.\<close>

lemma unescapeFast_take: "unescapeFast bs = (seg, Some v) \<Longrightarrow> take (length v) seg = v"
  by (auto simp: unescapeFast_def min_def split: prod.splits option.splits)

lemma unescape_params_first:
  assumes "segs_ok 0 (length q) ((0, b) # segs)" and u: "unescape_params q (map Some ((0, b) # segs)) [] = (q', Some ps)"
  shows "take (length (hd ps)) q' = hd ps"
proof -
  let ?seg = "take b q"
  obtain seg r where s: "unescapeFast ?seg = (seg, r)" by (cases "unescapeFast ?seg")
  with u obtain v where v: "r = Some v" by (cases r) auto
  have b: "b \<le> length q" "segs_ok (Suc b) (length q) segs" using assms(1) by auto
  have len: "length seg = b" using unescapeFast_result [of ?seg] s b by simp
  let ?q = "copy_at 0 seg q"
  have rest: "unescape_params ?q (map Some segs) [v] = (q', Some ps)" using u s v by simp
  have ok: "segs_ok (Suc b) (length ?q) segs" using b len by simp
  have "take (Suc b) q' = take (Suc b) ?q" using unescape_params_prefix [OF ok, of "[v]"] rest by simp
  then have "take b (take (Suc b) q') = take b (take (Suc b) ?q)" by (rule arg_cong)
  then have "take b q' = take b ?q" by (simp only: take_take min_absorb1 le_SucI order_refl)
  then have seg: "take b q' = seg" using len by (simp add: copy_at_def)
  have "hd ps = v"
    using unescape_params_result [OF ok, of "[v]"] rest by (auto simp: map_option_case split: option.splits)
  moreover have t: "take (length v) seg = v" using unescapeFast_take s v by blast
  moreover have "length v \<le> b" using arg_cong [OF t, of length] len by simp
  moreover have "take (length v) (take b q') = v" unfolding seg by (rule t)
  ultimately show ?thesis by (simp only: take_take min_absorb1)
qed

section \<open>Parsing never panics\<close>

definition parse_ok :: "bytes \<Rightarrow> parse_result \<Rightarrow> bool" where
  "parse_ok data r \<longleftrightarrow> (\<exists>x data'. r = Inr (x, data') \<and> length data' = length data)"

lemma go_slice_Inr: "0 \<le> lo \<Longrightarrow> lo \<le> hi \<Longrightarrow> hi \<le> int (length bs) \<Longrightarrow>
  go_slice bs lo hi = Inr (take (nat (hi - lo)) (drop (nat lo) bs))"
  by (simp add: go_slice_def)

lemma parse_request_ok: "parse_ok data (parse_request data)"
proof -
  let ?ue = "Index data (lit '' HTTP/'')" and ?ps = "Index data (lit ''GET /'') + 4"
  let ?pe = "Index data (lit ''?'')" and ?me = "Index data (lit '' /'')"
  have b: "?ue = -1 \<or> (0 \<le> ?ue \<and> ?ue + 6 \<le> int (length data))" "0 \<le> ?ps" "?ps = 3 \<or> ?ps \<le> int (length data)"
    "?pe = -1 \<or> 0 \<le> ?pe" "?me = -1 \<or> (0 \<le> ?me \<and> ?me \<le> int (length data))"
    using Index_bounds [of data "lit '' HTTP/''"] Index_bounds [of data "lit ''GET /''"]
      Index_bounds [of data "lit ''?''"] Index_bounds [of data "lit '' /''"] by auto
  consider (invalid) "?me = -1 \<or> ?ue = -1 \<or> ?ue < 5 \<or> ?ue < ?ps"
    | (badquery) "\<not> (?me = -1 \<or> ?ue = -1 \<or> ?ue < 5 \<or> ?ue < ?ps)" "?pe \<noteq> -1" "?pe < ?ue" "?pe < ?ps"
    | (query) "\<not> (?me = -1 \<or> ?ue = -1 \<or> ?ue < 5 \<or> ?ue < ?ps)" "?pe \<noteq> -1" "?pe < ?ue" "\<not> ?pe < ?ps"
    | (plain) "\<not> (?me = -1 \<or> ?ue = -1 \<or> ?ue < 5 \<or> ?ue < ?ps)" "\<not> (?pe \<noteq> -1 \<and> ?pe < ?ue)"
    by blast
  then show ?thesis
  proof cases
    case invalid
    then show ?thesis by (auto simp: parse_request_def Let_def parse_ok_def)
  next
    case badquery
    then show ?thesis by (auto simp: parse_request_def Let_def parse_ok_def)
  next
    case plain
    then have "go_slice data 0 ?me = Inr (take (nat (?me - 0)) (drop (nat 0) data))"
      "go_slice data ?ps ?ue = Inr (take (nat (?ue - ?ps)) (drop (nat ?ps) data))"
      using b by (intro go_slice_Inr; auto)+
    with plain(1) show ?thesis
      unfolding parse_request_def Let_def parse_ok_def if_not_P [OF plain(2)] by simp
  next
    case query
    let ?q = "take (nat (?ue - (?pe + 1))) (drop (nat (?pe + 1)) data)"
    have q: "go_slice data (?pe + 1) ?ue = Inr ?q" using query b by (intro go_slice_Inr) auto
    have "nat (?pe + 1) + nat (?ue - (?pe + 1)) = nat ?ue"
      using query b by (subst nat_add_distrib [symmetric]) auto
    moreover have "nat ?ue \<le> length data" using query b by linarith
    ultimately have fit: "nat (?pe + 1) + length ?q \<le> length data" by simp
    obtain segs k where sp: "split_params ?q 0 0 0 [] = (segs, k)" by (cases "split_params ?q 0 0 0 []")
    have "split_state 0 0 0 0 []" by (simp add: split_state_def)
    from split_params_done [OF this, of ?q] sp have segs: "segs_ok 0 (length ?q) segs"
      by (simp add: split_done_def)
    let ?slots = "take (Suc (if k = maxparams then k - 1 else k)) (map Some segs @ replicate (maxparams - length segs) None)"
    obtain q' r where u: "unescape_params ?q ?slots [] = (q', r)" by (cases "unescape_params ?q ?slots []")
    have len: "length q' = length ?q" using unescape_params_length [OF segs] u by (metis fst_conv)
    let ?data = "copy_at (nat (?pe + 1)) q' data"
    have len': "length ?data = length data" using fit len by simp
    have "go_slice ?data 0 ?me = Inr (take (nat (?me - 0)) (drop (nat 0) ?data))"
      "go_slice ?data ?ps ?pe = Inr (take (nat (?pe - ?ps)) (drop (nat ?ps) ?data))"
      using b query by (intro go_slice_Inr; auto simp: len')+
    with query q sp u len' show ?thesis
      unfolding parse_request_def Let_def parse_ok_def by (cases r) simp_all
  qed
qed

lemma parse_never_panics:
  assumes "sz \<le> length data" and "length (left data) = length data"
  shows "parse_ok data (parse left data sz)"
proof (cases "has_prefix data (lit ''R0VU'')")
  case False
  with parse_request_ok [of data] show ?thesis by (simp add: parse_def)
next
  case True
  have src: "go_slice data 0 (int sz) = Inr (take sz data)" using assms(1) by (simp add: go_slice_def)
  show ?thesis
  proof (cases "b64_decode (take sz data)")
    case None
    with True src assms show ?thesis by (simp add: parse_def parse_ok_def)
  next
    case (Some d)
    then have "length d \<le> length data" using b64_decode_length [OF Some] assms(1) by simp
    moreover obtain x d' where "parse_request d = Inr (x, d')" "length d' = length d"
      using parse_request_ok [of d] unfolding parse_ok_def by blast
    ultimately show ?thesis using True src Some assms(2) by (simp add: parse_def parse_ok_def)
  qed
qed

end
