(* ===== verification/HttpParserProps.thy ===== *)
theory HttpParserProps
  imports HttpParser
begin

text \<open>
  What the HTTP parser makes of a well-formed request line, and the round trip from a client's
  percent-encoded parameters to the tracker's.
\<close>

section \<open>A well-formed request\<close>

text \<open>The request line of a GET, with whatever the buffer holds after it.\<close>

definition get_request :: "bytes \<Rightarrow> bytes \<Rightarrow> bytes \<Rightarrow> bytes" where
  "get_request path q rest = lit ''GET '' @ path @ lit ''?'' @ q @ lit '' HTTP/'' @ rest"

definition path_ok :: "bytes \<Rightarrow> bool" where
  "path_ok path \<longleftrightarrow> path \<noteq> [] \<and> hd path = 47 \<and> 32 \<notin> set path \<and> 63 \<notin> set path"

definition query_ok :: "bytes \<Rightarrow> bool" where
  "query_ok q \<longleftrightarrow> q \<noteq> [] \<and> last q \<noteq> 38 \<and> 32 \<notin> set q \<and> length (split_amp q) \<le> maxparams"

text \<open>The parameters of a query, or nothing when a percent sign lacks its two characters.\<close>

definition query_params :: "bytes \<Rightarrow> bytes list option" where
  "query_params q = those (map percent_decode (split_amp q))"

lemma bytes_index_skip:
  "c \<notin> set pre \<Longrightarrow> has_prefix bs (c # cs) \<Longrightarrow> bytes_index (pre @ bs) (c # cs) = Some (length pre)"
  by (induction pre) (cases bs; auto)+

lemma Index_skip:
  "c \<notin> set pre \<Longrightarrow> has_prefix bs (c # cs) \<Longrightarrow> Index (pre @ bs) (c # cs) = int (length pre)"
  by (simp add: Index_def bytes_index_skip)

lemma lit_GET: "lit ''GET '' = [71, 69, 84, 32]" "lit ''GET /'' = [71, 69, 84, 32, 47]"
  "lit ''?'' = [63]" "lit '' HTTP/'' = [32, 72, 84, 84, 80, 47]" "lit '' /'' = [32, 47]"
  "lit ''R0VU'' = [82, 48, 86, 85]"
  by (simp_all add: lit_def)

lemma get_request_indices:
  assumes "path_ok path" and "32 \<notin> set q"
  shows "Index (get_request path q rest) (lit '' /'') = 3"
    and "Index (get_request path q rest) (lit ''GET /'') = 0"
    and "Index (get_request path q rest) (lit ''?'') = 4 + int (length path)"
    and "Index (get_request path q rest) (lit '' HTTP/'') = 5 + int (length path) + int (length q)"
proof -
  from assms(1) obtain p where path: "path = 47 # p" "32 \<notin> set p" "63 \<notin> set p"
    unfolding path_ok_def by (cases path) auto
  show "Index (get_request path q rest) (lit '' /'') = 3"
    "Index (get_request path q rest) (lit ''GET /'') = 0"
    by (simp_all add: get_request_def lit_GET path Index_def)
  have "Index (lit ''GET '' @ path @ (lit ''?'' @ q @ lit '' HTTP/'' @ rest)) (lit ''?'') = 4 + int (length path)"
    using Index_skip [of 63 "lit ''GET '' @ path" "63 # q @ lit '' HTTP/'' @ rest" "[]"] path
    by (simp add: lit_GET)
  then show "Index (get_request path q rest) (lit ''?'') = 4 + int (length path)"
    by (simp add: get_request_def)
  have "bytes_index ((path @ 63 # q) @ lit '' HTTP/'' @ rest) (lit '' HTTP/'') = Some (length (path @ 63 # q))"
    unfolding lit_GET by (rule bytes_index_skip) (use assms(2) path in simp_all)
  then show "Index (get_request path q rest) (lit '' HTTP/'') = 5 + int (length path) + int (length q)"
    by (simp add: get_request_def lit_GET path Index_def)
qed

text \<open>All slots that \<open>parse\<close> unescapes are filled exactly when the query does not end in an ampersand.\<close>

lemma split_params_query:
  assumes "query_ok q"
  obtains segs where "split_params q 0 0 0 [] = (segs, length segs - 1)" and "segs_ok 0 (length q) segs"
    and "map (seg_of q) segs = split_amp q" and "segs \<noteq> []" and "length segs \<le> maxparams"
    and "fst (hd segs) = 0"
proof -
  obtain segs where s: "split_params q 0 0 0 [] = (segs, length segs - 1)"
    "map (seg_of q) segs = hd (split_amp q) # tl (split_amp q)" "fst (hd segs) = 0"
    using split_params_amp [of q 0 0 0 q "[]" "[]"] assms by (auto simp: query_ok_def)
  then have m: "map (seg_of q) segs = split_amp q" by simp
  moreover have "split_state 0 0 0 0 []" by (simp add: split_state_def)
  from split_params_done [OF this, of q] s have "segs_ok 0 (length q) segs" "length segs \<le> maxparams"
    by (simp_all add: split_done_def)
  moreover have "segs \<noteq> []" using m split_amp_nonempty [of q] by (metis list.map_disc_iff)
  ultimately show ?thesis using that s by blast
qed

lemma get_request_parse:
  assumes "path_ok path" and "query_ok q"
  obtains q' where "length q' = length q" and "37 \<notin> set q \<longrightarrow> q' = q"
    and "\<forall>ps. query_params q = Some ps \<longrightarrow> take (length (hd ps)) q' = hd ps"
    and "parse left (get_request path q rest) sz =
      Inr (case query_params q of
             None \<Rightarrow> Inl InvalidParse
           | Some ps \<Rightarrow> Inr \<lparr>p_Path = path, p_Params = map Some ps @ replicate (maxparams - length ps) None,
               p_URLend = 5 + int (length path) + int (length q), p_Method = lit ''GET'',
               p_pathstart = 4, p_pathend = 4 + int (length path)\<rparr>,
           get_request path q' rest)"
proof -
  let ?data = "get_request path q rest"
  have q32: "32 \<notin> set q" using assms(2) by (simp add: query_ok_def)
  note ix = get_request_indices [OF assms(1) q32, of rest]
  obtain segs where segs: "split_params q 0 0 0 [] = (segs, length segs - 1)" "segs_ok 0 (length q) segs"
    "map (seg_of q) segs = split_amp q" "segs \<noteq> []" "length segs \<le> maxparams" "fst (hd segs) = 0"
    by (rule split_params_query [OF assms(2)])
  define k where "k = length segs - 1"
  have k: "Suc k = length segs" "k \<noteq> maxparams" using segs(4,5) unfolding k_def by (cases segs; simp)+
  have slots: "take (Suc k) (map Some segs @ replicate (maxparams - length segs) None) = map Some segs"
    using k by simp
  obtain q' r where u: "unescape_params q (map Some segs) [] = (q', r)" by (cases "unescape_params q (map Some segs) []")
  have r: "r = query_params q"
  proof -
    have "map (percent_decode o seg_of q) segs = map percent_decode (split_amp q)"
      unfolding segs(3) [symmetric] by simp
    moreover have "map_option ((@) []) x = x" for x :: "bytes list option" by (cases x) simp_all
    ultimately show ?thesis
      using unescape_params_result [OF segs(2), of "[]"] u by (simp add: query_params_def)
  qed
  have plain: "37 \<notin> set q \<longrightarrow> q' = q" using unescape_params_plain [of q segs "[]"] u by auto
  have first: "\<forall>ps. query_params q = Some ps \<longrightarrow> take (length (hd ps)) q' = hd ps"
  proof (intro allI impI)
    fix ps
    assume "query_params q = Some ps"
    moreover obtain b segs' where "segs = (0, b) # segs'" using segs(4,6) by (cases segs) auto
    ultimately show "take (length (hd ps)) q' = hd ps"
      using unescape_params_first [of q b segs' q' ps] segs(2) u r by simp
  qed
  have len: "length q' = length q"
    using unescape_params_length [OF segs(2), of "length segs" 0 "[]"] u by simp
  have lens: "length ?data = 11 + length path + length q + length rest" by (simp add: get_request_def)
  have cut: "go_slice ?data (4 + int (length path) + 1) (5 + int (length path) + int (length q)) = Inr q"
    by (subst go_slice_Inr) (simp_all add: lens nat_add_distrib, simp add: get_request_def)
  have copy: "copy_at (nat (4 + int (length path) + 1)) q' ?data = get_request path q' rest"
    by (simp add: copy_at_def get_request_def nat_add_distrib len)
  have meth: "go_slice (get_request path q' rest) 0 3 = Inr (lit ''GET'')"
    by (simp add: go_slice_def get_request_def lit_GET) (simp add: lit_def)
  have pth: "go_slice (get_request path q' rest) 4 (4 + int (length path)) = Inr path"
    by (simp add: go_slice_def get_request_def lit_GET)
  have nb64: "\<not> has_prefix ?data (lit ''R0VU'')" by (simp add: get_request_def lit_GET)
  have "parse left ?data sz = parse_request ?data" using nb64 by (simp add: parse_def)
  also have "\<dots> = Inr (case query_params q of
             None \<Rightarrow> Inl InvalidParse
           | Some ps \<Rightarrow> Inr \<lparr>p_Path = path, p_Params = map Some ps @ replicate (maxparams - length ps) None,
               p_URLend = 5 + int (length path) + int (length q), p_Method = lit ''GET'',
               p_pathstart = 4, p_pathend = 4 + int (length path)\<rparr>,
           get_request path q' rest)"
    unfolding parse_request_def Let_def ix
    unfolding cut bindP.simps segs(1) [folded k_def] prod.case if_not_P [OF k(2)] slots u copy meth pth r [symmetric]
    using k pth meth by (cases r) simp_all
  finally show ?thesis using that len plain first by blast
qed

section \<open>Percent encoding\<close>

text \<open>A client's encoding: the bytes it considers safe stay, every other one becomes a percent sign and two digits.\<close>

definition percent_byte :: "byte \<Rightarrow> bytes" where
  "percent_byte b = [37, hex_digit (unat b div 16), hex_digit (unat b mod 16)]"

definition url_encode :: "(byte \<Rightarrow> bool) \<Rightarrow> bytes \<Rightarrow> bytes" where
  "url_encode safe bs = concat (map (\<lambda>b. if safe b then [b] else percent_byte b) bs)"

definition safe_ok :: "(byte \<Rightarrow> bool) \<Rightarrow> bool" where
  "safe_ok safe \<longleftrightarrow> \<not> safe 37 \<and> \<not> safe 38 \<and> \<not> safe 32"

lemma hex_digits_all:
  "list_all (\<lambda>n. fromHexChar (hex_digit n) = of_nat n \<and>
     hex_digit n \<noteq> 37 \<and> hex_digit n \<noteq> 38 \<and> hex_digit n \<noteq> 32) [0..<16]"
  by code_simp

lemma hex_digit_ok:
  assumes "n < 16"
  shows "fromHexChar (hex_digit n) = of_nat n" "hex_digit n \<noteq> 37" "hex_digit n \<noteq> 38" "hex_digit n \<noteq> 32"
  using hex_digits_all assms unfolding list_all_iff set_upt by auto

lemma nibble_bounds: "unat (b :: byte) div 16 < 16" "unat b mod 16 < 16"
  using unsigned_less [of b, where ?'a = nat] by simp_all

lemma nibbles: "push_bit 4 (of_nat (unat b div 16)) OR of_nat (unat b mod 16) = (b :: byte)"
proof -
  have "of_nat (unat b div 16) = drop_bit 4 b" "of_nat (unat b mod 16) = take_bit 4 b"
    using word_arith_nat_div [of b 16] word_arith_nat_mod [of b 16]
    by (simp_all add: drop_bit_eq_div take_bit_eq_mod)
  then show ?thesis by (auto intro!: bit_eqI simp: bit_simps)
qed

lemma percent_decode_byte:
  "percent_decode (percent_byte b @ bs) = map_option ((#) b) (percent_decode bs)"
  by (simp add: percent_byte_def hex_digit_ok nibble_bounds nibbles)

lemma percent_decode_url_encode: "safe_ok safe \<Longrightarrow> percent_decode (url_encode safe bs) = Some bs"
  by (induction bs) (auto simp: url_encode_def percent_decode_byte safe_ok_def)

lemma percent_byte_plain: "38 \<notin> set (percent_byte b)" "32 \<notin> set (percent_byte b)"
  using hex_digit_ok(3,4) [OF nibble_bounds(1), of b] hex_digit_ok(3,4) [OF nibble_bounds(2), of b]
  unfolding percent_byte_def by (auto dest: sym)

lemma url_encode_plain:
  assumes "safe_ok safe"
  shows "38 \<notin> set (url_encode safe bs)" "32 \<notin> set (url_encode safe bs)"
  using assms percent_byte_plain by (auto simp: url_encode_def safe_ok_def split: if_splits)

lemma url_encode_Nil [simp]: "url_encode safe bs = [] \<longleftrightarrow> bs = []"
  by (cases bs) (auto simp: url_encode_def percent_byte_def)

lemma split_amp_plain: "38 \<notin> set x \<Longrightarrow> split_amp x = [x]"
  by (induction x) auto

lemma split_amp_join1: "38 \<notin> set x \<Longrightarrow> split_amp (x @ 38 # rest) = x # split_amp rest"
  by (induction x) auto

lemma split_amp_join:
  "xs \<noteq> [] \<Longrightarrow> \<forall>x \<in> set xs. 38 \<notin> set x \<Longrightarrow> split_amp (sep_join 38 xs) = xs"
  by (induction "38 :: byte" xs rule: sep_join.induct) (auto simp: split_amp_plain split_amp_join1)

lemma sep_join_Nil: "xs \<noteq> [] \<Longrightarrow> last xs \<noteq> [] \<Longrightarrow> sep_join c xs \<noteq> []"
  by (induction c xs rule: sep_join.induct) auto

lemma last_sep_join: "xs \<noteq> [] \<Longrightarrow> last xs \<noteq> [] \<Longrightarrow> last (sep_join c xs) = last (last xs)"
  by (induction c xs rule: sep_join.induct) (auto simp: sep_join_Nil)

lemma set_sep_join: "set (sep_join c xs) \<subseteq> insert c (\<Union>x \<in> set xs. set x)"
  by (induction c xs rule: sep_join.induct) auto

text \<open>The query a client builds from its parameters.\<close>

definition client_query :: "(byte \<Rightarrow> bool) \<Rightarrow> bytes list \<Rightarrow> bytes" where
  "client_query safe ps = sep_join 38 (map (url_encode safe) ps)"

lemma client_query_ok:
  assumes "safe_ok safe" "ps \<noteq> []" "last ps \<noteq> []" "length ps \<le> maxparams"
  shows "query_ok (client_query safe ps)" "query_params (client_query safe ps) = Some ps"
proof -
  let ?xs = "map (url_encode safe) ps"
  have xs: "?xs \<noteq> []" "last ?xs \<noteq> []" using assms by (simp_all add: last_map)
  have s: "split_amp (client_query safe ps) = ?xs"
    unfolding client_query_def using assms by (intro split_amp_join) (simp_all add: url_encode_plain)
  have "last (last ?xs) \<in> set (url_encode safe (last ps))" using assms xs(2) by (simp add: last_map)
  then have "last (client_query safe ps) \<noteq> 38"
    unfolding client_query_def last_sep_join [OF xs] using url_encode_plain(1) [OF assms(1)] by metis
  moreover have "32 \<notin> set (client_query safe ps)"
    using set_sep_join [of 38 ?xs] url_encode_plain(2) [OF assms(1)] by (auto simp: client_query_def)
  ultimately show "query_ok (client_query safe ps)"
    using sep_join_Nil [OF xs] s assms(4) by (simp add: query_ok_def client_query_def)
  have "those (map (percent_decode o url_encode safe) ps) = Some ps"
    by (induction ps) (simp_all add: percent_decode_url_encode [OF assms(1)])
  then show "query_params (client_query safe ps) = Some ps" by (simp add: query_params_def s)
qed

section \<open>Properties\<close>

text \<open>\<open>unescapeFast\<close>, which shifts the rest of the slice left at every escape, returns the
  percent-decoding of its argument, nil exactly when a percent sign has fewer than two bytes
  after it, and never changes the length of the slice it works in.\<close>

theorem unescapeFast_percent_decodes:
  "snd (unescapeFast bs) = percent_decode bs \<and> length (fst (unescapeFast bs)) = length bs"
  using unescapeFast_result by simp

text \<open>\<open>parse\<close> never panics, whatever the receive buffer holds and wherever the received
  bytes end in it: every slice expression is in range. It returns a result or an error and
  keeps the buffer's length.\<close>

theorem parse_total:
  assumes "sz \<le> length data" and "length (left data) = length data"
  shows "\<exists>r data'. parse left data sz = Inr (r, data') \<and> length data' = length data"
  using parse_never_panics [of sz data left] assms by (auto simp: parse_ok_def)

theorem parse_total_witness:
  "\<exists>r data'. parse id (lit ''R0VU GET /?'') 4 = Inr (r, data') \<and> length data' = length (lit ''R0VU GET /?'')"
  using parse_total [of 4 "lit ''R0VU GET /?''" id] by simp

text \<open>A GET request line is taken apart into its path and its parameters: the query is cut
  at the ampersands and each piece percent-decoded; it is rejected exactly when an escape is
  cut short. The buffer changes only within the query.\<close>

theorem parse_get_request:
  assumes "path_ok path" and "query_ok q"
  shows "\<exists>q'. length q' = length q \<and>
    parse left (get_request path q rest) sz =
      Inr (case query_params q of
             None \<Rightarrow> Inl InvalidParse
           | Some ps \<Rightarrow> Inr \<lparr>p_Path = path, p_Params = map Some ps @ replicate (maxparams - length ps) None,
               p_URLend = 5 + int (length path) + int (length q), p_Method = lit ''GET'',
               p_pathstart = 4, p_pathend = 4 + int (length path)\<rparr>,
           get_request path q' rest)"
  by (rule get_request_parse [OF assms, of left rest sz]) blast

theorem parse_get_request_witness:
  "\<exists>q'. length q' = length (lit ''x=%41&yz'') \<and>
    parse id (get_request (lit ''/a'') (lit ''x=%41&yz'') []) 30 =
      Inr (Inr \<lparr>p_Path = lit ''/a'', p_Params = map Some [lit ''x=A'', lit ''yz''] @ replicate 43 None,
               p_URLend = 15, p_Method = lit ''GET'', p_pathstart = 4, p_pathend = 6\<rparr>,
           get_request (lit ''/a'') q' [])"
proof -
  have "path_ok (lit ''/a'')" by (simp add: path_ok_def lit_def)
  moreover have "query_ok (lit ''x=%41&yz'')" by (simp add: query_ok_def lit_def maxparams_def)
  moreover have "query_params (lit ''x=%41&yz'') = Some [lit ''x=A'', lit ''yz'']"
    by (simp add: query_params_def lit_def fromHexChar_def)
  ultimately show ?thesis
    using parse_get_request [of "lit ''/a''" "lit ''x=%41&yz''" id "[]" 30] by (simp add: maxparams_def)
qed

text \<open>C37: Round trip: whichever bytes a client leaves unescaped (never a percent sign, an
  ampersand or a space), the tracker reads back exactly the parameters the client encoded, up
  to 45 of them, the last one not empty.\<close>

theorem parse_url_encoded:
  assumes "path_ok path" and "safe_ok safe" and "ps \<noteq> []" and "last ps \<noteq> []" and "length ps \<le> maxparams"
  shows "\<exists>p data'. parse left (get_request path (client_query safe ps) rest) sz = Inr (Inr p, data') \<and>
    p_Path p = path \<and> p_Method p = lit ''GET'' \<and>
    p_Params p = map Some ps @ replicate (maxparams - length ps) None"
  by (rule get_request_parse [OF assms(1) client_query_ok(1) [OF assms(2-5)], of left rest sz])
    (simp add: client_query_ok(2) [OF assms(2-5)])

theorem parse_url_encoded_witness:
  "\<exists>p data'. parse id (get_request (lit ''/announce'') (client_query (\<lambda>_. False) [[0, 37, 255], [38]]) []) 7 =
      Inr (Inr p, data') \<and>
    p_Path p = lit ''/announce'' \<and> p_Method p = lit ''GET'' \<and>
    p_Params p = map Some [[0, 37, 255], [38]] @ replicate 43 None"
proof -
  have "path_ok (lit ''/announce'')" by (simp add: path_ok_def lit_def)
  then show ?thesis
    using parse_url_encoded [of "lit ''/announce''" "\<lambda>_. False" "[[0, 37, 255], [38]]" id "[]" 7]
    by (simp add: safe_ok_def maxparams_def)
qed

end
