(* ===== verification/HttpTracker.thy ===== *)
theory HttpTracker
  imports Database HttpParser
begin

text \<open>
  The HTTP tracker of tracker/http: the response writers, the announce and scrape handlers, the
  client's address behind a proxy, and a worker that serves one connection after another from
  its single receive buffer, over any database that implements the storage interface. The bytes
  written to the connection are recorded in the order of the writes.
\<close>

section \<open>State\<close>

text \<open>
  What a connection's handler changes: the shared world, and what it has written. The build and
  what the server was started with: the heroku tag, the file cache, the body \<open>expvar\<close> serves
  for given statistics, and what the base64 decoder leaves in the buffer (see \<open>parse\<close>).
\<close>

record 'db http =
  h_world :: "'db world"
  h_out :: "bytes list"

record http_build =
  heroku :: bool
  fileCache :: "(bytes, bytes) fmap"
  expvar_body :: "stats \<Rightarrow> bytes list"
  b64_left :: "bytes \<Rightarrow> bytes"

definition http_stats :: "(stats \<Rightarrow> stats) \<Rightarrow> 'db http \<Rightarrow> 'db http" where
  "http_stats f h = h\<lparr>h_world := (h_world h)\<lparr>w_stats := f (w_stats (h_world h))\<rparr>\<rparr>"

definition conn_Write :: "bytes \<Rightarrow> 'db http \<Rightarrow> 'db http" where
  "conn_Write bs h = h\<lparr>h_out := h_out h @ [bs]\<rparr>"

section \<open>Responses\<close>

definition crlf :: bytes where
  "crlf = [13, 10]"

definition httpSuccessBytes :: bytes where
  "httpSuccessBytes = lit ''HTTP/1.1 200'' @ crlf @ crlf"

definition redir :: "bytes \<Rightarrow> 'db http \<Rightarrow> 'db http" where
  "redir url = conn_Write (lit ''HTTP/1.1 303'' @ crlf @ lit ''Location: '' @ url @ crlf @ crlf)"

definition writeData :: "bytes \<Rightarrow> 'db http \<Rightarrow> 'db http" where
  "writeData data = conn_Write (lit ''HTTP/1.1 200'' @ crlf @ crlf @ data)"

definition writeDataBytes :: "bytes \<Rightarrow> 'db http \<Rightarrow> 'db http" where
  "writeDataBytes data = conn_Write (lit ''HTTP/1.1 200'' @ crlf @ crlf @ data)"

definition writeStatus :: "string \<Rightarrow> 'db http \<Rightarrow> 'db http" where
  "writeStatus status = conn_Write (lit ''HTTP/1.1 '' @ lit status @ crlf @ crlf)"

definition statsHeader :: bytes where
  "statsHeader = lit ''HTTP/1.1 200'' @ crlf @ lit ''Content-Type: application/json; charset=utf-8'' @ crlf @ crlf"

section \<open>Errors\<close>

definition writeErr :: "env \<Rightarrow> string \<Rightarrow> 'db http \<Rightarrow> panic + 'db http" where
  "writeErr e msg h =
     bindP (get_dictionary e (h_world h)) (\<lambda>(d, w).
     case GetBytes (Dict_String (lit ''failure reason'') (lit msg) d) of (bs, d') \<Rightarrow>
     let h' = conn_Write (httpSuccessBytes @ bs) (h\<lparr>h_world := w\<rparr>) in
     bindP (put_dictionary d' (h_world h')) (\<lambda>w'. Inr (h'\<lparr>h_world := w'\<rparr>)))"

definition clientError :: "env \<Rightarrow> string \<Rightarrow> 'db http \<Rightarrow> panic + 'db http" where
  "clientError e msg h = writeErr e msg (http_stats (add_ClientErrors 1) h)"

definition internalError :: "env \<Rightarrow> 'db http \<Rightarrow> panic + 'db http" where
  "internalError e h = writeErr e ''internal server error'' (http_stats (add_ServerErrors 1) h)"

section \<open>Announce\<close>

record announceParams =
  v_compact :: bool
  v_nopeerid :: bool
  v_noneleft :: bool
  v_event :: bytes
  v_port :: bytes
  v_hash :: bytes
  v_peerid :: bytes
  v_numwant :: bytes

definition no_params :: announceParams where
  "no_params =
     \<lparr>v_compact = False, v_nopeerid = False, v_noneleft = False, v_event = [], v_port = [],
      v_hash = [], v_peerid = [], v_numwant = []\<rparr>"

text \<open>The parsed port and the number of peers to send; \<open>None\<close> is the error sent to the client.\<close>

definition announce_port :: "bytes \<Rightarrow> uint16 option" where
  "announce_port s =
     (case Atoi s of
        AtoiOk portInt \<Rightarrow> if portInt > 65535 \<or> portInt < 1 then None else Some (word_of_int portInt)
      | _ \<Rightarrow> None)"

definition http_numwant :: "env \<Rightarrow> bytes \<Rightarrow> uint64 option" where
  "http_numwant e s =
     (if s = [] then Some (Numwant_Default (conf e))
      else
        (case Atoi s of
           AtoiOk numwantInt \<Rightarrow>
             if numwantInt < 0 then None
             else
               (let numwantUint = word_of_int numwantInt in
                if numwantUint \<le> Numwant_Limit (conf e) then Some numwantUint
                else Some (Numwant_Limit (conf e)))
         | _ \<Rightarrow> None))"

text \<open>\<open>Int63n\<close> panics for an argument that is not positive; the guard looks at 32 bits only.\<close>

definition http_interval :: "env \<Rightarrow> panic + int64" where
  "http_interval e =
     (let base = Seconds (Announce_Base (conf e)); fuzz = Seconds (Announce_Fuzz (conf e)) in
      if sint (Seconds32 (Announce_Fuzz (conf e))) > 0
      then (if sint fuzz \<le> 0 then Inl InvalidArgument else Inr (base + of_nat (Intn e (nat (sint fuzz)))))
      else Inr base)"

text \<open>The end of the handler: the peers in one of the two forms, the response and the dictionary.\<close>

definition announce_peers ::
  "'db database \<Rightarrow> env \<Rightarrow> announceParams \<Rightarrow> uint64 \<Rightarrow> dictionary \<Rightarrow> 'db world
     \<Rightarrow> panic + (dictionary \<times> 'db world)" where
  "announce_peers D e vals numwant d w =
     (if v_compact vals then
        bindP (db_PeerListBytes D e (v_hash vals) numwant w) (\<lambda>((peers4, peers6), w1).
        let d' = Dict_StringBytes (lit ''peers6'') (slice_bytes peers6)
                   (Dict_StringBytes (lit ''peers'') (slice_bytes peers4) d) in
        bindP (put_peerlists peers4 peers6 w1) (\<lambda>w2. Inr (d', w2)))
      else
        bindP (db_PeerList D e (v_hash vals) numwant (v_nopeerid vals) w) (\<lambda>(peers, w1).
          Inr (BytesliceSlice (lit ''peers'') peers d, w1)))"

definition announce_reply ::
  "'db database \<Rightarrow> env \<Rightarrow> announceParams \<Rightarrow> uint64 \<Rightarrow> 'db http \<Rightarrow> panic + 'db http" where
  "announce_reply D e vals numwant h =
     (case db_HashStats D (v_hash vals) (w_db (h_world h)) of (complete, incomplete) \<Rightarrow>
      bindP (http_interval e) (\<lambda>interval.
      bindP (get_dictionary e (h_world h)) (\<lambda>(d, w1).
      let d1 = Dict_Int64 (lit ''incomplete'') (ucast incomplete)
                 (Dict_Int64 (lit ''complete'') (ucast complete)
                   (Dict_Int64 (lit ''interval'') interval d)) in
      bindP (announce_peers D e vals numwant d1 w1) (\<lambda>(d2, w2).
      case GetBytes d2 of (bs, d3) \<Rightarrow>
      let h' = conn_Write (httpSuccessBytes @ bs) (h\<lparr>h_world := w2\<rparr>) in
      bindP (put_dictionary d3 (h_world h')) (\<lambda>w3. Inr (h'\<lparr>h_world := w3\<rparr>))))))"

definition http_announce ::
  "'db database \<Rightarrow> env \<Rightarrow> announceParams \<Rightarrow> addr \<Rightarrow> 'db http \<Rightarrow> panic + 'db http" where
  "http_announce D e vals ip h =
     (let h1 = http_stats (add_Announces 1) h in
      if length (v_hash vals) \<noteq> 20 then clientError e ''Invalid infohash'' h1
      else if length (v_peerid vals) \<noteq> 20 then clientError e ''Invalid peerid'' h1
      else if v_event vals = lit ''stopped'' then
        bindP (db_Drop D e (v_hash vals) (v_peerid vals) (h_world h1)) (\<lambda>w.
          Inr (conn_Write httpSuccessBytes (h1\<lparr>h_world := w\<rparr>)))
      else
        (case announce_port (v_port vals) of
           None \<Rightarrow> clientError e ''Invalid port'' h1
         | Some port \<Rightarrow>
             (case http_numwant e (v_numwant vals) of
                None \<Rightarrow> clientError e ''Invalid numwant'' h1
              | Some numwant \<Rightarrow>
                  (let peerComplete = (v_event vals = lit ''completed'' \<or> v_noneleft vals) in
                   bindP (db_Save D e ip port peerComplete (v_hash vals) (v_peerid vals) (h_world h1))
                     (\<lambda>w. announce_reply D e vals numwant (h1\<lparr>h_world := w\<rparr>))))))"

section \<open>Scrape\<close>

text \<open>The loop over the infohashes; one of a wrong length ends it, its dictionary unfinished.\<close>

fun http_scrape_loop :: "'db database \<Rightarrow> 'db \<Rightarrow> bytes option list \<Rightarrow> dictionary \<Rightarrow> dictionary option" where
  "http_scrape_loop D db [] d = Some d"
| "http_scrape_loop D db (None # hs) d = http_scrape_loop D db hs d"
| "http_scrape_loop D db (Some h # hs) d =
     (if length h \<noteq> 20 then None
      else
        (case db_HashStats D h db of (complete, incomplete) \<Rightarrow>
           http_scrape_loop D db hs
             (EndDictionary (Dict_Int64 (lit ''incomplete'') (ucast incomplete)
               (Dict_Int64 (lit ''complete'') (ucast complete) (StartDictionaryBytes h d))))))"

definition http_scrape ::
  "'db database \<Rightarrow> env \<Rightarrow> bytes option list \<Rightarrow> 'db http \<Rightarrow> panic + 'db http" where
  "http_scrape D e infohashes h =
     (let h1 = http_stats (add_Scrapes 1) h in
      bindP (get_dictionary e (h_world h1)) (\<lambda>(d, w1).
      case http_scrape_loop D (w_db w1) infohashes (StartDictionary (lit ''files'') d) of
        None \<Rightarrow> clientError e ''invalid infohash'' (h1\<lparr>h_world := w1\<rparr>)
      | Some d1 \<Rightarrow>
          (case GetBytes (EndDictionary d1) of (bs, d2) \<Rightarrow>
           let h' = conn_Write (httpSuccessBytes @ bs) (h1\<lparr>h_world := w1\<rparr>) in
           bindP (put_dictionary d2 (h_world h')) (\<lambda>w2. Inr (h'\<lparr>h_world := w2\<rparr>)))))"

section \<open>The client's address\<close>

text \<open>
  The build for the heroku router reads the address from a header of the raw buffer, the
  rightmost of a list; other builds use the connection's address.
\<close>

definition parseForwarded :: "http_build \<Rightarrow> bytes \<Rightarrow> panic + (bool \<times> bytes option)" where
  "parseForwarded b data =
     (if \<not> heroku b then Inr (False, None)
      else
        (let headerKey = lit ''X-Forwarded-For: ''; start0 = Index data headerKey in
         if start0 = -1 then Inr (False, None)
         else
           (let headerValueStart = start0 + int (length headerKey) in
            bindP (go_slice data headerValueStart (int (length data))) (\<lambda>rest.
            let end0 = Index rest crlf in
            if end0 = -1 then Inr (True, None)
            else
              bindP (go_slice data headerValueStart (end0 + headerValueStart)) (\<lambda>headerValue.
              if Index headerValue (lit '','') \<noteq> -1 then
                bindP (go_slice headerValue (LastIndex headerValue (lit '','') + 2) (int (length headerValue)))
                  (\<lambda>ip. Inr (True, Some ip))
              else Inr (True, Some headerValue))))))"

section \<open>Serving a connection\<close>

definition param_key_val :: "bytes option \<Rightarrow> bytes \<times> bytes" where
  "param_key_val param =
     (let p = (case param of None \<Rightarrow> [] | Some p \<Rightarrow> p); equal = Index p (lit ''='') in
      if equal = -1 then (p, lit ''1'') else (take (nat equal) p, drop (nat equal + 1) p))"

definition set_param :: "bytes option \<Rightarrow> announceParams \<Rightarrow> announceParams" where
  "set_param param v =
     (case param_key_val param of (key, val) \<Rightarrow>
      if key = lit ''compact'' then (if val = lit ''1'' then v\<lparr>v_compact := True\<rparr> else v)
      else if key = lit ''no_peer_id'' then (if val = lit ''1'' then v\<lparr>v_nopeerid := True\<rparr> else v)
      else if key = lit ''left'' then (if val = lit ''0'' then v\<lparr>v_noneleft := True\<rparr> else v)
      else if key = lit ''event'' then v\<lparr>v_event := val\<rparr>
      else if key = lit ''port'' then v\<lparr>v_port := val\<rparr>
      else if key = lit ''info_hash'' then v\<lparr>v_hash := val\<rparr>
      else if key = lit ''peer_id'' then v\<lparr>v_peerid := val\<rparr>
      else if key = lit ''numwant'' then v\<lparr>v_numwant := val\<rparr>
      else v)"

definition serve_announce ::
  "'db database \<Rightarrow> env \<Rightarrow> http_build \<Rightarrow> parsed \<Rightarrow> bytes \<Rightarrow> addr \<times> uint16 \<Rightarrow> 'db http
     \<Rightarrow> panic + 'db http" where
  "serve_announce D e b p data remote h =
     (let v = fold set_param (p_Params p) no_params in
      bindP (parseForwarded b data) (\<lambda>(forwarded, forwardedIP).
      if forwarded \<and> forwardedIP = None then clientError e ''Failed to parse X-Forwarded-For'' h
      else
        (let ipStr = (case forwardedIP of
                        Some s \<Rightarrow> s
                      | None \<Rightarrow> (case SplitHostPort (TCPAddrString remote) of
                                   Some (host, port) \<Rightarrow> host | None \<Rightarrow> [])) in
         (case ParseAddr ipStr of
            None \<Rightarrow> clientError e ''Failed to parse forwarded IP'' h
          | Some ip \<Rightarrow> http_announce D e v ip h))))"

text \<open>The infohashes of a scrape: parameters of another key become nil.\<close>

definition scrape_hashes :: "bytes option list \<Rightarrow> bytes option list" where
  "scrape_hashes ps =
     map (\<lambda>param. case param of
            None \<Rightarrow> None
          | Some p \<Rightarrow> if length p < 10 \<or> take 10 p \<noteq> lit ''info_hash='' then None else Some (drop 10 p)) ps"

definition serve_scrape :: "'db database \<Rightarrow> env \<Rightarrow> parsed \<Rightarrow> 'db http \<Rightarrow> panic + 'db http" where
  "serve_scrape D e p h =
     (let hs = scrape_hashes (p_Params p) in
      if length (filter (\<lambda>x. x \<noteq> None) hs) = 0 then clientError e ''no infohashes'' h
      else http_scrape D e hs h)"

definition serve_path ::
  "'db database \<Rightarrow> env \<Rightarrow> http_build \<Rightarrow> parsed \<Rightarrow> bytes \<Rightarrow> addr \<times> uint16 \<Rightarrow> 'db http
     \<Rightarrow> panic + 'db http" where
  "serve_path D e b p data remote h =
     (if p_Path p = lit ''/announce'' then serve_announce D e b p data remote h
      else if p_Path p = lit ''/scrape'' then serve_scrape D e p h
      else if p_Path p = lit ''/heartbeat'' then Inr (writeStatus ''200'' h)
      else if p_Path p = lit ''/stats'' then
        Inr (fold conn_Write (expvar_body b (w_stats (h_world h))) (conn_Write statsHeader h))
      else
        (case fmlookup (fileCache b) (p_Path p) of
           Some data \<Rightarrow> Inr (writeData data h)
         | None \<Rightarrow> Inr (writeStatus ''404'' h)))"

text \<open>
  A parsed request or a parse error. Every parse error leaves the method empty, so the branch
  for errors other than \<open>invalidParse\<close> is never reached.
\<close>

definition serve ::
  "'db database \<Rightarrow> env \<Rightarrow> http_build \<Rightarrow> parse_error + parsed \<Rightarrow> bytes \<Rightarrow> addr \<times> uint16 \<Rightarrow> 'db http
     \<Rightarrow> panic + 'db http" where
  "serve D e b r data remote h =
     (let invalid = (r = Inl InvalidParse);
          meth = (case r of Inl _ \<Rightarrow> [] | Inr p \<Rightarrow> p_Method p) in
      if invalid \<or> meth \<noteq> lit ''GET'' then Inr (writeStatus ''400'' h)
      else
        (case r of
           Inl _ \<Rightarrow> Inr (http_stats (add_ServerErrors 1) (writeStatus ''500'' h))
         | Inr p \<Rightarrow> serve_path D e b p data remote h))"

section \<open>The worker\<close>

text \<open>
  A worker's turn: the listener is closed, \<open>Accept\<close> fails, the read fails, or a connection
  delivers its first bytes, which go to the front of the worker's buffer. What earlier requests
  left behind them stays there. The result says whether the worker goes on.
\<close>

datatype http_event =
    ListenerClosed
  | AcceptFailed
  | ReadFailed
  | Request bytes "addr \<times> uint16"

record 'db http_worker =
  k_buf :: bytes
  k_world :: "'db world"

definition httpRequestMax :: nat where
  "httpRequestMax = 2600"

definition new_worker :: "'db world \<Rightarrow> 'db http_worker" where
  "new_worker w = \<lparr>k_buf = replicate httpRequestMax 0, k_world = w\<rparr>"

definition worker_step ::
  "'db database \<Rightarrow> env \<Rightarrow> http_build \<Rightarrow> http_event \<Rightarrow> 'db http_worker
     \<Rightarrow> panic + (bool \<times> 'db http_worker \<times> bytes list)" where
  "worker_step D e b ev k =
     (case ev of
        ListenerClosed \<Rightarrow> Inr (False, k, [])
      | AcceptFailed \<Rightarrow>
          Inr (True, k\<lparr>k_world := (k_world k)\<lparr>w_stats := add_ServerErrors 1 (w_stats (k_world k))\<rparr>\<rparr>, [])
      | ReadFailed \<Rightarrow> Inr (True, k, [])
      | Request req remote \<Rightarrow>
          (let read = take httpRequestMax req;
               data = copy_at 0 read (k_buf k);
               h = http_stats (add_Hits 1) \<lparr>h_world = k_world k, h_out = []\<rparr> in
           bindP (parse (b64_left b) data (length read)) (\<lambda>(r, data').
           bindP (serve D e b r data' remote h) (\<lambda>h'.
             Inr (True, \<lparr>k_buf = data', k_world = h_world h'\<rparr>, h_out h')))))"

text \<open>The worker's loop over the events of its life, with the writes of every turn.\<close>

fun work ::
  "'db database \<Rightarrow> http_build \<Rightarrow> (env \<times> http_event) list \<Rightarrow> 'db http_worker
     \<Rightarrow> panic + ('db http_worker \<times> bytes list list)" where
  "work D b [] k = Inr (k, [])"
| "work D b ((e, ev) # evs) k =
     bindP (worker_step D e b ev k) (\<lambda>(go, k', out).
       if go then bindP (work D b evs k') (\<lambda>(k'', outs). Inr (k'', out # outs))
       else Inr (k', [out]))"

end
