(* ===== verification/HttpSpec.thy ===== *)
theory HttpSpec
  imports HttpTracker HttpParserProps MemorySpec
begin

text \<open>
  What the HTTP tracker promises: the response to an announce and to a scrape as a bencoded
  value, with the swarm before and after it; the proof, inside the storage interface's locale,
  that the handlers and the whole worker implement it for every database that keeps the laws.
\<close>

section \<open>Responses as bencoded values\<close>

definition ok_response :: "bval \<Rightarrow> bytes" where
  "ok_response v = httpSuccessBytes @ benc v"

definition failure :: "string \<Rightarrow> bytes" where
  "failure msg = ok_response (BDict [(lit ''failure reason'', BStr (lit msg))])"

text \<open>The counts of a swarm, 16 bits wide as the database keeps them.\<close>

definition count16 :: "(peer \<Rightarrow> bool) \<Rightarrow> hash \<Rightarrow> swarm \<Rightarrow> int" where
  "count16 P h sw = int (swarm_count P h sw mod 65536)"

definition count_entries :: "hash \<Rightarrow> swarm \<Rightarrow> (bytes \<times> bval) list" where
  "count_entries h sw =
     [(lit ''complete'', BInt (count16 Complete h sw)),
      (lit ''incomplete'', BInt (count16 (\<lambda>p. \<not> Complete p) h sw))]"

section \<open>The specification of an announce\<close>

text \<open>The first error of an announce, in the order of the checks.\<close>

definition announce_error :: "env \<Rightarrow> announceParams \<Rightarrow> string option" where
  "announce_error e v =
     (if length (v_hash v) \<noteq> 20 then Some ''Invalid infohash''
      else if length (v_peerid v) \<noteq> 20 then Some ''Invalid peerid''
      else if v_event v = lit ''stopped'' then None
      else if announce_port (v_port v) = None then Some ''Invalid port''
      else if http_numwant e (v_numwant v) = None then Some ''Invalid numwant''
      else None)"

definition announcing_peer :: "env \<Rightarrow> announceParams \<Rightarrow> addr \<Rightarrow> peer" where
  "announcing_peer e v ip =
     \<lparr>Complete = (v_event v = lit ''completed'' \<or> v_noneleft v), IP = ip,
      Port = the (announce_port (v_port v)), LastSeen = now e\<rparr>"

definition announce_response :: "int64 \<Rightarrow> hash \<Rightarrow> swarm \<Rightarrow> (bytes \<times> bval) list \<Rightarrow> bytes" where
  "announce_response interval h sw peers =
     ok_response (BDict ((lit ''interval'', BInt (sint interval)) # count_entries h sw @ peers))"

inductive http_announce_spec ::
  "int64 \<Rightarrow> env \<Rightarrow> announceParams \<Rightarrow> addr \<Rightarrow> swarm \<Rightarrow> swarm \<Rightarrow> bytes \<Rightarrow> bool"
  for lim :: int64 and e :: env and v :: announceParams and ip :: addr and sw :: swarm where
  rejected: "announce_error e v = Some msg \<Longrightarrow> http_announce_spec lim e v ip sw sw (failure msg)"
| stopped: "announce_error e v = None \<Longrightarrow> v_event v = lit ''stopped'' \<Longrightarrow>
    http_announce_spec lim e v ip sw (swarm_drop (v_hash v) (v_peerid v) sw) httpSuccessBytes"
| compact: "announce_error e v = None \<Longrightarrow> v_event v \<noteq> lit ''stopped'' \<Longrightarrow> v_compact v \<Longrightarrow>
    sw' = swarm_save (v_hash v) (v_peerid v) (announcing_peer e v ip) sw \<Longrightarrow>
    http_interval e = Inr interval \<Longrightarrow>
    (http_numwant e (v_numwant v) \<noteq> Some 0 \<longrightarrow> (\<exists>ps. compact_lists lim (sw' (v_hash v)) ps b4 b6)) \<Longrightarrow>
    http_announce_spec lim e v ip sw sw'
      (announce_response interval (v_hash v) sw' [(lit ''peers'', BStr b4), (lit ''peers6'', BStr b6)])"
| listed: "announce_error e v = None \<Longrightarrow> v_event v \<noteq> lit ''stopped'' \<Longrightarrow> \<not> v_compact v \<Longrightarrow>
    sw' = swarm_save (v_hash v) (v_peerid v) (announcing_peer e v ip) sw \<Longrightarrow>
    http_interval e = Inr interval \<Longrightarrow>
    listed_peers (sw' (v_hash v)) (the (http_numwant e (v_numwant v))) ips \<Longrightarrow>
    http_announce_spec lim e v ip sw sw'
      (announce_response interval (v_hash v) sw'
        [(lit ''peers'', BList (map (\<lambda>x. BStr (benc (peer_bval (v_nopeerid v) (fst x) (snd x)))) ips))])"

section \<open>The specification of a scrape\<close>

definition scrape_response :: "bytes option list \<Rightarrow> swarm \<Rightarrow> bytes" where
  "scrape_response hs sw =
     (if \<exists>h. Some h \<in> set hs \<and> length h \<noteq> 20 then failure ''invalid infohash''
      else ok_response (BDict [(lit ''files'',
             BDict (map (\<lambda>h. (h, BDict (count_entries h sw))) (map the (filter (\<lambda>x. x \<noteq> None) hs))))]))"

section \<open>What a handler leaves behind\<close>

text \<open>The handler made one write, and left the world in order with the given swarms.\<close>

definition http_post ::
  "('db \<Rightarrow> bool) \<Rightarrow> ('db \<Rightarrow> swarm) \<Rightarrow> int64 \<Rightarrow> 'db http \<Rightarrow> 'db http \<Rightarrow> swarm \<Rightarrow> bytes \<Rightarrow> bool" where
  "http_post dbinv swarm lim h h' sw' resp \<longleftrightarrow>
     world_ok dbinv lim (h_world h') \<and> swarm (w_db (h_world h')) = sw' \<and> h_out h' = h_out h @ [resp]"

text \<open>Configurations whose fuzz is positive as 64 bits when it is as 32 bits.\<close>

definition fuzz_ok :: "configuration \<Rightarrow> bool" where
  "fuzz_ok c \<longleftrightarrow> (0 < sint (Seconds32 (Announce_Fuzz c)) \<longrightarrow> 0 < sint (Seconds (Announce_Fuzz c)))"

lemma fuzz_ok_interval: "fuzz_ok (conf e) \<Longrightarrow> \<exists>i. http_interval e = Inr i"
  by (auto simp: fuzz_ok_def http_interval_def Let_def)

lemma fuzz_ok_default [simp]: "fuzz_ok default_config"
  by (simp add: fuzz_ok_def default_config_def Seconds32_def Seconds_def)

lemma http_stats_sel [simp]:
  "h_out (http_stats f h) = h_out h" "w_db (h_world (http_stats f h)) = w_db (h_world h)"
  "w_pools (h_world (http_stats f h)) = w_pools (h_world h)"
  "w_stats (h_world (http_stats f h)) = f (w_stats (h_world h))"
  by (simp_all add: http_stats_def)

lemma conn_Write_sel [simp]: "h_out (conn_Write bs h) = h_out h @ [bs]" "h_world (conn_Write bs h) = h_world h"
  by (simp_all add: conn_Write_def)

lemma world_ok_http_stats [simp]:
  "world_ok I lim (h_world (http_stats f h)) = world_ok I lim (h_world h)"
  by (simp add: world_ok_def)

lemma writeErr_post:
  assumes "world_ok I lim (h_world h)"
  shows "\<exists>h'. writeErr e msg h = Inr h' \<and> http_post I sw lim h h' (sw (w_db (h_world h))) (failure msg)"
proof -
  obtain w1 where w1: "get_dictionary e (h_world h) = Inr (NewDictionary, w1)" "world_ok I lim w1"
    "w_db w1 = w_db (h_world h)" using assms by (rule get_dictionary_ok)
  let ?bs = "benc (BDict [(lit ''failure reason'', BStr (lit msg))])"
  obtain w2 where w2: "put_dictionary ?bs w1 = Inr w2" "world_ok I lim w2" "w_db w2 = w_db w1"
    using w1(2) by (rule put_dictionary_ok)
  have "GetBytes (Dict_String (lit ''failure reason'') (lit msg) NewDictionary) = (?bs, ?bs)"
    by (simp add: dict_writes)
  with w1 w2 show ?thesis
    by (auto simp: writeErr_def http_post_def failure_def ok_response_def)
qed

lemma clientError_post:
  assumes "world_ok I lim (h_world h)"
  shows "\<exists>h'. clientError e msg (http_stats f h) = Inr h' \<and>
    http_post I sw lim h h' (sw (w_db (h_world h))) (failure msg)"
proof -
  have "world_ok I lim (h_world (http_stats (add_ClientErrors 1) (http_stats f h)))" using assms by simp
  from writeErr_post [OF this, of e msg sw] show ?thesis by (simp add: clientError_def http_post_def)
qed

lemma sint_count16: "sint (ucast (of_nat n :: uint16) :: int64) = int (n mod 65536)"
  unfolding sint_port by (simp add: unsigned_of_nat take_bit_eq_mod)

lemma benc_response:
  "httpSuccessBytes @ fst (GetBytes (lit ''d'' @ benc_kvs kvs)) = ok_response (BDict kvs)"
  by (simp add: ok_response_def GetBytes_eq)

context database_laws
begin

abbreviation hpost :: "int64 \<Rightarrow> 'db http \<Rightarrow> 'db http \<Rightarrow> swarm \<Rightarrow> bytes \<Rightarrow> bool" where
  "hpost \<equiv> http_post dbinv swarm"

text \<open>Both forms of the peers.\<close>

lemma announce_peers_compact:
  assumes w: "world_ok dbinv lim w" and lim: "limit_ok lim" and e: "env_ok e" and v: "v_compact v"
    and ne: "swarm (w_db w) (v_hash v) \<noteq> Map.empty"
  obtains b4 b6 w' where
    "announce_peers D e v n d w = Inr (d @ benc_kvs [(lit ''peers'', BStr b4), (lit ''peers6'', BStr b6)], w')"
    "world_ok dbinv lim w'" "w_db w' = w_db w"
    "n \<noteq> 0 \<longrightarrow> (\<exists>ps. compact_lists lim (swarm (w_db w) (v_hash v)) ps b4 b6)"
proof -
  obtain s4 s6 w1 where p: "db_PeerListBytes D e (v_hash v) n w = Inr ((s4, s6), w1)" "world_ok dbinv lim w1"
      "w_db w1 = w_db w" "cap_is (6 * lim) s4" "cap_is (18 * lim) s6"
      "n \<noteq> 0 \<and> swarm (w_db w) (v_hash v) \<noteq> Map.empty \<longrightarrow>
         (\<exists>ps. compact_lists lim (swarm (w_db w) (v_hash v)) ps (slice_bytes s4) (slice_bytes s6))"
    using PeerListBytes_law [OF w lim e, of "v_hash v" n] by blast
  obtain w2 where w2: "put_peerlists s4 s6 w1 = Inr w2" "world_ok dbinv lim w2" "w_db w2 = w_db w1"
    using p(2) lim p(4,5) by (rule put_peerlists_ok)
  show ?thesis
    by (rule that [of "slice_bytes s4" "slice_bytes s6" w2])
      (use p w2 v ne in \<open>simp_all add: announce_peers_def dict_writes\<close>)
qed

lemma announce_peers_listed:
  assumes w: "world_ok dbinv lim w" and e: "env_ok e" and v: "\<not> v_compact v"
  obtains ips w' where
    "announce_peers D e v n d w =
       Inr (d @ benc_kvs [(lit ''peers'', BList (map (\<lambda>x. BStr (benc (peer_bval (v_nopeerid v) (fst x) (snd x)))) ips))], w')"
    "world_ok dbinv lim w'" "w_db w' = w_db w" "listed_peers (swarm (w_db w) (v_hash v)) n ips"
proof -
  obtain ips w1 where p: "db_PeerList D e (v_hash v) n (v_nopeerid v) w =
      Inr (map (\<lambda>x. benc (peer_bval (v_nopeerid v) (fst x) (snd x))) ips, w1)" "world_ok dbinv lim w1"
      "w_db w1 = w_db w" "listed_peers (swarm (w_db w) (v_hash v)) n ips"
    using PeerList_law [OF w e, of "v_hash v" n "v_nopeerid v"] by blast
  show ?thesis
    by (rule that [of ips w1]) (use p v in \<open>simp_all add: announce_peers_def dict_writes comp_def\<close>)
qed

text \<open>The reply, for peers already written.\<close>

lemma announce_reply_post:
  assumes w: "world_ok dbinv lim (h_world h)" and i: "http_interval e = Inr interval"
    and p: "\<And>d w. world_ok dbinv lim w \<Longrightarrow> w_db w = w_db (h_world h) \<Longrightarrow>
      \<exists>kvs w'. announce_peers D e v n d w = Inr (d @ benc_kvs kvs, w') \<and> world_ok dbinv lim w' \<and>
        w_db w' = w_db w \<and> P kvs"
  shows "\<exists>h' kvs. announce_reply D e v n h = Inr h' \<and> P kvs \<and>
    hpost lim h h' (swarm (w_db (h_world h)))
      (announce_response interval (v_hash v) (swarm (w_db (h_world h))) kvs)"
proof -
  let ?sw = "swarm (w_db (h_world h))"
  obtain w1 where w1: "get_dictionary e (h_world h) = Inr (NewDictionary, w1)" "world_ok dbinv lim w1"
    "w_db w1 = w_db (h_world h)" using w by (rule get_dictionary_ok)
  have "dbinv (w_db (h_world h))" using w by (simp add: world_ok_def)
  note hs = HashStats_law [OF this, of "v_hash v"]
  let ?kvs0 = "(lit ''interval'', BInt (sint interval)) # count_entries (v_hash v) ?sw"
  let ?d = "lit ''d'' @ benc_kvs ?kvs0"
  obtain kvs w2 where w2: "announce_peers D e v n ?d w1 = Inr (?d @ benc_kvs kvs, w2)" "world_ok dbinv lim w2"
    "w_db w2 = w_db w1" "P kvs" using p [OF w1(2,3), of ?d] by blast
  define bs where "bs = lit ''d'' @ benc_kvs (?kvs0 @ kvs) @ lit ''e''"
  obtain w3 where w3: "put_dictionary bs w2 = Inr w3" "world_ok dbinv lim w3" "w_db w3 = w_db w2"
    using w2(2) by (rule put_dictionary_ok)
  have d: "Dict_Int64 (lit ''incomplete'') (ucast (of_nat (swarm_count (\<lambda>p. \<not> Complete p) (v_hash v) ?sw) :: uint16))
      (Dict_Int64 (lit ''complete'') (ucast (of_nat (swarm_count Complete (v_hash v) ?sw) :: uint16))
        (Dict_Int64 (lit ''interval'') interval NewDictionary)) = ?d"
    by (simp only: dict_writes sint_count16 count_entries_def count16_def append_assoc benc_kvs_append [symmetric]
        append_Cons append_Nil)
  have g: "GetBytes (?d @ benc_kvs kvs) = (bs, bs)" by (simp add: GetBytes_eq bs_def)
  let ?h = "conn_Write (httpSuccessBytes @ bs) h\<lparr>h_world := w3\<rparr>"
  have "announce_reply D e v n h = Inr ?h"
    unfolding announce_reply_def hs prod.case i bindP.simps w1(1) Let_def d w2(1) g
    by (simp add: w3(1) conn_Write_def)
  moreover have "hpost lim h ?h ?sw (announce_response interval (v_hash v) ?sw kvs)"
    using w3 w2(3) w1(3) by (simp add: http_post_def announce_response_def ok_response_def bs_def)
  ultimately show ?thesis using w2(4) by blast
qed

text \<open>The whole announce handler.\<close>

lemma announce_rejected:
  assumes w: "world_ok dbinv lim (h_world h)" and err: "announce_error e v = Some msg"
  shows "\<exists>h'. http_announce D e v ip h = Inr h' \<and>
    hpost lim h h' (swarm (w_db (h_world h))) (failure msg)"
proof -
  have "http_announce D e v ip h = clientError e msg (http_stats (add_Announces 1) h)"
    using err by (auto simp: http_announce_def announce_error_def Let_def split: if_splits option.splits)
  with clientError_post [OF w, of e msg "add_Announces 1" swarm] show ?thesis by simp
qed

lemma announce_stops:
  assumes w: "world_ok dbinv lim (h_world h)" and err: "announce_error e v = None"
    and st: "v_event v = lit ''stopped''"
  shows "\<exists>h'. http_announce D e v ip h = Inr h' \<and>
    hpost lim h h' (swarm_drop (v_hash v) (v_peerid v) (swarm (w_db (h_world h)))) httpSuccessBytes"
proof -
  have w1: "world_ok dbinv lim (h_world (http_stats (add_Announces 1) h))" using w by simp
  obtain w' where w': "db_Drop D e (v_hash v) (v_peerid v) (h_world (http_stats (add_Announces 1) h)) = Inr w'"
      "world_ok dbinv lim w'" "swarm (w_db w') = swarm_drop (v_hash v) (v_peerid v) (swarm (w_db (h_world h)))"
    using Drop_law [OF w1, of e "v_hash v" "v_peerid v"] by auto
  have len: "length (v_hash v) = 20" "length (v_peerid v) = 20"
    using err by (simp_all add: announce_error_def split: if_splits)
  show ?thesis
    using w' len st by (auto simp: http_announce_def Let_def http_post_def)
qed

lemma announce_saves:
  assumes w: "world_ok dbinv lim (h_world h)" and lim: "limit_ok lim" and e: "env_ok e" "fuzz_ok (conf e)"
    and ip: "ip \<noteq> AddrZero" and err: "announce_error e v = None" and st: "v_event v \<noteq> lit ''stopped''"
  shows "\<exists>h' sw' resp. http_announce D e v ip h = Inr h' \<and>
    http_announce_spec lim e v ip (swarm (w_db (h_world h))) sw' resp \<and> hpost lim h h' sw' resp"
proof -
  let ?h1 = "http_stats (add_Announces 1) h"
  let ?sw = "swarm_save (v_hash v) (v_peerid v) (announcing_peer e v ip) (swarm (w_db (h_world h)))"
  have len: "length (v_hash v) = 20" "length (v_peerid v) = 20"
    using err by (simp_all add: announce_error_def split: if_splits)
  from err st obtain port n where p: "announce_port (v_port v) = Some port" "http_numwant e (v_numwant v) = Some n"
    by (auto simp: announce_error_def split: if_splits)
  obtain interval where i: "http_interval e = Inr interval" using fuzz_ok_interval [OF e(2)] by blast
  have w1: "world_ok dbinv lim (h_world ?h1)" using w by simp
  let ?c = "v_event v = lit ''completed'' \<or> v_noneleft v"
  obtain w' where w': "db_Save D e ip port ?c (v_hash v) (v_peerid v) (h_world ?h1) = Inr w'" "world_ok dbinv lim w'"
      "swarm (w_db w') = ?sw"
    using Save_law [OF w1 len ip, of e port ?c] p by (auto simp: announcing_peer_def)
  have run: "http_announce D e v ip h = announce_reply D e v n (?h1\<lparr>h_world := w'\<rparr>)"
    using len st p w'(1) by (simp add: http_announce_def Let_def)
  have ne: "?sw (v_hash v) \<noteq> Map.empty" by (auto simp: swarm_save_def fun_eq_iff)
  let ?P = "\<lambda>kvs. http_announce_spec lim e v ip (swarm (w_db (h_world h))) ?sw
      (announce_response interval (v_hash v) ?sw kvs)"
  have "\<exists>kvs w2. announce_peers D e v n d w1 = Inr (d @ benc_kvs kvs, w2) \<and> world_ok dbinv lim w2 \<and>
      w_db w2 = w_db w1 \<and> ?P kvs"
    if w1: "world_ok dbinv lim w1" "w_db w1 = w_db (h_world (?h1\<lparr>h_world := w'\<rparr>))" for d w1
  proof -
    have sw1: "swarm (w_db w1) = ?sw" using w1(2) w'(3) by simp
    show ?thesis
    proof (cases "v_compact v")
      case True
      from ne have "swarm (w_db w1) (v_hash v) \<noteq> Map.empty" unfolding sw1 .
      then obtain b4 b6 w2 where a: "announce_peers D e v n d w1 =
          Inr (d @ benc_kvs [(lit ''peers'', BStr b4), (lit ''peers6'', BStr b6)], w2)"
        "world_ok dbinv lim w2" "w_db w2 = w_db w1"
        "n \<noteq> 0 \<longrightarrow> (\<exists>ps. compact_lists lim (swarm (w_db w1) (v_hash v)) ps b4 b6)"
        by (rule announce_peers_compact [OF w1(1) lim e(1) True])
      have "?P [(lit ''peers'', BStr b4), (lit ''peers6'', BStr b6)]"
        using a(4) p(2) unfolding sw1
        by (intro http_announce_spec.compact [OF err st True refl i]) simp
      with a(1-3) show ?thesis by blast
    next
      case False
      obtain ips w2 where a: "announce_peers D e v n d w1 =
          Inr (d @ benc_kvs [(lit ''peers'', BList (map (\<lambda>x. BStr (benc (peer_bval (v_nopeerid v) (fst x) (snd x)))) ips))], w2)"
        "world_ok dbinv lim w2" "w_db w2 = w_db w1" "listed_peers (swarm (w_db w1) (v_hash v)) n ips"
        by (rule announce_peers_listed [OF w1(1) e(1) False])
      have "?P [(lit ''peers'', BList (map (\<lambda>x. BStr (benc (peer_bval (v_nopeerid v) (fst x) (snd x)))) ips))]"
        using a(4) p(2) unfolding sw1
        by (intro http_announce_spec.listed [OF err st False refl i]) simp
      with a(1-3) show ?thesis by blast
    qed
  qed
  from announce_reply_post [where P = ?P and h = "?h1\<lparr>h_world := w'\<rparr>", OF _ i this] w'(2,3) obtain h' kvs where
    "announce_reply D e v n (?h1\<lparr>h_world := w'\<rparr>) = Inr h'" "?P kvs"
    "hpost lim (?h1\<lparr>h_world := w'\<rparr>) h' ?sw (announce_response interval (v_hash v) ?sw kvs)" by auto
  with run show ?thesis by (auto simp: http_post_def)
qed

theorem http_announce_post:
  assumes w: "world_ok dbinv lim (h_world h)" and lim: "limit_ok lim" and e: "env_ok e" "fuzz_ok (conf e)"
    and ip: "ip \<noteq> AddrZero"
  shows "\<exists>h' sw' resp. http_announce D e v ip h = Inr h' \<and>
    http_announce_spec lim e v ip (swarm (w_db (h_world h))) sw' resp \<and> hpost lim h h' sw' resp"
proof (cases "announce_error e v")
  case (Some msg)
  with announce_rejected [OF w Some, of ip] http_announce_spec.rejected [OF Some] show ?thesis by blast
next
  case None
  show ?thesis
  proof (cases "v_event v = lit ''stopped''")
    case True
    with announce_stops [OF w None True, of ip] http_announce_spec.stopped [OF None True] show ?thesis by blast
  next
    case False
    from announce_saves [OF w lim e ip None False] show ?thesis .
  qed
qed

text \<open>The scrape handler.\<close>

lemma http_scrape_loop_result:
  assumes "dbinv db"
  shows "http_scrape_loop D db hs d =
    (if \<exists>h. Some h \<in> set hs \<and> length h \<noteq> 20 then None
     else Some (d @ benc_kvs (map (\<lambda>h. (h, BDict (count_entries h (swarm db)))) (map the (filter (\<lambda>x. x \<noteq> None) hs)))))"
proof (induction hs arbitrary: d)
  case Nil
  then show ?case by simp
next
  case (Cons x hs)
  show ?case
  proof (cases x)
    case None
    with Cons.IH show ?thesis by simp
  next
    case (Some h)
    note st = HashStats_law [OF assms, of h]
    let ?n1 = "swarm_count Complete h (swarm db)" and ?n2 = "swarm_count (\<lambda>p. \<not> Complete p) h (swarm db)"
    have d: "EndDictionary (Dict_Int64 (lit ''incomplete'') (ucast (of_nat ?n2 :: uint16))
        (Dict_Int64 (lit ''complete'') (ucast (of_nat ?n1 :: uint16)) (StartDictionaryBytes h d))) =
        d @ benc_kvs [(h, BDict (count_entries h (swarm db)))]"
      by (simp only: dict_writes sint_count16 count_entries_def count16_def) simp
    show ?thesis
      unfolding Some http_scrape_loop.simps st prod.case d Cons.IH by auto
  qed
qed

theorem http_scrape_post:
  assumes w: "world_ok dbinv lim (h_world h)"
  shows "\<exists>h'. http_scrape D e hs h = Inr h' \<and>
    hpost lim h h' (swarm (w_db (h_world h))) (scrape_response hs (swarm (w_db (h_world h))))"
proof -
  let ?h1 = "http_stats (add_Scrapes 1) h" and ?sw = "swarm (w_db (h_world h))"
  let ?bad = "\<exists>h. Some h \<in> set hs \<and> length h \<noteq> 20"
  have "world_ok dbinv lim (h_world ?h1)" using w by simp
  then obtain w1 where w1: "get_dictionary e (h_world ?h1) = Inr (NewDictionary, w1)" "world_ok dbinv lim w1"
    "w_db w1 = w_db (h_world h)" by (rule get_dictionary_ok) simp
  have "dbinv (w_db w1)" using w1(2) by (simp add: world_ok_def)
  note loop = http_scrape_loop_result [OF this, of hs, unfolded w1(3)]
  show ?thesis
  proof (cases ?bad)
    case True
    have "world_ok dbinv lim (h_world (?h1\<lparr>h_world := w1\<rparr>))" using w1(2) by simp
    from clientError_post [OF this, of e "''invalid infohash''" id swarm] obtain h' where
      "clientError e ''invalid infohash'' (?h1\<lparr>h_world := w1\<rparr>) = Inr h'"
      "hpost lim (?h1\<lparr>h_world := w1\<rparr>) h' ?sw (failure ''invalid infohash'')"
      using w1(3) by (auto simp: http_stats_def)
    with True w1 loop show ?thesis
      by (auto simp: http_scrape_def Let_def scrape_response_def http_post_def)
  next
    case False
    let ?rows = "map (\<lambda>h. (h, BDict (count_entries h ?sw))) (map the (filter (\<lambda>x. x \<noteq> None) hs))"
    define bs where "bs = benc (BDict [(lit ''files'', BDict ?rows)])"
    have g: "GetBytes (EndDictionary (StartDictionary (lit ''files'') NewDictionary @ benc_kvs ?rows)) = (bs, bs)"
      by (simp add: dict_writes bs_def)
    obtain w2 where w2: "put_dictionary bs w1 = Inr w2" "world_ok dbinv lim w2" "w_db w2 = w_db w1"
      using w1(2) by (rule put_dictionary_ok)
    let ?h = "conn_Write (httpSuccessBytes @ bs) ?h1\<lparr>h_world := w2\<rparr>"
    have "http_scrape D e hs h = Inr ?h"
      unfolding http_scrape_def Let_def w1(1,3) loop if_not_P [OF False] bindP.simps prod.case option.case g
      by (simp add: w2(1) conn_Write_def)
    moreover have "hpost lim h ?h ?sw (scrape_response hs ?sw)"
      unfolding scrape_response_def if_not_P [OF False] using w2 w1(3)
      by (simp add: http_post_def ok_response_def bs_def)
    ultimately show ?thesis by blast
  qed
qed

end

end
