(* ===== verification/HttpWorker.thy ===== *)
theory HttpWorker
  imports HttpSpec
begin

text \<open>
  The HTTP worker as a whole: the specification of a turn, which relates the parsed request, the
  swarms before and after and what is written, and the proof that a worker keeps it, turn after
  turn, over every database that keeps the laws.
\<close>

section \<open>The specification of a turn\<close>

text \<open>The address an announce is taken to come from, or the message sent when there is none.\<close>

definition client_address :: "bool \<times> bytes option \<Rightarrow> addr \<times> uint16 \<Rightarrow> string + addr" where
  "client_address fwd remote =
     (if fst fwd \<and> snd fwd = None then Inl ''Failed to parse X-Forwarded-For''
      else
        (case ParseAddr (case snd fwd of
                           Some s \<Rightarrow> s
                         | None \<Rightarrow> (case SplitHostPort (TCPAddrString remote) of Some (host, port) \<Rightarrow> host | None \<Rightarrow> [])) of
           None \<Rightarrow> Inl ''Failed to parse forwarded IP''
         | Some ip \<Rightarrow> Inr ip))"

definition status_line :: "string \<Rightarrow> bytes" where
  "status_line s = lit ''HTTP/1.1 '' @ lit s @ [13, 10, 13, 10]"

definition announce_params :: "parsed \<Rightarrow> announceParams" where
  "announce_params p = fold set_param (p_Params p) no_params"

inductive http_spec ::
  "int64 \<Rightarrow> env \<Rightarrow> http_build \<Rightarrow> bool \<times> bytes option \<Rightarrow> addr \<times> uint16 \<Rightarrow> parse_error + parsed
     \<Rightarrow> swarm \<Rightarrow> swarm \<Rightarrow> bytes list \<Rightarrow> bool"
  for lim :: int64 and e :: env and b :: http_build and fwd :: "bool \<times> bytes option" and remote :: "addr \<times> uint16"
    and r :: "parse_error + parsed" and sw :: swarm where
  invalid: "r = Inl er \<Longrightarrow> http_spec lim e b fwd remote r sw sw [status_line ''400'']"
| not_get: "r = Inr p \<Longrightarrow> p_Method p \<noteq> lit ''GET'' \<Longrightarrow> http_spec lim e b fwd remote r sw sw [status_line ''400'']"
| no_address: "r = Inr p \<Longrightarrow> p_Method p = lit ''GET'' \<Longrightarrow> p_Path p = lit ''/announce'' \<Longrightarrow>
    client_address fwd remote = Inl msg \<Longrightarrow> http_spec lim e b fwd remote r sw sw [failure msg]"
| announce: "r = Inr p \<Longrightarrow> p_Method p = lit ''GET'' \<Longrightarrow> p_Path p = lit ''/announce'' \<Longrightarrow>
    client_address fwd remote = Inr ip \<Longrightarrow>
    http_announce_spec lim e (announce_params p) ip sw sw' resp \<Longrightarrow> http_spec lim e b fwd remote r sw sw' [resp]"
| no_hashes: "r = Inr p \<Longrightarrow> p_Method p = lit ''GET'' \<Longrightarrow> p_Path p = lit ''/scrape'' \<Longrightarrow>
    set (scrape_hashes (p_Params p)) \<subseteq> {None} \<Longrightarrow>
    http_spec lim e b fwd remote r sw sw [failure ''no infohashes'']"
| scrape: "r = Inr p \<Longrightarrow> p_Method p = lit ''GET'' \<Longrightarrow> p_Path p = lit ''/scrape'' \<Longrightarrow>
    \<not> set (scrape_hashes (p_Params p)) \<subseteq> {None} \<Longrightarrow>
    http_spec lim e b fwd remote r sw sw [scrape_response (scrape_hashes (p_Params p)) sw]"
| heartbeat: "r = Inr p \<Longrightarrow> p_Method p = lit ''GET'' \<Longrightarrow> p_Path p = lit ''/heartbeat'' \<Longrightarrow>
    http_spec lim e b fwd remote r sw sw [status_line ''200'']"
| stats: "r = Inr p \<Longrightarrow> p_Method p = lit ''GET'' \<Longrightarrow> p_Path p = lit ''/stats'' \<Longrightarrow>
    http_spec lim e b fwd remote r sw sw (statsHeader # expvar_body b st)"
| cached_file: "r = Inr p \<Longrightarrow> p_Method p = lit ''GET'' \<Longrightarrow>
    p_Path p \<notin> {lit ''/announce'', lit ''/scrape'', lit ''/heartbeat'', lit ''/stats''} \<Longrightarrow>
    fmlookup (fileCache b) (p_Path p) = Some content \<Longrightarrow>
    http_spec lim e b fwd remote r sw sw [status_line ''200'' @ content]"
| not_found: "r = Inr p \<Longrightarrow> p_Method p = lit ''GET'' \<Longrightarrow>
    p_Path p \<notin> {lit ''/announce'', lit ''/scrape'', lit ''/heartbeat'', lit ''/stats''} \<Longrightarrow>
    fmlookup (fileCache b) (p_Path p) = None \<Longrightarrow>
    http_spec lim e b fwd remote r sw sw [status_line ''404'']"

inductive_cases http_spec_changeE: "http_spec lim e b fwd remote r sw sw' outs"
inductive_cases announce_spec_changeE: "http_announce_spec lim e v ip sw sw' resp"

lemma paths_distinct [simp]:
  "lit ''/announce'' \<noteq> lit ''/scrape''" "lit ''/announce'' \<noteq> lit ''/heartbeat''" "lit ''/announce'' \<noteq> lit ''/stats''"
  "lit ''/scrape'' \<noteq> lit ''/announce''" "lit ''/scrape'' \<noteq> lit ''/heartbeat''" "lit ''/scrape'' \<noteq> lit ''/stats''"
  "lit ''/heartbeat'' \<noteq> lit ''/announce''" "lit ''/heartbeat'' \<noteq> lit ''/scrape''" "lit ''/heartbeat'' \<noteq> lit ''/stats''"
  "lit ''/stats'' \<noteq> lit ''/announce''" "lit ''/stats'' \<noteq> lit ''/scrape''" "lit ''/stats'' \<noteq> lit ''/heartbeat''"
  by (simp_all add: lit_def)

lemma writeStatus_status_line: "writeStatus s = conn_Write (status_line s)"
  by (simp add: fun_eq_iff writeStatus_def status_line_def crlf_def)

lemma writeData_status_line: "writeData d = conn_Write (status_line ''200'' @ d)"
  by (simp add: fun_eq_iff writeData_def status_line_def crlf_def lit_def)

lemma fold_conn_Write: "fold conn_Write bs h = h\<lparr>h_out := h_out h @ bs\<rparr>"
  by (induction bs arbitrary: h) (simp_all add: conn_Write_def)

lemma v_hash_nonzero: "ParseAddr s = Some ip \<Longrightarrow> ip \<noteq> AddrZero"
  by (auto simp: ParseAddr_def parse_v6_def parse_v4_def split: option.splits if_splits prod.splits list.splits)

section \<open>Invariants of a worker\<close>

definition worker_ok :: "('db \<Rightarrow> bool) \<Rightarrow> int64 \<Rightarrow> 'db http_worker \<Rightarrow> bool" where
  "worker_ok dbinv lim k \<longleftrightarrow> length (k_buf k) = httpRequestMax \<and> world_ok dbinv lim (k_world k)"

definition build_ok :: "http_build \<Rightarrow> bool" where
  "build_ok b \<longleftrightarrow> (\<forall>data. length (b64_left b data) = length data)"

definition serve_post ::
  "('db \<Rightarrow> bool) \<Rightarrow> ('db \<Rightarrow> swarm) \<Rightarrow> int64 \<Rightarrow> 'db http \<Rightarrow> 'db http \<Rightarrow> (swarm \<Rightarrow> bytes list \<Rightarrow> bool) \<Rightarrow> bool" where
  "serve_post dbinv sw lim h h' P \<longleftrightarrow>
     world_ok dbinv lim (h_world h') \<and> (\<exists>outs. h_out h' = h_out h @ outs \<and> P (sw (w_db (h_world h'))) outs)"

text \<open>The buffer with a request in front, as \<open>parse\<close> sees it.\<close>

definition received :: "bytes \<Rightarrow> 'db http_worker \<Rightarrow> bytes" where
  "received req k = copy_at 0 (take httpRequestMax req) (k_buf k)"

lemma length_received [simp]: "worker_ok I lim k \<Longrightarrow> length (received req k) = httpRequestMax"
  by (simp add: received_def worker_ok_def)

lemma parse_received:
  assumes "worker_ok I lim k" and "build_ok b"
  shows "\<exists>r data'. parse (b64_left b) (received req k) (length (take httpRequestMax req)) = Inr (r, data') \<and>
    length data' = httpRequestMax"
proof -
  have "length (take httpRequestMax req) \<le> length (received req k)" using assms(1) by simp
  moreover have "length (b64_left b (received req k)) = length (received req k)" using assms(2) by (simp add: build_ok_def)
  ultimately have "parse_ok (received req k) (parse (b64_left b) (received req k) (length (take httpRequestMax req)))"
    by (rule parse_never_panics)
  with assms(1) show ?thesis by (auto simp: parse_ok_def)
qed

lemma serve_post_http:
  "http_post I sw lim h h' sw' resp \<Longrightarrow> P sw' [resp] \<Longrightarrow> serve_post I sw lim h h' P"
  by (auto simp: http_post_def serve_post_def)

context database_laws
begin

lemma write_post:
  "world_ok dbinv lim (h_world h) \<Longrightarrow>
   http_spec lim e b fwd remote r (swarm (w_db (h_world h))) (swarm (w_db (h_world h))) [m] \<Longrightarrow>
   serve_post dbinv swarm lim h (conn_Write m h) (http_spec lim e b fwd remote r (swarm (w_db (h_world h))))"
  by (auto simp: serve_post_def)

lemma serve_announce_post:
  assumes w: "world_ok dbinv lim (h_world h)" and lim: "limit_ok lim" and e: "env_ok e" "fuzz_ok (conf e)"
    and fwd: "parseForwarded b data = Inr fwd"
    and p: "p_Method p = lit ''GET''" "p_Path p = lit ''/announce''"
  shows "\<exists>h'. serve_announce D e b p data remote h = Inr h' \<and>
    serve_post dbinv swarm lim h h' (http_spec lim e b fwd remote (Inr p) (swarm (w_db (h_world h))))"
proof (cases "client_address fwd remote")
  case (Inl msg)
  then have "serve_announce D e b p data remote h = clientError e msg (http_stats id h)"
    using fwd by (cases fwd) (auto simp: serve_announce_def client_address_def Let_def http_stats_def split: option.splits if_splits)
  with clientError_post [OF w, of e msg id swarm] http_spec.no_address [OF refl p Inl] show ?thesis
    by (metis serve_post_http)
next
  case (Inr ip)
  then have run: "serve_announce D e b p data remote h = http_announce D e (announce_params p) ip h"
    using fwd by (cases fwd)
      (auto simp: serve_announce_def client_address_def announce_params_def Let_def split: option.splits if_splits)
  have "ip \<noteq> AddrZero"
    using Inr by (auto simp: client_address_def dest: v_hash_nonzero split: option.splits if_splits)
  from http_announce_post [OF w lim e this, of "announce_params p"] obtain h' sw' resp where
    "http_announce D e (announce_params p) ip h = Inr h'"
    "http_announce_spec lim e (announce_params p) ip (swarm (w_db (h_world h))) sw' resp"
    "hpost lim h h' sw' resp" by blast
  with http_spec.announce [OF refl p Inr] run show ?thesis by (metis serve_post_http)
qed

lemma serve_scrape_post:
  assumes w: "world_ok dbinv lim (h_world h)" and p: "p_Method p = lit ''GET''" "p_Path p = lit ''/scrape''"
  shows "\<exists>h'. serve_scrape D e p h = Inr h' \<and>
    serve_post dbinv swarm lim h h' (http_spec lim e b fwd remote (Inr p) (swarm (w_db (h_world h))))"
proof -
  let ?hs = "scrape_hashes (p_Params p)"
  have n: "length (filter (\<lambda>x. x \<noteq> None) ?hs) = 0 \<longleftrightarrow> set ?hs \<subseteq> {None}"
    by (auto simp: filter_empty_conv)
  show ?thesis
  proof (cases "set ?hs \<subseteq> {None}")
    case True
    then have "serve_scrape D e p h = clientError e ''no infohashes'' (http_stats id h)"
      unfolding serve_scrape_def Let_def n by (simp add: http_stats_def)
    with clientError_post [OF w, of e "''no infohashes''" id swarm] http_spec.no_hashes [OF refl p True]
    show ?thesis by (metis serve_post_http)
  next
    case False
    then have "serve_scrape D e p h = http_scrape D e ?hs h" unfolding serve_scrape_def Let_def n by simp
    with http_scrape_post [OF w, of e ?hs] http_spec.scrape [OF refl p False] show ?thesis
      by (metis serve_post_http)
  qed
qed

lemma serve_result:
  assumes w: "world_ok dbinv lim (h_world h)" and lim: "limit_ok lim" and e: "env_ok e" "fuzz_ok (conf e)"
    and fwd: "parseForwarded b data = Inr fwd"
  shows "\<exists>h'. serve D e b r data remote h = Inr h' \<and>
    serve_post dbinv swarm lim h h' (http_spec lim e b fwd remote r (swarm (w_db (h_world h))))"
proof (cases r)
  case (Inl er)
  have "lit ''GET'' \<noteq> []" by (simp add: lit_def)
  with Inl have "serve D e b r data remote h = Inr (conn_Write (status_line ''400'') h)"
    by (simp add: serve_def writeStatus_status_line)
  with write_post [OF w http_spec.invalid [OF Inl]]
  show ?thesis by blast
next
  case (Inr p)
  show ?thesis
  proof (cases "p_Method p = lit ''GET''")
    case False
    with Inr have "serve D e b r data remote h = Inr (conn_Write (status_line ''400'') h)"
      by (simp add: serve_def writeStatus_status_line)
    with write_post [OF w http_spec.not_get [OF Inr False]]
    show ?thesis by blast
  next
    case True
    have run: "serve D e b r data remote h = serve_path D e b p data remote h"
      using Inr True by (simp add: serve_def)
    consider "p_Path p = lit ''/announce''" | "p_Path p = lit ''/scrape''" | "p_Path p = lit ''/heartbeat''"
      | "p_Path p = lit ''/stats''"
      | "p_Path p \<notin> {lit ''/announce'', lit ''/scrape'', lit ''/heartbeat'', lit ''/stats''}" by blast
    then show ?thesis
    proof cases
      case 1
      then have "serve D e b r data remote h = serve_announce D e b p data remote h"
        unfolding run by (simp add: serve_path_def)
      with serve_announce_post [OF w lim e fwd True 1, of remote] show ?thesis unfolding Inr by simp
    next
      case 2
      then have "serve D e b r data remote h = serve_scrape D e p h"
        unfolding run by (simp add: serve_path_def)
      with serve_scrape_post [OF w True 2, of e b fwd remote] show ?thesis unfolding Inr by simp
    next
      case 3
      have "serve_path D e b p data remote h = Inr (conn_Write (status_line ''200'') h)"
        using 3 by (simp add: serve_path_def writeStatus_status_line)
      with write_post [OF w http_spec.heartbeat [OF Inr True 3]]
      show ?thesis unfolding run by blast
    next
      case 4
      have "serve_path D e b p data remote h =
          Inr (h\<lparr>h_out := h_out h @ statsHeader # expvar_body b (w_stats (h_world h))\<rparr>)"
        using 4 by (simp add: serve_path_def fold_conn_Write conn_Write_def)
      with w http_spec.stats [OF Inr True 4] show ?thesis unfolding run serve_post_def by fastforce
    next
      case 5
      show ?thesis
      proof (cases "fmlookup (fileCache b) (p_Path p)")
        case None
        have "serve_path D e b p data remote h = Inr (conn_Write (status_line ''404'') h)"
          using 5 None by (simp add: serve_path_def writeStatus_status_line)
        with write_post [OF w http_spec.not_found [OF Inr True 5 None]]
        show ?thesis unfolding run by blast
      next
        case (Some content)
        have "serve_path D e b p data remote h = Inr (conn_Write (status_line ''200'' @ content) h)"
          using 5 Some by (simp add: serve_path_def writeData_status_line)
        with write_post [OF w http_spec.cached_file [OF Inr True 5 Some]]
        show ?thesis unfolding run by blast
      qed
    qed
  qed
qed

text \<open>One turn of the worker on a request.\<close>

lemma worker_request:
  assumes k: "worker_ok dbinv lim k" and b: "build_ok b" and lim: "limit_ok lim"
    and e: "env_ok e" "fuzz_ok (conf e)"
    and p: "parse (b64_left b) (received req k) (length (take httpRequestMax req)) = Inr (r, data')"
    and fwd: "parseForwarded b data' = Inr fwd"
  shows "\<exists>k' outs. worker_step D e b (Request req remote) k = Inr (True, k', outs) \<and>
    worker_ok dbinv lim k' \<and> k_buf k' = data' \<and>
    http_spec lim e b fwd remote r (swarm (w_db (k_world k))) (swarm (w_db (k_world k'))) outs"
proof -
  let ?h = "http_stats (add_Hits 1) \<lparr>h_world = k_world k, h_out = []\<rparr>"
  have w: "world_ok dbinv lim (h_world ?h)" using k by (simp add: worker_ok_def)
  from serve_result [OF w lim e fwd, of r remote] obtain h' where h':
    "serve D e b r data' remote ?h = Inr h'"
    "serve_post dbinv swarm lim ?h h' (http_spec lim e b fwd remote r (swarm (w_db (h_world ?h))))" by blast
  have "length data' = httpRequestMax"
    using parse_received [OF k b, of req] p by simp
  with h' p show ?thesis
    unfolding serve_post_def by (auto simp: worker_step_def received_def Let_def worker_ok_def)
qed

text \<open>A build without the heroku tag never panics, whatever the connections send.\<close>

lemma worker_step_ok:
  assumes k: "worker_ok dbinv lim k" and b: "build_ok b" "\<not> heroku b" and lim: "limit_ok lim"
    and e: "env_ok e" "fuzz_ok (conf e)"
  shows "\<exists>go k' outs. worker_step D e b ev k = Inr (go, k', outs) \<and> worker_ok dbinv lim k'"
proof (cases ev)
  case (Request req remote)
  obtain r data' where p: "parse (b64_left b) (received req k) (length (take httpRequestMax req)) = Inr (r, data')"
    using parse_received [OF k b(1), of req] by blast
  have "parseForwarded b data' = Inr (False, None)" using b(2) by (simp add: parseForwarded_def)
  from worker_request [OF k b(1) lim e p this, of remote] Request show ?thesis by blast
next
  case AcceptFailed
  with k show ?thesis by (auto simp: worker_step_def worker_ok_def world_ok_def)
qed (use k in \<open>auto simp: worker_step_def\<close>)

lemma work_ok:
  assumes "worker_ok dbinv lim k" and b: "build_ok b" "\<not> heroku b" and lim: "limit_ok lim"
    and "\<forall>x \<in> set evs. env_ok (fst x) \<and> fuzz_ok (conf (fst x))"
  shows "\<exists>k' outs. work D b evs k = Inr (k', outs) \<and> worker_ok dbinv lim k'"
  using assms(1,5)
proof (induction evs arbitrary: k)
  case Nil
  then show ?case by simp
next
  case (Cons x evs)
  obtain e ev where x: "x = (e, ev)" by (cases x)
  with Cons.prems have e: "env_ok e" "fuzz_ok (conf e)" by auto
  obtain go k1 outs where s: "worker_step D e b ev k = Inr (go, k1, outs)" "worker_ok dbinv lim k1"
    using worker_step_ok [OF Cons.prems(1) b lim e, of ev] by blast
  from Cons.IH [OF s(2)] Cons.prems(2) obtain k2 outs' where "work D b evs k1 = Inr (k2, outs')" "worker_ok dbinv lim k2"
    by auto
  with s show ?case by (cases go) (simp_all add: x)
qed

end

end
