(* ===== verification/HttpProps.thy ===== *)
theory HttpProps
  imports HttpWorker UdpSpec
begin

text \<open>
  Properties of the HTTP tracker over the in-memory database: its specification, freedom from
  panics, announce and scrape from the bytes of the request to the bencoded response, and the
  worker's defects, which are stated as theorems about what it does.
\<close>

section \<open>Parameters\<close>

lemma param_key_val_pair: "61 \<notin> set key \<Longrightarrow> param_key_val (Some (key @ 61 # val)) = (key, val)"
  using Index_skip [of 61 key "61 # val" "[]"] by (simp add: param_key_val_def Let_def lit_def nat_add_distrib)

lemma set_param_None [simp]: "set_param None v = v"
  by (simp add: set_param_def param_key_val_def Let_def Index_def lit_def)

lemma set_param_None_iter [simp]: "(set_param None ^^ n) v = v"
  by (induction n) simp_all

lemma set_param_known:
  "set_param (Some (lit ''info_hash='' @ h)) v = v\<lparr>v_hash := h\<rparr>"
  "set_param (Some (lit ''peer_id='' @ i)) v = v\<lparr>v_peerid := i\<rparr>"
  "set_param (Some (lit ''port='' @ p)) v = v\<lparr>v_port := p\<rparr>"
  "set_param (Some (lit ''event='' @ x)) v = v\<lparr>v_event := x\<rparr>"
  "set_param (Some (lit ''compact=1'')) v = v\<lparr>v_compact := True\<rparr>"
  using param_key_val_pair [of "lit ''info_hash''" h] param_key_val_pair [of "lit ''peer_id''" i]
    param_key_val_pair [of "lit ''port''" p] param_key_val_pair [of "lit ''event''" x]
    param_key_val_pair [of "lit ''compact''" "lit ''1''"]
  by (simp_all add: set_param_def lit_def)

lemma announce_port_dec:
  assumes "0 < p" "p < 65536"
  shows "announce_port (dec_nat p) = Some (of_nat p)"
proof -
  have "Atoi (FormatInt (int p)) = AtoiOk (int p)" by (rule Atoi_FormatInt) (use assms in simp_all)
  with assms show ?thesis by (simp add: announce_port_def FormatInt_nat)
qed

text \<open>The parameters of a compact announce, as a client lists them before encoding.\<close>

definition announce_args :: "hash \<Rightarrow> peer_id \<Rightarrow> nat \<Rightarrow> bytes list" where
  "announce_args h i port =
     [lit ''info_hash='' @ h, lit ''peer_id='' @ i, lit ''port='' @ dec_nat port, lit ''compact=1'']"

lemma announce_args_params:
  "fold set_param (map Some (announce_args h i port) @ replicate n None) no_params =
     no_params\<lparr>v_hash := h, v_peerid := i, v_port := dec_nat port, v_compact := True\<rparr>"
  by (simp add: announce_args_def set_param_known)

lemma announce_path_ok: "path_ok (lit ''/announce'')" and scrape_path_ok: "path_ok (lit ''/scrape'')"
  by (simp_all add: path_ok_def lit_def)

section \<open>A request in the worker's buffer\<close>

lemma received_get_request:
  assumes "worker_ok I lim k" and "length (get_request path q rest) \<le> httpRequestMax"
  shows "received (get_request path q rest) k =
    get_request path q (rest @ drop (length (get_request path q rest)) (k_buf k))"
  using assms by (simp add: received_def copy_at_def worker_ok_def) (simp add: get_request_def)

text \<open>A query in full: the worker's view of an encoded request that fits.\<close>

lemma client_request_parsed:
  assumes k: "worker_ok I lim k" and path: "path_ok path" and s: "safe_ok safe"
    and ps: "ps \<noteq> []" "last ps \<noteq> []" "length ps \<le> maxparams"
    and len: "length (get_request path (client_query safe ps) rest) \<le> httpRequestMax"
  obtains p data' where
    "parse left (received (get_request path (client_query safe ps) rest) k) sz = Inr (Inr p, data')"
    "p_Path p = path" "p_Method p = lit ''GET''" "p_Params p = map Some ps @ replicate (maxparams - length ps) None"
proof -
  let ?q = "client_query safe ps"
  note q = client_query_ok [OF s ps]
  obtain q' where "parse left (received (get_request path ?q rest) k) sz =
      Inr (case query_params ?q of
             None \<Rightarrow> Inl InvalidParse
           | Some ps \<Rightarrow> Inr \<lparr>p_Path = path, p_Params = map Some ps @ replicate (maxparams - length ps) None,
               p_URLend = 5 + int (length path) + int (length ?q), p_Method = lit ''GET'',
               p_pathstart = 4, p_pathend = 4 + int (length path)\<rparr>,
           get_request path q' (rest @ drop (length (get_request path ?q rest)) (k_buf k)))"
    unfolding received_get_request [OF k len] by (rule get_request_parse [OF path q(1)])
  then show ?thesis using that unfolding q(2) by simp
qed

lemma parseForwarded_plain: "\<not> heroku b \<Longrightarrow> parseForwarded b data = Inr (False, None)"
  by (simp add: parseForwarded_def)

lemma client_address_v4: "client_address (False, None) (Addr4 w, p) = Inr (Addr4 w)"
proof -
  obtain port where "SplitHostPort (TCPAddrString (Addr4 w, p)) = Some (AddrString (Addr4 w), port)"
    using ParseAddr_remote by blast
  then show ?thesis by (simp add: client_address_def ParseAddr_v4 del: AddrString.simps)
qed

lemma bdecode_benc: "bdecode (benc v) = Inr v"
  by (rule bencode.roundtrip) simp

section \<open>The effect of an announce\<close>

definition announced :: "hash \<Rightarrow> peer_id \<Rightarrow> nat \<Rightarrow> announceParams" where
  "announced h i port = no_params\<lparr>v_hash := h, v_peerid := i, v_port := dec_nat port, v_compact := True\<rparr>"

text \<open>A parsed compact announce from a known address, from the turn to the decoded response.\<close>

lemma announce_effect:
  assumes k: "worker_ok mem_ok lim k" and b: "build_ok b" and lim: "limit_ok lim"
    and e: "env_ok e" "fuzz_ok (conf e)" "Numwant_Default (conf e) \<noteq> 0"
    and h: "length h = 20" "length i = 20" "0 < port" "port < 65536"
    and p: "parse (b64_left b) (received req k) (length (take httpRequestMax req)) = Inr (Inr p, data')"
      "p_Path p = lit ''/announce''" "p_Method p = lit ''GET''"
    and v: "announce_params p = announced h i port"
    and fwd: "parseForwarded b data' = Inr fwd" and ip: "client_address fwd remote = Inr ip"
  shows "\<exists>k' sw' interval body b4 b6 ps.
    worker_step gomap e b (Request req remote) k = Inr (True, k', [httpSuccessBytes @ body]) \<and>
    sw' = swarm_save h i \<lparr>Complete = False, IP = ip, Port = of_nat port, LastSeen = now e\<rparr>
      (mem_swarm (w_db (k_world k))) \<and>
    mem_swarm (w_db (k_world k')) = sw' \<and> http_interval e = Inr interval \<and> compact_lists lim (sw' h) ps b4 b6 \<and>
    bdecode body = Inr (BDict ((lit ''interval'', BInt (sint interval)) # count_entries h sw' @
      [(lit ''peers'', BStr b4), (lit ''peers6'', BStr b6)]))"
proof -
  let ?v = "no_params\<lparr>v_hash := h, v_peerid := i, v_port := dec_nat port, v_compact := True\<rparr>"
  note v = v [unfolded announced_def]
  have port: "announce_port (v_port ?v) = Some (of_nat port)" using announce_port_dec [OF h(3,4)] by simp
  have ok: "announce_error e ?v = None" "v_event ?v \<noteq> lit ''stopped''"
    using h port by (simp_all add: announce_error_def http_numwant_def no_params_def lit_def)
  from gomap.worker_request [OF k b lim e(1,2) p(1) fwd, of remote]
  obtain k' outs where step: "worker_step gomap e b (Request req remote) k = Inr (True, k', outs)"
    and spec: "http_spec lim e b fwd remote (Inr p) (mem_swarm (w_db (k_world k))) (mem_swarm (w_db (k_world k'))) outs"
    by blast
  from spec obtain resp where resp: "outs = [resp]"
    "http_announce_spec lim e ?v ip (mem_swarm (w_db (k_world k))) (mem_swarm (w_db (k_world k'))) resp"
    by (rule http_spec_changeE) (use p(2,3) ip v in auto)
  from resp(2) obtain interval b4 b6 ps where a:
    "mem_swarm (w_db (k_world k')) = swarm_save h i (announcing_peer e ?v ip) (mem_swarm (w_db (k_world k)))"
    "http_interval e = Inr interval" "compact_lists lim (mem_swarm (w_db (k_world k')) h) ps b4 b6"
    "resp = announce_response interval h (mem_swarm (w_db (k_world k'))) [(lit ''peers'', BStr b4), (lit ''peers6'', BStr b6)]"
    by (rule announce_spec_changeE) (use ok e(3) in \<open>auto simp: http_numwant_def no_params_def\<close>)
  have peer: "announcing_peer e ?v ip =
      \<lparr>Complete = False, IP = ip, Port = of_nat port, LastSeen = now e\<rparr>"
    using port by (simp add: announcing_peer_def no_params_def lit_def)
  note out = step [unfolded resp(1) a(4) announce_response_def ok_response_def]
  show ?thesis by (intro exI conjI, rule out, rule a(1) [unfolded peer], rule refl, rule a(2,3), rule a(3), rule bdecode_benc)
qed

section \<open>What a turn depends on\<close>

text \<open>Outside base64 the length that \<open>Read\<close> returned is never used.\<close>

lemma worker_step_received:
  assumes "received req k = received req' k" and "\<not> has_prefix (received req k) (lit ''R0VU'')"
  shows "worker_step D e b (Request req remote) k = worker_step D e b (Request req' remote) k"
  using assms by (simp add: worker_step_def Let_def received_def parse_def)

lemma get_request_not_b64: "\<not> has_prefix (get_request path q rest) (lit ''R0VU'')"
  by (simp add: get_request_def lit_GET)

lemma get_request_first: "\<exists>xs. get_request path q rest = 71 # xs"
  by (simp add: get_request_def lit_GET)

text \<open>A request without escapes stays in the buffer as it came.\<close>

lemma worker_step_buf:
  "worker_step D e b (Request req remote) k = Inr (go, k', outs) \<Longrightarrow>
   \<exists>r. parse (b64_left b) (received req k) (length (take httpRequestMax req)) = Inr (r, k_buf k')"
  by (auto simp: worker_step_def Let_def received_def bindP_Inr_iff)

lemma plain_request_stays:
  assumes k: "worker_ok I lim k" and path: "path_ok path" and q: "query_ok q" "37 \<notin> set q"
    and len: "length (get_request path q rest) \<le> httpRequestMax"
    and step: "worker_step D e b (Request (get_request path q rest) remote) k = Inr (go, k', outs)"
  shows "k_buf k' = received (get_request path q rest) k"
proof -
  let ?req = "get_request path q rest" and ?rest = "rest @ drop (length (get_request path q rest)) (k_buf k)"
  note rec = received_get_request [OF k len]
  obtain q' where q': "q' = q" "\<exists>x. parse (b64_left b) (get_request path q ?rest) (length (take httpRequestMax ?req)) =
      Inr (x, get_request path q' ?rest)"
    by (rule get_request_parse [OF path q(1), of "b64_left b" ?rest "length (take httpRequestMax ?req)"]) (use q(2) in auto)
  from worker_step_buf [OF step] q' show ?thesis unfolding rec by auto
qed

lemma plain_request_parsed:
  assumes k: "worker_ok I lim k" and path: "path_ok path" and q: "query_ok q" "37 \<notin> set q"
    and ok: "query_params q = Some ps" and len: "length (get_request path q rest) \<le> httpRequestMax"
  obtains p data' where "parse left (received (get_request path q rest) k) sz = Inr (Inr p, data')"
    "p_Path p = path" "p_Method p = lit ''GET''"
    "data' = get_request path q (rest @ drop (length (get_request path q rest)) (k_buf k))"
  by (rule get_request_parse [OF path q(1), of left "rest @ drop (length (get_request path q rest)) (k_buf k)" sz])
    (use that received_get_request [OF k len] q(2) ok in auto)

section \<open>The forwarding header\<close>

text \<open>The rest of a request line, and a forwarding header with whatever follows it.\<close>

definition forwarded_header :: bytes where
  "forwarded_header = lit ''X-Forwarded-For: ''"

definition forwarded_tail :: "bytes \<Rightarrow> bytes \<Rightarrow> bytes" where
  "forwarded_tail v after = lit ''1.1'' @ crlf @ forwarded_header @ v @ crlf @ after"

lemma forwarded_header_bytes: "forwarded_header = 88 # map of_char ''-Forwarded-For: ''"
  by (simp add: forwarded_header_def lit_def)

text \<open>The header is found where it first stands; its value ends at the next line end.\<close>

lemma parseForwarded_value:
  assumes b: "heroku b" and pre: "88 \<notin> set pre" and v: "13 \<notin> set v"
  shows "parseForwarded b (pre @ forwarded_header @ v @ crlf @ after) =
    (if Index v (lit '','') \<noteq> -1
     then bindP (go_slice v (LastIndex v (lit '','') + 2) (int (length v))) (\<lambda>ip. Inr (True, Some ip))
     else Inr (True, Some v))"
proof -
  let ?data = "pre @ forwarded_header @ v @ crlf @ after" and ?s = "int (length pre) + int (length forwarded_header)"
  have "has_prefix (forwarded_header @ xs) forwarded_header" for xs by (simp add: has_prefix_take)
  then have ix: "Index ?data (lit ''X-Forwarded-For: '') = int (length pre)"
    using Index_skip [OF pre, of "forwarded_header @ v @ crlf @ after" "map of_char ''-Forwarded-For: ''"]
    unfolding forwarded_header_bytes [symmetric] by (simp add: forwarded_header_def)
  have cut: "go_slice ?data ?s (int (length ?data)) = Inr (v @ crlf @ after)"
    by (simp add: go_slice_def nat_add_distrib)
  have fin: "Index (v @ crlf @ after) crlf = int (length v)"
    using Index_skip [OF v, of "13 # 10 # after" "[10]"] by (simp add: crlf_def)
  have "nat (int (length v) + ?s) = length v + (length pre + length forwarded_header)"
    by (simp add: nat_add_distrib)
  then have val: "go_slice ?data ?s (int (length v) + ?s) = Inr v"
    by (simp add: go_slice_def nat_add_distrib)
  show ?thesis
    unfolding parseForwarded_def Let_def using b ix cut fin val by (simp add: forwarded_header_def)
qed

lemma LastIndex_comma: "LastIndex (v @ [44]) (lit '','') = int (length v)"
proof -
  have "LastIndex_nat (v @ [44]) (lit '','') = Some (length v)" by (induction v) (simp_all add: lit_def)
  then show ?thesis by (simp add: LastIndex_def)
qed

lemma Index_comma: "Index (v @ [44]) (lit '','') \<noteq> -1"
proof -
  have "bytes_index (v @ [44]) (lit '','') \<noteq> None" by (induction v) (auto simp: lit_def)
  then show ?thesis by (auto simp: Index_def)
qed

lemma get_request_forwarded:
  "get_request path q (forwarded_tail v after) =
     (lit ''GET '' @ path @ lit ''?'' @ q @ lit '' HTTP/1.1'' @ crlf) @ forwarded_header @ v @ crlf @ after"
  by (simp add: get_request_def forwarded_tail_def lit_def)

lemma parseForwarded_comma:
  assumes "heroku b" "88 \<notin> set path" "88 \<notin> set q" "13 \<notin> set v"
  shows "parseForwarded b (get_request path q (forwarded_tail (v @ lit '','') after)) = Inl SliceOutOfRange"
proof -
  have c: "lit '','' = [44]" by (simp add: lit_def)
  have "88 \<notin> set (lit ''GET '' @ path @ lit ''?'' @ q @ lit '' HTTP/1.1'' @ crlf)"
    using assms by (simp add: lit_def crlf_def)
  from parseForwarded_value [OF assms(1) this, of "v @ [44]" after] assms(4) show ?thesis
    unfolding get_request_forwarded c using Index_comma [unfolded c] LastIndex_comma [unfolded c]
    by (simp add: c go_slice_def)
qed

text \<open>A parameter that holds a forwarding header of its own.\<close>

definition spoofed_param :: "uint32 \<Rightarrow> bytes" where
  "spoofed_param w = lit ''x='' @ crlf @ forwarded_header @ AddrString (Addr4 w) @ crlf"

lemma AddrString_v4_plain: "13 \<notin> set (AddrString (Addr4 w))" "44 \<notin> set (AddrString (Addr4 w))"
  using string4_chars [of w] by (auto simp: list_all_iff is_digit_def)

lemma Index_no_comma: "44 \<notin> set v \<Longrightarrow> Index v (lit '','') = -1"
proof -
  assume "44 \<notin> set v"
  then have "bytes_index v (lit '','') = None" by (induction v) (auto simp: lit_def)
  then show ?thesis by (simp add: Index_def)
qed

lemma parseForwarded_spoofed:
  assumes b: "heroku b" and q': "take (length (spoofed_param w)) q' = spoofed_param w" and path: "88 \<notin> set path"
  shows "parseForwarded b (get_request path q' rest) = Inr (True, Some (AddrString (Addr4 w)))"
proof -
  have "q' = spoofed_param w @ drop (length (spoofed_param w)) q'" using q' by (metis append_take_drop_id)
  then obtain t where t: "q' = spoofed_param w @ t" ..
  have "88 \<notin> set (lit ''GET '' @ path @ lit ''?x='' @ crlf)" using path by (simp add: lit_def crlf_def)
  from parseForwarded_value [OF b this AddrString_v4_plain(1), of w "t @ lit '' HTTP/'' @ rest"]
  have "parseForwarded b ((lit ''GET '' @ path @ lit ''?x='' @ crlf) @ forwarded_header @ AddrString (Addr4 w) @ crlf @
      t @ lit '' HTTP/'' @ rest) = Inr (True, Some (AddrString (Addr4 w)))"
    using Index_no_comma [OF AddrString_v4_plain(2), of w] by (simp del: AddrString.simps)
  moreover have "get_request path q' rest = (lit ''GET '' @ path @ lit ''?x='' @ crlf) @ forwarded_header @
      AddrString (Addr4 w) @ crlf @ t @ lit '' HTTP/'' @ rest"
    unfolding t by (simp add: get_request_def spoofed_param_def lit_def del: AddrString.simps)
  ultimately show ?thesis by simp
qed

lemma set_param_spoofed: "set_param (Some (spoofed_param w)) v = v"
proof -
  have "param_key_val (Some (lit ''x'' @ 61 # crlf @ forwarded_header @ AddrString (Addr4 w) @ crlf)) =
      (lit ''x'', crlf @ forwarded_header @ AddrString (Addr4 w) @ crlf)"
    by (rule param_key_val_pair) (simp add: lit_def)
  then show ?thesis by (simp add: set_param_def spoofed_param_def lit_def del: AddrString.simps)
qed

section \<open>Concrete workers\<close>

lemma default_numwant [simp]: "Numwant_Default default_config = 75" "Numwant_Limit default_config = 200"
  by (simp_all add: default_config_def)

definition plain_build :: http_build where
  "plain_build = \<lparr>heroku = False, fileCache = fmempty, expvar_body = (\<lambda>_. []), b64_left = id\<rparr>"

definition heroku_build :: http_build where
  "heroku_build = \<lparr>heroku = True, fileCache = fmempty, expvar_body = (\<lambda>_. []), b64_left = id\<rparr>"

lemma builds_ok [simp]: "build_ok plain_build" "\<not> heroku plain_build" "build_ok heroku_build" "heroku heroku_build"
  by (simp_all add: build_ok_def plain_build_def heroku_build_def)

lemma new_worker_ok [simp]: "world_ok I lim w \<Longrightarrow> worker_ok I lim (new_worker w)"
  by (simp add: worker_ok_def new_worker_def)

lemma new_worker_sel [simp]: "k_world (new_worker w) = w" "k_buf (new_worker w) = replicate httpRequestMax 0"
  by (simp_all add: new_worker_def)

lemma length_url_encode_all: "length (url_encode (\<lambda>_. False) bs) = 3 * length bs"
  by (induction bs) (simp_all add: url_encode_def percent_byte_def)

lemmas fit_simps = get_request_def client_query_def announce_args_def spoofed_param_def forwarded_tail_def
  forwarded_header_def crlf_def httpRequestMax_def length_url_encode_all dec_nat.simps

lemma announce_fits:
  "length (get_request (lit ''/announce'') (client_query (\<lambda>_. False) (announce_args (replicate 20 1) (replicate 20 2) 6881)) []) \<le> httpRequestMax"
  by (simp add: fit_simps)

lemma scrape_fits:
  "length (get_request (lit ''/scrape'')
      (client_query (\<lambda>_. False) (map ((@) (lit ''info_hash='')) [replicate 20 1, replicate 20 2])) []) \<le> httpRequestMax"
  by (simp add: fit_simps)

lemma spoofed_fits:
  "length (get_request (lit ''/announce'')
      (client_query (\<lambda>_. False) (spoofed_param 0x01020304 # announce_args (replicate 20 1) (replicate 20 2) 6881))
      (forwarded_tail (lit ''9.9.9.9'') [])) \<le> httpRequestMax"
  by (simp add: fit_simps string4_def put_be_numeral)

text \<open>A parsed request to leave a swarm.\<close>

definition stop_request :: parsed where
  "stop_request =
     \<lparr>p_Path = lit ''/announce'',
      p_Params = map Some [lit ''info_hash='' @ replicate 20 1, lit ''peer_id='' @ replicate 20 2, lit ''event='' @ lit ''stopped''],
      p_URLend = 100, p_Method = lit ''GET'', p_pathstart = 4, p_pathend = 13\<rparr>"

text \<open>An announce that does not ask for compact peers.\<close>

definition listed_request :: "nat \<Rightarrow> announceParams" where
  "listed_request port =
     no_params\<lparr>v_hash := replicate 20 1, v_peerid := replicate 20 2, v_port := dec_nat port\<rparr>"

section \<open>Properties\<close>

text \<open>C7: A turn of a worker on a received request is a step of the specification: the parsed
  request decides the status, file, announce or scrape response and the change of the swarms,
  the writes are exactly those of the specification, the buffer is what \<open>parse\<close> left in it, and
  the worker, its pools and the database stay in order.\<close>

theorem http_worker_implements_spec:
  assumes "worker_ok mem_ok lim k" and "build_ok b" and "limit_ok lim" and "env_ok e" and "fuzz_ok (conf e)"
    and "parse (b64_left b) (received req k) (length (take httpRequestMax req)) = Inr (r, data')"
    and "parseForwarded b data' = Inr fwd"
  shows "\<exists>k' outs. worker_step gomap e b (Request req remote) k = Inr (True, k', outs) \<and>
    worker_ok mem_ok lim k' \<and> k_buf k' = data' \<and>
    http_spec lim e b fwd remote r (mem_swarm (w_db (k_world k))) (mem_swarm (w_db (k_world k'))) outs"
  using assms by (rule gomap.worker_request)

theorem http_worker_implements_spec_witness:
  "\<exists>r data' k' outs. worker_step gomap (sample_env 0) plain_build (Request (lit ''GET / HTTP/'') (Addr4 1, 2))
      (new_worker start_world) = Inr (True, k', outs) \<and>
    http_spec 200 (sample_env 0) plain_build (False, None) (Addr4 1, 2) r (\<lambda>h. Map.empty)
      (mem_swarm (w_db (k_world k'))) outs \<and> k_buf k' = data'"
proof -
  let ?k = "new_worker start_world" and ?req = "lit ''GET / HTTP/''"
  have k: "worker_ok mem_ok 200 ?k" by simp
  obtain r data' where p: "parse (b64_left plain_build) (received ?req ?k) (length (take httpRequestMax ?req)) = Inr (r, data')"
    using parse_received [OF k builds_ok(1), of ?req] by blast
  have "parseForwarded plain_build data' = Inr (False, None)" by (simp add: parseForwarded_plain)
  from http_worker_implements_spec [OF k builds_ok(1) limit_ok_200 env_ok_sample _ p this, of 0 "(Addr4 1, 2)"]
  show ?thesis by auto
qed

text \<open>A worker of a build without the heroku tag never panics: any sequence of accepted
  connections with any bytes, failed reads, failed accepts and a closed listener is handled to
  its end, and the worker, the pools and the database stay in order.\<close>

theorem http_worker_never_panics:
  assumes "worker_ok mem_ok lim k" and "build_ok b" and "\<not> heroku b" and "limit_ok lim"
    and "\<forall>x \<in> set evs. env_ok (fst x) \<and> fuzz_ok (conf (fst x))"
  shows "\<exists>k' outs. work gomap b evs k = Inr (k', outs) \<and> worker_ok mem_ok lim k'"
  using assms by (rule gomap.work_ok)

theorem http_worker_never_panics_witness:
  "\<exists>k' outs. work gomap plain_build
      [(sample_env 0, Request (lit ''R0VU?'') (Addr4 1, 2)), (sample_env 1, ListenerClosed)]
      (new_worker start_world) = Inr (k', outs) \<and> worker_ok mem_ok 200 k'"
  by (rule http_worker_never_panics [OF _ builds_ok(1,2) limit_ok_200]) simp_all

text \<open>An announce whose four parameters a client encoded in any way.\<close>

lemma encoded_announce_effect:
  assumes k: "worker_ok mem_ok lim k" and b: "build_ok b" "\<not> heroku b" and lim: "limit_ok lim"
    and e: "env_ok e" "fuzz_ok (conf e)" "Numwant_Default (conf e) \<noteq> 0" and s: "safe_ok safe"
    and h: "length h = 20" "length i = 20" "0 < port" "port < 65536"
    and len: "length (get_request (lit ''/announce'') (client_query safe (announce_args h i port)) rest) \<le> httpRequestMax"
  shows "\<exists>k' sw' interval body b4 b6 ps.
    worker_step gomap e b (Request (get_request (lit ''/announce'') (client_query safe (announce_args h i port)) rest)
      (Addr4 w, rport)) k = Inr (True, k', [httpSuccessBytes @ body]) \<and>
    sw' = swarm_save h i \<lparr>Complete = False, IP = Addr4 w, Port = of_nat port, LastSeen = now e\<rparr>
      (mem_swarm (w_db (k_world k))) \<and>
    mem_swarm (w_db (k_world k')) = sw' \<and> http_interval e = Inr interval \<and> compact_lists lim (sw' h) ps b4 b6 \<and>
    bdecode body = Inr (BDict ((lit ''interval'', BInt (sint interval)) # count_entries h sw' @
      [(lit ''peers'', BStr b4), (lit ''peers6'', BStr b6)]))"
proof -
  let ?req = "get_request (lit ''/announce'') (client_query safe (announce_args h i port)) rest"
  have args: "announce_args h i port \<noteq> []" "last (announce_args h i port) \<noteq> []" "length (announce_args h i port) \<le> maxparams"
    by (simp_all add: announce_args_def maxparams_def lit_def)
  obtain p data' where p: "parse (b64_left b) (received ?req k) (length (take httpRequestMax ?req)) = Inr (Inr p, data')"
    "p_Path p = lit ''/announce''" "p_Method p = lit ''GET''"
    "p_Params p = map Some (announce_args h i port) @ replicate (maxparams - length (announce_args h i port)) None"
    by (rule client_request_parsed [OF k announce_path_ok s args len])
  have v: "announce_params p = announced h i port" unfolding announce_params_def p(4) announce_args_params announced_def ..
  show ?thesis
    by (rule announce_effect [OF k b(1) lim e h p(1-3) v parseForwarded_plain [OF b(2)] client_address_v4])
qed

text \<open>C36: End to end: an announce whose four parameters a client encoded in any way registers
  the client under its IPv4 address and port, and is answered by a bencoded dictionary with the
  interval, the counts of the swarm it joined and compact lists of its peers, of all of them unless
one list has reached the limit.\<close>

theorem http_announce_end_to_end:
  assumes k: "worker_ok mem_ok lim k" and b: "build_ok b" "\<not> heroku b" and lim: "limit_ok lim"
    and e: "env_ok e" "fuzz_ok (conf e)" "Numwant_Default (conf e) \<noteq> 0" and s: "safe_ok safe"
    and h: "length h = 20" "length i = 20" "0 < port" "port < 65536"
    and len: "length (get_request (lit ''/announce'') (client_query safe (announce_args h i port)) rest) \<le> httpRequestMax"
  shows "\<exists>k' sw' interval body b4 b6 ps.
    worker_step gomap e b (Request (get_request (lit ''/announce'') (client_query safe (announce_args h i port)) rest)
      (Addr4 w, rport)) k = Inr (True, k', [httpSuccessBytes @ body]) \<and>
    sw' = swarm_save h i \<lparr>Complete = False, IP = Addr4 w, Port = of_nat port, LastSeen = now e\<rparr>
      (mem_swarm (w_db (k_world k))) \<and>
    mem_swarm (w_db (k_world k')) = sw' \<and> http_interval e = Inr interval \<and> compact_lists lim (sw' h) ps b4 b6 \<and>
    bdecode body = Inr (BDict ((lit ''interval'', BInt (sint interval)) # count_entries h sw' @
      [(lit ''peers'', BStr b4), (lit ''peers6'', BStr b6)]))"
  using assms by (rule encoded_announce_effect)

theorem http_announce_end_to_end_witness:
  "\<exists>k' sw' body. worker_step gomap (sample_env 0) plain_build (Request (get_request (lit ''/announce'')
      (client_query (\<lambda>_. False) (announce_args (replicate 20 1) (replicate 20 2) 6881)) []) (Addr4 7, 9))
      (new_worker start_world) = Inr (True, k', [httpSuccessBytes @ body]) \<and>
    sw' = swarm_save (replicate 20 1) (replicate 20 2)
      \<lparr>Complete = False, IP = Addr4 7, Port = 6881, LastSeen = 0\<rparr> (\<lambda>h. Map.empty) \<and>
    mem_swarm (w_db (k_world k')) = sw'"
  using http_announce_end_to_end [OF new_worker_ok [OF start_world_ok] builds_ok(1,2) limit_ok_200 env_ok_sample [of 0],
      where safe = "\<lambda>_. False" and h = "replicate 20 1" and i = "replicate 20 2" and port = 6881 and
        rest = "[]" and w = 7 and rport = 9] announce_fits
  by (simp add: safe_ok_def) blast

text \<open>End to end: a scrape of up to 45 infohashes answers with the dictionary of their counts,
  in the order they were asked for, and changes no swarm.\<close>

theorem http_scrape_end_to_end:
  assumes k: "worker_ok mem_ok lim k" and b: "build_ok b" "\<not> heroku b" and lim: "limit_ok lim"
    and e: "env_ok e" "fuzz_ok (conf e)" and s: "safe_ok safe"
    and hs: "hs \<noteq> []" "length hs \<le> maxparams" "\<forall>h \<in> set hs. length h = 20"
    and len: "length (get_request (lit ''/scrape'') (client_query safe (map ((@) (lit ''info_hash='')) hs)) rest) \<le> httpRequestMax"
  shows "\<exists>k' body.
    worker_step gomap e b (Request (get_request (lit ''/scrape'')
      (client_query safe (map ((@) (lit ''info_hash='')) hs)) rest) remote) k = Inr (True, k', [httpSuccessBytes @ body]) \<and>
    mem_swarm (w_db (k_world k')) = mem_swarm (w_db (k_world k)) \<and>
    bdecode body = Inr (BDict [(lit ''files'',
      BDict (map (\<lambda>h. (h, BDict (count_entries h (mem_swarm (w_db (k_world k)))))) hs))])"
proof -
  let ?ps = "map ((@) (lit ''info_hash='')) hs"
  let ?req = "get_request (lit ''/scrape'') (client_query safe ?ps) rest"
  have args: "?ps \<noteq> []" "last ?ps \<noteq> []" "length ?ps \<le> maxparams"
    using hs by (simp_all add: last_map lit_def)
  obtain p data' where p: "parse (b64_left b) (received ?req k) (length (take httpRequestMax ?req)) = Inr (Inr p, data')"
    "p_Path p = lit ''/scrape''" "p_Method p = lit ''GET''" "p_Params p = map Some ?ps @ replicate (maxparams - length ?ps) None"
    by (rule client_request_parsed [OF k scrape_path_ok s args len])
  have hashes: "scrape_hashes (p_Params p) = map Some hs @ replicate (maxparams - length ?ps) None"
    unfolding p(4) scrape_hashes_def by (simp add: comp_def)
  from gomap.worker_request [OF k b(1) lim e p(1) parseForwarded_plain [OF b(2)], of remote]
  obtain k' outs where step: "worker_step gomap e b (Request ?req remote) k = Inr (True, k', outs)"
    and spec: "http_spec lim e b (False, None) remote (Inr p) (mem_swarm (w_db (k_world k))) (mem_swarm (w_db (k_world k'))) outs"
    by blast
  have some: "\<not> set (scrape_hashes (p_Params p)) \<subseteq> {None}" unfolding hashes using hs(1) by (cases hs) auto
  from spec have r: "mem_swarm (w_db (k_world k')) = mem_swarm (w_db (k_world k))"
    "outs = [scrape_response (scrape_hashes (p_Params p)) (mem_swarm (w_db (k_world k)))]"
    by (rule http_spec_changeE; use p(2,3) some in auto)+
  have good: "\<not> (\<exists>h. Some h \<in> set (map Some hs @ replicate (maxparams - length ?ps) None) \<and> length h \<noteq> 20)"
    using hs(3) by auto
  have "scrape_response (scrape_hashes (p_Params p)) sw =
      ok_response (BDict [(lit ''files'', BDict (map (\<lambda>h. (h, BDict (count_entries h sw))) hs))])" for sw
    unfolding scrape_response_def hashes if_not_P [OF good] by (simp add: comp_def filter_map)
  note out = step [unfolded r(2) this ok_response_def]
  show ?thesis by (intro exI conjI, rule out, rule r(1), rule bdecode_benc)
qed

theorem http_scrape_end_to_end_witness:
  "\<exists>k' body. worker_step gomap (sample_env 0) plain_build (Request (get_request (lit ''/scrape'')
      (client_query (\<lambda>_. False) (map ((@) (lit ''info_hash='')) [replicate 20 1, replicate 20 2])) []) (Addr4 7, 9))
      (new_worker start_world) = Inr (True, k', [httpSuccessBytes @ body]) \<and>
    bdecode body = Inr (BDict [(lit ''files'',
      BDict (map (\<lambda>h. (h, BDict (count_entries h (\<lambda>h. Map.empty)))) [replicate 20 1, replicate 20 2]))])"
  using http_scrape_end_to_end [OF new_worker_ok [OF start_world_ok] builds_ok(1,2) limit_ok_200 env_ok_sample [of 0],
      where safe = "\<lambda>_. False" and hs = "[replicate 20 1, replicate 20 2]" and rest = "[]" and
        remote = "(Addr4 7, 9)"] scrape_fits
  by (simp add: safe_ok_def maxparams_def) blast

text \<open>When the forwarding header makes the handler of announces panic, a turn that did not panic had
  no announce, and does not depend on the header.\<close>

lemma turn_without_header:
  assumes "parse (b64_left b) (received req k) (length (take httpRequestMax req)) = Inr (r, data')"
    and "parseForwarded b data' = Inl pn" and "worker_step D e b (Request req remote) k = Inr x"
  shows "worker_step D e (b\<lparr>heroku := False\<rparr>) (Request req remote) k = Inr x"
    and "\<not> (\<exists>p. r = Inr p \<and> p_Method p = lit ''GET'' \<and> p_Path p = lit ''/announce'')"
proof -
  have "serve D e b r data' remote h = Inr h' \<Longrightarrow> serve D e (b\<lparr>heroku := False\<rparr>) r data' remote h = Inr h' \<and>
      \<not> (\<exists>p. r = Inr p \<and> p_Method p = lit ''GET'' \<and> p_Path p = lit ''/announce'')" for h h'
    using assms(2) by (auto simp: serve_def serve_path_def serve_announce_def Let_def split: if_splits sum.splits)
  with assms(1,3) show "worker_step D e (b\<lparr>heroku := False\<rparr>) (Request req remote) k = Inr x"
    "\<not> (\<exists>p. r = Inr p \<and> p_Method p = lit ''GET'' \<and> p_Path p = lit ''/announce'')"
    by (auto simp: worker_step_def received_def Let_def bindP_Inr_iff)
qed

lemma spec_change_is_an_announce:
  assumes "http_spec lim e b fwd remote r sw sw' outs" and "sw' h i \<noteq> sw h i"
  shows "\<exists>p ip. r = Inr p \<and> p_Method p = lit ''GET'' \<and> p_Path p = lit ''/announce'' \<and> client_address fwd remote = Inr ip \<and>
    h = v_hash (announce_params p) \<and> i = v_peerid (announce_params p) \<and> length h = 20 \<and> length i = 20 \<and>
    sw' h i = (if v_event (announce_params p) = lit ''stopped'' then None else Some (announcing_peer e (announce_params p) ip))"
  using assms(1)
proof (rule http_spec_changeE)
  fix p ip resp
  assume p: "r = Inr p" "p_Method p = lit ''GET''" "p_Path p = lit ''/announce''" "client_address fwd remote = Inr ip"
    and "http_announce_spec lim e (announce_params p) ip sw sw' resp"
  from this(5) have "h = v_hash (announce_params p) \<and> i = v_peerid (announce_params p) \<and> length h = 20 \<and> length i = 20 \<and>
    sw' h i = (if v_event (announce_params p) = lit ''stopped'' then None else Some (announcing_peer e (announce_params p) ip))"
    by (rule announce_spec_changeE)
      (use assms(2) in \<open>auto simp: swarm_save_def swarm_drop_def announce_error_def split: if_splits\<close>)
  with p show ?thesis by blast
qed (use assms(2) in auto)

text \<open>C38: Whatever event a worker handles, if an entry of a swarm is different after its turn then the
  event was a request that parsed as a GET of the announce path, the entry is the one of the
  announced infohash and peer id, both of 20 bytes, and it is gone if the client stopped, and
  otherwise the announced peer under the address that the connection, or in a heroku build the
  forwarding header, gives. A scrape, a file, a heartbeat or the statistics change none.\<close>

theorem http_swarm_change_is_an_announce:
  assumes "worker_ok mem_ok lim k" and "build_ok b" and "limit_ok lim" and "env_ok e" and "fuzz_ok (conf e)"
    and "worker_step gomap e b ev k = Inr (go, k', outs)"
    and "mem_swarm (w_db (k_world k')) h i \<noteq> mem_swarm (w_db (k_world k)) h i"
  shows "\<exists>req remote p data' fwd ip. ev = Request req remote \<and>
    parse (b64_left b) (received req k) (length (take httpRequestMax req)) = Inr (Inr p, data') \<and>
    p_Method p = lit ''GET'' \<and> p_Path p = lit ''/announce'' \<and>
    parseForwarded b data' = Inr fwd \<and> client_address fwd remote = Inr ip \<and>
    h = v_hash (announce_params p) \<and> i = v_peerid (announce_params p) \<and> length h = 20 \<and> length i = 20 \<and>
    mem_swarm (w_db (k_world k')) h i =
      (if v_event (announce_params p) = lit ''stopped'' then None else Some (announcing_peer e (announce_params p) ip))"
proof (cases ev)
  case (Request req remote)
  note step = assms(6) [unfolded Request]
  obtain r data' where p: "parse (b64_left b) (received req k) (length (take httpRequestMax req)) = Inr (r, data')"
    using parse_received [OF assms(1,2), of req] by blast
  show ?thesis
  proof (cases "parseForwarded b data'")
    case (Inr fwd)
    from gomap.worker_request [OF assms(1-5) p Inr, of remote] step
    have "http_spec lim e b fwd remote r (mem_swarm (w_db (k_world k))) (mem_swarm (w_db (k_world k'))) outs" by auto
    from spec_change_is_an_announce [OF this assms(7)] p Inr Request show ?thesis by blast
  next
    case (Inl pn)
    let ?b = "b\<lparr>heroku := False\<rparr>"
    note other = turn_without_header [OF p Inl step]
    have b': "build_ok ?b" "b64_left ?b = b64_left b" "parseForwarded ?b data' = Inr (False, None)"
      using assms(2) by (simp_all add: build_ok_def parseForwarded_def)
    from gomap.worker_request [OF assms(1) b'(1) assms(3-5) p [folded b'(2)] b'(3), of remote] other(1)
    have "http_spec lim e ?b (False, None) remote r (mem_swarm (w_db (k_world k))) (mem_swarm (w_db (k_world k'))) outs" by auto
    from spec_change_is_an_announce [OF this assms(7)] other(2) show ?thesis by blast
  qed
qed (use assms(6,7) in \<open>auto simp: worker_step_def\<close>)

theorem http_swarm_change_is_an_announce_witness:
  "\<exists>k' outs p. worker_step gomap (sample_env 0) plain_build (Request (get_request (lit ''/announce'')
      (client_query (\<lambda>_. False) (announce_args (replicate 20 1) (replicate 20 2) 6881)) []) (Addr4 7, 9))
      (new_worker start_world) = Inr (True, k', outs) \<and> p_Path p = lit ''/announce'' \<and>
    replicate 20 1 = v_hash (announce_params p) \<and>
    mem_swarm (w_db (k_world k')) (replicate 20 1) (replicate 20 2) =
      (if v_event (announce_params p) = lit ''stopped'' then None
       else Some (announcing_peer (sample_env 0) (announce_params p) (Addr4 7)))"
proof -
  let ?req = "get_request (lit ''/announce'') (client_query (\<lambda>_. False) (announce_args (replicate 20 1) (replicate 20 2) 6881)) []"
  note k = new_worker_ok [OF start_world_ok]
  obtain k' sw' body where step: "worker_step gomap (sample_env 0) plain_build (Request ?req (Addr4 7, 9)) (new_worker start_world) =
      Inr (True, k', [httpSuccessBytes @ body])"
    and sw: "sw' = swarm_save (replicate 20 1) (replicate 20 2)
      \<lparr>Complete = False, IP = Addr4 7, Port = 6881, LastSeen = 0\<rparr> (\<lambda>h. Map.empty)" "mem_swarm (w_db (k_world k')) = sw'"
    using encoded_announce_effect [OF k builds_ok(1,2) limit_ok_200 env_ok_sample [of 0],
        where safe = "\<lambda>_. False" and h = "replicate 20 1" and i = "replicate 20 2" and port = 6881 and
          rest = "[]" and w = 7 and rport = 9] announce_fits
    by (simp add: safe_ok_def) blast
  have "mem_swarm (w_db (k_world k')) (replicate 20 1) (replicate 20 2) \<noteq>
      mem_swarm (w_db (k_world (new_worker start_world))) (replicate 20 1) (replicate 20 2)"
    by (simp add: sw swarm_save_def)
  from http_swarm_change_is_an_announce [OF k builds_ok(1) limit_ok_200 env_ok_sample _ step this] step
  show ?thesis by (auto simp: parseForwarded_plain client_address_v4)
qed

text \<open>C39: A worker parses its whole buffer, not the bytes it read. After a request without percent
  escapes, a client that sends the single byte G is served exactly as if it had sent that whole
  request, whoever sent it: with an announce it joins the swarm under its own address.\<close>

theorem one_byte_replays_last_request:
  assumes k: "worker_ok mem_ok lim k" and path: "path_ok path" and q: "query_ok q" "37 \<notin> set q"
    and len: "length (get_request path q rest) \<le> httpRequestMax"
  shows "work gomap b [(e1, Request (get_request path q rest) r1), (e2, Request [71] r2)] k =
    work gomap b [(e1, Request (get_request path q rest) r1), (e2, Request (get_request path q rest) r2)] k"
proof (cases "worker_step gomap e1 b (Request (get_request path q rest) r1) k")
  case (Inl pn)
  then show ?thesis by simp
next
  case (Inr x)
  let ?req = "get_request path q rest"
  obtain go k1 outs where x: "x = (go, k1, outs)" by (cases x)
  have buf: "k_buf k1 = received ?req k" using plain_request_stays [OF k path q len] Inr x by simp
  have take: "take httpRequestMax ?req = ?req" "take httpRequestMax [71] = [71 :: byte]"
    using len by (simp_all add: httpRequestMax_def)
  have r: "k_buf k1 = ?req @ drop (length ?req) (k_buf k)"
    unfolding buf received_def take by (simp add: copy_at_def)
  obtain xs where xs: "?req = 71 # xs" using get_request_first by blast
  have one: "received [71] k1 = k_buf k1" unfolding received_def take r xs by (simp add: copy_at_def)
  have all: "received ?req k1 = k_buf k1" unfolding received_def take r by (simp add: copy_at_def)
  have "\<not> has_prefix (received [71] k1) (lit ''R0VU'')"
    unfolding one r using get_request_not_b64 [of path q "rest @ drop (length ?req) (k_buf k)"]
    by (simp add: get_request_def)
  from worker_step_received [OF _ this, of ?req gomap e2 b r2] one all
  have "worker_step gomap e2 b (Request [71] r2) k1 = worker_step gomap e2 b (Request ?req r2) k1" by simp
  with Inr x show ?thesis by simp
qed

theorem one_byte_replays_last_request_witness:
  "work gomap plain_build [(sample_env 0, Request (get_request (lit ''/announce'') (lit ''port=1'') []) (Addr4 1, 2)),
      (sample_env 1, Request [71] (Addr4 3, 4))] (new_worker start_world) =
   work gomap plain_build [(sample_env 0, Request (get_request (lit ''/announce'') (lit ''port=1'') []) (Addr4 1, 2)),
      (sample_env 1, Request (get_request (lit ''/announce'') (lit ''port=1'') []) (Addr4 3, 4))] (new_worker start_world)"
proof -
  have "query_ok (lit ''port=1'')" "37 \<notin> set (lit ''port=1'')" by (simp_all add: query_ok_def lit_def maxparams_def)
  moreover have "length (get_request (lit ''/announce'') (lit ''port=1'') []) \<le> httpRequestMax"
    by (simp add: get_request_def httpRequestMax_def)
  ultimately show ?thesis
    by (rule one_byte_replays_last_request [OF new_worker_ok [OF start_world_ok] announce_path_ok])
qed

text \<open>In a build for the heroku router, a request whose forwarding header ends in a comma makes
  the worker panic, and with it the process: the position two past the last comma lies beyond
  the header's value.\<close>

theorem forwarded_comma_panics:
  assumes k: "worker_ok mem_ok lim k" and b: "heroku b" and q: "query_ok q" "37 \<notin> set q" "88 \<notin> set q"
    and v: "13 \<notin> set v" and ok: "query_params q = Some ps"
    and len: "length (get_request (lit ''/announce'') q (forwarded_tail (v @ lit '','') after)) \<le> httpRequestMax"
  shows "worker_step gomap e b (Request (get_request (lit ''/announce'') q (forwarded_tail (v @ lit '','') after)) remote) k =
    Inl SliceOutOfRange"
proof -
  let ?rest = "forwarded_tail (v @ lit '','') after"
  let ?req = "get_request (lit ''/announce'') q ?rest"
  obtain p data' where p: "parse (b64_left b) (received ?req k) (length (take httpRequestMax ?req)) = Inr (Inr p, data')"
    "p_Path p = lit ''/announce''" "p_Method p = lit ''GET''"
    "data' = get_request (lit ''/announce'') q (?rest @ drop (length ?req) (k_buf k))"
    by (rule plain_request_parsed [OF k announce_path_ok q(1,2) ok len])
  have "data' = get_request (lit ''/announce'') q (forwarded_tail (v @ lit '','') (after @ drop (length ?req) (k_buf k)))"
    unfolding p(4) by (simp add: forwarded_tail_def)
  moreover have "88 \<notin> set (lit ''/announce'')" by (simp add: lit_def)
  ultimately have "parseForwarded b data' = Inl SliceOutOfRange"
    using parseForwarded_comma [OF b _ q(3) v] by simp
  then show ?thesis using p by (auto simp: worker_step_def received_def Let_def serve_def serve_path_def serve_announce_def)
qed

theorem forwarded_comma_panics_witness:
  "worker_step gomap (sample_env 0) heroku_build (Request (get_request (lit ''/announce'') (lit ''port=1'')
      (forwarded_tail (lit ''1.1.1.1'' @ lit '','') [])) (Addr4 1, 2)) (new_worker start_world) = Inl SliceOutOfRange"
proof -
  have q: "query_ok (lit ''port=1'')" "37 \<notin> set (lit ''port=1'')" "88 \<notin> set (lit ''port=1'')"
    by (simp_all add: query_ok_def lit_def maxparams_def)
  have v: "13 \<notin> set (lit ''1.1.1.1'')" by (simp add: lit_def)
  have ok: "query_params (lit ''port=1'') = Some [lit ''port=1'']" by (simp add: query_params_def lit_def)
  show ?thesis
    by (rule forwarded_comma_panics [OF new_worker_ok [OF start_world_ok] builds_ok(4) q v ok])
      (simp add: get_request_def forwarded_tail_def forwarded_header_def crlf_def httpRequestMax_def)
qed

text \<open>C40: In a build for the heroku router, the address an announce registers is the client's to
  choose: a percent-encoded first parameter is decoded into the buffer in front of the headers,
  where the forwarding header it contains is found before the router's own, so that any IPv4
  address joins the swarm, wherever the request came from and whatever headers follow.\<close>

theorem forwarded_address_spoofed:
  assumes k: "worker_ok mem_ok lim k" and b: "build_ok b" "heroku b" and lim: "limit_ok lim"
    and e: "env_ok e" "fuzz_ok (conf e)" "Numwant_Default (conf e) \<noteq> 0" and s: "safe_ok safe"
    and h: "length h = 20" "length i = 20" "0 < port" "port < 65536"
    and len: "length (get_request (lit ''/announce'')
      (client_query safe (spoofed_param victim # announce_args h i port)) rest) \<le> httpRequestMax"
  shows "\<exists>k' out. worker_step gomap e b (Request (get_request (lit ''/announce'')
      (client_query safe (spoofed_param victim # announce_args h i port)) rest) remote) k = Inr (True, k', out) \<and>
    mem_swarm (w_db (k_world k')) =
      swarm_save h i \<lparr>Complete = False, IP = Addr4 victim, Port = of_nat port, LastSeen = now e\<rparr>
        (mem_swarm (w_db (k_world k)))"
proof -
  let ?ps = "spoofed_param victim # announce_args h i port"
  let ?q = "client_query safe ?ps" and ?path = "lit ''/announce''"
  let ?req = "get_request ?path ?q rest" and ?rest = "rest @ drop (length (get_request ?path ?q rest)) (k_buf k)"
  have args: "?ps \<noteq> []" "last ?ps \<noteq> []" "length ?ps \<le> maxparams"
    by (simp_all add: announce_args_def maxparams_def lit_def)
  note q = client_query_ok [OF s args]
  obtain q' where q': "take (length (spoofed_param victim)) q' = spoofed_param victim"
    "parse (b64_left b) (get_request ?path ?q ?rest) (length (take httpRequestMax ?req)) =
      Inr (Inr \<lparr>p_Path = ?path, p_Params = map Some ?ps @ replicate (maxparams - length ?ps) None,
               p_URLend = 5 + int (length ?path) + int (length ?q), p_Method = lit ''GET'',
               p_pathstart = 4, p_pathend = 4 + int (length ?path)\<rparr>, get_request ?path q' ?rest)"
    by (rule get_request_parse [OF announce_path_ok q(1), of "b64_left b" ?rest "length (take httpRequestMax ?req)"])
      (use q(2) in auto)
  note parsed = q'(2) [folded received_get_request [OF k len]]
  have fwd: "parseForwarded b (get_request ?path q' ?rest) = Inr (True, Some (AddrString (Addr4 victim)))"
    by (rule parseForwarded_spoofed [OF b(2) q'(1)]) (simp add: lit_def)
  have ip: "client_address (True, Some (AddrString (Addr4 victim))) remote = Inr (Addr4 victim)"
    by (simp add: client_address_def ParseAddr_v4 del: AddrString.simps)
  have v: "announce_params p = announced h i port"
    if "p_Params p = map Some ?ps @ replicate (maxparams - length ?ps) None" for p
    unfolding announce_params_def that by (simp add: set_param_spoofed announce_args_params [where n = 0, simplified] announced_def)
  from announce_effect [OF k b(1) lim e h parsed _ _ v fwd ip] show ?thesis by simp blast
qed


theorem forwarded_address_spoofed_witness:
  "\<exists>k' out. worker_step gomap (sample_env 0) heroku_build (Request (get_request (lit ''/announce'')
      (client_query (\<lambda>_. False) (spoofed_param 0x01020304 # announce_args (replicate 20 1) (replicate 20 2) 6881))
      (forwarded_tail (lit ''9.9.9.9'') [])) (Addr4 1, 2)) (new_worker start_world) = Inr (True, k', out) \<and>
    mem_swarm (w_db (k_world k')) = swarm_save (replicate 20 1) (replicate 20 2)
        \<lparr>Complete = False, IP = Addr4 0x01020304, Port = 6881, LastSeen = 0\<rparr> (\<lambda>h. Map.empty)"
  using forwarded_address_spoofed [OF new_worker_ok [OF start_world_ok] builds_ok(3,4) limit_ok_200 env_ok_sample [of 0],
      where safe = "\<lambda>_. False" and h = "replicate 20 1" and i = "replicate 20 2" and port = 6881 and
        victim = "0x01020304" and rest = "forwarded_tail (lit ''9.9.9.9'') []" and remote = "(Addr4 1, 2)"]
    spoofed_fits
  by (simp add: safe_ok_def)
text \<open>The answer to an announce that does not ask for the compact form is a list of strings, each
  of which holds the bencoding of a peer's dictionary, and not a list of dictionaries; the
  strings decode to distinct peers of the swarm, as many as were wanted and are there.\<close>

theorem noncompact_peers_are_strings:
  assumes "http_announce_spec lim e v ip sw sw' resp" and "announce_error e v = None"
    and "v_event v \<noteq> lit ''stopped''" and "\<not> v_compact v"
  shows "\<exists>body (interval :: int64) ips. resp = httpSuccessBytes @ body \<and>
    bdecode body = Inr (BDict ((lit ''interval'', BInt (sint interval)) # count_entries (v_hash v) sw' @
      [(lit ''peers'', BList (map BStr (map (\<lambda>x. benc (peer_bval (v_nopeerid v) (fst x) (snd x))) ips)))])) \<and>
    listed_peers (sw' (v_hash v)) (the (http_numwant e (v_numwant v))) ips \<and>
    (\<forall>x. bdecode (benc (peer_bval (v_nopeerid v) (fst x) (snd x))) = Inr (peer_bval (v_nopeerid v) (fst x) (snd x)))"
proof -
  from assms(1) obtain interval ips where
    r: "resp = announce_response interval (v_hash v) sw'
      [(lit ''peers'', BList (map (\<lambda>x. BStr (benc (peer_bval (v_nopeerid v) (fst x) (snd x)))) ips))]"
    and l: "listed_peers (sw' (v_hash v)) (the (http_numwant e (v_numwant v))) ips"
    by (rule announce_spec_changeE) (use assms in auto)
  let ?head = "(lit ''interval'', BInt (sint interval)) # count_entries (v_hash v) sw'"
  let ?b = "benc (BDict (?head @ [(lit ''peers'',
      BList (map (\<lambda>x. BStr (benc (peer_bval (v_nopeerid v) (fst x) (snd x)))) ips))]))"
  have resp: "resp = httpSuccessBytes @ ?b"
    using r by (simp add: announce_response_def ok_response_def)
  have d: "bdecode ?b = Inr (BDict (?head @
      [(lit ''peers'', BList (map BStr (map (\<lambda>x. benc (peer_bval (v_nopeerid v) (fst x) (snd x))) ips)))]))"
    by (simp only: bdecode_benc list.map_comp comp_def)
  show ?thesis
    by (rule exI [of _ ?b], rule exI [of _ interval], rule exI [of _ ips])
      (use resp d l bdecode_benc in \<open>simp only: append_Cons simp_thms\<close>)
qed

theorem noncompact_peers_are_strings_witness:
  "\<exists>resp body kvs x. http_announce_spec 200 (sample_env 0) (listed_request 7) (Addr4 1) (\<lambda>h. Map.empty)
      (swarm_save (v_hash (listed_request 7)) (v_peerid (listed_request 7))
        (announcing_peer (sample_env 0) (listed_request 7) (Addr4 1)) (\<lambda>h. Map.empty)) resp \<and>
    resp = httpSuccessBytes @ body \<and> bdecode body = Inr (BDict (kvs @ [(lit ''peers'', BList [BStr x])]))"
proof -
  let ?e = "sample_env 0" and ?v = "listed_request 7"
  let ?p = "announcing_peer ?e ?v (Addr4 1)"
  let ?sw = "swarm_save (v_hash ?v) (v_peerid ?v) ?p (\<lambda>h. Map.empty)"
  have port: "announce_port (dec_nat 7) = Some (of_nat 7)" by (rule announce_port_dec) simp_all
  have v: "announce_error ?e ?v = None" "v_event ?v \<noteq> lit ''stopped''" "\<not> v_compact ?v"
    using port by (simp_all add: announce_error_def listed_request_def http_numwant_def no_params_def lit_def)
  have n: "the (http_numwant ?e (v_numwant ?v)) = 75"
    by (simp add: http_numwant_def listed_request_def no_params_def default_config_def)
  have row: "?sw (v_hash ?v) = [v_peerid ?v \<mapsto> ?p]" by (simp add: swarm_save_def)
  have l: "listed_peers (?sw (v_hash ?v)) (the (http_numwant ?e (v_numwant ?v))) [(v_peerid ?v, ?p)]"
    unfolding row n by (simp add: listed_peers_def)
  obtain interval where i: "http_interval ?e = Inr interval" using fuzz_ok_interval [of ?e] by auto
  note spec = http_announce_spec.listed [OF v refl i l]
  from noncompact_peers_are_strings [OF spec v] obtain body and interval' :: int64 and ips where
    r: "announce_response interval (v_hash ?v) ?sw [(lit ''peers'', BList (map (\<lambda>x. BStr (benc (peer_bval (v_nopeerid ?v) (fst x) (snd x)))) [(v_peerid ?v, ?p)]))]
      = httpSuccessBytes @ body"
    "bdecode body = Inr (BDict ((lit ''interval'', BInt (sint interval')) # count_entries (v_hash ?v) ?sw @
      [(lit ''peers'', BList (map BStr (map (\<lambda>x. benc (peer_bval (v_nopeerid ?v) (fst x) (snd x))) ips)))]))"
    "listed_peers (?sw (v_hash ?v)) (the (http_numwant ?e (v_numwant ?v))) ips" by blast
  from r(3) have "length ips = 1" unfolding row n by (simp add: listed_peers_def)
  then obtain x where "ips = [x]" by (cases ips) auto
  with r(2) have "bdecode body = Inr (BDict (((lit ''interval'', BInt (sint interval')) # count_entries (v_hash ?v) ?sw) @
      [(lit ''peers'', BList [BStr (benc (peer_bval (v_nopeerid ?v) (fst x) (snd x)))])]))" by simp
  with spec [unfolded r(1)] show ?thesis by blast
qed

end
