(* ===== verification/Outside.thy ===== *)
theory Outside
  imports ConnDb
begin

text \<open>
  What the program uses of the operating system and of the SQL driver: one record of operations
  on the state of the outside, which is a parameter of every definition that reaches out. Also
  the parts of Go's \<open>strings\<close> and \<open>time\<close> packages that configuration and backups use.
\<close>

section \<open>The platform\<close>

text \<open>
  \<open>os.Stat\<close>; the row that \<open>QueryRow(...).Scan\<close> returns, its time in nanoseconds, or the text of
  its error; the number of rows that \<open>Exec\<close> reports, which the driver may not know.
\<close>

datatype stat_result = StatOk | NotExist | StatError

datatype row_result = Row bytes int | RowError bytes

datatype exec_result = ExecError | Executed "int64 option"

record 'o platform =
  os_files :: "'o file_system"
  os_Stat :: "bytes \<Rightarrow> 'o \<Rightarrow> stat_result"
  os_MkdirAll :: "bytes \<Rightarrow> 'o \<Rightarrow> bool \<times> 'o"
  os_Getenv :: "bytes \<Rightarrow> 'o \<Rightarrow> bytes"
  os_UserHomeDir :: "'o \<Rightarrow> bytes option"
  sql_Open :: "bytes \<Rightarrow> 'o \<Rightarrow> bool \<times> 'o"
  sql_Ping :: "'o \<Rightarrow> bool \<times> 'o"
  sql_Exec :: "bytes \<Rightarrow> 'o \<Rightarrow> exec_result \<times> 'o"
  sql_Query :: "bytes \<Rightarrow> bytes \<Rightarrow> 'o \<Rightarrow> bool \<times> 'o"
  sql_QueryRow :: "bytes \<Rightarrow> 'o \<Rightarrow> row_result \<times> 'o"
  clock :: "'o \<Rightarrow> int"
  sleep :: "duration \<Rightarrow> 'o \<Rightarrow> 'o"

text \<open>\<open>time.Since\<close> saturates at the ends of a duration.\<close>

definition time_Since :: "int \<Rightarrow> int \<Rightarrow> int" where
  "time_Since t ts = max (- (2 ^ 63)) (min (2 ^ 63 - 1) (t - ts))"

section \<open>Strings\<close>

text \<open>
  \<open>strings.ReplaceAll\<close> of a one-byte string, \<open>HasSuffix\<close>, \<open>TrimPrefix\<close>, and \<open>ToLower\<close>, which
  maps bytes as long as all of them are ASCII; the Unicode tables it uses otherwise are a
  parameter.
\<close>

definition ReplaceAll :: "bytes \<Rightarrow> byte \<Rightarrow> bytes \<Rightarrow> bytes" where
  "ReplaceAll s c new = concat (map (\<lambda>b. if b = c then new else [b]) s)"

definition HasSuffix :: "bytes \<Rightarrow> bytes \<Rightarrow> bool" where
  "HasSuffix s suf \<longleftrightarrow> has_prefix (rev s) (rev suf)"

definition TrimPrefix :: "bytes \<Rightarrow> bytes \<Rightarrow> bytes" where
  "TrimPrefix s pre = (if has_prefix s pre then drop (length pre) s else s)"

definition lower_byte :: "byte \<Rightarrow> byte" where
  "lower_byte b = (if 65 \<le> b \<and> b \<le> 90 then b + 32 else b)"

definition ToLower :: "(bytes \<Rightarrow> bytes) \<Rightarrow> bytes \<Rightarrow> bytes" where
  "ToLower unicode s = (if list_all (\<lambda>b. b < 128) s then map lower_byte s else unicode s)"

declare ReplaceAll_def [eval_simps] HasSuffix_def [eval_simps] TrimPrefix_def [eval_simps]
  lower_byte_def [eval_simps] ToLower_def [eval_simps]

lemma ReplaceAll_empty: "ReplaceAll s c [] = filter (\<lambda>b. b \<noteq> c) s"
  by (induction s) (auto simp: ReplaceAll_def)

lemma set_ReplaceAll: "set (ReplaceAll s c new) \<subseteq> (set s - {c}) \<union> set new"
  by (auto simp: ReplaceAll_def split: if_splits)

lemma ReplaceAll_none [simp]: "c \<notin> set s \<Longrightarrow> ReplaceAll s c new = s"
  by (induction s) (auto simp: ReplaceAll_def)

lemma lower_byte_idem: "lower_byte (lower_byte b) = lower_byte b"
proof -
  have "\<not> (65 \<le> b + 32 \<and> b + 32 \<le> 90)" if "65 \<le> b" "b \<le> 90"
    using that by (simp add: word_le_nat_alt unat_word_ariths)
  then show ?thesis by (auto simp: lower_byte_def)
qed

end
