(* ===== verification/Backups.thy ===== *)
theory Backups
  imports StorageCodec Outside
begin

text \<open>
  The backup drivers of tracker/storage/map: \<open>FileBackup\<close> (backup_file.go), \<open>PgBackup\<close>
  (backup_pg.go) and \<open>NoneBackup\<close> (backup_none.go), each with its \<open>Init\<close>, \<open>Save\<close>, \<open>Load\<close> and
  \<open>trim\<close>. The files, the SQL driver and the clock they use are the platform of Outside.thy.
\<close>

section \<open>State\<close>

text \<open>
  The database argument of \<open>Init\<close> is a \<open>*Memory\<close>, nil or the one database of the process, and so
  is the field that every driver keeps it in. A driver reads and writes that database through
  the pointer, so the database stands next to the drivers' fields.
\<close>

datatype mem_ref = NilRef | MemRef

record 'o store =
  s_world :: "memory world"
  s_file :: mem_ref
  s_pg :: mem_ref
  s_pgopen :: bool
  s_out :: 'o

datatype backup_error =
  NilDatabase | OpenFailed | PingFailed | CreateTableFailed | InsertFailed | SelectFailed
| StatFailed | FileReadFailed | FileWriteFailed | SnapshotFailed decode_error

type_synonym 'o backup_result = "panic + (backup_error option \<times> 'o store)"

text \<open>Calling a method on the pointer that a driver keeps.\<close>

fun deref :: "mem_ref \<Rightarrow> panic + unit" where
  "deref NilRef = Inl NilDereference"
| "deref MemRef = Inr ()"

definition make_db :: "'o store \<Rightarrow> 'o store" where
  "make_db st = st\<lparr>s_world := (s_world st)\<lparr>w_db := memory_make (w_db (s_world st))\<rparr>\<rparr>"

text \<open>The order in which \<open>range\<close> visits the infohashes, chosen by the run time.\<close>

type_synonym hash_order = "(hash, peermap) fmap \<Rightarrow> hash list"

definition encode_store :: "env \<Rightarrow> hash_order \<Rightarrow> 'o store \<Rightarrow> bytes" where
  "encode_store e ho st = encodeBinary e (ho (entries (w_db (s_world st)))) (w_db (s_world st))"

section \<open>The gob snapshot\<close>

text \<open>
  The other coding of the database (encode_gob.go), which only the tests use. The gob coder is a
  parameter; the decoder also returns what it decoded before an error.
\<close>

record memory_gob =
  mg_enc :: "(hash, peermap) fmap option \<Rightarrow> bytes option"
  mg_dec :: "bytes \<Rightarrow> (hash, peermap) fmap \<Rightarrow> bool \<times> (hash, peermap) fmap"

definition encodeGob :: "memory_gob \<Rightarrow> memory \<Rightarrow> bytes option" where
  "encodeGob g db = mg_enc g (hashmap db)"

definition decodeGob :: "memory_gob \<Rightarrow> bytes \<Rightarrow> memory \<Rightarrow> bool \<times> memory" where
  "decodeGob g data db =
     (let db' = memory_make db in
      case mg_dec g data (entries db') of (ok, m) \<Rightarrow> (ok, db'\<lparr>hashmap := Some m\<rparr>))"

section \<open>The file driver\<close>

definition FileBackup_Init :: "mem_ref \<Rightarrow> 'o store \<Rightarrow> 'o backup_result" where
  "FileBackup_Init db st =
     (if db = NilRef then Inl ExplicitPanic else Inr (None, st\<lparr>s_file := db\<rparr>))"

definition loadFile ::
  "'o platform \<Rightarrow> env \<Rightarrow> bytes \<Rightarrow> 'o store
     \<Rightarrow> panic + ((nat \<times> nat \<times> backup_error option) \<times> 'o store)" where
  "loadFile P e filename st =
     (case ReadFile (os_files P) filename (s_out st) of
        None \<Rightarrow> Inr ((0, 0, Some FileReadFailed), st)
      | Some data \<Rightarrow>
          bindP (deref (s_file st)) (\<lambda>_.
          bindP (decodeBinary e data (s_world st)) (\<lambda>((peers, hashes, er), w).
            Inr ((peers, hashes, map_option SnapshotFailed er), st\<lparr>s_world := w\<rparr>))))"

definition FileBackup_Load :: "'o platform \<Rightarrow> env \<Rightarrow> 'o store \<Rightarrow> 'o backup_result" where
  "FileBackup_Load P e st =
     (let path = DB_Backup_Path (conf e) in
      case os_Stat P path (s_out st) of
        NotExist \<Rightarrow> bindP (deref (s_file st)) (\<lambda>_. Inr (None, make_db st))
      | StatError \<Rightarrow> Inr (Some StatFailed, st)
      | StatOk \<Rightarrow> bindP (loadFile P e path st) (\<lambda>((peers, hashes, er), st'). Inr (er, st')))"

definition writeFile ::
  "'o platform \<Rightarrow> env \<Rightarrow> hash_order \<Rightarrow> 'o store \<Rightarrow> panic + ((nat \<times> backup_error option) \<times> 'o store)" where
  "writeFile P e ho st =
     bindP (deref (s_file st)) (\<lambda>_.
       let encoded = encode_store e ho st in
       case WriteFile (os_files P) (DB_Backup_Path (conf e)) encoded (s_out st) of
         (False, out) \<Rightarrow> Inr ((0, Some FileWriteFailed), st\<lparr>s_out := out\<rparr>)
       | (True, out) \<Rightarrow> Inr ((length encoded, None), st\<lparr>s_out := out\<rparr>))"

definition FileBackup_Save :: "'o platform \<Rightarrow> env \<Rightarrow> hash_order \<Rightarrow> 'o store \<Rightarrow> 'o backup_result" where
  "FileBackup_Save P e ho st =
     bindP (writeFile P e ho st) (\<lambda>((written, er), st'). Inr (er, st'))"

section \<open>The driver without a backup\<close>

definition NoneBackup_Init :: "mem_ref \<Rightarrow> 'o store \<Rightarrow> 'o backup_result" where
  "NoneBackup_Init db st =
     (if db = NilRef then Inr (Some NilDatabase, st) else Inr (None, make_db st))"

definition NoneBackup_Save :: "'o store \<Rightarrow> 'o backup_result" where
  "NoneBackup_Save st = Inr (None, st)"

definition NoneBackup_Load :: "'o store \<Rightarrow> 'o backup_result" where
  "NoneBackup_Load st = Inr (None, st)"

definition NoneBackup_trim :: "'o store \<Rightarrow> int64 \<times> backup_error option" where
  "NoneBackup_trim st = (0, None)"

section \<open>The Postgres driver\<close>

definition maxDate :: bytes where
  "maxDate = lit ''7 days''"

definition maxRows :: int where
  "maxRows = 10"

definition backupRecentWindow :: duration where
  "backupRecentWindow = 10 * 60 * 1000000000"

definition backupRecentWait :: duration where
  "backupRecentWait = 7 * 1000000000"

definition create_table :: bytes where
  "create_table = lit ''CREATE TABLE IF NOT EXISTS trakx (ts TIMESTAMP DEFAULT now(), bytes BYTEA)''"

definition insert_row :: bytes where
  "insert_row = lit ''INSERT INTO trakx(bytes) VALUES($1)''"

definition select_row :: bytes where
  "select_row = lit ''SELECT bytes, ts FROM trakx ORDER BY ts DESC LIMIT 1''"

definition no_rows :: bytes where
  "no_rows = lit ''no rows in result set''"

definition PgBackup_Init :: "'o platform \<Rightarrow> env \<Rightarrow> mem_ref \<Rightarrow> 'o store \<Rightarrow> 'o backup_result" where
  "PgBackup_Init P e db st =
     (let st1 = st\<lparr>s_pg := db\<rparr> in
      if db = NilRef then Inr (Some NilDatabase, st1)
      else
        (case sql_Open P (DB_Backup_Path (conf e)) (s_out st1) of
           (False, out) \<Rightarrow> Inr (Some OpenFailed, st1\<lparr>s_pgopen := False, s_out := out\<rparr>)
         | (True, out) \<Rightarrow>
             let st2 = st1\<lparr>s_pgopen := True, s_out := out\<rparr> in
             (case sql_Ping P (s_out st2) of
                (False, out) \<Rightarrow> Inr (Some PingFailed, st2\<lparr>s_out := out\<rparr>)
              | (True, out) \<Rightarrow>
                  (case sql_Exec P create_table out of
                     (ExecError, out) \<Rightarrow> Inr (Some CreateTableFailed, st2\<lparr>s_out := out\<rparr>)
                   | (Executed _, out) \<Rightarrow> Inr (None, st2\<lparr>s_out := out\<rparr>)))))"

text \<open>A nil \<open>*sql.DB\<close> panics when it is used.\<close>

definition pg_conn :: "'o store \<Rightarrow> panic + unit" where
  "pg_conn st = (if s_pgopen st then Inr () else Inl NilDereference)"

text \<open>
  The log line of \<open>Save\<close> and of \<open>Load\<close> shows the first 20 bytes of the snapshot. Go checks the bound of
  such a slice against the capacity. Here that is the same as the length: a snapshot that was
  encoded or decoded without an error is empty or has at least the 20 bytes of an infohash, and an empty
  one has no capacity, neither as the bytes of a new buffer nor as what \<open>Scan\<close> copied.
\<close>

definition first_20 :: "bytes \<Rightarrow> panic + bytes" where
  "first_20 data = (if length data < 20 then Inl SliceOutOfRange else Inr (take 20 data))"

definition PgBackup_Save :: "'o platform \<Rightarrow> env \<Rightarrow> hash_order \<Rightarrow> 'o store \<Rightarrow> 'o backup_result" where
  "PgBackup_Save P e ho st =
     bindP (deref (s_pg st)) (\<lambda>_.
       let data = encode_store e ho st in
       bindP (pg_conn st) (\<lambda>_.
         case sql_Query P insert_row data (s_out st) of
           (False, out) \<Rightarrow> Inr (Some InsertFailed, st\<lparr>s_out := out\<rparr>)
         | (True, out) \<Rightarrow> bindP (first_20 data) (\<lambda>_. Inr (None, st\<lparr>s_out := out\<rparr>))))"

text \<open>
  \<open>Load\<close> from its label on: one retry when the newest row is older than the window.
\<close>

function attemptLoad :: "'o platform \<Rightarrow> env \<Rightarrow> bool \<Rightarrow> 'o store \<Rightarrow> 'o backup_result" where
  "attemptLoad P e firstTry st =
     bindP (pg_conn st) (\<lambda>_.
     (case sql_QueryRow P select_row (s_out st) of
        (RowError msg, out) \<Rightarrow>
          (if bytes_index msg no_rows \<noteq> None
           then bindP (deref (s_pg st)) (\<lambda>_. Inr (None, make_db (st\<lparr>s_out := out\<rparr>)))
           else Inr (Some SelectFailed, st\<lparr>s_out := out\<rparr>))
      | (Row data ts, out) \<Rightarrow>
          (if time_Since (clock P out) ts > sint backupRecentWindow \<and> firstTry
           then attemptLoad P e False (st\<lparr>s_out := sleep P backupRecentWait out\<rparr>)
           else
             bindP (deref (s_pg st)) (\<lambda>_.
             bindP (decodeBinary e data (s_world st)) (\<lambda>((peers, hashes, er), w).
               let st' = st\<lparr>s_world := w, s_out := out\<rparr> in
               case er of
                 Some x \<Rightarrow> Inr (Some (SnapshotFailed x), st')
               | None \<Rightarrow> bindP (first_20 data) (\<lambda>_. Inr (None, st'))))))) "
  by pat_completeness auto
termination
  by (relation "measure (\<lambda>(P, e, firstTry, st). if firstTry then 1 else 0)") auto

declare attemptLoad.simps [simp del]

definition PgBackup_Load :: "'o platform \<Rightarrow> env \<Rightarrow> 'o store \<Rightarrow> 'o backup_result" where
  "PgBackup_Load P e st = attemptLoad P e True st"

text \<open>\<open>trim\<close> deletes by age, then by number; an error leaves the count at -1.\<close>

definition trim_exec :: "'o platform \<Rightarrow> bytes \<Rightarrow> 'o store \<Rightarrow> int64 option \<times> 'o store" where
  "trim_exec P q st =
     (case sql_Exec P q (s_out st) of
        (ExecError, out) \<Rightarrow> (None, st\<lparr>s_out := out\<rparr>)
      | (Executed n, out) \<Rightarrow> (n, st\<lparr>s_out := out\<rparr>))"

definition PgBackup_trim ::
  "'o platform \<Rightarrow> 'o store \<Rightarrow> panic + ((int64 \<times> bool) \<times> 'o store)" where
  "PgBackup_trim P st =
     bindP (pg_conn st) (\<lambda>_.
       case (if length maxDate \<noteq> 0
             then trim_exec P (lit ''DELETE FROM trakx WHERE ts < NOW() - INTERVAL '' @ [39] @ maxDate @ [39]) st
             else (Some 0, st)) of
         (None, st1) \<Rightarrow> Inr ((-1, True), st1)
       | (Some n, st1) \<Rightarrow>
           (if maxRows \<noteq> -1
            then
              (case trim_exec P (lit ''DELETE FROM trakx WHERE ctid IN (SELECT ctid FROM trakx ORDER BY ctid DESC OFFSET ''
                       @ FormatInt maxRows @ lit '')'') st1 of
                 (None, st2) \<Rightarrow> Inr ((-1, True), st2)
               | (Some removedRows, st2) \<Rightarrow> Inr ((n + removedRows, False), st2))
            else Inr ((n, False), st1)))"

section \<open>The interface of a driver\<close>

record 'o backup =
  bk_Init :: "env \<Rightarrow> mem_ref \<Rightarrow> 'o store \<Rightarrow> 'o backup_result"
  bk_Save :: "env \<Rightarrow> hash_order \<Rightarrow> 'o store \<Rightarrow> 'o backup_result"
  bk_Load :: "env \<Rightarrow> 'o store \<Rightarrow> 'o backup_result"

definition FileBackup :: "'o platform \<Rightarrow> 'o backup" where
  "FileBackup P =
     \<lparr>bk_Init = \<lambda>e. FileBackup_Init, bk_Save = FileBackup_Save P, bk_Load = FileBackup_Load P\<rparr>"

definition PgBackup :: "'o platform \<Rightarrow> 'o backup" where
  "PgBackup P =
     \<lparr>bk_Init = PgBackup_Init P, bk_Save = PgBackup_Save P, bk_Load = PgBackup_Load P\<rparr>"

definition NoneBackup :: "'o backup" where
  "NoneBackup =
     \<lparr>bk_Init = \<lambda>e. NoneBackup_Init, bk_Save = \<lambda>e ho. NoneBackup_Save, bk_Load = \<lambda>e. NoneBackup_Load\<rparr>"

text \<open>The three drivers of register.go, as the interface values that name them.\<close>

datatype backup_ref = FileRef | PgRef | NoneRef

fun backup_of :: "'o platform \<Rightarrow> backup_ref \<Rightarrow> 'o backup" where
  "backup_of P FileRef = FileBackup P"
| "backup_of P PgRef = PgBackup P"
| "backup_of P NoneRef = NoneBackup"

end
