(* ===== verification/BackupSpec.thy ===== *)
theory BackupSpec
  imports Backups
begin

text \<open>
  The contract of a backup driver, as locales: what \<open>Init\<close> followed by \<open>Load\<close> leaves behind,
  what \<open>Save\<close> must not touch, and, for the drivers that keep something, that a later \<open>Load\<close>
  decodes the snapshot that \<open>Save\<close> wrote. Start-up and the backup job are verified against
  them; the three drivers interpret them.
\<close>

section \<open>Loading without pools\<close>

text \<open>
  A database whose infohashes have no peers: all that a snapshot can put into a database
  before the peer pool exists, because reading any peer panics.
\<close>

definition blank :: "memory \<Rightarrow> bool" where
  "blank db \<longleftrightarrow>
     (\<exists>m. hashmap db = Some m \<and> (\<forall>h pm. fmlookup m h = Some pm \<longrightarrow> length h = 20 \<and> pm = empty_peermap))"

lemma blank_make [simp]: "blank (memory_make db)"
  by (simp add: blank_def memory_make_def)

lemma blank_row: "blank db \<Longrightarrow> fmlookup (entries db) h = Some pm \<Longrightarrow> length h = 20 \<and> pm = empty_peermap"
  by (auto simp: blank_def)

lemma blank_hashmap: "blank db \<Longrightarrow> hashmap db \<noteq> None"
  by (auto simp: blank_def)

lemma blank_rows: "blank db \<Longrightarrow> rows_wf db"
  using blank_row [of db] blank_hashmap [of db] unfolding rows_wf_def
  by (metis empty_peermap_def peermap.select_convs(3) peers_wf_empty)

lemma blank_mem_ok: "blank db \<Longrightarrow> mem_ok db"
  using blank_row [of db] blank_hashmap [of db] by (fastforce simp: mem_ok_def)

lemma blank_swarm: "blank db \<Longrightarrow> mem_swarm db = (\<lambda>h. Map.empty)"
  using blank_row [of db] by (intro ext) (fastforce simp: mem_swarm_def empty_peermap_def split: option.splits)

lemma blank_set:
  assumes "blank db" and "length h = 20"
  obtains db' where "set_peermap h empty_peermap db = Inr db'" "blank db'"
proof -
  from assms obtain m where m: "hashmap db = Some m"
    "\<forall>h pm. fmlookup m h = Some pm \<longrightarrow> length h = 20 \<and> pm = empty_peermap" by (auto simp: blank_def)
  have "blank (db\<lparr>hashmap := Some (fmupd h empty_peermap m)\<rparr>)"
    unfolding blank_def using m(2) assms(2) by (intro exI [of _ "fmupd h empty_peermap m"]) simp
  with m(1) show ?thesis by (intro that) (simp_all add: set_peermap_def)
qed

text \<open>A peer map without peers, as the decoder completes it.\<close>

lemma empty_decoded [simp]:
  "\<lparr>CompleteN = 0, IncompleteN = word_of_nat (fmsize fmempty) - 0, Peers = fmempty\<rparr> = empty_peermap"
  "empty_peermap\<lparr>Peers := fmempty\<rparr> = empty_peermap" "Peers empty_peermap = fmempty"
  by (simp_all add: empty_peermap_def)

lemma decode_peers_unpooled:
  assumes "decode_peers e n bs (m, c, k, None) = Inr (er, bs', m', c', k', ps')"
  shows "m' = m" "c' = c" "ps' = None"
  using assms by (cases n; auto simp: get_peer_def split: sum.splits)+

lemma decode_hashes_unpooled:
  assumes "decode_hashes e bs k n w = Inr (x, w')" and "w_pools w = None" and "blank (w_db w)"
  shows "w_pools w' = None \<and> blank (w_db w') \<and> w_stats w' = w_stats w"
  using assms
proof (induction "length bs" arbitrary: bs k n w rule: less_induct)
  case less
  show ?case
  proof (cases "read_full 20 bs")
    case (Inl er)
    with less.prems show ?thesis by (cases er) (auto simp: decode_hashes.simps)
  next
    case (Inr y)
    then obtain h bs1 where h: "read_full 20 bs = Inr (h, bs1)" by (cases y) simp
    then have len: "length h = 20" "length bs1 < length bs" by (auto simp: read_full_Inr)
    obtain db where db: "set_peermap h empty_peermap (w_db w) = Inr db" "blank db"
      using blank_set [OF less.prems(3) len(1)] .
    then have mk: "makePeermap h (w_db w) = Inr (empty_peermap, db)" by (simp add: makePeermap_def)
    obtain db' where db': "set_peermap h empty_peermap db = Inr db'" "blank db'"
      using blank_set [OF db(2) len(1)] .
    show ?thesis
    proof (cases "read_full 4 bs1")
      case (Inl er)
      with less.prems h mk db(2) show ?thesis by (auto simp: decode_hashes.simps)
    next
      case (Inr z)
      then obtain cnt bs2 where c: "read_full 4 bs1 = Inr (cnt, bs2)" by (cases z) simp
      let ?d = "decode_peers e (unat (get_le cnt :: uint32)) bs2 (fmempty, 0, k, None)"
      show ?thesis
      proof (cases ?d)
        case (Inl p)
        with less.prems h mk c show ?thesis by (simp add: decode_hashes.simps)
      next
        case (Inr r)
        then obtain er bs3 m' c' k' ps' where d: "?d = Inr (er, bs3, m', c', k', ps')" by (cases r) auto
        note u = decode_peers_unpooled [OF d]
        have short: "length bs3 < length bs"
          using decode_peers_shorter [OF d] c len(2) by (auto simp: read_full_Inr)
        show ?thesis
        proof (cases er)
          case None
          have "decode_hashes e bs3 k' (Suc n) (w\<lparr>w_db := db', w_pools := None\<rparr>) = Inr (x, w')"
            using less.prems h mk c d u None db'(1)
            by (simp add: decode_hashes.simps [of e bs] del: empty_decoded(1)) (simp add: empty_peermap_def)
          from less.hyps [OF short this] db'(2) show ?thesis by simp
        next
          case (Some er')
          with less.prems h mk c d u db' show ?thesis by (auto simp: decode_hashes.simps [of e bs])
        qed
      qed
    qed
  qed
qed

lemma decodeBinary_unpooled:
  assumes "decodeBinary e data w = Inr (x, w')" and "w_pools w = None"
  shows "w_pools w' = None" "blank (w_db w')" "w_stats w' = w_stats w"
  using decode_hashes_unpooled [OF assms(1) [unfolded decodeBinary_def]] assms(2) by simp_all

section \<open>The size of a snapshot\<close>

definition order_ok :: "hash_order \<Rightarrow> bool" where
  "order_ok ho \<longleftrightarrow> (\<forall>m. enumerates (ho m) m)"

lemma order_ok_sorted [simp]: "order_ok sorted_order"
  by (simp add: order_ok_def)

lemma order_okD: "order_ok ho \<Longrightarrow> enumerates (ho m) m"
  by (simp add: order_ok_def)

lemma encode_store_empty:
  assumes "order_ok ho" and "entries (w_db (s_world st)) = fmempty"
  shows "encode_store e ho st = []"
proof -
  have "ho fmempty = []" using enumerates_length [OF order_okD [OF assms(1)], of fmempty] by simp
  with assms(2) show ?thesis by (simp add: encode_store_def encodeBinary_def)
qed

lemma encode_store_long:
  assumes "order_ok ho" and "mem_ok (w_db (s_world st))" and "entries (w_db (s_world st)) \<noteq> fmempty"
  shows "20 \<le> length (encode_store e ho st)"
proof -
  let ?m = "entries (w_db (s_world st))"
  note o = order_okD [OF assms(1), of ?m]
  obtain h hs where hs: "ho ?m = h # hs"
    using enumerates_length [OF o] assms(3) by (cases "ho ?m") (simp_all flip: fmsize_0_iff)
  then obtain pm where pm: "fmlookup ?m h = Some pm" using enumerates_lookup [OF o, of h] by auto
  with assms(2) have "length h = 20" by (auto simp: mem_ok_def)
  with hs pm show ?thesis by (simp add: encode_store_def encodeBinary_def)
qed

section \<open>The contract of a driver\<close>

text \<open>
  Every driver: \<open>Init\<close> on the process's database returns, \<open>Init\<close> and \<open>Load\<close> at start-up, when
  the pools do not exist yet, leave a made database without peers unless they fail or panic,
  and \<open>Save\<close> touches nothing but the outside. \<open>ready\<close> is about the driver's own fields.
\<close>

locale backup_driver =
  fixes B :: "'o backup"
    and ready :: "'o store \<Rightarrow> bool"
  assumes ready_world: "ready st \<Longrightarrow> ready (st\<lparr>s_world := w\<rparr>)"
    and ready_out: "ready st \<Longrightarrow> ready (st\<lparr>s_out := out\<rparr>)"
    and Init_law:
    "\<exists>er st'. bk_Init B e MemRef st = Inr (er, st') \<and> w_pools (s_world st') = w_pools (s_world st) \<and>
       w_stats (s_world st') = w_stats (s_world st) \<and> (er = None \<longrightarrow> ready st')"
    and start_law:
    "w_pools (s_world st) = None \<Longrightarrow> bk_Init B e MemRef st = Inr (None, st1) \<Longrightarrow>
     bk_Load B e st1 = Inr (None, st2) \<Longrightarrow>
     ready st2 \<and> w_pools (s_world st2) = None \<and> blank (w_db (s_world st2)) \<and>
     w_stats (s_world st2) = w_stats (s_world st)"
    and Save_law:
    "ready st \<Longrightarrow> bk_Save B e ho st = Inr (er, st') \<Longrightarrow> ready st' \<and> s_world st' = s_world st"
    and Save_returns:
    "ready st \<Longrightarrow> order_ok ho \<Longrightarrow> mem_ok (w_db (s_world st)) \<Longrightarrow>
     entries (w_db (s_world st)) \<noteq> fmempty \<Longrightarrow> \<exists>er st'. bk_Save B e ho st = Inr (er, st')"
begin

lemma Save_nonempty:
  assumes "ready st" "order_ok ho" "mem_ok (w_db (s_world st))" "entries (w_db (s_world st)) \<noteq> fmempty"
  obtains er st' where "bk_Save B e ho st = Inr (er, st')" "ready st'" "s_world st' = s_world st"
  using Save_returns [OF assms] Save_law [OF assms(1)] by metis

end

text \<open>A driver that can save any database.\<close>

locale safe_backup = backup_driver +
  assumes Save_always: "ready st \<Longrightarrow> \<exists>er st'. bk_Save B e ho st = Inr (er, st')"
begin

lemma Save_total:
  assumes "ready st"
  obtains er st' where "bk_Save B e ho st = Inr (er, st')" "ready st'" "s_world st' = s_world st"
  using Save_always [OF assms] Save_law [OF assms] by metis

end

text \<open>
  A driver that keeps what it saves: after \<open>Save\<close> succeeded, a process that starts with the
  same outside decodes exactly the snapshot that was written. \<open>trusted\<close> is the hypothesis about
  the outside under which the driver promises it.
\<close>

locale durable_backup = backup_driver +
  fixes trusted :: bool
  assumes durable:
    "trusted \<Longrightarrow> ready st \<Longrightarrow> bk_Save B e ho st = Inr (None, st1) \<Longrightarrow>
     20 \<le> length (encode_store e ho st) \<Longrightarrow> s_out st2 = s_out st1 \<Longrightarrow>
     DB_Backup_Path (conf e') = DB_Backup_Path (conf e) \<Longrightarrow>
     bk_Init B e' MemRef st2 = Inr (None, st3) \<Longrightarrow>
     \<exists>out. bk_Load B e' st3 =
       bindP (decodeBinary e' (encode_store e ho st) (s_world st3)) (\<lambda>((k, n, er), w).
         Inr (map_option SnapshotFailed er, st3\<lparr>s_world := w, s_out := out\<rparr>))"
begin

text \<open>With pools, the saved database comes back; without them, loading it panics.\<close>

lemma Load_restores:
  assumes "trusted" "ready st" "bk_Save B e ho st = Inr (None, st1)" "s_out st2 = s_out st1"
    and "DB_Backup_Path (conf e') = DB_Backup_Path (conf e)"
    and "bk_Init B e' MemRef st2 = Inr (None, st3)"
    and ok: "order_ok ho" "env_ok e" "mem_ok (w_db (s_world st))" "snapshot_ok (entries (w_db (s_world st)))"
      "entries (w_db (s_world st)) \<noteq> fmempty"
    and ps: "w_pools (s_world st2) = Some ps" "pools_ok lim ps"
  shows "\<exists>st4. bk_Load B e' st3 = Inr (None, st4) \<and> w_db (s_world st4) = w_db (s_world st)"
proof -
  let ?db = "w_db (s_world st)"
  note o = order_okD [OF ok(1), of "entries ?db"]
  have w3: "w_pools (s_world st3) = Some ps"
    using Init_law [of e' st2] assms(6) ps(1) by simp
  from durable [OF assms(1-3) encode_store_long [OF ok(1,3,5)] assms(4-6)]
  obtain out where l: "bk_Load B e' st3 =
       bindP (decodeBinary e' (encode_store e ho st) (s_world st3)) (\<lambda>((k, n, er), w).
         Inr (map_option SnapshotFailed er, st3\<lparr>s_world := w, s_out := out\<rparr>))" by blast
  obtain ps' where "decodeBinary e' (encodeBinary e (ho (entries ?db)) ?db) (s_world st3) =
      Inr ((swarm_total (\<lambda>_. True) (mem_swarm ?db), fmsize (entries ?db), None),
        (s_world st3)\<lparr>w_db := \<lparr>hashmap = Some (entries ?db)\<rparr>, w_pools := Some ps'\<rparr>)"
    by (rule decode_encode [OF ok(4,2) o w3 ps(2)])
  moreover have "\<lparr>hashmap = Some (entries ?db)\<rparr> = ?db"
    using ok(3) by (cases ?db) (auto simp: mem_ok_def entries_def)
  ultimately show ?thesis by (simp add: l encode_store_def)
qed

lemma Load_unpooled_panics:
  assumes "trusted" "ready st" "bk_Save B e ho st = Inr (None, st1)" "s_out st2 = s_out st1"
    and "DB_Backup_Path (conf e') = DB_Backup_Path (conf e)"
    and "bk_Init B e' MemRef st2 = Inr (None, st3)"
    and ok: "order_ok ho" "env_ok e" "mem_ok (w_db (s_world st))" "snapshot_ok (entries (w_db (s_world st)))"
    and peer: "mem_swarm (w_db (s_world st)) h i \<noteq> None" and "w_pools (s_world st2) = None"
  shows "bk_Load B e' st3 = Inl NilDereference"
proof -
  let ?db = "w_db (s_world st)"
  from peer obtain pm where pm: "fmlookup (entries ?db) h = Some pm" "fmlookup (Peers pm) i \<noteq> None"
    by (auto simp: mem_swarm_def split: option.splits)
  then have pm_ne: "Peers pm \<noteq> fmempty" by auto
  from pm have ne: "entries ?db \<noteq> fmempty" by auto
  note o = order_okD [OF ok(1), of "entries ?db"]
  have w3: "w_pools (s_world st3) = None" using Init_law [of e' st2] assms(6,12) by simp
  have "decodeBinary e' (encode_store e ho st) (s_world st3) = Inl NilDereference"
    unfolding decodeBinary_def encode_store_def encodeBinary_def
    using ok o w3 pm(1) pm_ne enumerates_lookup [OF o, of h]
    by (intro decode_hashes_nil_pools) (auto simp: enumerates_def memory_make_def)
  with durable [OF assms(1-3) encode_store_long [OF ok(1,3) ne] assms(4-6)]
  show ?thesis by auto
qed

end

section \<open>The drivers\<close>

text \<open>What a file system is trusted with: a file that was written exists and reads back.\<close>

definition files_durable :: "'o platform \<Rightarrow> bool" where
  "files_durable P \<longleftrightarrow>
     (\<forall>path data out out'. WriteFile (os_files P) path data out = (True, out') \<longrightarrow>
        os_Stat P path out' = StatOk \<and> ReadFile (os_files P) path out' = Some data)"

text \<open>
  What a SQL database is trusted with, \<open>newest data out\<close> saying that the newest row of the
  table holds \<open>data\<close>: a successful insert makes its row the newest one, and nothing that start-up
  does (opening, pinging, creating an existing table, selecting, sleeping) changes that.
\<close>

definition newest_row :: "'o platform \<Rightarrow> (bytes \<Rightarrow> 'o \<Rightarrow> bool) \<Rightarrow> bool" where
  "newest_row P newest \<longleftrightarrow>
     (\<forall>data out out'. sql_Query P insert_row data out = (True, out') \<longrightarrow> newest data out') \<and>
     (\<forall>data out. newest data out \<longrightarrow>
        (\<exists>ts out'. sql_QueryRow P select_row out = (Row data ts, out') \<and> newest data out') \<and>
        (\<forall>path. newest data (snd (sql_Open P path out))) \<and> newest data (snd (sql_Ping P out)) \<and>
        newest data (snd (sql_Exec P create_table out)) \<and> newest data (sleep P backupRecentWait out))"

definition table_durable :: "'o platform \<Rightarrow> bool" where
  "table_durable P \<longleftrightarrow> (\<exists>newest. newest_row P newest)"

definition file_ready :: "'o store \<Rightarrow> bool" where
  "file_ready st \<longleftrightarrow> s_file st = MemRef"

definition pg_ready :: "'o store \<Rightarrow> bool" where
  "pg_ready st \<longleftrightarrow> s_pg st = MemRef \<and> s_pgopen st"

lemmas file_defs = FileBackup_def FileBackup_Init_def FileBackup_Save_def FileBackup_Load_def
  loadFile_def writeFile_def file_ready_def

lemmas none_defs = NoneBackup_def NoneBackup_Init_def NoneBackup_Save_def NoneBackup_Load_def

lemmas pg_defs = PgBackup_def PgBackup_Init_def PgBackup_Save_def PgBackup_Load_def pg_ready_def pg_conn_def

lemma make_db_sel [simp]:
  "w_pools (s_world (make_db st)) = w_pools (s_world st)" "w_stats (s_world (make_db st)) = w_stats (s_world st)"
  "blank (w_db (s_world (make_db st)))" "s_file (make_db st) = s_file st" "s_pg (make_db st) = s_pg st"
  "s_pgopen (make_db st) = s_pgopen st" "s_out (make_db st) = s_out st"
  by (simp_all add: make_db_def)

text \<open>What \<open>Load\<close> of the file driver leaves behind when the pools do not exist yet.\<close>

lemma file_Load_unpooled:
  assumes "FileBackup_Load P e st = Inr (None, st')" and "w_pools (s_world st) = None"
  shows "s_file st' = s_file st \<and> w_pools (s_world st') = None \<and> blank (w_db (s_world st')) \<and>
    w_stats (s_world st') = w_stats (s_world st)"
proof (cases "os_Stat P (DB_Backup_Path (conf e)) (s_out st)")
  case StatOk
  with assms(1) obtain data x w where "decodeBinary e data (s_world st) = Inr (x, w)" "st' = st\<lparr>s_world := w\<rparr>"
    by (auto simp: file_defs bindP_Inr_iff split: option.splits)
  with decodeBinary_unpooled [of e data "s_world st" x w] assms(2) show ?thesis by simp
qed (use assms in \<open>auto simp: file_defs bindP_Inr_iff\<close>)

text \<open>The two continuations of a query that returned a row.\<close>

lemma attempt_retry:
  assumes "pg_conn st = Inr ()" and "sql_QueryRow P select_row (s_out st) = (Row data ts, out)"
    and "time_Since (clock P out) ts > sint backupRecentWindow \<and> firstTry"
  shows "attemptLoad P e firstTry st = attemptLoad P e False (st\<lparr>s_out := sleep P backupRecentWait out\<rparr>)"
  by (subst attemptLoad.simps) (use assms in simp)

lemma attempt_decode:
  assumes "pg_conn st = Inr ()" and "sql_QueryRow P select_row (s_out st) = (Row data ts, out)"
    and "\<not> (time_Since (clock P out) ts > sint backupRecentWindow \<and> firstTry)"
  shows "attemptLoad P e firstTry st =
    bindP (deref (s_pg st)) (\<lambda>_.
    bindP (decodeBinary e data (s_world st)) (\<lambda>((peers, hashes, er), w).
      case er of
        Some x \<Rightarrow> Inr (Some (SnapshotFailed x), st\<lparr>s_world := w, s_out := out\<rparr>)
      | None \<Rightarrow> bindP (first_20 data) (\<lambda>_. Inr (None, st\<lparr>s_world := w, s_out := out\<rparr>))))"
  by (subst attemptLoad.simps)
    (simp only: assms(1,2) bindP.simps row_result.case prod.case if_not_P [OF assms(3)] Let_def)

lemma pg_Load_unpooled:
  assumes "attemptLoad P e firstTry st = Inr (None, st')" and "w_pools (s_world st) = None"
  shows "s_pg st' = s_pg st \<and> s_pgopen st' = s_pgopen st \<and> w_pools (s_world st') = None \<and>
    blank (w_db (s_world st')) \<and> w_stats (s_world st') = w_stats (s_world st)"
  using assms
proof (induction P e firstTry st rule: attemptLoad.induct)
  case (1 P e firstTry st)
  obtain r out where q: "sql_QueryRow P select_row (s_out st) = (r, out)" by (cases "sql_QueryRow P select_row (s_out st)")
  have open_pg: "pg_conn st = Inr ()"
    using "1.prems"(1) by (cases "pg_conn st") (simp_all add: attemptLoad.simps [of P e firstTry st])
  show ?case
  proof (cases r)
    case (RowError msg)
    with "1.prems" q open_pg show ?thesis
      by (auto simp: attemptLoad.simps [of P e firstTry st] bindP_Inr_iff split: if_splits)
  next
    case (Row data ts)
    show ?thesis
    proof (cases "time_Since (clock P out) ts > sint backupRecentWindow \<and> firstTry")
      case True
      from "1.prems"(1) attempt_retry [OF open_pg q [unfolded Row] True]
      have "attemptLoad P e False (st\<lparr>s_out := sleep P backupRecentWait out\<rparr>) = Inr (None, st')" by simp
      from "1.IH" [OF open_pg q [symmetric] Row True this] "1.prems"(2) show ?thesis by simp
    next
      case False
      from "1.prems"(1) attempt_decode [OF open_pg q [unfolded Row] False] obtain x w where
        "decodeBinary e data (s_world st) = Inr (x, w)" "st' = st\<lparr>s_world := w, s_out := out\<rparr>"
        by (auto simp: bindP_Inr_iff split: option.splits)
      with decodeBinary_unpooled [of e data "s_world st" x w] "1.prems"(2) show ?thesis by simp
    qed
  qed
qed

interpretation no_backup: safe_backup NoneBackup "\<lambda>st. True"
  by unfold_locales (auto simp: none_defs)

interpretation file_backup: safe_backup "FileBackup P" file_ready for P
proof unfold_locales
  fix st st1 st2 :: "'a store" and e
  assume p: "w_pools (s_world st) = None" "bk_Init (FileBackup P) e MemRef st = Inr (None, st1)"
    "bk_Load (FileBackup P) e st1 = Inr (None, st2)"
  have "st1 = st\<lparr>s_file := MemRef\<rparr>" using p(2) by (simp add: file_defs)
  with p file_Load_unpooled [of P e st1 st2]
  show "file_ready st2 \<and> w_pools (s_world st2) = None \<and> blank (w_db (s_world st2)) \<and>
      w_stats (s_world st2) = w_stats (s_world st)"
    by (simp add: FileBackup_def file_ready_def)
qed (auto simp: file_defs Let_def bindP_Inr_iff split: prod.splits bool.splits)

lemma first_20_ok [simp]: "20 \<le> length data \<Longrightarrow> first_20 data = Inr (take 20 data)"
  by (simp add: first_20_def)

lemma pg_Init_result:
  "\<exists>er st'. PgBackup_Init P e MemRef st = Inr (er, st') \<and> s_world st' = s_world st \<and> s_pg st' = MemRef \<and>
     (er = None \<longrightarrow> s_pgopen st')"
  by (auto simp: PgBackup_Init_def Let_def split: prod.splits bool.splits exec_result.splits)

interpretation pg_backup: backup_driver "PgBackup P" pg_ready for P
proof unfold_locales
  fix st st1 st2 :: "'a store" and e
  assume p: "w_pools (s_world st) = None" "bk_Init (PgBackup P) e MemRef st = Inr (None, st1)"
    "bk_Load (PgBackup P) e st1 = Inr (None, st2)"
  have "s_world st1 = s_world st" "s_pg st1 = MemRef" "s_pgopen st1"
    using pg_Init_result [of P e st] p(2) by (auto simp: PgBackup_def)
  with p pg_Load_unpooled [of P e True st1 st2]
  show "pg_ready st2 \<and> w_pools (s_world st2) = None \<and> blank (w_db (s_world st2)) \<and>
      w_stats (s_world st2) = w_stats (s_world st)"
    by (simp add: PgBackup_def PgBackup_Load_def pg_ready_def)
next
  fix st :: "'a store" and e
  show "\<exists>er st'. bk_Init (PgBackup P) e MemRef st = Inr (er, st') \<and> w_pools (s_world st') = w_pools (s_world st) \<and>
      w_stats (s_world st') = w_stats (s_world st) \<and> (er = None \<longrightarrow> pg_ready st')"
    using pg_Init_result [of P e st] by (auto simp: PgBackup_def pg_ready_def)
next
  fix st :: "'a store" and e ho
  assume "pg_ready st" "order_ok ho" "mem_ok (w_db (s_world st))" "entries (w_db (s_world st)) \<noteq> fmempty"
  then show "\<exists>er st'. bk_Save (PgBackup P) e ho st = Inr (er, st')"
    using encode_store_long [of ho st e] by (simp add: pg_defs Let_def split: prod.splits bool.splits)
qed (auto simp: pg_defs Let_def bindP_Inr_iff split: prod.splits bool.splits)

text \<open>Loading the newest row of the table, with or without the wait.\<close>

lemma attempt_newest:
  assumes "pg_conn st = Inr ()" and "s_pg st = MemRef" and "20 \<le> length data"
    and q: "sql_QueryRow P select_row (s_out st) = (Row data ts, out)"
    and q': "sql_QueryRow P select_row (sleep P backupRecentWait out) = (Row data ts', out')"
  shows "\<exists>o'. attemptLoad P e firstTry st =
    bindP (decodeBinary e data (s_world st)) (\<lambda>((k, n, er), w).
      Inr (map_option SnapshotFailed er, st\<lparr>s_world := w, s_out := o'\<rparr>))"
proof -
  have dec: "(case er of None \<Rightarrow> bindP (first_20 data) (\<lambda>_. Inr (None, s)) | Some x \<Rightarrow> Inr (Some (SnapshotFailed x), s))
      = Inr (map_option SnapshotFailed er, s)" for er and s :: "'a store"
    using assms(3) by (simp split: option.splits)
  show ?thesis
  proof (cases "time_Since (clock P out) ts > sint backupRecentWindow \<and> firstTry")
    case True
    have "pg_conn (st\<lparr>s_out := sleep P backupRecentWait out\<rparr>) = Inr ()" using assms(1) by (simp add: pg_conn_def)
    from attempt_decode [OF this, of P data ts' out' False e] q' assms(2)
    show ?thesis unfolding attempt_retry [OF assms(1) q True] by (auto simp: dec)
  next
    case False
    with attempt_decode [OF assms(1) q False, of e] assms(2) show ?thesis by (auto simp: dec)
  qed
qed

lemma attempt_empty_panics:
  assumes q: "sql_QueryRow P select_row (s_out st) = (Row [] ts, out)"
    and q': "sql_QueryRow P select_row (sleep P backupRecentWait out) = (Row [] ts', out')"
    and st: "pg_conn st = Inr ()" "s_pg st = MemRef"
  shows "PgBackup_Load P e st = Inl SliceOutOfRange"
proof -
  have dec: "decodeBinary e [] (s_world s) = Inr ((0, 0, None), (s_world s)\<lparr>w_db := memory_make (w_db (s_world s))\<rparr>)"
    for s :: "'a store" by (simp add: decodeBinary_def decode_hashes_Nil)
  show ?thesis
  proof (cases "time_Since (clock P out) ts > sint backupRecentWindow")
    case True
    have "pg_conn (st\<lparr>s_out := sleep P backupRecentWait out\<rparr>) = Inr ()" using st(1) by (simp add: pg_conn_def)
    from attempt_decode [OF this, of P "[]" ts' out' False e] q' attempt_retry [OF st(1) q, of True] True st(2)
    show ?thesis by (simp add: PgBackup_Load_def dec [of st] first_20_def)
  next
    case False
    with attempt_decode [OF st(1) q, of True e] st(2)
    show ?thesis by (simp add: PgBackup_Load_def dec [of st] first_20_def)
  qed
qed

interpretation durable_file: durable_backup "FileBackup P" file_ready "files_durable P" for P
proof unfold_locales
  fix st st1 st2 st3 :: "'a store" and e ho e'
  assume t: "files_durable P" and p: "file_ready st" "bk_Save (FileBackup P) e ho st = Inr (None, st1)"
    "s_out st2 = s_out st1" "DB_Backup_Path (conf e') = DB_Backup_Path (conf e)"
    "bk_Init (FileBackup P) e' MemRef st2 = Inr (None, st3)"
  let ?data = "encode_store e ho st" and ?path = "DB_Backup_Path (conf e')"
  have st3: "st3 = st2\<lparr>s_file := MemRef\<rparr>" using p(5) by (simp add: file_defs)
  have "WriteFile (os_files P) ?path ?data (s_out st) = (True, s_out st2)"
    using p(1-4) by (auto simp: file_defs Let_def bindP_Inr_iff split: prod.splits bool.splits)
  with t have "os_Stat P ?path (s_out st2) = StatOk" "ReadFile (os_files P) ?path (s_out st2) = Some ?data"
    unfolding files_durable_def by blast+
  then have "bk_Load (FileBackup P) e' st3 =
      bindP (decodeBinary e' ?data (s_world st3)) (\<lambda>((k, n, er), w).
        Inr (map_option SnapshotFailed er, st3\<lparr>s_world := w, s_out := s_out st2\<rparr>))"
    by (cases "decodeBinary e' ?data (s_world st3)") (auto simp: st3 file_defs)
  then show "\<exists>out. bk_Load (FileBackup P) e' st3 =
      bindP (decodeBinary e' ?data (s_world st3)) (\<lambda>((k, n, er), w).
        Inr (map_option SnapshotFailed er, st3\<lparr>s_world := w, s_out := out\<rparr>))" ..
qed

lemma pg_Init_out:
  assumes "PgBackup_Init P e MemRef st = Inr (None, st')"
  shows "s_out st' = snd (sql_Exec P create_table (snd (sql_Ping P
    (snd (sql_Open P (DB_Backup_Path (conf e)) (s_out st))))))"
  using assms by (auto simp: PgBackup_Init_def Let_def split: prod.splits bool.splits exec_result.splits)

text \<open>A start whose table got its newest row before: both queries of \<open>Load\<close> return it.\<close>

lemma started_newest:
  assumes "table_durable P" and "sql_Query P insert_row data out0 = (True, s_out st2)"
    and "PgBackup_Init P e MemRef st2 = Inr (None, st3)"
  obtains ts out ts' out' where "sql_QueryRow P select_row (s_out st3) = (Row data ts, out)"
    "sql_QueryRow P select_row (sleep P backupRecentWait out) = (Row data ts', out')"
    "pg_conn st3 = Inr ()" "s_pg st3 = MemRef"
proof -
  from assms(1) obtain newest where nr: "newest_row P newest" unfolding table_durable_def ..
  then have q: "newest d out \<Longrightarrow> \<exists>ts out'. sql_QueryRow P select_row out = (Row d ts, out') \<and> newest d out'"
    and keep: "newest d out \<Longrightarrow> newest d (snd (sql_Open P path out))"
      "newest d out \<Longrightarrow> newest d (snd (sql_Ping P out))"
      "newest d out \<Longrightarrow> newest d (snd (sql_Exec P create_table out))"
      "newest d out \<Longrightarrow> newest d (sleep P backupRecentWait out)" for d out path
    by (simp_all add: newest_row_def)
  have "newest data (s_out st2)" using nr assms(2) by (simp add: newest_row_def)
  then have "newest data (s_out st3)" by (simp add: pg_Init_out [OF assms(3)] keep)
  from q [OF this] obtain ts out where r: "sql_QueryRow P select_row (s_out st3) = (Row data ts, out)" "newest data out"
    by blast
  from q [OF keep(4) [OF r(2)]] obtain ts' out' where
    "sql_QueryRow P select_row (sleep P backupRecentWait out) = (Row data ts', out')" by blast
  with r(1) pg_Init_result [of P e st2] assms(3) show ?thesis by (intro that) (auto simp: pg_conn_def)
qed

interpretation durable_pg: durable_backup "PgBackup P" pg_ready "table_durable P" for P
proof unfold_locales
  fix st st1 st2 st3 :: "'a store" and e ho e'
  assume t: "table_durable P" and p: "pg_ready st" "bk_Save (PgBackup P) e ho st = Inr (None, st1)"
    "20 \<le> length (encode_store e ho st)" "s_out st2 = s_out st1"
    "bk_Init (PgBackup P) e' MemRef st2 = Inr (None, st3)"
  let ?data = "encode_store e ho st"
  have "sql_Query P insert_row ?data (s_out st) = (True, s_out st2)"
    using p(1,2) unfolding p(4) by (auto simp: pg_defs Let_def bindP_Inr_iff split: prod.splits bool.splits)
  moreover have "PgBackup_Init P e' MemRef st2 = Inr (None, st3)" using p(5) by (simp add: PgBackup_def)
  ultimately obtain ts out ts' out' where r: "sql_QueryRow P select_row (s_out st3) = (Row ?data ts, out)"
    "sql_QueryRow P select_row (sleep P backupRecentWait out) = (Row ?data ts', out')"
    "pg_conn st3 = Inr ()" "s_pg st3 = MemRef" using started_newest [OF t] by metis
  from attempt_newest [OF r(3,4) p(3) r(1,2)]
  show "\<exists>out. bk_Load (PgBackup P) e' st3 =
       bindP (decodeBinary e' ?data (s_world st3)) (\<lambda>((k, n, er), w).
         Inr (map_option SnapshotFailed er, st3\<lparr>s_world := w, s_out := out\<rparr>))"
    by (simp add: PgBackup_def PgBackup_Load_def)
qed

section \<open>Any driver\<close>

primrec driver_ready :: "backup_ref \<Rightarrow> 'o store \<Rightarrow> bool" where
  "driver_ready FileRef = file_ready"
| "driver_ready PgRef = pg_ready"
| "driver_ready NoneRef = (\<lambda>st. True)"

fun outside_trusted :: "backup_ref \<Rightarrow> 'o platform \<Rightarrow> bool" where
  "outside_trusted FileRef P = files_durable P"
| "outside_trusted PgRef P = table_durable P"
| "outside_trusted NoneRef P = False"

interpretation driver: backup_driver "backup_of P r" "driver_ready r" for P r
  by (cases r) (simp_all add: file_backup.backup_driver_axioms pg_backup.backup_driver_axioms
      no_backup.backup_driver_axioms)

interpretation keeper: durable_backup "backup_of P r" "driver_ready r" "outside_trusted r P" for P r
proof (cases r)
  case NoneRef
  then show "durable_backup (backup_of P r) (driver_ready r) (outside_trusted r P)"
    using driver.backup_driver_axioms [of P NoneRef]
    by (simp add: durable_backup_def durable_backup_axioms_def)
qed (use durable_file.durable_backup_axioms durable_pg.durable_backup_axioms in simp_all)

section \<open>The number of queries\<close>

definition pg_loaded :: "'o store \<Rightarrow> 'o set \<Rightarrow> 'o backup_result \<Rightarrow> bool" where
  "pg_loaded st outs r \<longleftrightarrow>
     r = Inl NegativeLength \<or> r = Inl SliceOutOfRange \<or>
     (\<exists>er st'. r = Inr (er, st') \<and> s_out st' \<in> outs \<and> w_stats (s_world st') = w_stats (s_world st) \<and>
        (er = None \<longrightarrow> rows_wf (w_db (s_world st'))))"

text \<open>An attempt that does not go back to its label ends after one query.\<close>

lemma attempt_once:
  assumes "pg_ready st" and "w_pools (s_world st) = Some ps" "pools_ok lim ps"
    and q: "sql_QueryRow P select_row (s_out st) = (r, out)"
    and "\<And>data ts. r = Row data ts \<Longrightarrow> \<not> (time_Since (clock P out) ts > sint backupRecentWindow \<and> firstTry)"
  shows "pg_loaded st {out} (attemptLoad P e firstTry st)"
proof -
  have c: "pg_conn st = Inr ()" "s_pg st = MemRef" using assms(1) by (simp_all add: pg_ready_def pg_conn_def)
  have rows: "rows_wf (w_db (s_world (make_db st)))" by (rule blank_rows) simp
  show ?thesis
  proof (cases r)
    case (RowError msg)
    with c q show ?thesis
      by (subst attemptLoad.simps) (auto simp: pg_loaded_def intro: blank_rows)
  next
    case (Row data ts)
    have "attemptLoad P e firstTry st =
        bindP (decodeBinary e data (s_world st)) (\<lambda>((peers, hashes, er), w).
          case er of
            Some x \<Rightarrow> Inr (Some (SnapshotFailed x), st\<lparr>s_world := w, s_out := out\<rparr>)
          | None \<Rightarrow> bindP (first_20 data) (\<lambda>_. Inr (None, st\<lparr>s_world := w, s_out := out\<rparr>)))"
      using attempt_decode [OF c(1) q [unfolded Row] assms(5) [OF Row], of e] c(2) by simp
    moreover from decode_hashes_safe [of "(s_world st)\<lparr>w_db := memory_make (w_db (s_world st))\<rparr>" ps lim e data 0 0]
      assms(2,3) blank_rows [OF blank_make]
    have "loads lim (w_stats (s_world st)) (decodeBinary e data (s_world st))"
      by (simp add: decodeBinary_def)
    ultimately show ?thesis
      by (cases "length data < 20") (auto simp: loads_def pg_loaded_def first_20_def split: option.splits prod.splits)
  qed
qed

section \<open>A concrete outside\<close>

text \<open>A disk, a table with its newest row first and a clock: the outside of the examples.\<close>

record sample_outside =
  d_files :: "bytes \<Rightarrow> bytes option"
  d_rows :: "(bytes \<times> int) list"
  d_time :: int

definition sample_platform :: "sample_outside platform" where
  "sample_platform =
     \<lparr>os_files = \<lparr>WriteFile = \<lambda>p d out. (True, out\<lparr>d_files := (d_files out)(p \<mapsto> d)\<rparr>),
        ReadFile = \<lambda>p out. d_files out p\<rparr>,
      os_Stat = \<lambda>p out. if d_files out p = None then NotExist else StatOk,
      os_MkdirAll = \<lambda>p out. (True, out), os_Getenv = \<lambda>v out. [],
      os_UserHomeDir = \<lambda>out. Some (lit ''/root''),
      sql_Open = \<lambda>p out. (True, out), sql_Ping = \<lambda>out. (True, out),
      sql_Exec = \<lambda>q out. (Executed (Some 0), out),
      sql_Query = \<lambda>q d out. (True, out\<lparr>d_rows := (d, d_time out) # d_rows out\<rparr>),
      sql_QueryRow = \<lambda>q out. (case d_rows out of [] \<Rightarrow> RowError (lit ''sql: no rows in result set'')
         | (d, t) # _ \<Rightarrow> Row d t, out),
      clock = d_time, sleep = \<lambda>d out. out\<lparr>d_time := d_time out + sint d\<rparr>\<rparr>"

lemma sample_files_durable [simp]: "files_durable sample_platform"
  by (auto simp: files_durable_def sample_platform_def)

lemma sample_table_durable [simp]: "table_durable sample_platform"
proof -
  have "newest_row sample_platform (\<lambda>d out. \<exists>t rs. d_rows out = (d, t) # rs)"
    by (auto simp: newest_row_def sample_platform_def)
  then show ?thesis unfolding table_durable_def by blast
qed

definition sample_store :: "memory world \<Rightarrow> sample_outside store" where
  "sample_store w =
     \<lparr>s_world = w, s_file = MemRef, s_pg = MemRef, s_pgopen = True,
      s_out = \<lparr>d_files = Map.empty, d_rows = [], d_time = 0\<rparr>\<rparr>"

lemma sample_store_sel [simp]:
  "s_world (sample_store w) = w" "driver_ready r (sample_store w)" "s_file (sample_store w) = MemRef"
  "s_pg (sample_store w) = MemRef" "s_pgopen (sample_store w)"
  by (cases r; simp add: sample_store_def file_ready_def pg_ready_def)+

section \<open>Properties\<close>

text \<open>
  C25: What a file or Postgres backup saved is what it loads: after a successful \<open>Save\<close> of a
  non-empty database, a process that starts with the same disk or table, the same backup path
  and initialised pools loads exactly that database, counters included.
\<close>

theorem backup_restores_swarm:
  assumes "outside_trusted r P" and "driver_ready r st"
    and "bk_Save (backup_of P r) e ho st = Inr (None, saved)" and "s_out fresh = s_out saved"
    and "DB_Backup_Path (conf e') = DB_Backup_Path (conf e)"
    and "bk_Init (backup_of P r) e' MemRef fresh = Inr (None, started)"
    and "order_ok ho" "env_ok e" "mem_ok (w_db (s_world st))" "snapshot_ok (entries (w_db (s_world st)))"
    and "entries (w_db (s_world st)) \<noteq> fmempty"
    and "w_pools (s_world fresh) = Some ps" "pools_ok lim ps"
  shows "\<exists>restored. bk_Load (backup_of P r) e' started = Inr (None, restored) \<and> w_db (s_world restored) = w_db (s_world st)"
  using assms by (rule keeper.Load_restores)

theorem backup_restores_swarm_witness:
  "\<exists>st1 st4. FileBackup_Save sample_platform (sample_env 0) sorted_order
       (sample_store (one_hash_world (replicate 20 3) two_peers)) = Inr (None, st1) \<and>
     FileBackup_Load sample_platform (sample_env 9) (st1\<lparr>s_world := start_world\<rparr>) = Inr (None, st4) \<and>
     w_db (s_world st4) = w_db (one_hash_world (replicate 20 3) two_peers)"
proof -
  let ?w = "one_hash_world (replicate 20 3) two_peers"
  let ?data = "encode_store (sample_env 0) sorted_order (sample_store ?w)"
  let ?st1 = "(sample_store ?w)\<lparr>s_out := (s_out (sample_store ?w))\<lparr>d_files :=
     (d_files (s_out (sample_store ?w)))(DB_Backup_Path default_config \<mapsto> ?data)\<rparr>\<rparr>"
  have save: "FileBackup_Save sample_platform (sample_env 0) sorted_order (sample_store ?w) = Inr (None, ?st1)"
    by (simp add: file_defs sample_platform_def Let_def)
  have init: "bk_Init (backup_of sample_platform FileRef) (sample_env 9) MemRef (?st1\<lparr>s_world := start_world\<rparr>) =
      Inr (None, ?st1\<lparr>s_world := start_world\<rparr>)"
    by (simp add: file_defs sample_store_def)
  have "\<exists>st4. bk_Load (backup_of sample_platform FileRef) (sample_env 9) (?st1\<lparr>s_world := start_world\<rparr>) = Inr (None, st4)
      \<and> w_db (s_world st4) = w_db (s_world (sample_store ?w))"
    by (rule backup_restores_swarm [OF _ _ _ _ _ init, where st = "sample_store ?w" and e = "sample_env 0"
          and saved = ?st1 and ho = sorted_order and ps = "Initialize 200" and lim = 200])
      (use save in \<open>simp_all add: FileBackup_def start_world_def pools_ok_Initialize file_ready_def\<close>)
  with save show ?thesis by (auto simp: FileBackup_def)
qed

text \<open>
  C27: A Postgres backup of an empty database crashes the tracker, and so does every later start: the
  empty snapshot is inserted, then the log line slices its first 20 bytes; a start that finds this
  row as the newest one decodes it without an error and slices it again.
\<close>

theorem pg_empty_backup_crash_loop:
  assumes "table_durable P" and "pg_ready st" and "order_ok ho" and "entries (w_db (s_world st)) = fmempty"
    and "sql_Query P insert_row [] (s_out st) = (True, s_out fresh)"
    and "PgBackup_Init P e' MemRef fresh = Inr (None, started)"
  shows "PgBackup_Save P e ho st = Inl SliceOutOfRange \<and> PgBackup_Load P e' started = Inl SliceOutOfRange"
proof
  show "PgBackup_Save P e ho st = Inl SliceOutOfRange"
    using assms(2,5) by (simp add: pg_defs encode_store_empty [OF assms(3,4)] first_20_def)
  obtain ts out ts' out' where r: "sql_QueryRow P select_row (s_out started) = (Row [] ts, out)"
    "sql_QueryRow P select_row (sleep P backupRecentWait out) = (Row [] ts', out')"
    "pg_conn started = Inr ()" "s_pg started = MemRef" by (rule started_newest [OF assms(1,5,6)])
  then show "PgBackup_Load P e' started = Inl SliceOutOfRange"
    by (rule attempt_empty_panics)
qed

theorem pg_empty_backup_crash_loop_witness:
  "PgBackup_Save sample_platform (sample_env 0) sorted_order (sample_store start_world) = Inl SliceOutOfRange \<and>
   PgBackup_Load sample_platform (sample_env 9) ((sample_store start_world)\<lparr>s_out :=
     \<lparr>d_files = Map.empty, d_rows = [([], 0)], d_time = 0\<rparr>\<rparr>) = Inl SliceOutOfRange"
  by (rule pg_empty_backup_crash_loop [where fresh = "(sample_store start_world)\<lparr>s_out :=
     \<lparr>d_files = Map.empty, d_rows = [([], 0)], d_time = 0\<rparr>\<rparr>"])
    (simp_all add: pg_ready_def start_world_def memory_make_def entries_def sample_store_def
      sample_platform_def PgBackup_Init_def Let_def sample_table_durable [unfolded sample_platform_def])

text \<open>
  Loading from Postgres terminates after at most two queries and one wait, whatever the table
  holds: it panics on a negative address length or on a snapshot of less than 20 bytes, or it
  returns with the outside as the first or the second query left it, the statistics untouched
  and, when it reports no error, a well-formed database.
\<close>

theorem pg_Load_two_queries:
  assumes "pg_ready st" and "w_pools (s_world st) = Some ps" "pools_ok lim ps"
    and "sql_QueryRow P select_row (s_out st) = (r1, out1)"
    and "sql_QueryRow P select_row (sleep P backupRecentWait out1) = (r2, out2)"
  shows "PgBackup_Load P e st \<in> {Inl NegativeLength, Inl SliceOutOfRange} \<or>
    (\<exists>er st'. PgBackup_Load P e st = Inr (er, st') \<and> s_out st' \<in> {out1, out2} \<and>
       w_stats (s_world st') = w_stats (s_world st) \<and> (er = None \<longrightarrow> rows_wf (w_db (s_world st'))))"
proof -
  have "pg_loaded st {out1, out2} (attemptLoad P e True st)"
  proof (cases "\<exists>data ts. r1 = Row data ts \<and> time_Since (clock P out1) ts > sint backupRecentWindow")
    case True
    then obtain data ts where r: "r1 = Row data ts" "time_Since (clock P out1) ts > sint backupRecentWindow" by blast
    let ?st = "st\<lparr>s_out := sleep P backupRecentWait out1\<rparr>"
    have "attemptLoad P e True st = attemptLoad P e False ?st"
      using assms(1,4) r by (intro attempt_retry) (simp_all add: pg_ready_def pg_conn_def)
    moreover have "pg_loaded ?st {out2} (attemptLoad P e False ?st)"
      using assms by (intro attempt_once) (simp_all add: pg_ready_def)
    ultimately show ?thesis by (auto simp: pg_loaded_def)
  next
    case False
    with attempt_once [OF assms(1-4), of True e] show ?thesis by (auto simp: pg_loaded_def)
  qed
  then show ?thesis by (auto simp: pg_loaded_def PgBackup_Load_def)
qed

theorem pg_Load_two_queries_witness:
  "PgBackup_Load sample_platform (sample_env 9) (sample_store start_world) \<in> {Inl NegativeLength, Inl SliceOutOfRange} \<or>
    (\<exists>er st'. PgBackup_Load sample_platform (sample_env 9) (sample_store start_world) = Inr (er, st') \<and>
       (er = None \<longrightarrow> rows_wf (w_db (s_world st'))))"
proof -
  have "pg_ready (sample_store start_world)" by (simp add: pg_ready_def)
  moreover have "w_pools (s_world (sample_store start_world)) = Some (Initialize 200)" by (simp add: start_world_def)
  ultimately show ?thesis
    using pg_Load_two_queries [OF _ _ pools_ok_Initialize prod.collapse [symmetric] prod.collapse [symmetric],
        of "sample_store start_world" 200 sample_platform "sample_env 9"]
    by auto
qed

end
