(* ===== verification/Settings.thy ===== *)
theory Settings
  imports Outside GoNet
begin

text \<open>
  The \<open>config\<close> package beside its record: directories and the generated file (paths.go,
  embed.go), loading and resolving the configuration (load.go, config.go, loglevel.go), and the
  cache of embedded files that the HTTP tracker serves (embed.go).
\<close>

section \<open>Log levels\<close>

datatype zap_level = ZapDebug | ZapInfo | ZapWarn | ZapError | ZapFatal

definition LogLevel_Debug :: "bytes \<Rightarrow> bool" where
  "LogLevel_Debug l \<longleftrightarrow> l = lit ''debug''"

text \<open>The configuration and the level of the logger; a name that is not a level means \<open>warn\<close>.\<close>

definition SetLogLevel :: "bytes \<Rightarrow> configuration \<Rightarrow> configuration \<times> zap_level" where
  "SetLogLevel level c =
     (c\<lparr>LogLevel := level\<rparr>,
      if level = lit ''debug'' then ZapDebug
      else if level = lit ''info'' then ZapInfo
      else if level = lit ''warn'' then ZapWarn
      else if level = lit ''error'' then ZapError
      else if level = lit ''fatal'' then ZapFatal
      else ZapWarn)"

section \<open>Parse\<close>

text \<open>
  The one-time set-up of the logger and its encoder have no effect on the configuration.
  \<open>Fatal\<close> ends the process, so the configuration after it does not matter.
\<close>

datatype config_error = NoHomeDir | PortNotInt | FigFailed

definition resolve_backup :: "'o platform \<Rightarrow> 'o \<Rightarrow> bytes \<Rightarrow> bytes" where
  "resolve_backup P out path =
     (if has_prefix path (lit ''ENV:'') then os_Getenv P (TrimPrefix path (lit ''ENV:'')) out else path)"

definition lower_strings :: "(bytes \<Rightarrow> bytes) \<Rightarrow> configuration \<Rightarrow> configuration" where
  "lower_strings uni c =
     c\<lparr>LogLevel := ToLower uni (LogLevel c), HTTP_Mode := ToLower uni (HTTP_Mode c)\<rparr>"

definition resolve_paths :: "'o platform \<Rightarrow> 'o \<Rightarrow> bytes \<Rightarrow> configuration \<Rightarrow> configuration" where
  "resolve_paths P out home c =
     c\<lparr>Path_Pid := ReplaceAll (Path_Pid c) 126 home, Path_Log := ReplaceAll (Path_Log c) 126 home\<rparr>"

text \<open>\<open>$PORT\<close> overrides the HTTP port; a value that is not an integer is an error.\<close>

definition override_port :: "bytes \<Rightarrow> configuration \<Rightarrow> configuration \<times> config_error option" where
  "override_port port c =
     (if port = [] then (c\<lparr>loaded := True\<rparr>, None)
      else
        (case Atoi port of
           AtoiOk n \<Rightarrow> (c\<lparr>HTTP_Port := word_of_int n, loaded := True\<rparr>, None)
         | _ \<Rightarrow> (c, Some PortNotInt)))"

definition Parse ::
  "'o platform \<Rightarrow> (bytes \<Rightarrow> bytes) \<Rightarrow> 'o \<Rightarrow> configuration \<Rightarrow> (configuration \<times> zap_level) \<times> config_error option" where
  "Parse P uni out c =
     (let c1 = lower_strings uni c;
          (c2, level) = SetLogLevel (LogLevel c1) c1;
          c3 = c2\<lparr>DB_Backup_Path := resolve_backup P out (DB_Backup_Path c2)\<rparr> in
      case os_UserHomeDir P out of
        None \<Rightarrow> ((c3, level), Some NoHomeDir)
      | Some home \<Rightarrow>
          (case override_port (os_Getenv P (lit ''PORT'') out) (resolve_paths P out home c3) of
             (c4, er) \<Rightarrow> ((c4, level), er)))"

section \<open>Loading\<close>

text \<open>
  \<open>fig.Load\<close> is a library: given the directories it searches, it returns the configuration of
  the file and the environment, or nothing. A home directory that cannot be found is the empty
  string here.
\<close>

definition Load ::
  "'o platform \<Rightarrow> (bytes \<Rightarrow> bytes) \<Rightarrow> (bytes list \<Rightarrow> 'o \<Rightarrow> configuration option) \<Rightarrow> 'o
     \<Rightarrow> (configuration \<times> zap_level) option \<times> config_error option" where
  "Load P uni fig out =
     (let home = (case os_UserHomeDir P out of Some h \<Rightarrow> h | None \<Rightarrow> []) in
      case fig [lit ''.'', home @ lit ''/.config/trakx''] out of
        None \<Rightarrow> (None, Some FigFailed)
      | Some c \<Rightarrow> (case Parse P uni out c of (c', er) \<Rightarrow> (Some c', er)))"

text \<open>The directories of the package, empty until \<open>initDirectories\<close> found the home directory.\<close>

record directories =
  configPath :: bytes
  CachePath :: bytes

definition initDirectories :: "'o platform \<Rightarrow> directories \<Rightarrow> 'o \<Rightarrow> directories \<times> 'o" where
  "initDirectories P d out =
     (case os_UserHomeDir P out of
        None \<Rightarrow> (d, out)
      | Some home \<Rightarrow>
          (let d' = \<lparr>configPath = home @ lit ''/.config/trakx/'', CachePath = home @ lit ''/.cache/trakx/''\<rparr>;
               out1 = snd (os_MkdirAll P (CachePath d') out);
               out2 = snd (os_MkdirAll P (configPath d') out1)
           in (d', out2)))"

section \<open>Embedded files\<close>

text \<open>
  The file system that the build embeds: the entries of its directory and the contents of its
  files. Both reads may fail as far as the code can tell.
\<close>

record embed_entry =
  ee_name :: bytes
  ee_dir :: bool

record embed_fs =
  ReadDir :: "embed_entry list option"
  ef_ReadFile :: "bytes \<Rightarrow> bytes option"

definition generateConfig :: "'o platform \<Rightarrow> embed_fs \<Rightarrow> directories \<Rightarrow> 'o \<Rightarrow> 'o" where
  "generateConfig P ef d out =
     (let path = configPath d @ lit ''trakx.yaml'' in
      case os_Stat P path out of
        NotExist \<Rightarrow>
          (case ef_ReadFile ef (lit ''embedded/trakx.yaml'') of
             None \<Rightarrow> out
           | Some data \<Rightarrow> snd (WriteFile (os_files P) path data out))
      | _ \<Rightarrow> out)"

text \<open>
  The initialisation of the package: directories, the generated file, then the configuration,
  which stays nil when \<open>fig\<close> fails and unmarked when \<open>$PORT\<close> is not an integer. Without a home
  directory \<open>Parse\<close> ends the process.
\<close>

datatype 'o init_result =
  InitExits
| Initialised "configuration option" directories 'o

definition config_init ::
  "'o platform \<Rightarrow> (bytes \<Rightarrow> bytes) \<Rightarrow> (bytes list \<Rightarrow> 'o \<Rightarrow> configuration option) \<Rightarrow> embed_fs \<Rightarrow> 'o \<Rightarrow> 'o init_result" where
  "config_init P uni fig ef out =
     (let (d, out1) = initDirectories P \<lparr>configPath = [], CachePath = []\<rparr> out;
          out2 = generateConfig P ef d out1 in
      case Load P uni fig out2 of
        (c, Some NoHomeDir) \<Rightarrow> InitExits
      | (c, er) \<Rightarrow> Initialised (map_option fst c) d out2)"

type_synonym embedded_cache = "(bytes, bytes) fmap"

datatype cache_error = ReadDirFailed | OpenFileFailed bytes

definition stripNewlineTabs :: "bytes \<Rightarrow> bytes" where
  "stripNewlineTabs data = ReplaceAll (ReplaceAll data 9 []) 10 []"

definition cached_data :: "bytes \<Rightarrow> bytes \<Rightarrow> bytes" where
  "cached_data filename data =
     (if HasSuffix filename (lit ''.html'') then stripNewlineTabs data else data)"

fun cache_entries :: "embed_fs \<Rightarrow> embed_entry list \<Rightarrow> embedded_cache \<Rightarrow> cache_error + embedded_cache" where
  "cache_entries ef [] cache = Inr cache"
| "cache_entries ef (entry # es) cache =
     (let filename = ee_name entry in
      if ee_dir entry \<or> filename = lit ''trakx.yaml'' then cache_entries ef es cache
      else
        (case ef_ReadFile ef (lit ''embedded/'' @ filename) of
           None \<Rightarrow> Inl (OpenFileFailed filename)
         | Some data \<Rightarrow> cache_entries ef es (fmupd (lit ''/'' @ filename) (cached_data filename data) cache)))"

definition GenerateEmbeddedCache :: "embed_fs \<Rightarrow> cache_error + embedded_cache" where
  "GenerateEmbeddedCache ef =
     (case ReadDir ef of
        None \<Rightarrow> Inl ReadDirFailed
      | Some dir \<Rightarrow>
          bindP (cache_entries ef dir fmempty) (\<lambda>cache.
            case fmlookup cache (lit ''/index.html'') of
              None \<Rightarrow> Inr cache
            | Some indexData \<Rightarrow> Inr (fmupd (lit ''/'') indexData cache)))"

section \<open>What the cache holds\<close>

text \<open>A file of the embedded directory that may be served under a path.\<close>

definition served_file :: "embed_fs \<Rightarrow> embed_entry list \<Rightarrow> bytes \<Rightarrow> bytes \<Rightarrow> bool" where
  "served_file ef dir path content \<longleftrightarrow>
     (\<exists>entry \<in> set dir. \<not> ee_dir entry \<and> ee_name entry \<noteq> lit ''trakx.yaml'' \<and>
        path = lit ''/'' @ ee_name entry \<and>
        (\<exists>data. ef_ReadFile ef (lit ''embedded/'' @ ee_name entry) = Some data \<and>
           content = cached_data (ee_name entry) data))"

lemma cache_entries_served:
  assumes "cache_entries ef es cache = Inr cache'" and "set es \<subseteq> set dir"
    and "\<And>p x. fmlookup cache p = Some x \<Longrightarrow> served_file ef dir p x"
    and "fmlookup cache' p = Some x"
  shows "served_file ef dir p x"
  using assms
proof (induction es arbitrary: cache)
  case Nil
  then show ?case by simp
next
  case (Cons entry es)
  show ?case
  proof (cases "ee_dir entry \<or> ee_name entry = lit ''trakx.yaml''")
    case True
    with Cons.IH [OF _ _ Cons.prems(3)] Cons.prems show ?thesis by simp
  next
    case False
    with Cons.prems(1) obtain data where data: "ef_ReadFile ef (lit ''embedded/'' @ ee_name entry) = Some data"
      "cache_entries ef es (fmupd (lit ''/'' @ ee_name entry) (cached_data (ee_name entry) data) cache) = Inr cache'"
      by (auto simp: Let_def split: option.splits)
    have "served_file ef dir (lit ''/'' @ ee_name entry) (cached_data (ee_name entry) data)"
      unfolding served_file_def using False data(1) Cons.prems(2) by (intro bexI [of _ entry]) auto
    with Cons.prems(3) have "served_file ef dir q y"
      if "fmlookup (fmupd (lit ''/'' @ ee_name entry) (cached_data (ee_name entry) data) cache) q = Some y" for q y
      using that by (cases "q = lit ''/'' @ ee_name entry") simp_all
    from Cons.IH [OF data(2) _ this Cons.prems(4)] Cons.prems(2) show ?thesis by simp
  qed
qed

lemma cache_entries_keeps:
  assumes "cache_entries ef es cache = Inr cache'" and "fmlookup cache p \<noteq> None"
  shows "fmlookup cache' p \<noteq> None"
  using assms by (induction ef es cache rule: cache_entries.induct) (auto simp: Let_def split: if_splits option.splits)

lemma cache_entries_all:
  assumes "cache_entries ef es cache = Inr cache'"
    and "entry \<in> set es" "\<not> ee_dir entry" "ee_name entry \<noteq> lit ''trakx.yaml''"
  shows "fmlookup cache' (lit ''/'' @ ee_name entry) \<noteq> None"
  using assms
proof (induction ef es cache rule: cache_entries.induct)
  case (2 ef e es cache)
  show ?case
  proof (cases "e = entry")
    case True
    with "2.prems" obtain data where
      "cache_entries ef es (fmupd (lit ''/'' @ ee_name entry) (cached_data (ee_name entry) data) cache) = Inr cache'"
      by (auto simp: Let_def split: option.splits)
    from cache_entries_keeps [OF this] show ?thesis by simp
  next
    case False
    with 2 show ?thesis by (auto simp: Let_def split: if_splits option.splits)
  qed
qed simp

lemma cache_files:
  assumes "GenerateEmbeddedCache ef = Inr cache" and "ReadDir ef = Some dir"
  shows "fmlookup cache path = Some content \<Longrightarrow>
      served_file ef dir path content \<or> path = lit ''/'' \<and> served_file ef dir (lit ''/index.html'') content"
    and "fmlookup cache (lit ''/trakx.yaml'') = None"
    and "entry \<in> set dir \<Longrightarrow> \<not> ee_dir entry \<Longrightarrow> ee_name entry \<noteq> lit ''trakx.yaml'' \<Longrightarrow>
      fmlookup cache (lit ''/'' @ ee_name entry) \<noteq> None"
proof -
  from assms obtain cache0 where c0: "cache_entries ef dir fmempty = Inr cache0"
    "cache = cache0 \<or> (\<exists>x. fmlookup cache0 (lit ''/index.html'') = Some x \<and> cache = fmupd (lit ''/'') x cache0)"
    by (auto simp: GenerateEmbeddedCache_def bindP_Inr_iff split: option.splits)
  have s0: "fmlookup cache0 p = Some x \<Longrightarrow> served_file ef dir p x" for p x
    using cache_entries_served [OF c0(1) subset_refl] by simp
  have s: "served_file ef dir p x \<or> p = lit ''/'' \<and> served_file ef dir (lit ''/index.html'') x"
    if "fmlookup cache p = Some x" for p x
    using c0(2) that s0 by (auto split: if_splits)
  then show "fmlookup cache path = Some content \<Longrightarrow>
      served_file ef dir path content \<or> path = lit ''/'' \<and> served_file ef dir (lit ''/index.html'') content" .
  show "fmlookup cache (lit ''/'' @ ee_name entry) \<noteq> None"
    if "entry \<in> set dir" "\<not> ee_dir entry" "ee_name entry \<noteq> lit ''trakx.yaml''"
    using c0(2) cache_entries_all [OF c0(1) that] by auto
  have "\<not> served_file ef dir (lit ''/trakx.yaml'') x" for x
    by (auto simp: served_file_def lit_def)
  with s [of "lit ''/trakx.yaml''"] show "fmlookup cache (lit ''/trakx.yaml'') = None"
    by (cases "fmlookup cache (lit ''/trakx.yaml'')") (auto simp: lit_def)
qed

section \<open>The resolved configuration\<close>

definition log_level :: "bytes \<Rightarrow> zap_level" where
  "log_level l = snd (SetLogLevel l default_config)"

definition resolved :: "'o platform \<Rightarrow> (bytes \<Rightarrow> bytes) \<Rightarrow> 'o \<Rightarrow> bytes \<Rightarrow> configuration \<Rightarrow> configuration" where
  "resolved P uni out home c =
     c\<lparr>LogLevel := ToLower uni (LogLevel c), HTTP_Mode := ToLower uni (HTTP_Mode c),
       DB_Backup_Path := resolve_backup P out (DB_Backup_Path c),
       Path_Pid := ReplaceAll (Path_Pid c) 126 home, Path_Log := ReplaceAll (Path_Log c) 126 home\<rparr>"

lemma Parse_resolved:
  assumes "os_UserHomeDir P out = Some home"
  shows "Parse P uni out c =
    (case override_port (os_Getenv P (lit ''PORT'') out) (resolved P uni out home c) of
       (c', er) \<Rightarrow> ((c', log_level (LogLevel (resolved P uni out home c))), er))"
  using assms
  by (simp add: Parse_def Let_def lower_strings_def SetLogLevel_def resolve_paths_def resolved_def log_level_def)

lemma resolved_loaded: "resolved P uni out home (c\<lparr>loaded := b\<rparr>) = (resolved P uni out home c)\<lparr>loaded := b\<rparr>"
  by (simp add: resolved_def)

lemma resolved_port: "resolved P uni out home (c\<lparr>HTTP_Port := n\<rparr>) = (resolved P uni out home c)\<lparr>HTTP_Port := n\<rparr>"
  by (simp add: resolved_def)

lemma resolved_sel [simp]:
  "loaded (resolved P uni out home c) = loaded c" "HTTP_Port (resolved P uni out home c) = HTTP_Port c"
  by (simp_all add: resolved_def)

lemma resolved_tilde:
  assumes "126 \<notin> set home"
  shows "126 \<notin> set (Path_Pid (resolved P uni out home c))" "126 \<notin> set (Path_Log (resolved P uni out home c))"
  using assms set_ReplaceAll [of "Path_Pid c" 126 home] set_ReplaceAll [of "Path_Log c" 126 home]
  by (auto simp: resolved_def)

lemma ToLower_idem:
  assumes "list_all (\<lambda>b. b < 128) s"
  shows "ToLower uni (ToLower uni s) = ToLower uni s"
proof -
  have "lower_byte b < 128" if "b < 128" for b
    using that by (auto simp: lower_byte_def word_less_nat_alt word_le_nat_alt unat_word_ariths)
  with assms have "list_all (\<lambda>b. b < 128) (map lower_byte s)" by (simp add: list_all_iff)
  with assms show ?thesis by (simp add: ToLower_def lower_byte_idem)
qed

lemma ReplaceAll_idem: "c \<notin> set new \<Longrightarrow> ReplaceAll (ReplaceAll s c new) c new = ReplaceAll s c new"
  using set_ReplaceAll [of s c new] by (intro ReplaceAll_none) auto

lemma resolved_idem:
  assumes "126 \<notin> set home"
    and "list_all (\<lambda>b. b < 128) (LogLevel c)" "list_all (\<lambda>b. b < 128) (HTTP_Mode c)"
    and "\<not> has_prefix (resolve_backup P out (DB_Backup_Path c)) (lit ''ENV:'')"
  shows "resolved P uni out home (resolved P uni out home c) = resolved P uni out home c"
proof -
  have "resolve_backup P out (resolve_backup P out (DB_Backup_Path c)) = resolve_backup P out (DB_Backup_Path c)"
    using assms(4) by (simp add: resolve_backup_def [of P out "resolve_backup P out (DB_Backup_Path c)"])
  with assms(1-3) show ?thesis by (simp add: resolved_def ToLower_idem ReplaceAll_idem)
qed

section \<open>Properties\<close>

text \<open>
  The HTTP file cache holds exactly the embedded files: every entry is an embedded file other
  than the configuration, under its own name (or the index under the root), every such file has
  an entry, and the configuration file, which may hold credentials, has none.
\<close>

theorem cache_serves_embedded_files:
  assumes "GenerateEmbeddedCache ef = Inr cache" and "ReadDir ef = Some dir"
  shows "(\<forall>path content. fmlookup cache path = Some content \<longrightarrow>
      served_file ef dir path content \<or> path = lit ''/'' \<and> served_file ef dir (lit ''/index.html'') content) \<and>
    (\<forall>entry \<in> set dir. \<not> ee_dir entry \<and> ee_name entry \<noteq> lit ''trakx.yaml'' \<longrightarrow>
       fmlookup cache (lit ''/'' @ ee_name entry) \<noteq> None) \<and>
    fmlookup cache (lit ''/trakx.yaml'') = None"
  using cache_files [OF assms] by blast

definition sample_embed :: embed_fs where
  "sample_embed =
     \<lparr>ReadDir = Some [\<lparr>ee_name = lit ''index.html'', ee_dir = False\<rparr>, \<lparr>ee_name = lit ''trakx.yaml'', ee_dir = False\<rparr>],
      ef_ReadFile = (\<lambda>p. Some (lit ''<html>'' @ [10]))\<rparr>"

lemma sample_cache:
  "GenerateEmbeddedCache sample_embed =
     Inr (fmupd (lit ''/'') (lit ''<html>'') (fmupd (lit ''/index.html'') (lit ''<html>'') fmempty))"
  by (simp add: GenerateEmbeddedCache_def sample_embed_def cached_data_def stripNewlineTabs_def Let_def eval_simps)

theorem cache_serves_embedded_files_witness:
  "fmlookup (fmupd (lit ''/'') (lit ''<html>'') (fmupd (lit ''/index.html'') (lit ''<html>'') fmempty))
     (lit ''/trakx.yaml'') = None"
proof -
  have "ReadDir sample_embed = Some (the (ReadDir sample_embed))" by (simp add: sample_embed_def)
  from cache_serves_embedded_files [OF sample_cache this] show ?thesis by blast
qed

text \<open>An outside without state: a home directory and no environment variables.\<close>

definition sample_system :: "unit platform" where
  "sample_system =
     \<lparr>os_files = \<lparr>WriteFile = \<lambda>p d out. (True, out), ReadFile = \<lambda>p out. None\<rparr>,
      os_Stat = \<lambda>p out. NotExist, os_MkdirAll = \<lambda>p out. (True, out), os_Getenv = \<lambda>v out. [],
      os_UserHomeDir = \<lambda>out. Some (lit ''/root''), sql_Open = \<lambda>p out. (False, out),
      sql_Ping = \<lambda>out. (False, out), sql_Exec = \<lambda>q out. (ExecError, out),
      sql_Query = \<lambda>q d out. (False, out), sql_QueryRow = \<lambda>q out. (RowError [], out),
      clock = \<lambda>out. 0, sleep = \<lambda>d out. out\<rparr>"

text \<open>
  Resolving the configuration: with a home directory and no \<open>$PORT\<close> that is not an integer,
  \<open>Parse\<close> succeeds and marks the configuration as loaded, its mode and level are lower case, its
  paths have no tilde left, the HTTP port is \<open>$PORT\<close> when that is set, and parsing the result
  again changes nothing. A \<open>$PORT\<close> that is not an integer fails and leaves the mark as it was.
\<close>

theorem Parse_settles:
  assumes home: "os_UserHomeDir P out = Some home" "126 \<notin> set home"
    and port: "port = os_Getenv P (lit ''PORT'') out"
    and ascii: "list_all (\<lambda>b. b < 128) (LogLevel c)" "list_all (\<lambda>b. b < 128) (HTTP_Mode c)"
    and env: "\<not> has_prefix (resolve_backup P out (DB_Backup_Path c)) (lit ''ENV:'')"
    and run: "Parse P uni out c = ((c', level), er)"
  shows "(er = None \<longleftrightarrow> port = [] \<or> (\<exists>n. Atoi port = AtoiOk n)) \<and>
    loaded c' = (er = None \<or> loaded c) \<and>
    126 \<notin> set (Path_Pid c') \<and> 126 \<notin> set (Path_Log c') \<and>
    HTTP_Mode c' = map lower_byte (HTTP_Mode c) \<and> LogLevel c' = map lower_byte (LogLevel c) \<and>
    (\<forall>n. Atoi port = AtoiOk n \<longrightarrow> HTTP_Port c' = word_of_int n) \<and>
    (er = None \<longrightarrow> Parse P uni out c' = ((c', level), None))"
proof -
  have lows: "LogLevel (resolved P uni out home c) = map lower_byte (LogLevel c)"
    "HTTP_Mode (resolved P uni out home c) = map lower_byte (HTTP_Mode c)"
    using ascii by (simp_all add: resolved_def ToLower_def)
  note tilde = resolved_tilde [OF home(2), of P uni out c]
  note idem = resolved_idem [OF home(2) ascii env, of uni]
  have p: "Parse P uni out c' =
      (case override_port port (resolved P uni out home c') of
         (c2, er) \<Rightarrow> ((c2, log_level (LogLevel (resolved P uni out home c'))), er))" for c'
    by (simp add: Parse_resolved [OF home(1)] port)
  consider "port = []" | n where "port \<noteq> []" "Atoi port = AtoiOk n" | "port \<noteq> []" "\<forall>n. Atoi port \<noteq> AtoiOk n"
    by blast
  then show ?thesis
  proof cases
    case 1
    with run have c': "c' = (resolved P uni out home c)\<lparr>loaded := True\<rparr>" "er = None"
      and l: "level = log_level (LogLevel (resolved P uni out home c))"
      by (auto simp: p override_port_def)
    have "Parse P uni out c' = ((c', level), None)"
      using 1 by (simp add: p override_port_def c'(1) resolved_loaded idem l)
    with 1 c' lows tilde show ?thesis by simp
  next
    case (2 n)
    with run have c': "c' = (resolved P uni out home c)\<lparr>HTTP_Port := word_of_int n, loaded := True\<rparr>" "er = None"
      and l: "level = log_level (LogLevel (resolved P uni out home c))"
      by (auto simp: p override_port_def)
    have "Parse P uni out c' = ((c', level), None)"
      using 2 by (simp add: p override_port_def c'(1) resolved_loaded resolved_port idem l)
    with 2 c' lows tilde show ?thesis by simp
  next
    case 3
    with run have c': "c' = resolved P uni out home c" "er = Some PortNotInt"
      by (auto simp: p override_port_def split: atoi_result.splits)
    with 3 lows tilde show ?thesis by simp
  qed
qed

theorem Parse_settles_witness:
  "HTTP_Mode (fst (fst (Parse sample_system id () (default_config\<lparr>HTTP_Mode := lit ''INFO''\<rparr>)))) = lit ''info'' \<and>
   126 \<notin> set (Path_Pid (fst (fst (Parse sample_system id () (default_config\<lparr>HTTP_Mode := lit ''INFO''\<rparr>)))))"
proof -
  let ?c = "default_config\<lparr>HTTP_Mode := lit ''INFO''\<rparr>"
  obtain c' level er where r: "Parse sample_system id () ?c = ((c', level), er)"
    by (metis prod.collapse)
  have "126 \<notin> set (Path_Pid c') \<and> HTTP_Mode c' = map lower_byte (HTTP_Mode ?c)"
    using Parse_settles [OF _ _ refl _ _ _ r, of "lit ''/root''"]
    by (auto simp: sample_system_def default_config_def resolve_backup_def lit_def)
  with r show ?thesis by (simp add: lit_def lower_byte_def)
qed

end
