(* ===== verification/Publish.thy ===== *)
theory Publish
  imports UdpTracker
begin

text \<open>
  Publishing the statistics: the body that tracker/stats/publish.go runs on every tick, the
  ticks of tracker/utils/runon.go, and what the reading and the resetting of the counters, which
  are separate atomic operations, do to requests that arrive between them.
\<close>

section \<open>Ticks\<close>

text \<open>
  Times are nanoseconds since the zero time. \<open>RunOn\<close> sleeps until each tick in turn; a tick
  that has passed already does not delay it.
\<close>

definition Truncate :: "int \<Rightarrow> duration \<Rightarrow> int" where
  "Truncate t d = (if sint d \<le> 0 then t else t - t mod sint d)"

fun RunOn_tick :: "duration \<Rightarrow> int \<Rightarrow> nat \<Rightarrow> int" where
  "RunOn_tick d start 0 = Truncate start d + sint d"
| "RunOn_tick d start (Suc n) = RunOn_tick d start n + sint d"

definition RunOn_wakes :: "duration \<Rightarrow> int \<Rightarrow> nat \<Rightarrow> int \<Rightarrow> int" where
  "RunOn_wakes d start n t = max t (RunOn_tick d start n)"

lemma RunOn_tick_closed: "RunOn_tick d start n = Truncate start d + int (Suc n) * sint d"
  by (induction n) (simp_all add: algebra_simps)

section \<open>The published values\<close>

record expvars =
  ev_hits :: int64
  ev_connects :: int64
  ev_announces :: int64
  ev_scrapes :: int64
  ev_seeds :: int64
  ev_leeches :: int64
  ev_peers :: int64
  ev_ips :: int64
  ev_hashes :: int64
  ev_udpConnections :: int64
  ev_serverErrors :: int64
  ev_clientErrors :: int64
  ev_dictionaryPool :: int64
  ev_peerPool :: int64
  ev_peerlist4Pool :: int64
  ev_peerlist6Pool :: int64
  ev_goroutines :: int64
  ev_uptime :: int64

text \<open>What the run time reports: the number of goroutines and the time since the start.\<close>

record runtime =
  NumGoroutine :: int64
  sinceInit :: duration

definition ips_total :: "env \<Rightarrow> stats \<Rightarrow> int64" where
  "ips_total e st = (if fast e then -1 else word_of_nat (IPStats_Total (IPStats st)))"

definition publish_read ::
  "'db database \<Rightarrow> env \<Rightarrow> runtime \<Rightarrow> int \<Rightarrow> 'db world \<Rightarrow> panic + expvars" where
  "publish_read D e rt udpconns w =
     (case w_pools w of
        None \<Rightarrow> Inl NilDereference
      | Some ps \<Rightarrow>
          (let st = w_stats w in
           Inr \<lparr>ev_hits = Hits st, ev_connects = Connects st, ev_announces = Announces st,
                ev_scrapes = Scrapes st, ev_seeds = Seeds st, ev_leeches = Leeches st,
                ev_peers = Seeds st + Leeches st, ev_ips = ips_total e st,
                ev_hashes = word_of_nat (db_Hashes D (w_db w)), ev_udpConnections = word_of_int udpconns,
                ev_serverErrors = ServerErrors st, ev_clientErrors = ClientErrors st,
                ev_dictionaryPool = scast (Pool_Created (Dictionaries ps)),
                ev_peerPool = scast (Pool_Created (PeersPool ps)),
                ev_peerlist4Pool = scast (Pool_Created (Peerlists4 ps)),
                ev_peerlist6Pool = scast (Pool_Created (Peerlists6 ps)),
                ev_goroutines = NumGoroutine rt,
                ev_uptime = word_of_int (sgn (sint (sinceInit rt)) * (\<bar>sint (sinceInit rt)\<bar> div 1000000000))\<rparr>))"

definition publish_reset :: "stats \<Rightarrow> stats" where
  "publish_reset st = st\<lparr>Hits := 0, Connects := 0, Announces := 0, Scrapes := 0\<rparr>"

text \<open>One tick with nothing in between.\<close>

definition publish_tick ::
  "'db database \<Rightarrow> env \<Rightarrow> runtime \<Rightarrow> int \<Rightarrow> 'db world \<Rightarrow> panic + (expvars \<times> 'db world)" where
  "publish_tick D e rt udpconns w =
     bindP (publish_read D e rt udpconns w) (\<lambda>x. Inr (x, w\<lparr>w_stats := publish_reset (w_stats w)\<rparr>))"

section \<open>Requests between the reading and the resetting\<close>

text \<open>
  The atomic operations on the request counter: a request adds one, a tick reads the counter
  into the published value and later stores zero. Everything published so far is added up.
\<close>

datatype counter_op = Request_arrives | Tick_reads | Tick_resets

fun counter_step :: "counter_op \<Rightarrow> stats \<times> int64 \<Rightarrow> stats \<times> int64" where
  "counter_step Request_arrives (st, published) = (add_Hits 1 st, published)"
| "counter_step Tick_reads (st, published) = (st, published + Hits st)"
| "counter_step Tick_resets (st, published) = (publish_reset st, published)"

definition counter_run :: "counter_op list \<Rightarrow> stats \<times> int64 \<Rightarrow> stats \<times> int64" where
  "counter_run ops s = fold counter_step ops s"

text \<open>
  A history of whole ticks: before the reading of each tick some requests arrive, and some
  between its reading and its resetting.
\<close>

definition requests :: "nat \<Rightarrow> counter_op list" where
  "requests n = replicate n Request_arrives"

definition tick_history :: "(nat \<times> nat) list \<Rightarrow> counter_op list" where
  "tick_history ts = concat (map (\<lambda>(before, between).
     requests before @ [Tick_reads] @ requests between @ [Tick_resets]) ts)"

lemma counter_run_append [simp]: "counter_run (xs @ ys) s = counter_run ys (counter_run xs s)"
  by (simp add: counter_run_def)

lemma counter_run_requests:
  "fst (counter_run (requests n) (st, p)) = add_Hits (word_of_nat n) st \<and> snd (counter_run (requests n) (st, p)) = p"
proof (induction n arbitrary: st)
  case 0
  then show ?case by (simp add: requests_def counter_run_def add_Hits_def)
next
  case (Suc n)
  from Suc.IH [of "add_Hits 1 st"] show ?case
    by (simp add: requests_def counter_run_def add_Hits_def ac_simps)
qed

lemma counter_run_tick:
  assumes "Hits st = 0"
  shows "snd (counter_run (requests m @ [Tick_reads] @ requests n @ [Tick_resets]) (st, p)) = p + word_of_nat m"
    and "Hits (fst (counter_run (requests m @ [Tick_reads] @ requests n @ [Tick_resets]) (st, p))) = 0"
proof -
  obtain st1 where r1: "counter_run (requests m) (st, p) = (st1, p)" "Hits st1 = word_of_nat m"
    using counter_run_requests [of m st p] assms by (metis add_Hits_def prod.collapse stats.select_convs(1)
      stats.surjective stats.update_convs(1) add_0)
  have r2: "counter_run [Tick_reads] (st1, p) = (st1, p + word_of_nat m)" by (simp add: counter_run_def r1)
  obtain st2 where r3: "counter_run (requests n) (st1, p + word_of_nat m) = (st2, p + word_of_nat m)"
    using counter_run_requests [of n st1 "p + word_of_nat m"] by (metis prod.collapse)
  have r4: "counter_run [Tick_resets] (st2, p + word_of_nat m) = (publish_reset st2, p + word_of_nat m)"
    by (simp add: counter_run_def)
  show "snd (counter_run (requests m @ [Tick_reads] @ requests n @ [Tick_resets]) (st, p)) = p + word_of_nat m"
    "Hits (fst (counter_run (requests m @ [Tick_reads] @ requests n @ [Tick_resets]) (st, p))) = 0"
    by (simp_all only: counter_run_append r1(1) r2 r3 r4 fst_conv snd_conv) (simp add: publish_reset_def)
qed

section \<open>Properties\<close>

text \<open>
  C35: What the published request counts add up to: over any number of ticks, exactly the requests
  that arrived before a tick's reading, modulo the width of the counter. Every request that
  arrives between the reading and the resetting of a tick is wiped and never published.
\<close>

theorem publish_loses_requests:
  "snd (counter_run (tick_history ts) (zero_stats, 0)) = word_of_nat (sum_list (map fst ts)) \<and>
   Hits (fst (counter_run (tick_history ts) (zero_stats, 0))) = 0"
proof -
  have "snd (counter_run (tick_history ts) (st, p)) = p + word_of_nat (sum_list (map fst ts)) \<and>
      Hits (fst (counter_run (tick_history ts) (st, p))) = 0" if "Hits st = 0" for st p
    using that
  proof (induction ts arbitrary: st p)
    case Nil
    then show ?case by (simp add: tick_history_def counter_run_def)
  next
    case (Cons t ts)
    obtain m n where t: "t = (m, n)" by (cases t)
    have h: "tick_history (t # ts) = (requests m @ [Tick_reads] @ requests n @ [Tick_resets]) @ tick_history ts"
      by (simp add: tick_history_def t)
    obtain st' where r: "counter_run (requests m @ [Tick_reads] @ requests n @ [Tick_resets]) (st, p) =
        (st', p + word_of_nat m)" "Hits st' = 0"
      using counter_run_tick [OF Cons.prems, of m n p] by (metis prod.collapse)
    show ?case
      unfolding h counter_run_append [of "requests m @ [Tick_reads] @ requests n @ [Tick_resets]"] r(1)
      using Cons.IH [OF r(2)] by (simp add: t ac_simps)
  qed
  from this [of zero_stats 0] show ?thesis by (simp add: zero_stats_def)
qed

text \<open>
  Ticks of a positive interval are multiples of the interval, the first one is later than the
  start by at most one interval, and each one follows the last after exactly one interval.
\<close>

theorem RunOn_on_the_tick:
  assumes "0 < sint d"
  shows "sint d dvd RunOn_tick d start n \<and> start < RunOn_tick d start 0 \<and>
    RunOn_tick d start 0 \<le> start + sint d \<and> RunOn_tick d start (Suc n) - RunOn_tick d start n = sint d"
proof -
  have "start mod sint d < sint d" "0 \<le> start mod sint d" using assms by simp_all
  moreover have "sint d dvd start - start mod sint d" by (rule dvd_minus_mod)
  moreover have "RunOn_tick d start (Suc n) - RunOn_tick d start n = sint d" by simp
  ultimately show ?thesis using assms by (simp add: RunOn_tick_closed Truncate_def del: RunOn_tick.simps)
qed

theorem RunOn_on_the_tick_witness: "RunOn_tick 1000 12345 1 = 14000 \<and> (1000 :: int) dvd RunOn_tick 1000 12345 1"
  using RunOn_on_the_tick [of 1000 12345 1] by (simp add: RunOn_tick_closed Truncate_def)

end
