(* ===== verification/Startup.thy ===== *)
theory Startup
  imports BackupSpec Settings Publish UdpProps HttpProps
begin

text \<open>
  The process as a whole: the driver registry and \<open>Open\<close> (storage/driver.go, database.go,
  map/register.go), \<open>Memory.Init\<close> with the jobs it schedules (map/memory.go), \<open>Run\<close>
  (tracker.go) and the signal handler (signalhandler.go), over the trackers, the database and
  the backup drivers of the other theories. Everything that happens to a running process is an
  event; events are handled one after the other.
\<close>

section \<open>Drivers\<close>

record ('d, 'b) database_driver =
  drv_db :: 'd
  drv_backups :: "(bytes, 'b) fmap"

record ('d, 'b) database_info =
  di_Name :: bytes
  di_DB :: 'd
  di_Backups :: "(bytes \<times> 'b) list"

type_synonym ('d, 'b) drivers = "(bytes, ('d, 'b) database_driver) fmap"

definition add_backup :: "bytes \<Rightarrow> bytes \<times> 'b \<Rightarrow> ('d, 'b) drivers \<Rightarrow> ('d, 'b) drivers" where
  "add_backup name b ds =
     (case fmlookup ds name of
        None \<Rightarrow> ds
      | Some d \<Rightarrow> fmupd name (d\<lparr>drv_backups := fmupd (fst b) (snd b) (drv_backups d)\<rparr>) ds)"

definition Register :: "('d, 'b) database_info \<Rightarrow> ('d, 'b) drivers \<Rightarrow> ('d, 'b) drivers" where
  "Register info ds =
     fold (add_backup (di_Name info)) (di_Backups info)
       (fmupd (di_Name info) \<lparr>drv_db = di_DB info, drv_backups = fmempty\<rparr> ds)"

text \<open>The one database of the repository and its drivers, registered when the program starts.\<close>

datatype db_ref = GomapRef

definition gomap_info :: "(db_ref, backup_ref) database_info" where
  "gomap_info =
     \<lparr>di_Name = lit ''gomap'', di_DB = GomapRef,
      di_Backups = [(lit ''file'', FileRef), (lit ''pg'', PgRef), (lit ''none'', NoneRef)]\<rparr>"

definition registered :: "(db_ref, backup_ref) drivers" where
  "registered = Register gomap_info fmempty"

section \<open>Opening the database\<close>

datatype job = BackupJob duration | TrimJob duration

datatype init_error = BackupInitFailed backup_error | BackupLoadFailed backup_error

definition scheduled_jobs :: "configuration \<Rightarrow> job list" where
  "scheduled_jobs c =
     (if 0 < sint (DB_Backup_Frequency c) then [BackupJob (DB_Backup_Frequency c)] else []) @
     (if 0 < sint (DB_Trim c) then [TrimJob (DB_Trim c)] else [])"

definition Memory_Init ::
  "'o platform \<Rightarrow> env \<Rightarrow> backup_ref \<Rightarrow> 'o store \<Rightarrow> panic + ((init_error + job list) \<times> 'o store)" where
  "Memory_Init P e r st =
     (let st0 = st\<lparr>s_world := (s_world st)\<lparr>w_db := \<lparr>hashmap = None\<rparr>\<rparr>\<rparr> in
      bindP (bk_Init (backup_of P r) e MemRef st0) (\<lambda>(er, st1).
      case er of
        Some x \<Rightarrow> Inr (Inl (BackupInitFailed x), st1)
      | None \<Rightarrow>
          bindP (bk_Load (backup_of P r) e st1) (\<lambda>(er, st2).
          case er of
            Some x \<Rightarrow> Inr (Inl (BackupLoadFailed x), st2)
          | None \<Rightarrow> Inr (Inr (scheduled_jobs (conf e)), st2))))"

datatype open_error =
  InvalidDatabaseDriver bytes | InvalidBackupDriver bytes | InitFailed init_error | SyncFailed sync_error

text \<open>The end of \<open>Open\<close>, after the database's \<open>Init\<close>.\<close>

definition sync_opened ::
  "env \<Rightarrow> hash_order \<Rightarrow> backup_ref \<Rightarrow> (init_error + job list) \<times> 'o store
     \<Rightarrow> (open_error + backup_ref \<times> job list) \<times> 'o store" where
  "sync_opened e ho r = (\<lambda>(res, st1).
     case res of
       Inl x \<Rightarrow> (Inl (InitFailed x), st1)
     | Inr jobs \<Rightarrow>
         (case SyncExpvars e (ho (entries (w_db (s_world st1)))) (s_world st1) of
            (w, Some x) \<Rightarrow> (Inl (SyncFailed x), st1\<lparr>s_world := w\<rparr>)
          | (w, None) \<Rightarrow> (Inr (r, jobs), st1\<lparr>s_world := w\<rparr>)))"

definition Open ::
  "'o platform \<Rightarrow> (db_ref, backup_ref) drivers \<Rightarrow> env \<Rightarrow> hash_order \<Rightarrow> 'o store
     \<Rightarrow> panic + ((open_error + backup_ref \<times> job list) \<times> 'o store)" where
  "Open P ds e ho st =
     (case fmlookup ds (DB_Type (conf e)) of
        None \<Rightarrow> Inr (Inl (InvalidDatabaseDriver (DB_Type (conf e))), st)
      | Some driver \<Rightarrow>
          (case fmlookup (drv_backups driver) (DB_Backup_Type (conf e)) of
             None \<Rightarrow> Inr (Inl (InvalidBackupDriver (DB_Backup_Type (conf e))), st)
           | Some r \<Rightarrow> bindP (Memory_Init P e r st) (\<lambda>x. Inr (sync_opened e ho r x))))"

section \<open>Run\<close>

text \<open>
  What a process is started with beside its outside: the embedded files, the coder of the
  connection file, the directories, the build of the HTTP tracker, and whether the operating
  system lets the servers listen.
\<close>

record installation =
  in_embed :: embed_fs
  in_gob :: gob_coder
  in_dirs :: directories
  in_build :: http_build
  in_listen_tcp :: bool
  in_listen_udp :: bool

record 'o tracker =
  t_store :: "'o store"
  t_backup :: backup_ref
  t_jobs :: "job list"
  t_conns :: "connectionDatabase option"
  t_sent :: "(udp_addr \<times> bytes) list"
  t_written :: "(nat \<times> bytes) list"
  t_build :: http_build
  t_workers :: "bytes list"
  t_expvars :: "expvars list"

datatype fatal = ConfigNotLoaded | StorageFailed open_error | HttpFailed | CacheFailed | UdpFailed

text \<open>
  \<open>HTTPTracker.Serve\<close> up to its wait for the shutdown: one worker, with its own buffer, for
  every configured thread.
\<close>

definition http_Serve :: "installation \<Rightarrow> configuration \<Rightarrow> fatal + (http_build \<times> bytes list)" where
  "http_Serve ins c =
     (if \<not> in_listen_tcp ins then Inl HttpFailed
      else
        (case GenerateEmbeddedCache (in_embed ins) of
           Inl _ \<Rightarrow> Inl HttpFailed
         | Inr cache \<Rightarrow>
             Inr ((in_build ins)\<lparr>fileCache := cache\<rparr>,
                  replicate (nat (sint (HTTP_Threads c))) (replicate httpRequestMax 0))))"

text \<open>
  The information server registers its routes and then the cached files with \<open>net/http\<close>,
  which panics when a route is registered twice.
\<close>

definition info_routes :: "bytes list" where
  "info_routes = [lit ''/heartbeat'', lit ''/stats'', lit ''/scrape'', lit ''/announce'']"

definition info_serve :: "installation \<Rightarrow> panic + fatal option" where
  "info_serve ins =
     (case GenerateEmbeddedCache (in_embed ins) of
        Inl _ \<Rightarrow> Inr (Some CacheFailed)
      | Inr cache \<Rightarrow>
          (if list_ex (\<lambda>route. fmlookup cache route \<noteq> None) info_routes then Inl ExplicitPanic
           else Inr None))"

text \<open>
  What the information server answers under a path: the routes, the cached files, and the root,
  whose pattern matches every path that has no other. The announce response is fixed.
\<close>

definition info_announce :: bytes where
  "info_announce = fst (GetBytes (Dict_Int64 (lit ''interval'') 86400 NewDictionary))"

definition info_response :: "embedded_cache \<Rightarrow> bytes \<Rightarrow> bytes \<Rightarrow> bytes option" where
  "info_response cache stats_body path =
     (if path = lit ''/heartbeat'' then Some []
      else if path = lit ''/stats'' then Some stats_body
      else if path = lit ''/scrape'' then Some []
      else if path = lit ''/announce'' then Some info_announce
      else
        (case fmlookup cache path of
           Some data \<Rightarrow> Some data
         | None \<Rightarrow> fmlookup cache (lit ''/'')))"

definition start_http :: "installation \<Rightarrow> configuration \<Rightarrow> panic + (fatal + (http_build \<times> bytes list))" where
  "start_http ins c =
     (if HTTP_Mode c = lit ''enabled'' then Inr (http_Serve ins c)
      else if HTTP_Mode c = lit ''info'' then
        bindP (info_serve ins) (\<lambda>r. case r of Some f \<Rightarrow> Inr (Inl f) | None \<Rightarrow> Inr (Inr (in_build ins, [])))
      else Inr (Inr (in_build ins, [])))"

definition start_udp_tracker ::
  "'o platform \<Rightarrow> installation \<Rightarrow> configuration \<Rightarrow> 'o store \<Rightarrow> fatal + connectionDatabase option" where
  "start_udp_tracker P ins c st =
     (if \<not> UDP_Enabled c then Inr None
      else if \<not> in_listen_udp ins then Inl UdpFailed
      else
        Inr (Some (u_conndb (udp_init (in_gob ins) (os_files P) (CachePath (in_dirs ins)) (s_out st) c (s_world st)))))"

text \<open>
  \<open>Run\<close>: the database is opened before the pools are made; a fatal error ends the process.
\<close>

definition Run ::
  "'o platform \<Rightarrow> installation \<Rightarrow> env \<Rightarrow> hash_order \<Rightarrow> 'o store \<Rightarrow> panic + (fatal + 'o tracker)" where
  "Run P ins e ho st =
     (if \<not> loaded (conf e) then Inr (Inl ConfigNotLoaded)
      else
        bindP (Open P registered e ho st) (\<lambda>(res, st1).
        case res of
          Inl x \<Rightarrow> Inr (Inl (StorageFailed x))
        | Inr (r, jobs) \<Rightarrow>
            let st2 = st1\<lparr>s_world := (s_world st1)\<lparr>w_pools := Some (Initialize (Numwant_Limit (conf e)))\<rparr>\<rparr> in
            bindP (start_http ins (conf e)) (\<lambda>http.
            case http of
              Inl f \<Rightarrow> Inr (Inl f)
            | Inr (b, workers) \<Rightarrow>
                (case start_udp_tracker P ins (conf e) st2 of
                   Inl f \<Rightarrow> Inr (Inl f)
                 | Inr conns \<Rightarrow>
                     Inr (Inr \<lparr>t_store = st2, t_backup = r, t_jobs = jobs, t_conns = conns, t_sent = [], t_written = [],
                       t_build = b, t_workers = workers, t_expvars = []\<rparr>)))))"

text \<open>
  The process from its first instruction: the packages are initialised, then \<open>Run\<close> asks the
  configuration whether it is loaded, which dereferences it. \<open>None\<close> is a process that its
  initialisation ended.
\<close>

definition start_process ::
  "'o platform \<Rightarrow> (bytes \<Rightarrow> bytes) \<Rightarrow> (bytes list \<Rightarrow> 'o \<Rightarrow> configuration option) \<Rightarrow> installation \<Rightarrow> env
     \<Rightarrow> hash_order \<Rightarrow> 'o store \<Rightarrow> (panic + (fatal + 'o tracker)) option" where
  "start_process P uni fig ins e ho st =
     (case config_init P uni fig (in_embed ins) (s_out st) of
        InitExits \<Rightarrow> None
      | Initialised None d out \<Rightarrow> Some (Inl NilDereference)
      | Initialised (Some c) d out \<Rightarrow>
          Some (Run P (ins\<lparr>in_dirs := d\<rparr>) (e\<lparr>conf := c\<rparr>) ho (st\<lparr>s_out := out\<rparr>)))"

section \<open>Events\<close>

text \<open>
  What happens to a running process: a datagram for a UDP thread, a turn of an HTTP worker, the
  tick of a scheduled job, the trimming of the connections, the publishing of the statistics
  and the signals. Each carries the clock and the choices of the run time for its handling.
\<close>

datatype process_event =
    Datagram env bytes udp_addr
  | HttpTurn env nat http_event
  | JobTick env nat
  | TrimConns int64 "addr_port list"
  | PublishTick env runtime
  | SaveSignal env
  | ExitSignal env

definition t_world :: "'o tracker \<Rightarrow> memory world" where
  "t_world t = s_world (t_store t)"

definition with_world :: "memory world \<Rightarrow> 'o tracker \<Rightarrow> 'o tracker" where
  "with_world w t = t\<lparr>t_store := (t_store t)\<lparr>s_world := w\<rparr>\<rparr>"

text \<open>The UDP tracker's view of the process; it is nil when UDP is disabled.\<close>

definition t_udp :: "'o tracker \<Rightarrow> memory udp_tracker option" where
  "t_udp t = map_option (\<lambda>c. \<lparr>u_conndb = c, u_world = t_world t, u_sent = t_sent t\<rparr>) (t_conns t)"

definition with_udp :: "memory udp_tracker \<Rightarrow> 'o tracker \<Rightarrow> 'o tracker" where
  "with_udp u t = with_world (u_world u) (t\<lparr>t_conns := Some (u_conndb u), t_sent := u_sent u\<rparr>)"

definition on_datagram :: "env \<Rightarrow> bytes \<Rightarrow> udp_addr \<Rightarrow> 'o tracker \<Rightarrow> panic + 'o tracker" where
  "on_datagram e d r t =
     (case t_udp t of
        None \<Rightarrow> Inr t
      | Some u \<Rightarrow> bindP (receive gomap e d r u) (\<lambda>u'. Inr (with_udp u' t)))"

definition on_http :: "env \<Rightarrow> nat \<Rightarrow> http_event \<Rightarrow> 'o tracker \<Rightarrow> panic + 'o tracker" where
  "on_http e i ev t =
     (if i < length (t_workers t) then
        bindP (worker_step gomap e (t_build t) ev \<lparr>k_buf = t_workers t ! i, k_world = t_world t\<rparr>)
          (\<lambda>(go, k, outs). Inr (with_world (k_world k)
            (t\<lparr>t_workers := (t_workers t)[i := k_buf k], t_written := t_written t @ map (Pair i) outs\<rparr>)))
      else Inr t)"

text \<open>The error of a backup job is only logged.\<close>

definition save_db :: "'o platform \<Rightarrow> hash_order \<Rightarrow> env \<Rightarrow> 'o tracker \<Rightarrow> panic + 'o tracker" where
  "save_db P ho e t =
     bindP (bk_Save (backup_of P (t_backup t)) e ho (t_store t)) (\<lambda>(er, st). Inr (t\<lparr>t_store := st\<rparr>))"

definition on_job :: "'o platform \<Rightarrow> hash_order \<Rightarrow> env \<Rightarrow> nat \<Rightarrow> 'o tracker \<Rightarrow> panic + 'o tracker" where
  "on_job P ho e i t =
     (if i < length (t_jobs t) then
        (case t_jobs t ! i of
           BackupJob _ \<Rightarrow> save_db P ho e t
         | TrimJob _ \<Rightarrow>
             bindP (trim e (ho (entries (w_db (t_world t)))) (t_world t)) (\<lambda>(counts, w). Inr (with_world w t)))
      else Inr t)"

definition on_publish :: "env \<Rightarrow> runtime \<Rightarrow> 'o tracker \<Rightarrow> panic + 'o tracker" where
  "on_publish e rt t =
     bindP (publish_tick gomap e rt (Connections (t_udp t)) (t_world t)) (\<lambda>(x, w).
       Inr (with_world w (t\<lparr>t_expvars := t_expvars t @ [x]\<rparr>)))"

text \<open>
  Both signals save the database and then the connections, whatever the first one returned;
  \<open>ExitSignal\<close> stops the servers before, so their threads end.
\<close>

definition save_conns :: "'o platform \<Rightarrow> installation \<Rightarrow> 'o tracker \<Rightarrow> 'o tracker" where
  "save_conns P ins t =
     (case WriteConns (in_gob ins) (os_files P) (CachePath (in_dirs ins)) (t_udp t) (s_out (t_store t)) of
        (er, out) \<Rightarrow> t\<lparr>t_store := (t_store t)\<lparr>s_out := out\<rparr>\<rparr>)"

definition on_save_signal ::
  "'o platform \<Rightarrow> installation \<Rightarrow> hash_order \<Rightarrow> env \<Rightarrow> 'o tracker \<Rightarrow> panic + 'o tracker" where
  "on_save_signal P ins ho e t = bindP (save_db P ho e t) (\<lambda>t'. Inr (save_conns P ins t'))"

definition handle ::
  "'o platform \<Rightarrow> installation \<Rightarrow> hash_order \<Rightarrow> process_event \<Rightarrow> 'o tracker \<Rightarrow> panic + (bool \<times> 'o tracker)" where
  "handle P ins ho ev t =
     (case ev of
        Datagram e d r \<Rightarrow> bindP (on_datagram e d r t) (\<lambda>t'. Inr (True, t'))
      | HttpTurn e i hev \<Rightarrow> bindP (on_http e i hev t) (\<lambda>t'. Inr (True, t'))
      | JobTick e i \<Rightarrow> bindP (on_job P ho e i t) (\<lambda>t'. Inr (True, t'))
      | TrimConns time ks \<Rightarrow>
          Inr (True, t\<lparr>t_conns := map_option (\<lambda>c. snd (conn_trim time ks c)) (t_conns t)\<rparr>)
      | PublishTick e rt \<Rightarrow>
          (if 0 < sint (ExpvarInterval (conf e))
           then bindP (on_publish e rt t) (\<lambda>t'. Inr (True, t')) else Inr (True, t))
      | SaveSignal e \<Rightarrow> bindP (on_save_signal P ins ho e t) (\<lambda>t'. Inr (True, t'))
      | ExitSignal e \<Rightarrow> bindP (on_save_signal P ins ho e t) (\<lambda>t'. Inr (False, t')))"

text \<open>The life of a process: its events until it exits.\<close>

fun live ::
  "'o platform \<Rightarrow> installation \<Rightarrow> hash_order \<Rightarrow> process_event list \<Rightarrow> 'o tracker \<Rightarrow> panic + 'o tracker" where
  "live P ins ho [] t = Inr t"
| "live P ins ho (ev # evs) t =
     bindP (handle P ins ho ev t) (\<lambda>(go, t'). if go then live P ins ho evs t' else Inr t')"

section \<open>The invariant of a process\<close>

definition tracker_ok :: "int64 \<Rightarrow> 'o tracker \<Rightarrow> bool" where
  "tracker_ok lim t \<longleftrightarrow>
     world_ok mem_ok lim (t_world t) \<and> driver_ready (t_backup t) (t_store t) \<and>
     build_ok (t_build t) \<and> \<not> heroku (t_build t) \<and> (\<forall>buf \<in> set (t_workers t). length buf = httpRequestMax)"

definition env_valid :: "env \<Rightarrow> bool" where
  "env_valid e \<longleftrightarrow> env_ok e \<and> numwant_ok (conf e) \<and> fuzz_ok (conf e)"

fun event_ok :: "process_event \<Rightarrow> bool" where
  "event_ok (Datagram e d r) = (env_valid e \<and> remote_ok r)"
| "event_ok (HttpTurn e i ev) = env_valid e"
| "event_ok (JobTick e i) = env_valid e"
| "event_ok (TrimConns t ks) = True"
| "event_ok (PublishTick e rt) = True"
| "event_ok (SaveSignal e) = True"
| "event_ok (ExitSignal e) = True"

lemma with_world_sel [simp]:
  "t_world (with_world w t) = w" "t_backup (with_world w t) = t_backup t" "t_build (with_world w t) = t_build t"
  "t_workers (with_world w t) = t_workers t" "t_jobs (with_world w t) = t_jobs t"
  "t_conns (with_world w t) = t_conns t" "s_out (t_store (with_world w t)) = s_out (t_store t)"
  by (simp_all add: with_world_def t_world_def)

lemma ready_with_world [simp]:
  "driver_ready r (t_store (with_world w t)) = driver_ready r (t_store t)"
  by (cases r) (simp_all add: with_world_def file_ready_def pg_ready_def)

lemma tracker_ok_world:
  assumes "tracker_ok lim t" and "world_ok mem_ok lim w"
  shows "tracker_ok lim (with_world w t)"
  using assms by (simp add: tracker_ok_def)

lemma tracker_ok_sel [simp]:
  "tracker_ok lim (t\<lparr>t_conns := c\<rparr>) = tracker_ok lim t" "tracker_ok lim (t\<lparr>t_sent := s\<rparr>) = tracker_ok lim t"
  "tracker_ok lim (t\<lparr>t_written := y\<rparr>) = tracker_ok lim t"
  "tracker_ok lim (t\<lparr>t_expvars := x\<rparr>) = tracker_ok lim t"
  by (simp_all add: tracker_ok_def t_world_def)

text \<open>A saved database is the only way to a panic, and only an empty one in Postgres.\<close>

definition pg_empty :: "'o tracker \<Rightarrow> bool" where
  "pg_empty t \<longleftrightarrow> t_backup t = PgRef \<and> entries (w_db (t_world t)) = fmempty"

definition continues :: "int64 \<Rightarrow> 'o tracker \<Rightarrow> panic + 'o tracker \<Rightarrow> bool" where
  "continues lim t r \<longleftrightarrow> (\<exists>t'. r = Inr t' \<and> tracker_ok lim t' \<and> t_backup t' = t_backup t)"

lemma on_datagram_ok:
  assumes "tracker_ok lim t" "limit_ok lim" "env_valid e" "remote_ok r"
  shows "continues lim t (on_datagram e d r t)"
proof (cases "t_conns t")
  case None
  with assms(1) show ?thesis by (simp add: on_datagram_def t_udp_def continues_def)
next
  case (Some c)
  let ?u = "\<lparr>u_conndb = c, u_world = t_world t, u_sent = t_sent t\<rparr>"
  have w: "world_ok mem_ok lim (u_world ?u)" using assms(1) by (simp add: tracker_ok_def)
  have "\<exists>u'. receive gomap e d r ?u = Inr u' \<and> world_ok mem_ok lim (u_world u')"
  proof (cases "length (take requestSizeMax d) > 15")
    case True
    with gomap.process_post [OF w assms(2) _ _ assms(4) request_ok_receive [OF True], of e] assms(3)
    show ?thesis by (auto simp: receive_def Let_def udp_post_def env_valid_def)
  next
    case False
    with w show ?thesis by (auto simp: receive_def Let_def)
  qed
  then obtain u' where u': "receive gomap e d r ?u = Inr u'" "world_ok mem_ok lim (u_world u')" by blast
  have "on_datagram e d r t = Inr (with_udp u' t)" using Some u'(1) by (simp add: on_datagram_def t_udp_def)
  moreover have "tracker_ok lim (with_udp u' t)"
    unfolding with_udp_def using assms(1) u'(2) by (intro tracker_ok_world) simp_all
  ultimately show ?thesis by (simp add: continues_def with_udp_def)
qed

lemma on_http_ok:
  assumes "tracker_ok lim t" "limit_ok lim" "env_valid e"
  shows "continues lim t (on_http e i ev t)"
proof (cases "i < length (t_workers t)")
  case False
  with assms(1) show ?thesis by (simp add: on_http_def continues_def)
next
  case True
  let ?k = "\<lparr>k_buf = t_workers t ! i, k_world = t_world t\<rparr>"
  have k: "worker_ok mem_ok lim ?k" using assms(1) True by (simp add: tracker_ok_def worker_ok_def)
  have b: "build_ok (t_build t)" "\<not> heroku (t_build t)" using assms(1) by (simp_all add: tracker_ok_def)
  have e: "env_ok e" "fuzz_ok (conf e)" using assms(3) by (simp_all add: env_valid_def)
  obtain go k' outs where s: "worker_step gomap e (t_build t) ev ?k = Inr (go, k', outs)" "worker_ok mem_ok lim k'"
    using gomap.worker_step_ok [OF k b assms(2) e, of ev] by blast
  have bufs: "length buf = httpRequestMax" if "buf \<in> set ((t_workers t)[i := k_buf k'])" for buf
    using that assms(1) s(2) set_update_subset_insert [of "t_workers t" i "k_buf k'"]
    by (auto simp: tracker_ok_def worker_ok_def)
  have "tracker_ok lim (t\<lparr>t_workers := (t_workers t)[i := k_buf k'], t_written := ws\<rparr>)" for ws
    using assms(1) bufs by (simp add: tracker_ok_def t_world_def)
  then have "tracker_ok lim (with_world (k_world k') (t\<lparr>t_workers := (t_workers t)[i := k_buf k'], t_written := ws\<rparr>))" for ws
    using s(2) by (intro tracker_ok_world) (simp_all add: worker_ok_def)
  with True s(1) show ?thesis by (simp add: on_http_def continues_def)
qed

lemma save_db_ok:
  assumes "tracker_ok lim t" "order_ok ho"
  shows "continues lim t (save_db P ho e t) \<or> save_db P ho e t = Inl SliceOutOfRange \<and> pg_empty t"
proof -
  let ?r = "t_backup t" and ?st = "t_store t"
  have ready: "driver_ready ?r ?st" and mem: "mem_ok (w_db (s_world ?st))"
    using assms(1) by (auto simp: tracker_ok_def t_world_def world_ok_def)
  have "(\<exists>er st'. bk_Save (backup_of P ?r) e ho ?st = Inr (er, st')) \<or>
      bk_Save (backup_of P ?r) e ho ?st = Inl SliceOutOfRange \<and> pg_empty t"
  proof (cases "entries (w_db (s_world ?st)) = fmempty")
    case False
    with driver.Save_returns [OF ready assms(2) mem] show ?thesis by blast
  next
    case True
    show ?thesis
    proof (cases ?r)
      case PgRef
      with ready True show ?thesis
        by (auto simp: pg_defs Let_def encode_store_empty [OF assms(2) True] first_20_def pg_empty_def t_world_def
            split: prod.splits bool.splits)
    qed (use ready in \<open>auto simp: none_defs intro: file_backup.Save_always [simplified]\<close>)
  qed
  then show ?thesis
  proof
    assume "\<exists>er st'. bk_Save (backup_of P ?r) e ho ?st = Inr (er, st')"
    then obtain er st' where s: "bk_Save (backup_of P ?r) e ho ?st = Inr (er, st')" by blast
    from driver.Save_law [OF ready s] assms(1) have "tracker_ok lim (t\<lparr>t_store := st'\<rparr>)"
      by (simp add: tracker_ok_def t_world_def)
    with s show ?thesis by (simp add: save_db_def continues_def)
  qed (simp add: save_db_def)
qed

lemma on_job_ok:
  assumes "tracker_ok lim t" "order_ok ho" "env_valid e"
  shows "continues lim t (on_job P ho e i t) \<or> on_job P ho e i t = Inl SliceOutOfRange \<and> pg_empty t"
proof (cases "i < length (t_jobs t)")
  case False
  with assms(1) show ?thesis by (simp add: on_job_def continues_def)
next
  case True
  show ?thesis
  proof (cases "t_jobs t ! i")
    case (BackupJob d)
    with True save_db_ok [OF assms(1,2)] show ?thesis by (simp add: on_job_def)
  next
    case (TrimJob d)
    have "world_ok mem_ok lim (t_world t)" using assms(1) by (simp add: tracker_ok_def)
    then obtain n w where r: "trim e (ho (entries (w_db (t_world t)))) (t_world t) = Inr (n, w)" "world_ok mem_ok lim w"
      using trim_hashes_result [of lim "t_world t" e "ho (entries (w_db (t_world t)))" "(0, 0)"] assms(3)
      by (auto simp: trim_def trims_def env_valid_def)
    with True TrimJob tracker_ok_world [OF assms(1) r(2)] show ?thesis by (simp add: on_job_def continues_def)
  qed
qed

lemma on_publish_ok:
  assumes "tracker_ok lim t"
  shows "continues lim t (on_publish e rt t)"
proof -
  have w: "world_ok mem_ok lim (t_world t)" using assms by (simp add: tracker_ok_def)
  then obtain x w' where r: "publish_tick gomap e rt (Connections (t_udp t)) (t_world t) = Inr (x, w')"
      "world_ok mem_ok lim w'"
    by (auto simp: publish_tick_def publish_read_def world_ok_def Let_def)
  have "tracker_ok lim (with_world w' (t\<lparr>t_expvars := t_expvars t @ [x]\<rparr>))"
    using assms r(2) by (intro tracker_ok_world) simp_all
  with r(1) show ?thesis by (simp add: on_publish_def continues_def)
qed

lemma save_conns_ok:
  assumes "tracker_ok lim t"
  shows "tracker_ok lim (save_conns P ins t)" and "t_backup (save_conns P ins t) = t_backup t"
proof -
  have "driver_ready r ((t_store t)\<lparr>s_out := out\<rparr>) = driver_ready r (t_store t)" for r out
    by (cases r) (simp_all add: file_ready_def pg_ready_def)
  with assms show "tracker_ok lim (save_conns P ins t)" "t_backup (save_conns P ins t) = t_backup t"
    by (simp_all add: save_conns_def tracker_ok_def t_world_def split: prod.splits)
qed

lemma on_save_signal_ok:
  assumes "tracker_ok lim t" "order_ok ho"
  shows "continues lim t (on_save_signal P ins ho e t) \<or> on_save_signal P ins ho e t = Inl SliceOutOfRange \<and> pg_empty t"
  using save_db_ok [OF assms, of P e]
  by (auto simp: on_save_signal_def continues_def save_conns_ok)

text \<open>Every event.\<close>

lemma handle_ok:
  assumes "tracker_ok lim t" "limit_ok lim" "order_ok ho" "event_ok ev"
  shows "(\<exists>go t'. handle P ins ho ev t = Inr (go, t') \<and> tracker_ok lim t' \<and> t_backup t' = t_backup t) \<or>
    handle P ins ho ev t = Inl SliceOutOfRange \<and> pg_empty t"
proof -
  have step: "(\<exists>g t'. bindP r (\<lambda>t'. Inr (go, t')) = Inr (g, t') \<and> tracker_ok lim t' \<and> t_backup t' = t_backup t) \<or>
      bindP r (\<lambda>t'. Inr (go, t')) = Inl SliceOutOfRange \<and> pg_empty t"
    if "continues lim t r \<or> r = Inl SliceOutOfRange \<and> pg_empty t" for r and go :: bool
    using that by (auto simp: continues_def)
  show ?thesis
  proof (cases ev)
    case (Datagram e d r)
    with step [of "on_datagram e d r t" True] on_datagram_ok [OF assms(1,2)] assms(4)
    show ?thesis by (simp add: handle_def)
  next
    case (HttpTurn e i hev)
    with step [of "on_http e i hev t" True] on_http_ok [OF assms(1,2)] assms(4)
    show ?thesis by (simp add: handle_def)
  next
    case (JobTick e i)
    with step [of "on_job P ho e i t" True] on_job_ok [OF assms(1,3)] assms(4)
    show ?thesis by (simp add: handle_def)
  next
    case (TrimConns time ks)
    with assms(1) show ?thesis by (auto simp: handle_def)
  next
    case (PublishTick e rt)
    with step [of "on_publish e rt t" True] on_publish_ok [OF assms(1)] assms(1)
    show ?thesis by (auto simp: handle_def)
  next
    case (SaveSignal e)
    with step [of "on_save_signal P ins ho e t" True] on_save_signal_ok [OF assms(1,3)]
    show ?thesis by (simp add: handle_def)
  next
    case (ExitSignal e)
    with step [of "on_save_signal P ins ho e t" False] on_save_signal_ok [OF assms(1,3)]
    show ?thesis by (simp add: handle_def)
  qed
qed

lemma live_ok:
  assumes "tracker_ok lim t" "limit_ok lim" "order_ok ho" "\<forall>ev \<in> set evs. event_ok ev"
  shows "continues lim t (live P ins ho evs t) \<or> live P ins ho evs t = Inl SliceOutOfRange \<and> t_backup t = PgRef"
  using assms(1,4)
proof (induction evs arbitrary: t)
  case Nil
  then show ?case by (simp add: continues_def)
next
  case (Cons ev evs)
  then have ev: "event_ok ev" "\<forall>ev \<in> set evs. event_ok ev" by simp_all
  from handle_ok [OF Cons.prems(1) assms(2,3) ev(1), of P ins]
  show ?case
  proof
    assume "\<exists>go t'. handle P ins ho ev t = Inr (go, t') \<and> tracker_ok lim t' \<and> t_backup t' = t_backup t"
    then obtain go t' where h: "handle P ins ho ev t = Inr (go, t')" "tracker_ok lim t'" "t_backup t' = t_backup t" by blast
    with Cons.IH [OF h(2) ev(2)] show ?thesis by (cases go) (simp_all add: continues_def)
  qed (simp add: pg_empty_def)
qed

section \<open>Starting\<close>

lemma lookup_registered:
  "fmlookup registered name =
     (if name = lit ''gomap''
      then Some \<lparr>drv_db = GomapRef, drv_backups = fmupd (lit ''none'') NoneRef
        (fmupd (lit ''pg'') PgRef (fmupd (lit ''file'') FileRef fmempty))\<rparr> else None)"
  by (auto simp: registered_def Register_def gomap_info_def add_backup_def)

fun backup_name :: "backup_ref \<Rightarrow> bytes" where
  "backup_name FileRef = lit ''file''"
| "backup_name PgRef = lit ''pg''"
| "backup_name NoneRef = lit ''none''"

text \<open>\<open>Open\<close> on the registered drivers.\<close>

definition registered_backups :: "(bytes, backup_ref) fmap" where
  "registered_backups = fmupd (lit ''none'') NoneRef (fmupd (lit ''pg'') PgRef (fmupd (lit ''file'') FileRef fmempty))"

lemma lookup_backups: "fmlookup registered_backups name = Some r \<longleftrightarrow> name = backup_name r"
  by (cases r) (auto simp: registered_backups_def lit_def)

lemma Open_registered:
  assumes "DB_Type (conf e) = lit ''gomap''" and "DB_Backup_Type (conf e) = backup_name r"
  shows "Open P registered e ho st = bindP (Memory_Init P e r st) (\<lambda>x. Inr (sync_opened e ho r x))"
  using assms lookup_backups [of "backup_name r" r]
  by (simp add: Open_def lookup_registered flip: registered_backups_def)

lemma Open_succeeded:
  assumes "Open P registered e ho st = Inr (Inr (r, jobs), st')"
  obtains st1 where "DB_Type (conf e) = lit ''gomap''" "DB_Backup_Type (conf e) = backup_name r"
    "Memory_Init P e r st = Inr (Inr jobs, st1)"
    "SyncExpvars e (ho (entries (w_db (s_world st1)))) (s_world st1) = (s_world st', None)"
    "st' = st1\<lparr>s_world := s_world st'\<rparr>"
proof -
  from assms have t: "DB_Type (conf e) = lit ''gomap''"
    by (auto simp: Open_def lookup_registered split: if_splits)
  from assms t obtain r' where "fmlookup registered_backups (DB_Backup_Type (conf e)) = Some r'"
    by (auto simp: Open_def lookup_registered simp flip: registered_backups_def split: option.splits)
  then have n: "DB_Backup_Type (conf e) = backup_name r'" by (simp add: lookup_backups)
  from assms [unfolded Open_registered [OF t n] bindP_Inr_iff]
  obtain res st1 where m: "Memory_Init P e r' st = Inr (res, st1)"
    "sync_opened e ho r' (res, st1) = (Inr (r, jobs), st')" by auto
  obtain w er where sy: "SyncExpvars e (ho (entries (w_db (s_world st1)))) (s_world st1) = (w, er)"
    by (cases "SyncExpvars e (ho (entries (w_db (s_world st1)))) (s_world st1)")
  from m(2) sy have "res = Inr jobs" "r' = r" "er = None" "st' = st1\<lparr>s_world := w\<rparr>"
    by (auto simp: sync_opened_def split: sum.splits option.splits)
  with t n m(1) sy show ?thesis by (intro that) auto
qed

text \<open>What a process that started holds: an empty, well-formed database and initialised pools.\<close>

lemma Memory_Init_succeeded:
  assumes "Memory_Init P e r st = Inr (Inr jobs, st')" and "w_pools (s_world st) = None"
  shows "driver_ready r st' \<and> w_pools (s_world st') = None \<and> blank (w_db (s_world st')) \<and>
    w_stats (s_world st') = w_stats (s_world st) \<and> jobs = scheduled_jobs (conf e)"
proof -
  let ?st = "st\<lparr>s_world := (s_world st)\<lparr>w_db := \<lparr>hashmap = None\<rparr>\<rparr>\<rparr>"
  from assms(1) obtain st1 where i: "bk_Init (backup_of P r) e MemRef ?st = Inr (None, st1)"
    and l: "bk_Load (backup_of P r) e st1 = Inr (None, st')" "jobs = scheduled_jobs (conf e)"
    by (auto simp: Memory_Init_def Let_def bindP_Inr_iff split: option.splits)
  from driver.start_law [OF _ i l(1)] assms(2) l(2) show ?thesis by simp
qed

lemma SyncExpvars_blank:
  assumes "SyncExpvars e hs w = (w', None)" and "blank (w_db w)"
  shows "w_db w' = w_db w \<and> w_pools w' = w_pools w \<and> Seeds (w_stats w') = 0 \<and> Leeches (w_stats w') = 0 \<and>
    IPStats (w_stats w') = IPStats (w_stats w) \<and> request_counts (w_stats w') = request_counts (w_stats w)"
proof -
  have "all_peers e hs (w_db w) = []"
  proof -
    have none: "List.map_filter (fmlookup fmempty) ids = []" for ids :: "peer_id list"
      by (simp add: List.map_filter_def)
    have "List.map_filter (fmlookup (Peers pm)) ids = []"
      if "fmlookup (entries (w_db w)) h = Some pm" for h pm ids
      using blank_row [OF assms(2) that] none by simp
    then have "concat (map (\<lambda>pm. List.map_filter (fmlookup (Peers pm)) (peer_order e (Peers pm)))
        (List.map_filter (fmlookup (entries (w_db w))) hs)) = []"
      by (auto simp: List.map_filter_def)
    then show ?thesis by (simp add: all_peers_def)
  qed
  with assms blank_hashmap [OF assms(2)] show ?thesis
    by (auto simp: SyncExpvars_def Check_def request_counts_def)
qed

text \<open>A successful start, taken apart.\<close>

lemma Run_started:
  assumes "Run P ins e ho st = Inr (Inr t)"
  obtains st1 where "Open P registered e ho st = Inr (Inr (t_backup t, t_jobs t), st1)"
    "t_store t = st1\<lparr>s_world := (s_world st1)\<lparr>w_pools := Some (Initialize (Numwant_Limit (conf e)))\<rparr>\<rparr>"
    "start_http ins (conf e) = Inr (Inr (t_build t, t_workers t))" "loaded (conf e)" "t_sent t = []" "t_written t = []" "t_expvars t = []"
proof -
  from assms have l: "loaded (conf e)" by (auto simp: Run_def split: if_splits)
  with assms obtain res st1 where o: "Open P registered e ho st = Inr (res, st1)"
    by (cases "Open P registered e ho st") (auto simp: Run_def)
  obtain r jobs where r: "res = Inr (r, jobs)"
    using assms l o by (cases res) (auto simp: Run_def)
  obtain http where h: "start_http ins (conf e) = Inr http"
    using assms l o r by (cases "start_http ins (conf e)") (auto simp: Run_def Let_def)
  obtain b workers where w: "http = Inr (b, workers)"
    using assms l o r h by (cases http) (auto simp: Run_def Let_def)
  from assms l o r h w show ?thesis
    by (intro that [of st1]) (auto simp: Run_def Let_def split: sum.splits)
qed

lemma start_http_ok:
  assumes "start_http ins c = Inr (Inr (b, workers))"
  shows "b64_left b = b64_left (in_build ins)" "heroku b = heroku (in_build ins)"
    "\<forall>buf \<in> set workers. length buf = httpRequestMax"
  using assms by (auto simp: start_http_def http_Serve_def bindP_Inr_iff split: if_splits sum.splits option.splits)

text \<open>An opened database, once the pools are made.\<close>

lemma opened_ok:
  assumes "Open P registered e ho st = Inr (Inr (r, jobs), st1)" and "w_pools (s_world st) = None"
    and t: "t_store t = st1\<lparr>s_world := (s_world st1)\<lparr>w_pools := Some (Initialize (Numwant_Limit (conf e)))\<rparr>\<rparr>"
  shows "driver_ready r (t_store t)" "blank (w_db (t_world t))"
    "w_pools (t_world t) = Some (Initialize (Numwant_Limit (conf e)))"
    "Seeds (w_stats (t_world t)) = 0" "Leeches (w_stats (t_world t)) = 0"
    "IPStats (w_stats (t_world t)) = IPStats (w_stats (s_world st))"
    "jobs = scheduled_jobs (conf e)" "DB_Backup_Type (conf e) = backup_name r"
proof -
  from Open_succeeded [OF assms(1)] obtain st2 where m: "Memory_Init P e r st = Inr (Inr jobs, st2)"
    and sy: "SyncExpvars e (ho (entries (w_db (s_world st2)))) (s_world st2) = (s_world st1, None)"
    and st1: "st1 = st2\<lparr>s_world := s_world st1\<rparr>" and n: "DB_Backup_Type (conf e) = backup_name r" by metis
  note i = Memory_Init_succeeded [OF m assms(2)]
  from i have "blank (w_db (s_world st2))" by simp
  note x = SyncExpvars_blank [OF sy this]
  have "driver_ready r (st2\<lparr>s_world := w\<rparr>)" for w
    using driver.ready_world i by blast
  from this [of "(s_world st1)\<lparr>w_pools := Some (Initialize (Numwant_Limit (conf e)))\<rparr>"]
  show "driver_ready r (t_store t)" unfolding t by (subst st1) simp
  show "blank (w_db (t_world t))" "w_pools (t_world t) = Some (Initialize (Numwant_Limit (conf e)))"
    "Seeds (w_stats (t_world t)) = 0" "Leeches (w_stats (t_world t)) = 0"
    "IPStats (w_stats (t_world t)) = IPStats (w_stats (s_world st))"
    "jobs = scheduled_jobs (conf e)" "DB_Backup_Type (conf e) = backup_name r"
    using x i n by (simp_all add: t_world_def t)
qed

lemma started_ok:
  assumes "Run P ins e ho st = Inr (Inr t)" and "w_pools (s_world st) = None"
  shows "driver_ready (t_backup t) (t_store t)" "blank (w_db (t_world t))"
    "w_pools (t_world t) = Some (Initialize (Numwant_Limit (conf e)))"
    "Seeds (w_stats (t_world t)) = 0" "Leeches (w_stats (t_world t)) = 0"
    "IPStats (w_stats (t_world t)) = IPStats (w_stats (s_world st))"
    "t_jobs t = scheduled_jobs (conf e)" "DB_Backup_Type (conf e) = backup_name (t_backup t)"
proof -
  from Run_started [OF assms(1)] obtain st1 where o: "Open P registered e ho st = Inr (Inr (t_backup t, t_jobs t), st1)"
    and s: "t_store t = st1\<lparr>s_world := (s_world st1)\<lparr>w_pools := Some (Initialize (Numwant_Limit (conf e)))\<rparr>\<rparr>" by metis
  show "driver_ready (t_backup t) (t_store t)" "blank (w_db (t_world t))"
    "w_pools (t_world t) = Some (Initialize (Numwant_Limit (conf e)))"
    "Seeds (w_stats (t_world t)) = 0" "Leeches (w_stats (t_world t)) = 0"
    "IPStats (w_stats (t_world t)) = IPStats (w_stats (s_world st))"
    "t_jobs t = scheduled_jobs (conf e)" "DB_Backup_Type (conf e) = backup_name (t_backup t)"
    using opened_ok [OF o assms(2) s] by simp_all
qed

lemma started_tracker_ok:
  assumes "Run P ins e ho st = Inr (Inr t)" and "w_pools (s_world st) = None"
    and "build_ok (in_build ins)" "\<not> heroku (in_build ins)"
  shows "tracker_ok (Numwant_Limit (conf e)) t"
proof -
  from Run_started [OF assms(1)] have h: "start_http ins (conf e) = Inr (Inr (t_build t, t_workers t))" by metis
  from start_http_ok [OF h] assms(3,4) started_ok [OF assms(1,2)] blank_mem_ok
  show ?thesis by (auto simp: tracker_ok_def world_ok_def build_ok_def pools_ok_Initialize)
qed

text \<open>The information server sends clients away for a day, and never serves the configuration.\<close>

lemma info_announce_day: "info_announce = benc (BDict [(lit ''interval'', BInt 86400)])"
proof -
  have "sint (86400 :: int64) = 86400" by simp
  then show ?thesis
    by (simp add: info_announce_def GetBytes_eq Dict_Int64_append NewDictionary_eq lit_def)
qed

lemma info_no_config:
  assumes "GenerateEmbeddedCache ef = Inr cache" and "info_response cache body (lit ''/trakx.yaml'') = Some x"
  shows "fmlookup cache (lit ''/'') = Some x"
proof -
  obtain dir where "ReadDir ef = Some dir" using assms(1) by (auto simp: GenerateEmbeddedCache_def split: option.splits)
  from cache_files(2) [OF assms(1) this] assms(2) show ?thesis by (simp add: info_response_def lit_def)
qed

section \<open>An installation\<close>

definition sample_installation :: installation where
  "sample_installation =
     \<lparr>in_embed = sample_embed, in_gob = \<lparr>gob_enc = \<lambda>m. [], gob_dec = \<lambda>bs m. (True, fmempty)\<rparr>,
      in_dirs = \<lparr>configPath = [], CachePath = []\<rparr>, in_build = plain_build, in_listen_tcp = True,
      in_listen_udp = True\<rparr>"

definition sample_out :: sample_outside where
  "sample_out = \<lparr>d_files = Map.empty, d_rows = [], d_time = 0\<rparr>"

definition new_process :: "sample_outside \<Rightarrow> sample_outside store" where
  "new_process out =
     \<lparr>s_world = \<lparr>w_stats = zero_stats, w_pools = None, w_db = \<lparr>hashmap = None\<rparr>\<rparr>,
      s_file = NilRef, s_pg = NilRef, s_pgopen = False, s_out = out\<rparr>"

lemma default_drivers:
  "loaded default_config" "DB_Type default_config = lit ''gomap''" "DB_Backup_Type default_config = backup_name NoneRef"
  "HTTP_Mode default_config = lit ''enabled''" "Numwant_Limit default_config = 200" "UDP_Enabled default_config"
  by (simp_all add: default_config_def)

lemma sample_Run: "\<exists>t. Run sample_platform sample_installation (sample_env 0) sorted_order (new_process out) = Inr (Inr t)"
proof -
  have "\<exists>jobs st'. Open sample_platform registered (sample_env 0) sorted_order (new_process out) = Inr (Inr (NoneRef, jobs), st')"
    by (subst Open_registered [where r = NoneRef])
      (simp_all add: default_drivers Memory_Init_def none_defs sync_opened_def SyncExpvars_def Check_def make_db_def
        memory_make_def split: prod.splits)
  then obtain jobs st' where o: "Open sample_platform registered (sample_env 0) sorted_order (new_process out) =
      Inr (Inr (NoneRef, jobs), st')" by blast
  have h: "\<exists>b ws. start_http sample_installation default_config = Inr (Inr (b, ws))"
    by (simp add: start_http_def default_drivers http_Serve_def sample_installation_def sample_cache)
  have u: "\<exists>c. start_udp_tracker sample_platform sample_installation default_config st = Inr c" for st
    by (simp add: start_udp_tracker_def sample_installation_def)
  from o h u show ?thesis by (auto simp: Run_def default_drivers Let_def split: sum.splits) (metis sum.distinct(1))
qed

section \<open>Properties\<close>

text \<open>
  C2: A started process never panics: whatever datagrams and connections arrive and whatever jobs and
  signals run, in any order, each with its own clock and choices of the run time, every event is
  handled and leaves the database well-formed, with exact counters, and the pools in order. The
  only panic there is, is that of a Postgres backup of an empty database. The build is one
  without forwarding, peer limits are not zero as 32-bit numbers, and a positive announce fuzz is
  at least a second.
\<close>

theorem process_never_panics:
  assumes "Run P ins e ho st = Inr (Inr t)" and "w_pools (s_world st) = None"
    and "build_ok (in_build ins)" "\<not> heroku (in_build ins)" "limit_ok (Numwant_Limit (conf e))" "order_ok ho"
    and "\<forall>ev \<in> set evs. event_ok ev"
  shows "(\<exists>t'. live P ins ho evs t = Inr t' \<and> world_ok mem_ok (Numwant_Limit (conf e)) (t_world t')) \<or>
    live P ins ho evs t = Inl SliceOutOfRange \<and> DB_Backup_Type (conf e) = lit ''pg''"
  using live_ok [OF started_tracker_ok [OF assms(1-4)] assms(5-7), of P ins] started_ok(8) [OF assms(1,2)]
  by (auto simp: continues_def tracker_ok_def)

theorem process_never_panics_witness:
  "\<exists>t t'. Run sample_platform sample_installation (sample_env 0) sorted_order (new_process sample_out) = Inr (Inr t) \<and>
     live sample_platform sample_installation sorted_order
       [Datagram (sample_env 9) [1, 2, 3] loopback, HttpTurn (sample_env 10) 0 (Request (lit ''GET /'') (Addr4 1, 2)),
        JobTick (sample_env 11) 0, SaveSignal (sample_env 12)] t = Inr t' \<and> world_ok mem_ok 200 (t_world t')"
proof -
  obtain t where t: "Run sample_platform sample_installation (sample_env 0) sorted_order (new_process sample_out) = Inr (Inr t)"
    using sample_Run by blast
  have e: "env_valid (sample_env n)" for n by (simp add: env_valid_def)
  have "DB_Backup_Type default_config \<noteq> lit ''pg''" by (simp add: default_drivers lit_def)
  with process_never_panics [OF t, of "[Datagram (sample_env 9) [1, 2, 3] loopback,
      HttpTurn (sample_env 10) 0 (Request (lit ''GET /'') (Addr4 1, 2)), JobTick (sample_env 11) 0,
      SaveSignal (sample_env 12)]"] t e
  show ?thesis by (simp add: new_process_def sample_installation_def default_drivers)
qed

text \<open>
  A process that starts holds no peer, whatever was saved: the swarms and the seed and leech
  statistics are empty, the pools are fresh and the configured jobs are scheduled.
\<close>

theorem started_swarm_empty:
  assumes "Run P ins e ho st = Inr (Inr t)" and "w_pools (s_world st) = None"
  shows "mem_swarm (w_db (t_world t)) = (\<lambda>h. Map.empty) \<and> Seeds (w_stats (t_world t)) = 0 \<and>
    Leeches (w_stats (t_world t)) = 0 \<and> w_pools (t_world t) = Some (Initialize (Numwant_Limit (conf e))) \<and>
    t_jobs t = scheduled_jobs (conf e)"
  using started_ok [OF assms] blank_swarm by blast

theorem started_swarm_empty_witness:
  "\<exists>t. Run sample_platform sample_installation (sample_env 0) sorted_order (new_process sample_out) = Inr (Inr t) \<and>
     mem_swarm (w_db (t_world t)) = (\<lambda>h. Map.empty) \<and> t_jobs t = scheduled_jobs default_config"
proof -
  obtain t where t: "Run sample_platform sample_installation (sample_env 0) sorted_order (new_process sample_out) = Inr (Inr t)"
    using sample_Run by blast
  with started_swarm_empty [OF t] show ?thesis by (simp add: new_process_def)
qed

text \<open>
  C26: A saved swarm makes the next start crash: after a successful save of a database that holds a
  peer, to a file or to Postgres, a process that starts with the same outside, driver and path
  panics with a nil dereference, because the pools are made only after the database is opened.
\<close>

theorem restart_after_save_panics:
  assumes "outside_trusted r P" "driver_ready r st" "bk_Save (backup_of P r) e ho st = Inr (None, saved)"
    and "order_ok ho" "env_ok e" "mem_ok (w_db (s_world st))" "snapshot_ok (entries (w_db (s_world st)))"
    and "mem_swarm (w_db (s_world st)) h i \<noteq> None"
    and "s_out fresh = s_out saved" "w_pools (s_world fresh) = None"
    and "DB_Backup_Path (conf e') = DB_Backup_Path (conf e)" "loaded (conf e')"
    and "DB_Type (conf e') = lit ''gomap''" "DB_Backup_Type (conf e') = backup_name r"
    and "bk_Init (backup_of P r) e' MemRef (fresh\<lparr>s_world := (s_world fresh)\<lparr>w_db := \<lparr>hashmap = None\<rparr>\<rparr>\<rparr>) =
      Inr (None, inited)"
  shows "Run P ins e' ho' fresh = Inl NilDereference"
proof -
  let ?fresh = "fresh\<lparr>s_world := (s_world fresh)\<lparr>w_db := \<lparr>hashmap = None\<rparr>\<rparr>\<rparr>"
  have "bk_Load (backup_of P r) e' inited = Inl NilDereference"
    by (rule keeper.Load_unpooled_panics [OF assms(1-3) _ assms(11,15,4-8)]) (simp_all add: assms(9,10))
  with assms(15) have "Memory_Init P e' r fresh = Inl NilDereference"
    by (simp add: Memory_Init_def Let_def)
  with assms(12) show ?thesis by (simp add: Run_def Open_registered [OF assms(13,14)])
qed

definition file_config :: configuration where
  "file_config = default_config\<lparr>DB_Backup_Type := lit ''file''\<rparr>"

theorem restart_after_save_panics_witness:
  "\<exists>saved. FileBackup_Save sample_platform (sample_env 0) sorted_order
       (sample_store (one_hash_world (replicate 20 3) two_peers)) = Inr (None, saved) \<and>
     Run sample_platform sample_installation ((sample_env 9)\<lparr>conf := file_config\<rparr>) sorted_order
       (new_process (s_out saved)) = Inl NilDereference"
proof -
  let ?st = "sample_store (one_hash_world (replicate 20 3) two_peers)"
  obtain saved where save: "FileBackup_Save sample_platform (sample_env 0) sorted_order ?st = Inr (None, saved)"
    by (simp add: file_defs sample_platform_def Let_def)
  let ?fresh = "new_process (s_out saved)"
  have init: "bk_Init (backup_of sample_platform FileRef) ((sample_env 9)\<lparr>conf := file_config\<rparr>) MemRef
      (?fresh\<lparr>s_world := (s_world ?fresh)\<lparr>w_db := \<lparr>hashmap = None\<rparr>\<rparr>\<rparr>) =
      Inr (None, ?fresh\<lparr>s_world := (s_world ?fresh)\<lparr>w_db := \<lparr>hashmap = None\<rparr>\<rparr>, s_file := MemRef\<rparr>)"
    by (simp add: file_defs)
  have "mem_swarm (w_db (s_world ?st)) (replicate 20 3) (replicate 20 1) \<noteq> None"
    by (simp add: mem_swarm_def two_peers_def)
  from restart_after_save_panics [where r = FileRef, OF _ _ _ _ _ _ _ this _ _ _ _ _ _ init, where
      ho = sorted_order and e = "sample_env 0" and saved = saved and ho' = sorted_order and ins = sample_installation] save
  have "Run sample_platform sample_installation ((sample_env 9)\<lparr>conf := file_config\<rparr>) sorted_order ?fresh = Inl NilDereference"
    by (simp add: new_process_def file_config_def default_drivers FileBackup_def file_ready_def)
  with save show ?thesis by blast
qed

text \<open>
  The HTTP tracker serves nothing but its handlers and the embedded files: once it serves, the
  answer to a request for any other path is a 404 or an embedded file of that name (the index
  for the root), and the configuration file is a 404.
\<close>

theorem http_serves_only_embedded_files:
  assumes "http_Serve ins c = Inr (b, workers)" and "ReadDir (in_embed ins) = Some dir"
    and "p_Method p = lit ''GET''"
    and "p_Path p \<notin> {lit ''/announce'', lit ''/scrape'', lit ''/heartbeat'', lit ''/stats''}"
    and "serve gomap e b (Inr p) data remote h = Inr h'"
  shows "h_world h' = h_world h \<and>
    (h_out h' = h_out h @ [status_line ''404''] \<or>
     (\<exists>content. h_out h' = h_out h @ [status_line ''200'' @ content] \<and> p_Path p \<noteq> lit ''/trakx.yaml'' \<and>
        (served_file (in_embed ins) dir (p_Path p) content \<or>
         p_Path p = lit ''/'' \<and> served_file (in_embed ins) dir (lit ''/index.html'') content)))"
proof -
  from assms(1) obtain cache where c: "GenerateEmbeddedCache (in_embed ins) = Inr cache" "fileCache b = cache"
    by (auto simp: http_Serve_def split: if_splits sum.splits)
  note files = cache_files [OF c(1) assms(2)]
  have h': "h' = (case fmlookup cache (p_Path p) of
      Some content \<Rightarrow> conn_Write (status_line ''200'' @ content) h | None \<Rightarrow> conn_Write (status_line ''404'') h)"
    using assms(3-5) c(2) by (auto simp: serve_def Let_def serve_path_def writeData_status_line writeStatus_status_line
      split: option.splits)
  show ?thesis
  proof (cases "fmlookup cache (p_Path p)")
    case None
    then show ?thesis by (simp add: h' conn_Write_def)
  next
    case (Some content)
    with files(1) files(2) show ?thesis by (auto simp: h' conn_Write_def)
  qed
qed

theorem http_serves_only_embedded_files_witness:
  "serve gomap (sample_env 0) (plain_build\<lparr>fileCache := fmupd (lit ''/'') (lit ''<html>'')
      (fmupd (lit ''/index.html'') (lit ''<html>'') fmempty)\<rparr>)
     (Inr (stop_request\<lparr>p_Path := lit ''/trakx.yaml''\<rparr>)) [] (Addr4 1, 2) \<lparr>h_world = start_world, h_out = []\<rparr> =
   Inr \<lparr>h_world = start_world, h_out = [status_line ''404'']\<rparr>"
proof -
  let ?b = "plain_build\<lparr>fileCache := fmupd (lit ''/'') (lit ''<html>'') (fmupd (lit ''/index.html'') (lit ''<html>'') fmempty)\<rparr>"
  let ?p = "stop_request\<lparr>p_Path := lit ''/trakx.yaml''\<rparr>"
  have s: "http_Serve sample_installation default_config =
      Inr (?b, replicate (nat (sint (HTTP_Threads default_config))) (replicate httpRequestMax 0))"
    by (simp add: http_Serve_def sample_installation_def sample_cache)
  obtain h' where h': "serve gomap (sample_env 0) ?b (Inr ?p) [] (Addr4 1, 2) \<lparr>h_world = start_world, h_out = []\<rparr> = Inr h'"
    by (cases "fmlookup (fileCache ?b) (p_Path ?p)")
      (auto simp: serve_def serve_path_def stop_request_def lit_def split: option.splits)
  have dir: "ReadDir (in_embed sample_installation) = Some (the (ReadDir sample_embed))"
    by (simp add: sample_installation_def sample_embed_def)
  have "h_world h' = start_world \<and> h_out h' = [status_line ''404'']"
    using http_serves_only_embedded_files [OF s dir _ _ h'] by (simp add: stop_request_def lit_def)
  then show ?thesis unfolding h' by (cases h') simp
qed

definition home_dirs :: "bytes \<Rightarrow> directories" where
  "home_dirs home = \<lparr>configPath = home @ lit ''/.config/trakx/'', CachePath = home @ lit ''/.cache/trakx/''\<rparr>"

text \<open>
  C31: Configuration errors at the start of a process: with a home directory, a configuration that
  cannot be read is a nil dereference and not the fatal error that \<open>Run\<close> has for it, a \<open>$PORT\<close>
  that is not an integer is that fatal error, and any other start is \<open>Run\<close> on the resolved
  configuration, marked as loaded, with the port of \<open>$PORT\<close> when there is one.
\<close>

theorem configuration_errors_at_start:
  assumes home: "os_UserHomeDir P = (\<lambda>x. Some home)" and env: "os_Getenv P (lit ''PORT'') = (\<lambda>x. port)"
    and fresh: "\<And>dirs x c. fig dirs x = Some c \<Longrightarrow> \<not> loaded c"
    and out: "out = generateConfig P (in_embed ins) (home_dirs home) (snd (initDirectories P \<lparr>configPath = [], CachePath = []\<rparr> (s_out st)))"
  shows "start_process P uni fig ins e ho st =
    (case fig [lit ''.'', home @ lit ''/.config/trakx''] out of
       None \<Rightarrow> Some (Inl NilDereference)
     | Some c \<Rightarrow>
         if port \<noteq> [] \<and> (\<forall>n. Atoi port \<noteq> AtoiOk n) then Some (Inr (Inl ConfigNotLoaded))
         else
           Some (Run P (ins\<lparr>in_dirs := home_dirs home\<rparr>)
             (e\<lparr>conf := (resolved P uni out home c)\<lparr>
                HTTP_Port := (case Atoi port of AtoiOk n \<Rightarrow> word_of_int n | _ \<Rightarrow> HTTP_Port c), loaded := True\<rparr>\<rparr>)
             ho (st\<lparr>s_out := out\<rparr>)))"
proof -
  obtain out1 where dirs: "initDirectories P \<lparr>configPath = [], CachePath = []\<rparr> (s_out st) = (home_dirs home, out1)"
    by (simp add: initDirectories_def home home_dirs_def Let_def)
  then have o: "generateConfig P (in_embed ins) (home_dirs home) out1 = out" by (simp add: out)
  have init: "config_init P uni fig (in_embed ins) (s_out st) =
      (case fig [lit ''.'', home @ lit ''/.config/trakx''] out of
         None \<Rightarrow> Initialised None (home_dirs home) out
       | Some c \<Rightarrow>
           Initialised (Some (fst (override_port port (resolved P uni out home c)))) (home_dirs home) out)"
    by (simp add: config_init_def dirs o Load_def home env Parse_resolved override_port_def
        split: option.split atoi_result.split)
  have same: "(resolved P uni out home c)\<lparr>HTTP_Port := HTTP_Port c\<rparr> = resolved P uni out home c" for c
    by (cases c) (simp add: resolved_def)
  show ?thesis
    using fresh
    by (auto simp: start_process_def init same override_port_def Run_def [of P _ "e\<lparr>conf := resolved P uni out home _\<rparr>"]
      resolved_port split: option.split atoi_result.split)
qed

theorem configuration_errors_at_start_witness:
  "start_process sample_platform id (\<lambda>dirs out. None) sample_installation (sample_env 0) sorted_order
     (new_process sample_out) = Some (Inl NilDereference)"
proof -
  have h: "os_UserHomeDir sample_platform = (\<lambda>x. Some (lit ''/root''))"
    and g: "os_Getenv sample_platform (lit ''PORT'') = (\<lambda>x. [])" by (simp_all add: sample_platform_def)
  from configuration_errors_at_start [OF h g _ refl, where fig = "\<lambda>dirs out. None" and st = "new_process sample_out"] show ?thesis by simp
qed

end
