(* ===== verification/Counting.thy ===== *)
theory Counting
  imports Startup
begin

text \<open>
  The seed, leech and address statistics of a running process. An extension of the storage
  interface's contract says that saving and dropping keep them in step with the swarm; inside it,
  every datagram and every turn of an HTTP worker keeps them so, and over the in-memory database
  every event of a started process does.
\<close>

section \<open>The counters that describe the swarm\<close>

definition swarm_counters :: "stats \<Rightarrow> int64 \<times> int64 \<times> (addr, int16) fmap" where
  "swarm_counters s = (Seeds s, Leeches s, IPStats s)"

lemma swarm_counters_simps [simp]:
  "swarm_counters (add_Hits n s) = swarm_counters s" "swarm_counters (add_Connects n s) = swarm_counters s"
  "swarm_counters (add_Announces n s) = swarm_counters s" "swarm_counters (add_Scrapes n s) = swarm_counters s"
  "swarm_counters (add_ServerErrors n s) = swarm_counters s" "swarm_counters (add_ClientErrors n s) = swarm_counters s"
  "swarm_counters (publish_reset s) = swarm_counters s"
  by (simp_all add: swarm_counters_def stats_defs publish_reset_def)

lemma stats_match_counters: "swarm_counters s' = swarm_counters s \<Longrightarrow> stats_match s' sw = stats_match s sw"
  by (simp add: swarm_counters_def stats_match_def)

text \<open>Two worlds with the same database and the same counters of it.\<close>

definition as_counted :: "'db world \<Rightarrow> 'db world \<Rightarrow> bool" where
  "as_counted w w' \<longleftrightarrow> w_db w' = w_db w \<and> swarm_counters (w_stats w') = swarm_counters (w_stats w)"

lemma as_counted_refl [simp]: "as_counted w w"
  by (simp add: as_counted_def)

lemma as_counted_trans: "as_counted w1 w2 \<Longrightarrow> as_counted w2 w3 \<Longrightarrow> as_counted w1 w3"
  by (simp add: as_counted_def)

lemma put_peerlists_as_counted: "put_peerlists s4 s6 w = Inr w' \<Longrightarrow> as_counted w w'"
  by (auto simp: put_peerlists_def as_counted_def bindP_Inr_iff split: option.splits)

lemma dictionary_as_counted:
  "get_dictionary e w = Inr (d, w') \<Longrightarrow> as_counted w w'" "put_dictionary d w = Inr w' \<Longrightarrow> as_counted w w'"
  by (auto simp: get_dictionary_def put_dictionary_def as_counted_def bindP_Inr_iff split: option.splits)

text \<open>Sending an answer and counting a request touch neither.\<close>

definition counted_part :: "'db world \<Rightarrow> 'db \<times> int64 \<times> int64 \<times> (addr, int16) fmap" where
  "counted_part w = (w_db w, swarm_counters (w_stats w))"

lemma as_counted_part: "as_counted w w' \<longleftrightarrow> counted_part w' = counted_part w"
  by (simp add: as_counted_def counted_part_def)

lemma udp_counted_part [simp]:
  "(\<And>s. swarm_counters (f s) = swarm_counters s) \<Longrightarrow> counted_part (u_world (udp_stats f u)) = counted_part (u_world u)"
  "counted_part (u_world (client_error msg t r u)) = counted_part (u_world u)"
  "counted_part (u_world (server_error t r u)) = counted_part (u_world u)"
  by (simp_all add: counted_part_def server_error_def newServerError_def)

lemma answer_counted_part [simp]:
  "counted_part (u_world (respond m t r u)) = counted_part (u_world u)"
  "counted_part (u_world (udp_connect e c r a u)) = counted_part (u_world u)"
  "counted_part (u_world (udp_scrape D sc r u)) = counted_part (u_world u)"
  by (simp_all add: respond_def udp_connect_def udp_scrape_def Let_def split: sum.split option.split)

lemma http_counted_part [simp]:
  "(\<And>s. swarm_counters (f s) = swarm_counters s) \<Longrightarrow> counted_part (h_world (http_stats f h)) = counted_part (h_world h)"
  "counted_part (h_world (conn_Write bs h)) = counted_part (h_world h)"
  "counted_part (h_world (writeStatus s h)) = counted_part (h_world h)"
  "counted_part (h_world (writeData d h)) = counted_part (h_world h)"
  "counted_part (h_world (fold conn_Write bss h)) = counted_part (h_world h)"
  by (simp_all add: writeStatus_def writeData_def fold_conn_Write counted_part_def)

lemma clientError_counted: "clientError e msg h = Inr h' \<Longrightarrow> counted_part (h_world h') = counted_part (h_world h)"
  by (auto simp: clientError_def writeErr_def bindP_Inr_iff GetBytes_eq Let_def as_counted_part
      dest!: dictionary_as_counted)

section \<open>Databases that keep the counters\<close>

locale counting_database = database_laws D dbinv swarm
  for D :: "'db database" and dbinv :: "'db \<Rightarrow> bool" and swarm :: "'db \<Rightarrow> swarm" +
  fixes counted :: "stats \<Rightarrow> swarm \<Rightarrow> bool"
  assumes counted_counters: "swarm_counters s' = swarm_counters s \<Longrightarrow> counted s' sw = counted s sw"
    and Save_counted:
    "\<not> fast e \<Longrightarrow> world_ok dbinv lim w \<Longrightarrow> length h = 20 \<Longrightarrow> length i = 20 \<Longrightarrow> ip \<noteq> AddrZero \<Longrightarrow>
     db_Save D e ip port c h i w = Inr w' \<Longrightarrow> counted (w_stats w) (swarm (w_db w)) \<Longrightarrow>
     counted (w_stats w') (swarm (w_db w'))"
    and Drop_counted:
    "\<not> fast e \<Longrightarrow> world_ok dbinv lim w \<Longrightarrow> db_Drop D e h i w = Inr w' \<Longrightarrow>
     counted (w_stats w) (swarm (w_db w)) \<Longrightarrow> counted (w_stats w') (swarm (w_db w'))"
begin

definition exact :: "'db world \<Rightarrow> bool" where
  "exact w \<longleftrightarrow> counted (w_stats w) (swarm (w_db w))"

lemma exact_part: "counted_part w' = counted_part w \<Longrightarrow> exact w' = exact w"
  using counted_counters [of "w_stats w'" "w_stats w"] by (simp add: exact_def counted_part_def)

lemma PeerListBytes_part:
  assumes "world_ok dbinv lim w" "limit_ok lim" "env_ok e" "db_PeerListBytes D e h n w = Inr (x, w')"
  shows "counted_part w' = counted_part w"
  using PeerListBytes_law [OF assms(1-3), of h n] assms(4) by (auto simp: counted_part_def)

lemma PeerList_part:
  assumes "world_ok dbinv lim w" "env_ok e" "db_PeerList D e h n rm w = Inr (x, w')"
  shows "counted_part w' = counted_part w"
  using PeerList_law [OF assms(1,2), of h n rm] assms(3) by (auto simp: counted_part_def)

lemma put_peerlists_part: "put_peerlists s4 s6 w = Inr w' \<Longrightarrow> counted_part w' = counted_part w"
  using put_peerlists_as_counted as_counted_part by blast

text \<open>The UDP tracker.\<close>

lemma udp_announce_exact:
  assumes w: "world_ok dbinv lim (u_world u)" and lim: "limit_ok lim" and e: "env_ok e" "\<not> fast e"
    and r: "remote_ok r" and d: "98 \<le> length d" and x: "exact (u_world u)"
    and run: "udp_announce D e (announce_of (take 98 d)) r (remote_addr_port r) u = Inr u'"
  shows "exact (u_world u')"
proof -
  let ?an = "announce_of (take 98 d)" and ?u = "udp_stats (add_Announces 1) u"
  have w1: "world_ok dbinv lim (u_world ?u)" using w by simp
  have x1: "counted (w_stats (u_world ?u)) (swarm (w_db (u_world ?u)))"
    using x exact_part [of "u_world ?u" "u_world u"] by (simp add: exact_def)
  consider "a_Port ?an = 0" | "a_Port ?an \<noteq> 0" "a_Event ?an = EventStopped"
    | "a_Port ?an \<noteq> 0" "a_Event ?an \<noteq> EventStopped" by blast
  then show ?thesis
  proof cases
    case 1
    with run have "u' = client_error ''bad port'' (a_TransactionID ?an) r ?u"
      by (simp add: udp_announce_def Let_def)
    with x exact_part [of "u_world u'" "u_world u"] show ?thesis by simp
  next
    case 2
    with run obtain w' m where d: "db_Drop D e (a_InfoHash ?an) (a_PeerID ?an) (u_world ?u) = Inr w'"
      and u': "u' = respond m (a_TransactionID ?an) r (?u\<lparr>u_world := w'\<rparr>)"
      by (auto simp: udp_announce_def Let_def bindP_Inr_iff)
    from Drop_counted [OF e(2) w1 d x1] have "exact w'" by (simp add: exact_def)
    with exact_part [of "u_world u'" w'] show ?thesis by (simp add: u')
  next
    case 3
    let ?c = "a_Event ?an = EventCompleted \<or> a_Left ?an = 0"
    from 3 run obtain w1' x w2 w3 m where
      s: "db_Save D e (fst (remote_addr_port r)) (a_Port ?an) ?c (a_InfoHash ?an) (a_PeerID ?an) (u_world ?u) = Inr w1'"
      and l: "db_PeerListBytes D e (a_InfoHash ?an) (scast (announce_numwant e (a_NumWant ?an))) w1' = Inr (x, w2)"
      and p: "put_peerlists (fst x) (snd x) w2 = Inr w3"
      and u': "u' = respond m (a_TransactionID ?an) r (?u\<lparr>u_world := w3\<rparr>)"
      by (fastforce simp: udp_announce_def Let_def bindP_Inr_iff case_prod_unfold)
    note f = announce_of_fields [OF d] remote_addr_nonzero [OF r]
    from Save_law [OF w1 f(2,3,4), of e "a_Port ?an" ?c] s have "world_ok dbinv lim w1'" by auto
    from PeerListBytes_part [OF this lim e(1) l] put_peerlists_part [OF p]
    have "exact (u_world u') = exact w1'" by (intro exact_part) (simp add: u')
    with Save_counted [OF e(2) w1 f(2,3,4) s x1] show ?thesis by (simp add: exact_def)
  qed
qed

lemma process_exact:
  assumes w: "world_ok dbinv lim (u_world u)" and lim: "limit_ok lim" and e: "env_ok e" "\<not> fast e"
    and r: "remote_ok r" and d: "request_ok d" and x: "exact (u_world u)"
    and run: "process D e d r u = Inr u'"
  shows "exact (u_world u')"
proof -
  let ?u = "udp_stats (add_Hits 1) u"
  have "counted_part (u_world u') = counted_part (u_world u) \<or>
      98 \<le> length d \<and> udp_announce D e (announce_of (take 98 d)) r (remote_addr_port r) ?u = Inr u'"
    using run [unfolded process_dispatch [OF d r] Let_def]
    by (auto split: if_splits prod.splits option.splits)
  moreover have "exact (u_world ?u)" using x exact_part [of "u_world ?u" "u_world u"] by simp
  ultimately show ?thesis
    using udp_announce_exact [of lim ?u e r d u'] w lim e r x exact_part [of "u_world u'" "u_world u"] by auto
qed

text \<open>The HTTP tracker.\<close>

lemma get_dictionary_world:
  assumes "world_ok dbinv lim w" "get_dictionary e w = Inr (d, w')"
  shows "world_ok dbinv lim w'" "counted_part w' = counted_part w"
  using get_dictionary_ok [OF assms(1), of e] assms(2) dictionary_as_counted(1) [OF assms(2)]
  by (auto simp: as_counted_part)

lemma announce_peers_part:
  assumes "world_ok dbinv lim w" "limit_ok lim" "env_ok e" "announce_peers D e v n d w = Inr (d', w')"
  shows "counted_part w' = counted_part w"
proof (cases "v_compact v")
  case True
  with assms(4) obtain x w1 where "db_PeerListBytes D e (v_hash v) n w = Inr (x, w1)"
    "put_peerlists (fst x) (snd x) w1 = Inr w'"
    by (fastforce simp: announce_peers_def Let_def bindP_Inr_iff case_prod_unfold)
  with PeerListBytes_part [OF assms(1-3), of "v_hash v" n x w1] put_peerlists_part [of "fst x" "snd x" w1 w']
  show ?thesis by simp
next
  case False
  with assms(4) obtain x where "db_PeerList D e (v_hash v) n (v_nopeerid v) w = Inr (x, w')"
    by (fastforce simp: announce_peers_def Let_def bindP_Inr_iff case_prod_unfold)
  with PeerList_part [OF assms(1,3)] show ?thesis by blast
qed

lemma announce_reply_part:
  assumes "world_ok dbinv lim (h_world h)" "limit_ok lim" "env_ok e" "announce_reply D e v n h = Inr h'"
  shows "counted_part (h_world h') = counted_part (h_world h)"
proof -
  from assms(4) obtain d w1 d1 d2 w2 d3 w3 where g: "get_dictionary e (h_world h) = Inr (d, w1)"
    and p: "announce_peers D e v n d1 w1 = Inr (d2, w2)" and q: "put_dictionary d3 w2 = Inr w3"
    and h': "h_world h' = w3"
    by (fastforce simp: announce_reply_def Let_def bindP_Inr_iff case_prod_unfold)
  note w1 = get_dictionary_world [OF assms(1) g]
  from announce_peers_part [OF w1(1) assms(2,3) p] dictionary_as_counted(2) [OF q] w1(2) h'
  show ?thesis by (simp add: as_counted_part)
qed

lemma http_announce_exact:
  assumes w: "world_ok dbinv lim (h_world h)" and lim: "limit_ok lim" and e: "env_ok e" "\<not> fast e"
    and ip: "ip \<noteq> AddrZero" and x: "exact (h_world h)" and run: "http_announce D e v ip h = Inr h'"
  shows "exact (h_world h')"
proof -
  let ?h = "http_stats (add_Announces 1) h"
  have w1: "world_ok dbinv lim (h_world ?h)" using w by simp
  have same: "exact (h_world h')" if "counted_part (h_world h') = counted_part (h_world ?h)"
    using that x exact_part [of "h_world h'" "h_world h"] by simp
  have x1: "counted (w_stats (h_world ?h)) (swarm (w_db (h_world ?h)))"
    using x exact_part [of "h_world ?h" "h_world h"] by (simp add: exact_def)
  show ?thesis
  proof (cases "announce_error e v")
    case (Some msg)
    with run have "clientError e msg ?h = Inr h'"
      by (auto simp: http_announce_def announce_error_def Let_def split: if_splits option.splits)
    then show ?thesis by (intro same) (rule clientError_counted)
  next
    case None
    then have len: "length (v_hash v) = 20" "length (v_peerid v) = 20"
      by (simp_all add: announce_error_def split: if_splits)
    show ?thesis
    proof (cases "v_event v = lit ''stopped''")
      case True
      with run len obtain w' where d: "db_Drop D e (v_hash v) (v_peerid v) (h_world ?h) = Inr w'"
        and h': "h_world h' = w'" by (auto simp: http_announce_def Let_def bindP_Inr_iff)
      from Drop_counted [OF e(2) w1 d x1] show ?thesis by (simp add: exact_def h')
    next
      case False
      let ?c = "v_event v = lit ''completed'' \<or> v_noneleft v"
      from None False obtain port n where p: "announce_port (v_port v) = Some port"
        "http_numwant e (v_numwant v) = Some n" by (auto simp: announce_error_def split: if_splits)
      with run len False obtain w' where s: "db_Save D e ip port ?c (v_hash v) (v_peerid v) (h_world ?h) = Inr w'"
        and a: "announce_reply D e v n (?h\<lparr>h_world := w'\<rparr>) = Inr h'"
        by (auto simp: http_announce_def Let_def bindP_Inr_iff)
      from Save_law [OF w1 len ip, of e port ?c] s have "world_ok dbinv lim (h_world (?h\<lparr>h_world := w'\<rparr>))" by auto
      from announce_reply_part [OF this lim e(1) a] have "exact (h_world h') = exact w'" by (intro exact_part) simp
      with Save_counted [OF e(2) w1 len ip s x1] show ?thesis by (simp add: exact_def)
    qed
  qed
qed

lemma http_scrape_part:
  assumes "http_scrape D e hs h = Inr h'"
  shows "counted_part (h_world h') = counted_part (h_world h)"
proof -
  let ?h = "http_stats (add_Scrapes 1) h"
  from assms obtain d w1 where g: "get_dictionary e (h_world ?h) = Inr (d, w1)"
    and r: "clientError e ''invalid infohash'' (?h\<lparr>h_world := w1\<rparr>) = Inr h' \<or>
      (\<exists>d2 w2. put_dictionary d2 w1 = Inr w2 \<and> h_world h' = w2)"
    by (fastforce simp: http_scrape_def Let_def bindP_Inr_iff case_prod_unfold split: option.splits)
  from dictionary_as_counted(1) [OF g] have "counted_part w1 = counted_part (h_world h)"
    by (simp add: as_counted_part)
  with r show ?thesis by (auto simp: as_counted_part dest!: clientError_counted dictionary_as_counted(2))
qed

lemma serve_exact:
  assumes w: "world_ok dbinv lim (h_world h)" and lim: "limit_ok lim" and e: "env_ok e" "\<not> fast e"
    and x: "exact (h_world h)" and run: "serve D e b r data remote h = Inr h'"
  shows "exact (h_world h')"
proof -
  have "counted_part (h_world h') = counted_part (h_world h) \<or>
      (\<exists>v ip. ip \<noteq> AddrZero \<and> http_announce D e v ip h = Inr h')"
    using run
    by (auto simp: serve_def serve_path_def serve_announce_def serve_scrape_def Let_def bindP_Inr_iff
        split: if_splits sum.splits option.splits
        dest!: clientError_counted http_scrape_part dest: v_hash_nonzero)
  with http_announce_exact [OF w lim e _ x] exact_part [of "h_world h'" "h_world h"] x show ?thesis by blast
qed

lemma worker_step_exact:
  assumes k: "worker_ok dbinv lim k" and lim: "limit_ok lim" and e: "env_ok e" "\<not> fast e"
    and x: "exact (k_world k)" and run: "worker_step D e b ev k = Inr (go, k', outs)"
  shows "exact (k_world k')"
proof (cases ev)
  case (Request req remote)
  let ?h = "http_stats (add_Hits 1) \<lparr>h_world = k_world k, h_out = []\<rparr>"
  from run Request obtain r data' h' where s: "serve D e b r data' remote ?h = Inr h'" "k_world k' = h_world h'"
    by (auto simp: worker_step_def Let_def bindP_Inr_iff)
  have "world_ok dbinv lim (h_world ?h)" using k by (simp add: worker_ok_def)
  moreover have "exact (h_world ?h)" using x exact_part [of "h_world ?h" "k_world k"] by simp
  ultimately show ?thesis using serve_exact [OF _ lim e _ s(1)] s(2) by simp
next
  case AcceptFailed
  with run have "counted_part (k_world k') = counted_part (k_world k)"
    by (auto simp: worker_step_def counted_part_def)
  with x exact_part show ?thesis by blast
qed (use run x in \<open>auto simp: worker_step_def\<close>)

end

section \<open>The in-memory database\<close>

interpretation gomap_counts: counting_database gomap mem_ok mem_swarm stats_match
proof
  fix s s' sw
  show "swarm_counters s' = swarm_counters s \<Longrightarrow> stats_match s' sw = stats_match s sw"
    by (rule stats_match_counters)
next
  fix e lim w h i ip port c w'
  assume "\<not> fast e" "world_ok mem_ok lim w" "length (h :: hash) = 20" "length (i :: peer_id) = 20" "ip \<noteq> AddrZero"
    and run: "db_Save gomap e ip port c h i w = Inr w'" and x: "stats_match (w_stats w) (mem_swarm (w_db w))"
  from this(2-5) obtain p w1 where r: "Save e ip port c h i w = Inr w1"
    "mem_swarm (w_db w1) = swarm_save h i \<lparr>Complete = c, IP = ip, Port = port, LastSeen = now e\<rparr> (mem_swarm (w_db w))"
    "w_stats w1 = (if fast e then w_stats w else save_stats (mem_swarm (w_db w) h i \<noteq> None) p ip c (w_stats w))"
    "mem_swarm (w_db w) h i = Some p \<or> mem_swarm (w_db w) h i = None"
    by (rule Save_result)
  from save_stats_match [OF finite_mem_swarm r(4) _ _ x] r run \<open>\<not> fast e\<close>
  show "stats_match (w_stats w') (mem_swarm (w_db w'))" by (simp add: gomap_def)
next
  fix e lim w h i w'
  assume e: "\<not> fast e" and w: "world_ok mem_ok lim w" and run: "db_Drop gomap e h i w = Inr w'"
    and x: "stats_match (w_stats w) (mem_swarm (w_db w))"
  from w obtain w1 where r: "Drop e h i w = Inr w1" "mem_swarm (w_db w1) = swarm_drop h i (mem_swarm (w_db w))"
    "w_stats w1 = (case mem_swarm (w_db w) h i of
       Some p \<Rightarrow> if fast e then w_stats w else leave_stats p (w_stats w) | None \<Rightarrow> w_stats w)"
    by (rule Drop_result)
  have "mem_swarm (w_db w) h i = None \<Longrightarrow> swarm_drop h i (mem_swarm (w_db w)) = mem_swarm (w_db w)"
    by (auto simp: swarm_drop_def fun_eq_iff)
  with r run e x leave_stats_match [OF finite_mem_swarm _ x, of h i]
  show "stats_match (w_stats w') (mem_swarm (w_db w'))"
    by (cases "mem_swarm (w_db w) h i") (simp_all add: gomap_def)
qed

lemma gomap_exact: "gomap_counts.exact w = stats_match (w_stats w) (mem_swarm (w_db w))"
  by (rule gomap_counts.exact_def)

section \<open>A running process\<close>

text \<open>Events of a build that keeps the statistics.\<close>

fun counts_event :: "process_event \<Rightarrow> bool" where
  "counts_event (Datagram e d r) = (\<not> fast e)"
| "counts_event (HttpTurn e i ev) = (\<not> fast e)"
| "counts_event (JobTick e i) = (\<not> fast e)"
| "counts_event ev = True"

lemma t_world_sel [simp]:
  "t_world (t\<lparr>t_conns := c\<rparr>) = t_world t" "t_world (t\<lparr>t_sent := s\<rparr>) = t_world t"
  "t_world (t\<lparr>t_written := y\<rparr>) = t_world t"
  "t_world (t\<lparr>t_expvars := x\<rparr>) = t_world t" "t_world (t\<lparr>t_workers := b\<rparr>) = t_world t"
  "t_world (with_udp u t) = u_world u"
  by (simp_all add: t_world_def with_udp_def with_world_def)

lemma save_conns_world [simp]: "t_world (save_conns P ins t) = t_world t"
  by (simp add: save_conns_def t_world_def split: prod.split)

lemma save_db_world:
  assumes "tracker_ok lim t" "save_db P ho e t = Inr t'"
  shows "t_world t' = t_world t"
proof -
  have "driver_ready (t_backup t) (t_store t)" using assms(1) by (simp add: tracker_ok_def)
  with assms(2) driver.Save_law [of "t_backup t" "t_store t" P e ho] show ?thesis
    by (auto simp: save_db_def bindP_Inr_iff t_world_def)
qed

lemma on_save_signal_world:
  assumes "tracker_ok lim t" "on_save_signal P ins ho e t = Inr t'"
  shows "t_world t' = t_world t"
  using assms save_db_world by (auto simp: on_save_signal_def bindP_Inr_iff)

lemma on_datagram_exact:
  assumes t: "tracker_ok lim t" and lim: "limit_ok lim" and e: "env_valid e" "\<not> fast e" and r: "remote_ok r"
    and run: "on_datagram e d r t = Inr t'" and x: "gomap_counts.exact (t_world t)"
  shows "gomap_counts.exact (t_world t')"
proof (cases "t_udp t")
  case None
  with run x show ?thesis by (simp add: on_datagram_def)
next
  case (Some u)
  then have u: "u_world u = t_world t" by (auto simp: t_udp_def)
  with t have w: "world_ok mem_ok lim (u_world u)" by (simp add: tracker_ok_def)
  from run Some obtain u' where u': "receive gomap e d r u = Inr u'" "t' = with_udp u' t"
    by (auto simp: on_datagram_def bindP_Inr_iff)
  have "gomap_counts.exact (u_world u')"
  proof (cases "length (take requestSizeMax d) > 15")
    case True
    with u' gomap_counts.process_exact [OF w lim _ e(2) r request_ok_receive [OF True], of u'] e(1) x u
    show ?thesis by (simp add: receive_def Let_def env_valid_def)
  next
    case False
    with u' x u show ?thesis by (auto simp: receive_def Let_def)
  qed
  then show ?thesis by (simp add: u'(2))
qed

lemma on_http_exact:
  assumes t: "tracker_ok lim t" and lim: "limit_ok lim" and e: "env_valid e" "\<not> fast e"
    and run: "on_http e i ev t = Inr t'" and x: "gomap_counts.exact (t_world t)"
  shows "gomap_counts.exact (t_world t')"
proof (cases "i < length (t_workers t)")
  case False
  with run x show ?thesis by (simp add: on_http_def)
next
  case True
  let ?k = "\<lparr>k_buf = t_workers t ! i, k_world = t_world t\<rparr>"
  have k: "worker_ok mem_ok lim ?k" using t True by (simp add: tracker_ok_def worker_ok_def)
  from run True obtain go k' outs where s: "worker_step gomap e (t_build t) ev ?k = Inr (go, k', outs)"
    and t': "t_world t' = k_world k'" by (auto simp: on_http_def bindP_Inr_iff)
  from gomap_counts.worker_step_exact [OF k lim _ e(2) _ s] e(1) x show ?thesis by (simp add: t' env_valid_def)
qed

lemma on_job_exact:
  assumes t: "tracker_ok lim t" and e: "env_valid e" "\<not> fast e"
    and run: "on_job P ho e i t = Inr t'" and x: "gomap_counts.exact (t_world t)"
  shows "gomap_counts.exact (t_world t')"
proof (cases "i < length (t_jobs t)")
  case False
  with run x show ?thesis by (simp add: on_job_def)
next
  case True
  show ?thesis
  proof (cases "t_jobs t ! i")
    case (BackupJob d)
    with run True save_db_world [OF t, of P ho e t'] x show ?thesis by (simp add: on_job_def)
  next
    case (TrimJob d)
    have "world_ok mem_ok lim (t_world t)" using t by (simp add: tracker_ok_def)
    then obtain n w where r: "trim e (ho (entries (w_db (t_world t)))) (t_world t) = Inr (n, w)"
      "trims e lim (set (ho (entries (w_db (t_world t))))) (0, 0) (t_world t) n w"
      using trim_hashes_result [of lim "t_world t" e "ho (entries (w_db (t_world t)))" "(0, 0)"] e(1)
      by (auto simp: trim_def env_valid_def)
    with True TrimJob run have "t_world t' = w" by (auto simp: on_job_def)
    with r(2) e(2) x show ?thesis by (auto simp: gomap_exact trims_def)
  qed
qed

lemma on_publish_exact:
  assumes "on_publish e rt t = Inr t'" "gomap_counts.exact (t_world t)"
  shows "gomap_counts.exact (t_world t')"
proof -
  from assms(1) have "counted_part (t_world t') = counted_part (t_world t)"
    by (auto simp: on_publish_def publish_tick_def bindP_Inr_iff counted_part_def)
  with assms(2) gomap_counts.exact_part show ?thesis by blast
qed

lemma handle_exact:
  assumes t: "tracker_ok lim t" and lim: "limit_ok lim" and ev: "event_ok ev" "counts_event ev"
    and run: "handle P ins ho ev t = Inr (go, t')" and x: "gomap_counts.exact (t_world t)"
  shows "gomap_counts.exact (t_world t')"
  using ev run x on_datagram_exact [OF t lim] on_http_exact [OF t lim] on_job_exact [OF t] on_publish_exact
    on_save_signal_world [OF t]
  by (cases ev) (auto simp: handle_def bindP_Inr_iff split: if_splits)

lemma live_exact:
  assumes "tracker_ok lim t" "limit_ok lim" "order_ok ho" "\<forall>ev \<in> set evs. event_ok ev \<and> counts_event ev"
    and "live P ins ho evs t = Inr t'" "gomap_counts.exact (t_world t)"
  shows "gomap_counts.exact (t_world t')"
  using assms(1,4,5,6)
proof (induction evs arbitrary: t)
  case Nil
  then show ?case by simp
next
  case (Cons ev evs)
  from Cons.prems(3) obtain go t1 where h: "handle P ins ho ev t = Inr (go, t1)"
    and l: "(if go then live P ins ho evs t1 else Inr t1) = Inr t'"
    by (auto simp: bindP_Inr_iff)
  have ev: "event_ok ev" "counts_event ev" using Cons.prems(2) by simp_all
  from handle_ok [OF Cons.prems(1) assms(2,3) ev(1), of P ins] h have ok: "tracker_ok lim t1" by auto
  from handle_exact [OF Cons.prems(1) assms(2) ev h Cons.prems(4)] have x: "gomap_counts.exact (t_world t1)" .
  show ?case
  proof (cases go)
    case True
    with l Cons.IH [OF ok _ _ x] Cons.prems(2) show ?thesis by simp
  next
    case False
    with l x show ?thesis by simp
  qed
qed

text \<open>The counters of a process that has just started.\<close>

lemma started_exact:
  assumes "Run P ins e ho st = Inr (Inr t)" and "w_pools (s_world st) = None"
    and "IPStats (w_stats (s_world st)) = fmempty"
  shows "gomap_counts.exact (t_world t)"
proof -
  note started = started_ok [OF assms(1,2)]
  with assms(3) blank_swarm [OF started(2)] show ?thesis
    by (simp add: gomap_exact stats_match_def ip_count_def)
qed

section \<open>Properties\<close>

text \<open>
  C3: The published statistics of a started process always describe its swarms: after any
  sequence of datagrams, HTTP events, jobs, ticks and signals that it handles, the seed and the
  leech counter are the numbers of complete and of incomplete peers over all infohashes, the count
  of every address is the number of peers announced from it, modulo their 64 and 16 bits, and every
  infohash reports the numbers of its own peers modulo 16 bits. The build is one with statistics.
\<close>

theorem statistics_describe_swarms:
  assumes "Run P ins e ho st = Inr (Inr t)" and "w_pools (s_world st) = None"
    and "IPStats (w_stats (s_world st)) = fmempty"
    and "build_ok (in_build ins)" "\<not> heroku (in_build ins)" "limit_ok (Numwant_Limit (conf e))" "order_ok ho"
    and "\<forall>ev \<in> set evs. event_ok ev \<and> counts_event ev" and "live P ins ho evs t = Inr t'"
  shows "Seeds (w_stats (t_world t')) = of_nat (swarm_total Complete (mem_swarm (w_db (t_world t')))) \<and>
    Leeches (w_stats (t_world t')) = of_nat (swarm_total (\<lambda>p. \<not> Complete p) (mem_swarm (w_db (t_world t')))) \<and>
    ip_count (IPStats (w_stats (t_world t'))) a = of_nat (swarm_total (\<lambda>p. IP p = a) (mem_swarm (w_db (t_world t')))) \<and>
    HashStats h (w_db (t_world t')) =
      (of_nat (swarm_count Complete h (mem_swarm (w_db (t_world t')))),
       of_nat (swarm_count (\<lambda>p. \<not> Complete p) h (mem_swarm (w_db (t_world t')))))"
proof -
  note ok = started_tracker_ok [OF assms(1,2,4,5)]
  from live_exact [OF ok assms(6-9) started_exact [OF assms(1-3)]]
  have "stats_match (w_stats (t_world t')) (mem_swarm (w_db (t_world t')))" by (simp add: gomap_exact)
  moreover have "mem_ok (w_db (t_world t'))"
    using live_ok [OF ok assms(6,7), of evs P ins] assms(8,9)
    by (auto simp: continues_def tracker_ok_def world_ok_def)
  ultimately show ?thesis by (simp add: stats_match_def HashStats_result)
qed

theorem statistics_describe_swarms_witness:
  "\<exists>t t'. Run sample_platform sample_installation (sample_env 0) sorted_order (new_process sample_out) = Inr (Inr t) \<and>
     live sample_platform sample_installation sorted_order
       [Datagram (sample_env 9) [1, 2, 3] loopback, HttpTurn (sample_env 10) 0 (Request (lit ''GET /'') (Addr4 1, 2)),
        JobTick (sample_env 11) 0] t = Inr t' \<and>
     Seeds (w_stats (t_world t')) = of_nat (swarm_total Complete (mem_swarm (w_db (t_world t'))))"
proof -
  let ?evs = "[Datagram (sample_env 9) [1, 2, 3] loopback, HttpTurn (sample_env 10) 0 (Request (lit ''GET /'') (Addr4 1, 2)),
      JobTick (sample_env 11) 0]"
  obtain t where t: "Run sample_platform sample_installation (sample_env 0) sorted_order (new_process sample_out) = Inr (Inr t)"
    using sample_Run by blast
  have s: "w_pools (s_world (new_process sample_out)) = None" "IPStats (w_stats (s_world (new_process sample_out))) = fmempty"
    by (simp_all add: new_process_def zero_stats_def)
  have b: "build_ok (in_build sample_installation)" "\<not> heroku (in_build sample_installation)"
    by (simp_all add: sample_installation_def)
  have l: "limit_ok (Numwant_Limit (conf (sample_env 0)))" by (simp add: default_drivers)
  have e: "\<forall>ev \<in> set ?evs. event_ok ev \<and> counts_event ev" by (simp add: env_valid_def)
  have "t_backup t \<noteq> PgRef" using started_ok(8) [OF t s(1)] by (cases "t_backup t") (simp_all add: default_drivers lit_def)
  with live_ok [OF started_tracker_ok [OF t s(1) b] l order_ok_sorted, of ?evs] e
  obtain t' where t': "live sample_platform sample_installation sorted_order ?evs t = Inr t'"
    by (auto simp: continues_def)
  from statistics_describe_swarms [OF t s b l order_ok_sorted e t'] t t' show ?thesis by blast
qed

end
