(* ===== verification/Lifecycle.thy ===== *)
theory Lifecycle
  imports Startup
begin

text \<open>
  The goroutines of a process from its start to its end: the main goroutine after it opened the
  database (tracker.go), the signal handler (signalhandler.go), \<open>Serve\<close> and \<open>Shutdown\<close> of both
  trackers (udp/udptracker.go, http/httptracker.go), the UDP threads, the HTTP workers and the
  ticks. A step is what a goroutine does between two points at which it waits for a channel, a socket
  or the clock; in particular the handling of a datagram or a request, which is a step apart from its
  arrival, a job and a tick are one step each. The locks inside of them, at which the program can
  switch to another goroutine as well, are those of Interleaving and Queries, with the races that they leave
  open: nothing here says that the counters of the database survive these. The shutdown channels are unbuffered, so
  that sending and receiving are one step of both goroutines; the channel of the signals holds one.
\<close>

section \<open>State\<close>

datatype os_signal = Interrupt | Sigterm | Sigusr1

text \<open>
  Where the signal handler is: before \<open>Notify\<close>, waiting, in the two \<open>Shutdown\<close>s of an exit
  signal, and in the saves, which know whether they end the process.
\<close>

datatype handler =
  HandlerStarts | AwaitsSignal | StopsUdp | StopsHttp | SavesDatabase bool | WritesConns bool | Exits

datatype serve_state = NotServing | Listens | AwaitsShutdown | Closes | Served

datatype main_goroutine = InitsHttp | GoesHttp | InitsUdp | GoesUdp | Publishes

datatype udp_thread = Reads | Handles bytes udp_addr | ThreadEnded

datatype http_thread = Accepts | Serves http_event | WorkerEnded

datatype process_end = ExitSuccess | ExitFatal fatal | KilledBySignal | Crashed panic

record 'o lifecycle =
  lc_tracker :: "'o tracker"
  lc_signal :: "os_signal option"
  lc_handler :: handler
  lc_main :: main_goroutine
  lc_udp_made :: bool
  lc_http_made :: bool
  lc_udp :: serve_state
  lc_http :: serve_state
  lc_threads :: "udp_thread list"
  lc_workers :: "http_thread list"
  lc_end :: "process_end option"

definition socket_open :: "serve_state \<Rightarrow> bool" where
  "socket_open v \<longleftrightarrow> v = AwaitsShutdown \<or> v = Closes"

definition ends :: "process_end \<Rightarrow> 'o lifecycle \<Rightarrow> 'o lifecycle" where
  "ends x s = s\<lparr>lc_end := Some x\<rparr>"

text \<open>A step that works on the tracker, and ends the process when it panics.\<close>

definition tracker_step ::
  "('o tracker \<Rightarrow> panic + 'o tracker) \<Rightarrow> ('o lifecycle \<Rightarrow> 'o lifecycle) \<Rightarrow> 'o lifecycle \<Rightarrow> 'o lifecycle" where
  "tracker_step f g s =
     (case f (lc_tracker s) of
        Inl p \<Rightarrow> ends (Crashed p) s
      | Inr t \<Rightarrow> g (s\<lparr>lc_tracker := t\<rparr>))"

section \<open>Signals\<close>

text \<open>
  A signal that arrives before \<open>Notify\<close> has its default effect; later it is put into the channel,
  or dropped when another one is there.
\<close>

definition deliver :: "os_signal \<Rightarrow> 'o lifecycle \<Rightarrow> 'o lifecycle" where
  "deliver sig s =
     (if lc_handler s = HandlerStarts then (if sig = Sigusr1 then s else ends KilledBySignal s)
      else
        (case lc_signal s of
           None \<Rightarrow> s\<lparr>lc_signal := Some sig\<rparr>
         | Some _ \<Rightarrow> s))"

text \<open>
  \<open>Shutdown\<close> returns at once when its tracker was not initialised, and otherwise waits until
  \<open>Serve\<close> receives; \<open>None\<close> is a goroutine that has to wait.
\<close>

definition udp_Shutdown :: "'o lifecycle \<Rightarrow> 'o lifecycle option" where
  "udp_Shutdown s =
     (if \<not> lc_udp_made s then Some s
      else if lc_udp s = AwaitsShutdown then Some (s\<lparr>lc_udp := Closes\<rparr>)
      else None)"

definition http_Shutdown :: "'o lifecycle \<Rightarrow> 'o lifecycle option" where
  "http_Shutdown s =
     (if \<not> lc_http_made s then Some s
      else if lc_http s = AwaitsShutdown then Some (s\<lparr>lc_http := Closes\<rparr>)
      else None)"

definition handler_step ::
  "'o platform \<Rightarrow> installation \<Rightarrow> hash_order \<Rightarrow> env \<Rightarrow> 'o lifecycle \<Rightarrow> 'o lifecycle option" where
  "handler_step P ins ho e s =
     (case lc_handler s of
        HandlerStarts \<Rightarrow> Some (s\<lparr>lc_handler := AwaitsSignal\<rparr>)
      | AwaitsSignal \<Rightarrow>
          (case lc_signal s of
             None \<Rightarrow> None
           | Some sig \<Rightarrow>
               Some (s\<lparr>lc_signal := None, lc_handler := (if sig = Sigusr1 then SavesDatabase False else StopsUdp)\<rparr>))
      | StopsUdp \<Rightarrow> map_option (\<lambda>s'. s'\<lparr>lc_handler := StopsHttp\<rparr>) (udp_Shutdown s)
      | StopsHttp \<Rightarrow> map_option (\<lambda>s'. s'\<lparr>lc_handler := SavesDatabase True\<rparr>) (http_Shutdown s)
      | SavesDatabase x \<Rightarrow> Some (tracker_step (save_db P ho e) (\<lambda>s'. s'\<lparr>lc_handler := WritesConns x\<rparr>) s)
      | WritesConns x \<Rightarrow>
          Some (s\<lparr>lc_tracker := save_conns P ins (lc_tracker s), lc_handler := (if x then Exits else AwaitsSignal)\<rparr>)
      | Exits \<Rightarrow> Some (ends ExitSuccess s))"

section \<open>The main goroutine\<close>

text \<open>
  \<open>Run\<close> after the database: the HTTP tracker or the information server, then the UDP tracker,
  each initialised before its \<open>Serve\<close> is started.
\<close>

definition main_step :: "'o platform \<Rightarrow> installation \<Rightarrow> configuration \<Rightarrow> 'o lifecycle \<Rightarrow> 'o lifecycle option" where
  "main_step P ins c s =
     (case lc_main s of
        InitsHttp \<Rightarrow>
          (if HTTP_Mode c = lit ''enabled'' then Some (s\<lparr>lc_http_made := True, lc_main := GoesHttp\<rparr>)
           else if HTTP_Mode c = lit ''info'' then
             Some (case info_serve ins of
                     Inl p \<Rightarrow> ends (Crashed p) s
                   | Inr (Some f) \<Rightarrow> ends (ExitFatal f) s
                   | Inr None \<Rightarrow> s\<lparr>lc_main := InitsUdp\<rparr>)
           else Some (s\<lparr>lc_main := InitsUdp\<rparr>))
      | GoesHttp \<Rightarrow> Some (s\<lparr>lc_http := Listens, lc_main := InitsUdp\<rparr>)
      | InitsUdp \<Rightarrow>
          (if \<not> UDP_Enabled c then Some (s\<lparr>lc_main := Publishes\<rparr>)
           else
             (let t = lc_tracker s;
                  u = udp_init (in_gob ins) (os_files P) (CachePath (in_dirs ins)) (s_out (t_store t)) c (t_world t) in
              Some (s\<lparr>lc_tracker := t\<lparr>t_conns := Some (u_conndb u)\<rparr>, lc_udp_made := True, lc_main := GoesUdp\<rparr>)))
      | GoesUdp \<Rightarrow> Some (s\<lparr>lc_udp := Listens, lc_main := Publishes\<rparr>)
      | Publishes \<Rightarrow> None)"

section \<open>Serve\<close>

text \<open>
  Listen and start the threads, wait for the shutdown, close the socket; a failure to listen or to
  close is fatal. The receiving of the shutdown is the step of \<open>Shutdown\<close>.
\<close>

definition udp_Serve_step :: "installation \<Rightarrow> configuration \<Rightarrow> bool \<Rightarrow> 'o lifecycle \<Rightarrow> 'o lifecycle option" where
  "udp_Serve_step ins c closed s =
     (case lc_udp s of
        Listens \<Rightarrow>
          Some (if \<not> in_listen_udp ins then ends (ExitFatal UdpFailed) s
                else s\<lparr>lc_udp := AwaitsShutdown, lc_threads := replicate (nat (sint (UDP_Threads c))) Reads\<rparr>)
      | Closes \<Rightarrow> Some (if closed then s\<lparr>lc_udp := Served\<rparr> else ends (ExitFatal UdpFailed) s)
      | _ \<Rightarrow> None)"

definition http_Serve_step :: "installation \<Rightarrow> configuration \<Rightarrow> bool \<Rightarrow> 'o lifecycle \<Rightarrow> 'o lifecycle option" where
  "http_Serve_step ins c closed s =
     (case lc_http s of
        Listens \<Rightarrow>
          Some (case http_Serve ins c of
                  Inl f \<Rightarrow> ends (ExitFatal f) s
                | Inr (b, bufs) \<Rightarrow>
                    s\<lparr>lc_tracker := (lc_tracker s)\<lparr>t_build := b, t_workers := bufs\<rparr>, lc_http := AwaitsShutdown,
                      lc_workers := replicate (length bufs) Accepts\<rparr>)
      | Closes \<Rightarrow> Some (if closed then s\<lparr>lc_http := Served\<rparr> else ends (ExitFatal HttpFailed) s)
      | _ \<Rightarrow> None)"

section \<open>Threads and workers\<close>

text \<open>
  What \<open>ReadFromUDP\<close> returns: a datagram with its sender, or an error with the text of the error
  that it wraps. An error that wraps none is dereferenced.
\<close>

datatype udp_read = Received bytes udp_addr | ReadError "bytes option"

definition errClosed :: bytes where
  "errClosed = lit ''use of closed network connection''"

definition udp_read_step :: "nat \<Rightarrow> udp_read \<Rightarrow> 'o lifecycle \<Rightarrow> 'o lifecycle option" where
  "udp_read_step k r s =
     (if k < length (lc_threads s) \<and> lc_threads s ! k = Reads then
        (case r of
           Received d a \<Rightarrow>
             (if socket_open (lc_udp s) then Some (s\<lparr>lc_threads := (lc_threads s)[k := Handles d a]\<rparr>) else None)
         | ReadError None \<Rightarrow> Some (ends (Crashed NilDereference) s)
         | ReadError (Some text) \<Rightarrow>
             (if text = errClosed then
                (if socket_open (lc_udp s) then None else Some (s\<lparr>lc_threads := (lc_threads s)[k := ThreadEnded]\<rparr>))
              else Some s))
      else None)"

definition udp_handle_step :: "nat \<Rightarrow> env \<Rightarrow> 'o lifecycle \<Rightarrow> 'o lifecycle option" where
  "udp_handle_step k e s =
     (if k < length (lc_threads s) then
        (case lc_threads s ! k of
           Handles d a \<Rightarrow>
             Some (tracker_step (on_datagram e d a) (\<lambda>s'. s'\<lparr>lc_threads := (lc_threads s')[k := Reads]\<rparr>) s)
         | _ \<Rightarrow> None)
      else None)"

text \<open>
  \<open>Accept\<close> on a closed listener fails with \<open>net.ErrClosed\<close>, which ends the worker; a connection is
  accepted only while it is open.
\<close>

definition http_accept_step :: "nat \<Rightarrow> http_event \<Rightarrow> 'o lifecycle \<Rightarrow> 'o lifecycle option" where
  "http_accept_step k ev s =
     (if k < length (lc_workers s) \<and> lc_workers s ! k = Accepts \<and>
         (if ev = ListenerClosed then \<not> socket_open (lc_http s)
          else if ev = AcceptFailed then True
          else socket_open (lc_http s))
      then Some (s\<lparr>lc_workers := (lc_workers s)[k := Serves ev]\<rparr>) else None)"

definition http_serve_step :: "nat \<Rightarrow> env \<Rightarrow> 'o lifecycle \<Rightarrow> 'o lifecycle option" where
  "http_serve_step k e s =
     (if k < length (lc_workers s) then
        (case lc_workers s ! k of
           Serves ev \<Rightarrow>
             Some (tracker_step (on_http e k ev)
               (\<lambda>s'. s'\<lparr>lc_workers := (lc_workers s')[k := (if ev = ListenerClosed then WorkerEnded else Accepts)]\<rparr>) s)
         | _ \<Rightarrow> None)
      else None)"

text \<open>The jobs, the trimming of the connections and the publishing tick, each in its goroutine.\<close>

definition tick_step ::
  "'o platform \<Rightarrow> installation \<Rightarrow> hash_order \<Rightarrow> process_event \<Rightarrow> 'o lifecycle \<Rightarrow> 'o lifecycle option" where
  "tick_step P ins ho ev s =
     (let run = Some (tracker_step (\<lambda>t. bindP (handle P ins ho ev t) (\<lambda>(go, t'). Inr t')) id s) in
      case ev of
        JobTick e i \<Rightarrow> run
      | TrimConns t ks \<Rightarrow> run
      | PublishTick e rt \<Rightarrow> (if lc_main s = Publishes then run else None)
      | _ \<Rightarrow> None)"

section \<open>The process\<close>

datatype process_action =
    Signal os_signal
  | Handler env
  | Main
  | UdpServe bool
  | HttpServe bool
  | UdpRead nat udp_read
  | UdpHandle nat env
  | HttpAccept nat http_event
  | HttpHandle nat env
  | Tick process_event

definition lifecycle_step ::
  "'o platform \<Rightarrow> installation \<Rightarrow> hash_order \<Rightarrow> configuration \<Rightarrow> process_action \<Rightarrow> 'o lifecycle \<Rightarrow> 'o lifecycle option" where
  "lifecycle_step P ins ho c a s =
     (if lc_end s \<noteq> None then None
      else
        (case a of
           Signal sig \<Rightarrow> Some (deliver sig s)
         | Handler e \<Rightarrow> handler_step P ins ho e s
         | Main \<Rightarrow> main_step P ins c s
         | UdpServe closed \<Rightarrow> udp_Serve_step ins c closed s
         | HttpServe closed \<Rightarrow> http_Serve_step ins c closed s
         | UdpRead k r \<Rightarrow> udp_read_step k r s
         | UdpHandle k e \<Rightarrow> udp_handle_step k e s
         | HttpAccept k ev \<Rightarrow> http_accept_step k ev s
         | HttpHandle k e \<Rightarrow> http_serve_step k e s
         | Tick ev \<Rightarrow> tick_step P ins ho ev s))"

text \<open>A run of the process under a schedule; \<open>None\<close> is a schedule that the goroutines cannot follow.\<close>

fun lifecycle_run ::
  "'o platform \<Rightarrow> installation \<Rightarrow> hash_order \<Rightarrow> configuration \<Rightarrow> process_action list \<Rightarrow> 'o lifecycle \<Rightarrow> 'o lifecycle option" where
  "lifecycle_run P ins ho c [] s = Some s"
| "lifecycle_run P ins ho c (a # acts) s =
     Option.bind (lifecycle_step P ins ho c a s) (lifecycle_run P ins ho c acts)"

text \<open>\<open>Run\<close> up to the start of the signal handler: open the database, then make the pools.\<close>

definition launched_tracker :: "installation \<Rightarrow> env \<Rightarrow> backup_ref \<Rightarrow> job list \<Rightarrow> 'o store \<Rightarrow> 'o tracker" where
  "launched_tracker ins e r jobs st =
     \<lparr>t_store = st\<lparr>s_world := (s_world st)\<lparr>w_pools := Some (Initialize (Numwant_Limit (conf e)))\<rparr>\<rparr>,
      t_backup = r, t_jobs = jobs, t_conns = None, t_sent = [], t_written = [], t_build = in_build ins, t_workers = [], t_expvars = []\<rparr>"

definition new_lifecycle :: "'o tracker \<Rightarrow> 'o lifecycle" where
  "new_lifecycle t =
     \<lparr>lc_tracker = t, lc_signal = None, lc_handler = HandlerStarts, lc_main = InitsHttp,
      lc_udp_made = False, lc_http_made = False, lc_udp = NotServing, lc_http = NotServing,
      lc_threads = [], lc_workers = [], lc_end = None\<rparr>"

definition launch ::
  "'o platform \<Rightarrow> installation \<Rightarrow> env \<Rightarrow> hash_order \<Rightarrow> 'o store \<Rightarrow> panic + (fatal + 'o lifecycle)" where
  "launch P ins e ho st =
     (if \<not> loaded (conf e) then Inr (Inl ConfigNotLoaded)
      else
        bindP (Open P registered e ho st) (\<lambda>(res, st1).
        case res of
          Inl x \<Rightarrow> Inr (Inl (StorageFailed x))
        | Inr (r, jobs) \<Rightarrow> Inr (Inr (new_lifecycle (launched_tracker ins e r jobs st1)))))"

lemma launch_succeeded:
  assumes "launch P ins e ho st = Inr (Inr s)"
  obtains r jobs st1 where "Open P registered e ho st = Inr (Inr (r, jobs), st1)" "loaded (conf e)"
    "s = new_lifecycle (launched_tracker ins e r jobs st1)"
proof -
  from assms have l: "loaded (conf e)" by (auto simp: launch_def split: if_splits)
  with assms obtain res st1 where o: "Open P registered e ho st = Inr (res, st1)"
    by (cases "Open P registered e ho st") (auto simp: launch_def)
  with assms l show ?thesis by (cases res) (auto simp: launch_def intro: that)
qed

section \<open>The channels\<close>

text \<open>The steps, taken apart: a goroutine moves, or the process ends.\<close>

lemmas goroutine_steps =
  deliver_def handler_step_def main_step_def udp_Serve_step_def http_Serve_step_def udp_read_step_def
  udp_handle_step_def http_accept_step_def http_serve_step_def tick_step_def udp_Shutdown_def http_Shutdown_def
  tracker_step_def ends_def Let_def

lemma lifecycle_step_running: "lifecycle_step P ins ho c a s = Some s' \<Longrightarrow> lc_end s = None"
  by (auto simp: lifecycle_step_def split: if_splits)

lemma lifecycle_run_append:
  "lifecycle_run P ins ho c (xs @ ys) s = Option.bind (lifecycle_run P ins ho c xs s) (lifecycle_run P ins ho c ys)"
proof (induction xs arbitrary: s)
  case (Cons a xs)
  then show ?case by (cases "lifecycle_step P ins ho c a s") simp_all
qed simp

lemma lifecycle_run_invariant:
  assumes "lifecycle_run P ins ho c acts s = Some s'" and "I s"
    and "\<And>a s s'. a \<in> set acts \<Longrightarrow> lifecycle_step P ins ho c a s = Some s' \<Longrightarrow> I s \<Longrightarrow> I s'"
  shows "I s'"
  using assms
proof (induction acts arbitrary: s)
  case (Cons a acts)
  from Cons.prems(1) obtain s1 where s1: "lifecycle_step P ins ho c a s = Some s1" "lifecycle_run P ins ho c acts s1 = Some s'"
    by (cases "lifecycle_step P ins ho c a s") simp_all
  from Cons.prems(3) [OF _ s1(1) Cons.prems(2)] have "I s1" by simp
  from Cons.IH [OF s1(2) this] Cons.prems(3) show ?case by (meson list.set_intros(2))
qed simp

text \<open>
  Which goroutine waits for which: a tracker that is initialised is served, or the main goroutine
  is about to serve it, and \<open>Serve\<close> receives nothing but the exit signal's shutdown.
\<close>

definition channels_ok :: "'o lifecycle \<Rightarrow> bool" where
  "channels_ok s \<longleftrightarrow>
     (lc_udp s = NotServing \<longrightarrow> lc_udp_made s = (lc_main s = GoesUdp)) \<and>
     (lc_udp s \<noteq> NotServing \<longrightarrow> lc_udp_made s \<and> lc_main s = Publishes) \<and>
     (lc_http s = NotServing \<longrightarrow> lc_http_made s = (lc_main s = GoesHttp)) \<and>
     (lc_http s \<noteq> NotServing \<longrightarrow> lc_http_made s \<and> lc_main s \<in> {InitsUdp, GoesUdp, Publishes}) \<and>
     (lc_udp s \<in> {Closes, Served} \<longrightarrow>
        lc_handler s \<in> {StopsHttp, SavesDatabase True, WritesConns True, Exits}) \<and>
     (lc_http s \<in> {Closes, Served} \<longrightarrow> lc_handler s \<in> {SavesDatabase True, WritesConns True, Exits})"

lemma channels_ok_new [simp]: "channels_ok (new_lifecycle t)"
  by (simp add: channels_ok_def new_lifecycle_def)

lemma channels_ok_cong:
  assumes "channels_ok s" and "lc_udp s' = lc_udp s" "lc_udp_made s' = lc_udp_made s" "lc_http s' = lc_http s"
    "lc_http_made s' = lc_http_made s" "lc_main s' = lc_main s" "lc_handler s' = lc_handler s"
  shows "channels_ok s'"
  using assms by (simp add: channels_ok_def)

lemma handler_channels:
  assumes "handler_step P ins ho e s = Some s'" "channels_ok s"
  shows "channels_ok s'"
  using assms
  by (cases "lc_handler s";
      auto simp: handler_step_def udp_Shutdown_def http_Shutdown_def tracker_step_def ends_def
        split: option.splits if_splits sum.splits;
      simp add: channels_ok_def)

lemma main_channels:
  assumes "main_step P ins c s = Some s'" "channels_ok s"
  shows "channels_ok s'"
  using assms
  by (cases "lc_main s";
      auto simp: main_step_def ends_def Let_def split: option.splits if_splits sum.splits;
      simp add: channels_ok_def)

lemma udp_serve_channels:
  assumes "udp_Serve_step ins c b s = Some s'" "channels_ok s"
  shows "channels_ok s'"
  using assms
  by (cases "lc_udp s"; auto simp: udp_Serve_step_def ends_def split: if_splits; simp add: channels_ok_def)

lemma http_serve_channels:
  assumes "http_Serve_step ins c b s = Some s'" "channels_ok s"
  shows "channels_ok s'"
  using assms
  by (cases "lc_http s"; auto simp: http_Serve_step_def ends_def split: if_splits sum.splits prod.splits;
      simp add: channels_ok_def)

text \<open>Signals, threads and ticks leave the channels alone.\<close>

lemma traffic_channels:
  assumes "lifecycle_step P ins ho c a s = Some s'" "\<forall>e. a \<noteq> Handler e" "a \<noteq> Main"
    "\<forall>b. a \<noteq> UdpServe b \<and> a \<noteq> HttpServe b"
  shows "lc_udp s' = lc_udp s" "lc_udp_made s' = lc_udp_made s" "lc_http s' = lc_http s"
    "lc_http_made s' = lc_http_made s" "lc_main s' = lc_main s" "lc_handler s' = lc_handler s"
  using assms
  by (auto simp: lifecycle_step_def goroutine_steps
      split: process_action.splits option.splits if_splits sum.splits udp_thread.splits http_thread.splits udp_read.splits
        process_event.splits)

lemma step_channels:
  assumes "lifecycle_step P ins ho c a s = Some s'" "channels_ok s"
  shows "channels_ok s'"
proof (cases a)
  case (Handler e)
  with assms show ?thesis by (auto simp: lifecycle_step_def split: if_splits intro: handler_channels)
next
  case Main
  with assms show ?thesis by (auto simp: lifecycle_step_def split: if_splits intro: main_channels)
next
  case (UdpServe b)
  with assms show ?thesis by (auto simp: lifecycle_step_def split: if_splits intro: udp_serve_channels)
next
  case (HttpServe b)
  with assms show ?thesis by (auto simp: lifecycle_step_def split: if_splits intro: http_serve_channels)
qed (rule channels_ok_cong [OF assms(2) traffic_channels [OF assms(1)]]; simp)+

section \<open>From an exit signal to the end\<close>

text \<open>
  The steps that an exit needs, and how many of them are left at most once the handler has
  received an exit signal.
\<close>

fun control :: "process_action \<Rightarrow> bool" where
  "control (Handler e) = True"
| "control Main = True"
| "control (UdpServe b) = True"
| "control (HttpServe b) = True"
| "control a = False"

fun exit_steps :: "handler \<Rightarrow> nat option" where
  "exit_steps StopsUdp = Some 5"
| "exit_steps StopsHttp = Some 4"
| "exit_steps (SavesDatabase True) = Some 3"
| "exit_steps (WritesConns True) = Some 2"
| "exit_steps Exits = Some 1"
| "exit_steps h = None"

fun main_steps :: "main_goroutine \<Rightarrow> nat" where
  "main_steps InitsHttp = 4" | "main_steps GoesHttp = 3" | "main_steps InitsUdp = 2" | "main_steps GoesUdp = 1"
| "main_steps Publishes = 0"

fun serve_steps :: "serve_state \<Rightarrow> nat" where
  "serve_steps NotServing = 3" | "serve_steps Listens = 3" | "serve_steps AwaitsShutdown = 2"
| "serve_steps Closes = 1" | "serve_steps Served = 0"

definition exiting :: "'o lifecycle \<Rightarrow> bool" where
  "exiting s \<longleftrightarrow> exit_steps (lc_handler s) \<noteq> None"

definition steps_left :: "'o lifecycle \<Rightarrow> nat" where
  "steps_left s =
     the (exit_steps (lc_handler s)) + main_steps (lc_main s) + serve_steps (lc_udp s) + serve_steps (lc_http s)"

lemma exiting_cases:
  assumes "exiting s"
  obtains "lc_handler s = StopsUdp" | "lc_handler s = StopsHttp" | "lc_handler s = SavesDatabase True"
    | "lc_handler s = WritesConns True" | "lc_handler s = Exits"
  using assms by (cases "lc_handler s" rule: exit_steps.cases) (simp_all add: exiting_def)

lemma steps_left_bound:
  assumes "exiting s"
  shows "steps_left s \<le> 15"
proof -
  have "the (exit_steps (lc_handler s)) \<le> 5"
    using assms by (rule exiting_cases) simp_all
  moreover have "main_steps (lc_main s) \<le> 4" by (cases "lc_main s") simp_all
  moreover have "serve_steps v \<le> 3" for v by (cases v) simp_all
  from this [of "lc_udp s"] this [of "lc_http s"] have "serve_steps (lc_udp s) \<le> 3" "serve_steps (lc_http s) \<le> 3" .
  ultimately show ?thesis unfolding steps_left_def by linarith
qed

text \<open>No deadlock: one of the goroutines that the exit needs can move.\<close>

lemma exit_can_go_on:
  assumes "channels_ok s" "exiting s" "lc_end s = None"
  shows "\<exists>a. control a \<and> lifecycle_step P ins ho c a s \<noteq> None"
proof -
  have main: ?thesis if "lc_main s = GoesUdp \<or> lc_main s = GoesHttp"
    using that assms(3) by (intro exI [of _ Main]) (auto simp: lifecycle_step_def main_step_def)
  have serve: ?thesis if "lc_udp s = Listens \<or> lc_http s = Listens"
  proof (cases "lc_udp s = Listens")
    case True
    then show ?thesis
      using assms(3) by (intro exI [of _ "UdpServe True"]) (simp add: lifecycle_step_def udp_Serve_step_def)
  next
    case False
    with that show ?thesis
      using assms(3) by (intro exI [of _ "HttpServe True"]) (simp add: lifecycle_step_def http_Serve_step_def)
  qed
  have handler: ?thesis if "handler_step P ins ho undefined s \<noteq> None"
    using that assms(3) by (intro exI [of _ "Handler undefined"]) (simp add: lifecycle_step_def)
  from assms(2) show ?thesis
  proof (cases rule: exiting_cases)
    case 1
    then show ?thesis
      using assms(1) main serve handler
      by (cases "lc_udp s") (auto simp: channels_ok_def handler_step_def udp_Shutdown_def)
  next
    case 2
    then show ?thesis
      using assms(1) main serve handler
      by (cases "lc_http s") (auto simp: channels_ok_def handler_step_def http_Shutdown_def)
  qed (rule handler, simp add: handler_step_def)+
qed

lemma handler_towards_exit:
  assumes "handler_step P ins ho e s = Some s'" "exiting s"
  shows "lc_end s' \<noteq> None \<or> exiting s' \<and> Suc (steps_left s') \<le> steps_left s"
  using assms(2,1)
  by (cases rule: exiting_cases)
    (auto simp: handler_step_def udp_Shutdown_def http_Shutdown_def tracker_step_def ends_def exiting_def steps_left_def
      split: if_splits sum.splits)

lemma main_towards_exit:
  assumes "main_step P ins c s = Some s'" "channels_ok s" "exiting s"
  shows "lc_end s' \<noteq> None \<or> exiting s' \<and> Suc (steps_left s') \<le> steps_left s"
  using assms
  by (cases "lc_main s"; auto simp: main_step_def ends_def Let_def split: if_splits sum.splits option.splits;
      simp add: exiting_def steps_left_def channels_ok_def)

lemma serve_towards_exit:
  assumes "udp_Serve_step ins c b s = Some s' \<or> http_Serve_step ins c b s = Some s'" "exiting s"
  shows "lc_end s' \<noteq> None \<or> exiting s' \<and> Suc (steps_left s') \<le> steps_left s"
  using assms
  by (cases "lc_udp s"; cases "lc_http s")
    (auto simp: udp_Serve_step_def http_Serve_step_def ends_def exiting_def steps_left_def split: if_splits sum.splits)

lemma step_towards_exit:
  assumes "lifecycle_step P ins ho c a s = Some s'" "channels_ok s" "exiting s"
  shows "lc_end s' \<noteq> None \<or> exiting s' \<and> steps_left s' + (if control a then 1 else 0) \<le> steps_left s"
proof (cases "control a")
  case True
  then consider e where "a = Handler e" | "a = Main" | b where "a = UdpServe b" | b where "a = HttpServe b"
    by (cases a) simp_all
  then have "lc_end s' \<noteq> None \<or> exiting s' \<and> Suc (steps_left s') \<le> steps_left s"
  proof cases
    case 1
    with assms show ?thesis by (intro handler_towards_exit) (auto simp: lifecycle_step_def split: if_splits)
  next
    case 2
    with assms show ?thesis by (intro main_towards_exit) (auto simp: lifecycle_step_def split: if_splits)
  next
    case 3
    with assms show ?thesis by (intro serve_towards_exit) (auto simp: lifecycle_step_def split: if_splits)
  next
    case 4
    with assms show ?thesis by (intro serve_towards_exit) (auto simp: lifecycle_step_def split: if_splits)
  qed
  with True show ?thesis by simp
next
  case False
  then have "\<forall>e. a \<noteq> Handler e" "a \<noteq> Main" "\<forall>b. a \<noteq> UdpServe b \<and> a \<noteq> HttpServe b" by auto
  from traffic_channels [OF assms(1) this] assms(3) False show ?thesis by (simp add: exiting_def steps_left_def)
qed

lemma run_towards_exit:
  assumes "lifecycle_run P ins ho c acts s = Some s'" "channels_ok s" "exiting s" "lc_end s' = None"
  shows "channels_ok s' \<and> exiting s' \<and> steps_left s' + length (filter control acts) \<le> steps_left s"
  using assms
proof (induction acts arbitrary: s)
  case (Cons a acts)
  from Cons.prems(1) obtain s1 where s1: "lifecycle_step P ins ho c a s = Some s1" "lifecycle_run P ins ho c acts s1 = Some s'"
    by (cases "lifecycle_step P ins ho c a s") simp_all
  have "lc_end s1 = None"
    using s1(2) Cons.prems(4) lifecycle_step_running by (cases acts) (auto split: bind_splits)
  with step_towards_exit [OF s1(1) Cons.prems(2,3)]
  have "exiting s1" "steps_left s1 + (if control a then 1 else 0) \<le> steps_left s" by auto
  with Cons.IH [OF s1(2) step_channels [OF s1(1) Cons.prems(2)] _ Cons.prems(4)] show ?case by auto
qed simp

lemma run_channels:
  "lifecycle_run P ins ho c acts s = Some s' \<Longrightarrow> channels_ok s \<Longrightarrow> channels_ok s'"
  by (rule lifecycle_run_invariant [where I = channels_ok]) (auto intro: step_channels)

section \<open>The tracker of a running process\<close>

text \<open>
  What arrives from outside: datagrams from IPv4 or IPv6 addresses, and read errors that wrap
  another error, as the errors of \<open>net\<close> do.
\<close>

fun action_ok :: "process_action \<Rightarrow> bool" where
  "action_ok (UdpRead k (Received d a)) = remote_ok a"
| "action_ok (UdpRead k (ReadError er)) = (er \<noteq> None)"
| "action_ok (UdpHandle k e) = env_valid e"
| "action_ok (HttpHandle k e) = env_valid e"
| "action_ok (Tick ev) = event_ok ev"
| "action_ok a = True"

text \<open>The panics that are left: an empty Postgres backup, and a file with the name of a route.\<close>

fun panic_explained :: "installation \<Rightarrow> backup_ref \<Rightarrow> process_end \<Rightarrow> bool" where
  "panic_explained ins r (Crashed p) =
     (p = SliceOutOfRange \<and> r = PgRef \<or> p = ExplicitPanic \<and> info_serve ins = Inl ExplicitPanic)"
| "panic_explained ins r x = True"

definition lifecycle_ok :: "installation \<Rightarrow> int64 \<Rightarrow> backup_ref \<Rightarrow> 'o lifecycle \<Rightarrow> bool" where
  "lifecycle_ok ins lim r s \<longleftrightarrow>
     tracker_ok lim (lc_tracker s) \<and> t_backup (lc_tracker s) = r \<and>
     (\<forall>d a. Handles d a \<in> set (lc_threads s) \<longrightarrow> remote_ok a) \<and>
     (\<forall>x. lc_end s = Some x \<longrightarrow> panic_explained ins r x)"

lemma lifecycle_ok_tracker_step:
  assumes "lifecycle_ok ins lim r s"
    and "continues lim (lc_tracker s) (f (lc_tracker s)) \<or> f (lc_tracker s) = Inl SliceOutOfRange \<and> r = PgRef"
    and "\<And>s'. lifecycle_ok ins lim r s' \<Longrightarrow> lc_threads s' = lc_threads s \<Longrightarrow> lifecycle_ok ins lim r (g s')"
  shows "lifecycle_ok ins lim r (tracker_step f g s)"
proof (cases "f (lc_tracker s)")
  case (Inl p)
  with assms(1,2) show ?thesis by (auto simp: tracker_step_def continues_def ends_def lifecycle_ok_def)
next
  case (Inr t)
  with assms(1,2) have "lifecycle_ok ins lim r (s\<lparr>lc_tracker := t\<rparr>)"
    by (auto simp: continues_def lifecycle_ok_def)
  with assms(3) Inr show ?thesis by (simp add: tracker_step_def)
qed

lemma lifecycle_ok_moves [simp]:
  "lifecycle_ok ins lim r (s\<lparr>lc_signal := x1\<rparr>) = lifecycle_ok ins lim r s"
  "lifecycle_ok ins lim r (s\<lparr>lc_handler := x2\<rparr>) = lifecycle_ok ins lim r s"
  "lifecycle_ok ins lim r (s\<lparr>lc_main := x3\<rparr>) = lifecycle_ok ins lim r s"
  "lifecycle_ok ins lim r (s\<lparr>lc_udp_made := x4\<rparr>) = lifecycle_ok ins lim r s"
  "lifecycle_ok ins lim r (s\<lparr>lc_http_made := x5\<rparr>) = lifecycle_ok ins lim r s"
  "lifecycle_ok ins lim r (s\<lparr>lc_udp := x6\<rparr>) = lifecycle_ok ins lim r s"
  "lifecycle_ok ins lim r (s\<lparr>lc_http := x7\<rparr>) = lifecycle_ok ins lim r s"
  "lifecycle_ok ins lim r (s\<lparr>lc_workers := x8\<rparr>) = lifecycle_ok ins lim r s"
  by (simp_all add: lifecycle_ok_def)

lemma lifecycle_ok_ends:
  "lifecycle_ok ins lim r s \<Longrightarrow> panic_explained ins r x \<Longrightarrow> lifecycle_ok ins lim r (ends x s)"
  by (simp add: lifecycle_ok_def ends_def)

lemma lifecycle_ok_thread:
  assumes "lifecycle_ok ins lim r s" "\<And>d a. th = Handles d a \<Longrightarrow> remote_ok a"
  shows "lifecycle_ok ins lim r (s\<lparr>lc_threads := (lc_threads s)[k := th]\<rparr>)"
  using assms set_update_subset_insert [of "lc_threads s" k th] by (fastforce simp: lifecycle_ok_def)

lemma pg_empty_backup: "pg_empty t \<Longrightarrow> t_backup t = PgRef"
  by (simp add: pg_empty_def)

lemma handler_keeps_ok:
  assumes "handler_step P ins ho e s = Some s'" "lifecycle_ok ins lim r s" "order_ok ho"
  shows "lifecycle_ok ins lim r s'"
proof (cases "\<exists>x. lc_handler s = SavesDatabase x")
  case True
  have t: "tracker_ok lim (lc_tracker s)" "t_backup (lc_tracker s) = r" using assms(2) by (simp_all add: lifecycle_ok_def)
  from save_db_ok [OF t(1) assms(3), of P e] t(2) assms(1,2) True show ?thesis
    by (auto simp: handler_step_def dest: pg_empty_backup intro!: lifecycle_ok_tracker_step)
next
  case False
  have "lifecycle_ok ins lim r (s\<lparr>lc_tracker := save_conns P ins (lc_tracker s), lc_handler := h\<rparr>)" for h
    using assms(2) save_conns_ok [of lim "lc_tracker s" P ins] by (simp add: lifecycle_ok_def)
  with False assms(1,2) show ?thesis
    by (cases "lc_handler s")
      (auto simp: handler_step_def udp_Shutdown_def http_Shutdown_def intro: lifecycle_ok_ends
        split: option.splits if_splits)
qed

lemma main_keeps_ok:
  assumes "main_step P ins c s = Some s'" "lifecycle_ok ins lim r s"
  shows "lifecycle_ok ins lim r s'"
proof -
  have conns: "lifecycle_ok ins lim r (s\<lparr>lc_tracker := (lc_tracker s)\<lparr>t_conns := x\<rparr>, lc_udp_made := y, lc_main := z\<rparr>)" for x y z
    using assms(2) by (simp add: lifecycle_ok_def)
  have "info_serve ins = Inl p \<Longrightarrow> p = ExplicitPanic" for p
    by (auto simp: info_serve_def split: sum.splits if_splits)
  then have crash: "info_serve ins = Inl p \<Longrightarrow> lifecycle_ok ins lim r (ends (Crashed p) s)" for p
    using assms(2) by (intro lifecycle_ok_ends) auto
  show ?thesis
    using assms conns crash
    by (cases "lc_main s") (auto simp: main_step_def Let_def intro: lifecycle_ok_ends split: if_splits sum.splits option.splits)
qed

lemma http_Serve_build:
  assumes "http_Serve ins c = Inr (b, bufs)"
  shows "b64_left b = b64_left (in_build ins)" "heroku b = heroku (in_build ins)"
    "\<forall>buf \<in> set bufs. length buf = httpRequestMax"
  using assms by (auto simp: http_Serve_def split: if_splits sum.splits)

lemma serve_keeps_ok:
  assumes "udp_Serve_step ins c b s = Some s' \<or> http_Serve_step ins c b s = Some s'" "lifecycle_ok ins lim r s"
    and "build_ok (in_build ins)" "\<not> heroku (in_build ins)"
  shows "lifecycle_ok ins lim r s'"
proof -
  have threads: "lifecycle_ok ins lim r (s\<lparr>lc_udp := x, lc_threads := replicate n Reads\<rparr>)" for x n
    using assms(2) by (simp add: lifecycle_ok_def)
  have workers: "lifecycle_ok ins lim r (s\<lparr>lc_tracker := (lc_tracker s)\<lparr>t_build := b, t_workers := bufs\<rparr>,
      lc_http := x, lc_workers := ws\<rparr>)" if "http_Serve ins c = Inr (b, bufs)" for b bufs x ws
    using assms(2-4) http_Serve_build [OF that]
    by (auto simp: lifecycle_ok_def tracker_ok_def t_world_def build_ok_def)
  show ?thesis
    using assms(1)
  proof
    assume "udp_Serve_step ins c b s = Some s'"
    with assms(2) threads show ?thesis
      by (cases "lc_udp s") (auto simp: udp_Serve_step_def intro: lifecycle_ok_ends split: if_splits)
  next
    assume "http_Serve_step ins c b s = Some s'"
    with assms(2) workers show ?thesis
      by (cases "lc_http s") (auto simp: http_Serve_step_def intro: lifecycle_ok_ends split: if_splits sum.splits)
  qed
qed

lemma tick_keeps_ok:
  assumes "tick_step P ins ho ev s = Some s'" "lifecycle_ok ins lim r s" "limit_ok lim" "order_ok ho" "event_ok ev"
  shows "lifecycle_ok ins lim r s'"
proof -
  let ?f = "\<lambda>t. bindP (handle P ins ho ev t) (\<lambda>(go, t'). Inr t')"
  have t: "tracker_ok lim (lc_tracker s)" "t_backup (lc_tracker s) = r" using assms(2) by (simp_all add: lifecycle_ok_def)
  have "continues lim (lc_tracker s) (?f (lc_tracker s)) \<or> ?f (lc_tracker s) = Inl SliceOutOfRange \<and> r = PgRef"
    using handle_ok [OF t(1) assms(3-5), of P ins] t(2) by (auto simp: continues_def dest: pg_empty_backup)
  then have "lifecycle_ok ins lim r (tracker_step ?f id s)"
    using assms(2) by (intro lifecycle_ok_tracker_step) auto
  with assms(1) show ?thesis by (auto simp: tick_step_def Let_def split: process_event.splits if_splits)
qed

lemma step_keeps_ok:
  assumes "lifecycle_step P ins ho c a s = Some s'" "lifecycle_ok ins lim r s" "action_ok a"
    and env: "limit_ok lim" "order_ok ho" "build_ok (in_build ins)" "\<not> heroku (in_build ins)"
  shows "lifecycle_ok ins lim r s'"
proof -
  have t: "tracker_ok lim (lc_tracker s)" using assms(2) by (simp add: lifecycle_ok_def)
  from assms(1) have r: "lc_end s = None" by (rule lifecycle_step_running)
  show ?thesis
  proof (cases a)
    case (Signal sig)
    with assms(1,2) r show ?thesis
      by (auto simp: lifecycle_step_def deliver_def intro: lifecycle_ok_ends split: if_splits option.splits)
  next
    case (Handler e)
    with assms(1,2) r env show ?thesis by (auto simp: lifecycle_step_def intro: handler_keeps_ok)
  next
    case Main
    with assms(1,2) r show ?thesis by (auto simp: lifecycle_step_def intro: main_keeps_ok)
  next
    case (UdpServe b)
    with assms(1,2) r env show ?thesis by (auto simp: lifecycle_step_def intro: serve_keeps_ok)
  next
    case (HttpServe b)
    with assms(1,2) r env show ?thesis by (auto simp: lifecycle_step_def intro: serve_keeps_ok)
  next
    case (UdpRead k x)
    with assms(1-3) r show ?thesis
      by (auto simp: lifecycle_step_def udp_read_step_def intro!: lifecycle_ok_thread
          split: if_splits udp_read.splits option.splits)
  next
    case (UdpHandle k e)
    with assms(1) r obtain d adr where th: "k < length (lc_threads s)" "lc_threads s ! k = Handles d adr"
      and s': "s' = tracker_step (on_datagram e d adr) (\<lambda>s'. s'\<lparr>lc_threads := (lc_threads s')[k := Reads]\<rparr>) s"
      by (auto simp: lifecycle_step_def udp_handle_step_def split: if_splits udp_thread.splits)
    have "remote_ok adr" using th assms(2) by (auto simp: lifecycle_ok_def dest: nth_mem)
    with on_datagram_ok [OF t env(1), of e adr d] UdpHandle assms(2,3) show ?thesis
      unfolding s' by (intro lifecycle_ok_tracker_step lifecycle_ok_thread) auto
  next
    case (HttpAccept k ev)
    with assms(1,2) r show ?thesis
      by (auto simp: lifecycle_step_def http_accept_step_def split: if_splits)
  next
    case (HttpHandle k e)
    with assms(1) r obtain ev where "lc_workers s ! k = Serves ev" and s': "s' = tracker_step (on_http e k ev)
        (\<lambda>s'. s'\<lparr>lc_workers := (lc_workers s')[k := (if ev = ListenerClosed then WorkerEnded else Accepts)]\<rparr>) s"
      by (cases "lc_workers s ! k") (simp_all add: lifecycle_step_def http_serve_step_def split: if_splits)
    with on_http_ok [OF t env(1), of e k ev] HttpHandle assms(2,3) show ?thesis
      unfolding s' by (intro lifecycle_ok_tracker_step) auto
  next
    case (Tick ev)
    with assms(1-3) r env show ?thesis by (auto simp: lifecycle_step_def intro: tick_keeps_ok)
  qed
qed

text \<open>A process that was launched.\<close>

lemma launched_ok:
  assumes "launch P ins e ho st = Inr (Inr s)" and "w_pools (s_world st) = None"
    and "build_ok (in_build ins)" "\<not> heroku (in_build ins)"
  obtains r where "lifecycle_ok ins (Numwant_Limit (conf e)) r s" "channels_ok s" "\<not> exiting s" "lc_signal s = None"
    "lc_end s = None" "lc_handler s = HandlerStarts" "DB_Backup_Type (conf e) = backup_name r"
proof -
  from assms(1) obtain r jobs st1 where o: "Open P registered e ho st = Inr (Inr (r, jobs), st1)"
    and s: "s = new_lifecycle (launched_tracker ins e r jobs st1)" by (rule launch_succeeded)
  note ok = opened_ok [OF o assms(2), of "launched_tracker ins e r jobs st1"]
  have "tracker_ok (Numwant_Limit (conf e)) (launched_tracker ins e r jobs st1)"
    using ok assms(3,4) blank_mem_ok [OF ok(2)]
    by (simp add: launched_tracker_def tracker_ok_def world_ok_def pools_ok_Initialize)
  then show ?thesis
    using ok(8) by (intro that [of r])
      (simp_all add: s new_lifecycle_def launched_tracker_def lifecycle_ok_def exiting_def channels_ok_def)
qed

section \<open>How a process ends\<close>

definition exit_signalled :: "process_action list \<Rightarrow> bool" where
  "exit_signalled acts \<longleftrightarrow> Signal Interrupt \<in> set acts \<or> Signal Sigterm \<in> set acts"

fun end_explained :: "installation \<Rightarrow> process_action list \<Rightarrow> process_end \<Rightarrow> bool" where
  "end_explained ins acts (ExitFatal f) =
     (f = UdpFailed \<and> (\<not> in_listen_udp ins \<or> UdpServe False \<in> set acts) \<or>
      f = HttpFailed \<and> (\<not> in_listen_tcp ins \<or> (\<exists>x. GenerateEmbeddedCache (in_embed ins) = Inl x) \<or> HttpServe False \<in> set acts) \<or>
      f = CacheFailed \<and> (\<exists>x. GenerateEmbeddedCache (in_embed ins) = Inl x))"
| "end_explained ins acts (Crashed p) = True"
| "end_explained ins acts x = exit_signalled acts"

text \<open>What only an exit signal brings about: an exit that runs, or a signal for one that waits.\<close>

definition exit_requested :: "'o lifecycle \<Rightarrow> bool" where
  "exit_requested s \<longleftrightarrow> exiting s \<or> lc_signal s \<in> {Some Interrupt, Some Sigterm}"

lemma handler_kept:
  assumes "lifecycle_step P ins ho c a s = Some s'" "\<forall>e. a \<noteq> Handler e" "\<forall>sig. a \<noteq> Signal sig"
  shows "lc_handler s' = lc_handler s" "lc_signal s' = lc_signal s"
  using assms
  by (auto simp: lifecycle_step_def goroutine_steps
      split: process_action.splits option.splits if_splits sum.splits prod.splits udp_thread.splits http_thread.splits
        udp_read.splits process_event.splits main_goroutine.splits serve_state.splits)

lemma exit_requested_moves:
  assumes "lifecycle_step P ins ho c a s = Some s'" "exit_requested s'"
  shows "exit_requested s \<or> a = Signal Interrupt \<or> a = Signal Sigterm"
proof (cases a)
  case (Signal sig)
  with assms show ?thesis
    by (cases sig) (auto simp: lifecycle_step_def deliver_def ends_def exit_requested_def exiting_def
        split: if_splits option.splits)
next
  case (Handler e)
  with assms(1) have h: "handler_step P ins ho e s = Some s'" by (simp add: lifecycle_step_def split: if_splits)
  show ?thesis
  proof (cases "lc_handler s")
    case AwaitsSignal
    with h assms(2) show ?thesis
      by (auto simp: handler_step_def exit_requested_def exiting_def split: option.splits if_splits)
        (metis os_signal.exhaust)
  next
    case (SavesDatabase x)
    with h assms(2) show ?thesis
      by (cases x) (auto simp: handler_step_def tracker_step_def ends_def exit_requested_def exiting_def split: sum.splits)
  next
    case (WritesConns x)
    with h assms(2) show ?thesis
      by (cases x) (auto simp: handler_step_def exit_requested_def exiting_def)
  qed (use h assms(2) in \<open>auto simp: handler_step_def exit_requested_def exiting_def\<close>)
qed (use handler_kept [OF assms(1)] assms(2) in \<open>simp_all add: exit_requested_def exiting_def\<close>)

text \<open>The last step of a process, by the goroutine that made it.\<close>

lemma handler_end:
  assumes "handler_step P ins ho e s = Some s'" "lc_end s' = Some x" "lc_end s = None"
  shows "x = ExitSuccess \<and> exiting s \<or> (\<exists>p. x = Crashed p)"
  using assms
  by (cases "lc_handler s")
    (auto simp: handler_step_def udp_Shutdown_def http_Shutdown_def tracker_step_def ends_def exiting_def
      split: option.splits if_splits sum.splits)

lemma main_end:
  assumes "main_step P ins c s = Some s'" "lc_end s' = Some x" "lc_end s = None"
  shows "x = ExitFatal CacheFailed \<and> (\<exists>y. GenerateEmbeddedCache (in_embed ins) = Inl y) \<or> (\<exists>p. x = Crashed p)"
  using assms
  by (cases "lc_main s")
    (auto simp: main_step_def ends_def info_serve_def Let_def split: if_splits sum.splits option.splits)

lemma serve_end:
  assumes "udp_Serve_step ins c b s = Some s' \<and> a = UdpServe b \<or> http_Serve_step ins c b s = Some s' \<and> a = HttpServe b"
    and "lc_end s' = Some x" "lc_end s = None" "a \<in> set acts"
  shows "end_explained ins acts x"
  using assms
  by (auto simp: udp_Serve_step_def http_Serve_step_def http_Serve_def ends_def
      split: serve_state.splits if_splits sum.splits)

lemma step_explained:
  assumes "lifecycle_step P ins ho c a s = Some s'" "a \<in> set acts" "exit_requested s \<Longrightarrow> exit_signalled acts"
    and "lc_end s' = Some x"
  shows "end_explained ins acts x"
proof -
  from assms(1) have r: "lc_end s = None" by (rule lifecycle_step_running)
  show ?thesis
  proof (cases a)
    case (Signal sig)
    with assms r show ?thesis
      by (cases sig) (auto simp: lifecycle_step_def deliver_def ends_def exit_signalled_def split: if_splits option.splits)
  next
    case (Handler e)
    with assms r handler_end [of P ins ho e s s' x] show ?thesis
      by (auto simp: lifecycle_step_def exit_requested_def)
  next
    case Main
    with assms r main_end [of P ins c s s' x] show ?thesis by (auto simp: lifecycle_step_def)
  next
    case (UdpServe b)
    with assms r serve_end [of ins c b s s' a x acts] show ?thesis by (auto simp: lifecycle_step_def)
  next
    case (HttpServe b)
    with assms r serve_end [of ins c b s s' a x acts] show ?thesis by (auto simp: lifecycle_step_def)
  qed (use assms(1,4) r in \<open>auto simp: lifecycle_step_def goroutine_steps
        split: option.splits if_splits sum.splits udp_thread.splits http_thread.splits udp_read.splits process_event.splits\<close>)
qed

section \<open>An undisturbed start\<close>

text \<open>
  \<open>Run\<close> of Startup is one schedule of these goroutines: the main goroutine and the two \<open>Serve\<close>s,
  one after the other.
\<close>

definition start_schedule :: "configuration \<Rightarrow> process_action list" where
  "start_schedule c =
     (if HTTP_Mode c = lit ''enabled'' then [Main, Main, HttpServe True] else [Main]) @
     (if UDP_Enabled c then [Main, Main, UdpServe True] else [Main])"

theorem Run_is_a_schedule:
  assumes "Run P ins e ho st = Inr (Inr t)"
  shows "\<exists>s0 s. launch P ins e ho st = Inr (Inr s0) \<and>
    lifecycle_run P ins ho (conf e) (start_schedule (conf e)) s0 = Some s \<and> lc_tracker s = t \<and>
    lc_main s = Publishes \<and> lc_end s = None"
proof -
  let ?c = "conf e"
  from Run_started [OF assms] obtain st1 where o: "Open P registered e ho st = Inr (Inr (t_backup t, t_jobs t), st1)"
    and st: "t_store t = st1\<lparr>s_world := (s_world st1)\<lparr>w_pools := Some (Initialize (Numwant_Limit ?c))\<rparr>\<rparr>"
    and h: "start_http ins ?c = Inr (Inr (t_build t, t_workers t))" and t: "loaded ?c" "t_sent t = []" "t_written t = []" "t_expvars t = []"
    by metis
  from assms o h t(1) st have u: "start_udp_tracker P ins ?c (t_store t) = Inr (t_conns t)"
    by (cases t) (auto simp: Run_def Let_def split: sum.splits)
  let ?s0 = "new_lifecycle (launched_tracker ins e (t_backup t) (t_jobs t) st1)"
  have l: "launch P ins e ho st = Inr (Inr ?s0)" using o t(1) by (simp add: launch_def)
  let ?t1 = "(launched_tracker ins e (t_backup t) (t_jobs t) st1)\<lparr>t_build := t_build t, t_workers := t_workers t\<rparr>"
  have "\<exists>s1. lifecycle_run P ins ho ?c
      (if HTTP_Mode ?c = lit ''enabled'' then [Main, Main, HttpServe True] else [Main]) ?s0 = Some s1 \<and>
      lc_tracker s1 = ?t1 \<and> lc_main s1 = InitsUdp \<and> lc_end s1 = None"
    using h
    by (auto simp: start_http_def lifecycle_step_def main_step_def http_Serve_step_def new_lifecycle_def launched_tracker_def
        bindP_Inr_iff split: if_splits option.splits sum.splits)
  then obtain s1 where s1: "lifecycle_run P ins ho ?c
      (if HTTP_Mode ?c = lit ''enabled'' then [Main, Main, HttpServe True] else [Main]) ?s0 = Some s1"
    "lc_tracker s1 = ?t1" "lc_main s1 = InitsUdp" "lc_end s1 = None" by blast
  have conns: "?t1\<lparr>t_conns := t_conns t\<rparr> = t"
    using st t(2-4) by (cases t) (simp add: launched_tracker_def)
  have no_conns: "t_conns t = None \<Longrightarrow> ?t1 = t"
    using st t(2-4) by (cases t) (simp add: launched_tracker_def)
  have "t_store ?t1 = t_store t" "t_world ?t1 = s_world (t_store t)"
    using st by (simp_all add: launched_tracker_def t_world_def)
  with u s1(2-4) conns no_conns have "\<exists>s. lifecycle_run P ins ho ?c
      (if UDP_Enabled ?c then [Main, Main, UdpServe True] else [Main]) s1 = Some s \<and>
      lc_tracker s = t \<and> lc_main s = Publishes \<and> lc_end s = None"
    by (auto simp: start_udp_tracker_def lifecycle_step_def main_step_def udp_Serve_step_def Let_def
        split: if_splits)
  with l s1(1) show ?thesis by (auto simp: start_schedule_def lifecycle_run_append simp del: lifecycle_run.simps)
qed

section \<open>A launched process\<close>

lemma sample_launch:
  "\<exists>t. launch sample_platform sample_installation (sample_env 0) sorted_order (new_process sample_out) =
     Inr (Inr (new_lifecycle t)) \<and> save_db sample_platform sorted_order (sample_env 0) t = Inr t"
proof -
  have "\<exists>jobs st'. Open sample_platform registered (sample_env 0) sorted_order (new_process sample_out) =
      Inr (Inr (NoneRef, jobs), st')"
    by (subst Open_registered [where r = NoneRef])
      (simp_all add: default_drivers Memory_Init_def none_defs sync_opened_def SyncExpvars_def Check_def make_db_def
        memory_make_def split: prod.splits)
  then obtain jobs st' where o: "Open sample_platform registered (sample_env 0) sorted_order (new_process sample_out) =
      Inr (Inr (NoneRef, jobs), st')" by blast
  let ?t = "launched_tracker sample_installation (sample_env 0) NoneRef jobs st'"
  have "save_db sample_platform sorted_order (sample_env 0) ?t = Inr ?t"
    by (simp add: save_db_def launched_tracker_def none_defs)
  moreover have "launch sample_platform sample_installation (sample_env 0) sorted_order (new_process sample_out) =
      Inr (Inr (new_lifecycle ?t))" using o by (simp add: launch_def default_drivers)
  ultimately show ?thesis by blast
qed

lemma sample_loaded: "w_pools (s_world (new_process sample_out)) = None" "build_ok (in_build sample_installation)"
  "\<not> heroku (in_build sample_installation)" "limit_ok (Numwant_Limit (conf (sample_env 0)))"
  by (simp_all add: new_process_def sample_installation_def default_drivers)

section \<open>Properties\<close>

text \<open>
  C5: An exit signal ends the process: once the handler has received one, whatever datagrams,
  requests, signals and ticks arrive, the goroutines that the exit needs never wait for each other
  for ever, and after at most fifteen of their steps the process has ended.
\<close>

theorem exit_signal_ends_process:
  assumes "launch P ins e ho st = Inr (Inr s0)" and "lifecycle_run P ins ho c acts0 s0 = Some s" and "exiting s"
    and "lifecycle_run P ins ho c acts s = Some s'"
  shows "lc_end s' \<noteq> None \<or>
    length (filter control acts) < 15 \<and> (\<exists>a. control a \<and> lifecycle_step P ins ho c a s' \<noteq> None)"
proof (cases "lc_end s' = None")
  case True
  from assms(1) have "channels_ok s0" by (rule launch_succeeded) simp
  with assms(2) have s: "channels_ok s" by (rule run_channels)
  note left = run_towards_exit [OF assms(4) s assms(3) True]
  have "0 < steps_left s'"
    using left by (auto simp: steps_left_def elim: exiting_cases)
  with left steps_left_bound [OF assms(3)] exit_can_go_on [of s' P ins ho c] True show ?thesis by auto
qed simp

theorem exit_signal_ends_process_witness:
  "\<exists>s0 s. launch sample_platform sample_installation (sample_env 0) sorted_order (new_process sample_out) = Inr (Inr s0) \<and>
     lifecycle_run sample_platform sample_installation sorted_order default_config
       [Handler (sample_env 0), Signal Interrupt, Handler (sample_env 0)] s0 = Some s \<and> lc_end s = None \<and>
     (\<exists>a. control a \<and> lifecycle_step sample_platform sample_installation sorted_order default_config a s \<noteq> None)"
proof -
  obtain t where l: "launch sample_platform sample_installation (sample_env 0) sorted_order (new_process sample_out) =
      Inr (Inr (new_lifecycle t))" using sample_launch by blast
  let ?s = "(new_lifecycle t)\<lparr>lc_handler := StopsUdp\<rparr>"
  have r: "lifecycle_run sample_platform sample_installation sorted_order default_config
      [Handler (sample_env 0), Signal Interrupt, Handler (sample_env 0)] (new_lifecycle t) = Some ?s"
    by (simp add: lifecycle_step_def handler_step_def deliver_def new_lifecycle_def)
  have "exiting ?s" "lc_end ?s = None" by (simp_all add: exiting_def new_lifecycle_def)
  with exit_signal_ends_process [OF l r _ lifecycle_run.simps(1)] l r show ?thesis by blast
qed

text \<open>
  A launched process along a schedule: the database stays in order, as far as every request, job and
  database operation is one step, and the end has one of the reasons that are possible.
\<close>

lemma launched_run:
  assumes "launch P ins e ho st = Inr (Inr s0)" and "w_pools (s_world st) = None"
    and "build_ok (in_build ins)" "\<not> heroku (in_build ins)" "limit_ok (Numwant_Limit (conf e))" "order_ok ho"
    and "\<forall>a \<in> set acts. action_ok a" and "lifecycle_run P ins ho c acts s0 = Some s"
  obtains r where "lifecycle_ok ins (Numwant_Limit (conf e)) r s" "DB_Backup_Type (conf e) = backup_name r"
    "\<And>x. lc_end s = Some x \<Longrightarrow> end_explained ins acts x"
proof -
  let ?lim = "Numwant_Limit (conf e)"
  obtain r where s0: "lifecycle_ok ins ?lim r s0" "\<not> exiting s0" "lc_signal s0 = None" "lc_end s0 = None"
      "DB_Backup_Type (conf e) = backup_name r"
    by (rule launched_ok [OF assms(1-4)])
  define I where "I = (\<lambda>s :: 'a lifecycle. lifecycle_ok ins ?lim r s \<and> (exit_requested s \<longrightarrow> exit_signalled acts) \<and>
    (\<forall>x. lc_end s = Some x \<longrightarrow> end_explained ins acts x))"
  have "I s"
    using assms(8)
  proof (rule lifecycle_run_invariant)
    show "I s0" using s0 by (simp add: I_def exit_requested_def)
    fix a s s'
    assume a: "a \<in> set acts" "lifecycle_step P ins ho c a s = Some s'" "I s"
    then have "exit_requested s' \<longrightarrow> exit_signalled acts"
      using exit_requested_moves [OF a(2)] by (auto simp: I_def exit_signalled_def)
    with a assms(3-7) show "I s'"
      using step_keeps_ok [OF a(2), of ?lim r] step_explained [OF a(2,1)] by (auto simp: I_def)
  qed
  with s0(5) that show ?thesis by (auto simp: I_def)
qed

text \<open>
  C4: How a process ends: whatever arrives and however the steps of its goroutines are scheduled, it
  ends only with success or by a signal after an exit signal was sent, with a fatal error after
  listening or closing failed or the embedded files could not be read, or with one of two panics,
  that of an empty Postgres backup and that of an embedded file with the name of a route of the
  information server. The handling of a datagram, a request, a job or a tick is one step here; what
  the goroutines do to the database between its locks is the matter of Interleaving.
\<close>

theorem ways_a_process_ends:
  assumes "launch P ins e ho st = Inr (Inr s0)" and "w_pools (s_world st) = None"
    and "build_ok (in_build ins)" "\<not> heroku (in_build ins)" "limit_ok (Numwant_Limit (conf e))" "order_ok ho"
    and "\<forall>a \<in> set acts. action_ok a" and "lifecycle_run P ins ho c acts s0 = Some s"
  shows "case lc_end s of
       None \<Rightarrow> True
     | Some ExitSuccess \<Rightarrow> exit_signalled acts
     | Some KilledBySignal \<Rightarrow> exit_signalled acts
     | Some (ExitFatal f) \<Rightarrow>
         f = UdpFailed \<and> (\<not> in_listen_udp ins \<or> UdpServe False \<in> set acts) \<or>
         f = HttpFailed \<and> (\<not> in_listen_tcp ins \<or> HttpServe False \<in> set acts) \<or>
         f \<in> {HttpFailed, CacheFailed} \<and> (\<exists>x. GenerateEmbeddedCache (in_embed ins) = Inl x)
     | Some (Crashed p) \<Rightarrow>
         p = SliceOutOfRange \<and> DB_Backup_Type (conf e) = lit ''pg'' \<or>
         p = ExplicitPanic \<and> info_serve ins = Inl ExplicitPanic"
proof -
  from launched_run [OF assms] obtain r where ok: "lifecycle_ok ins (Numwant_Limit (conf e)) r s"
    "DB_Backup_Type (conf e) = backup_name r" and ends: "\<And>x. lc_end s = Some x \<Longrightarrow> end_explained ins acts x" by blast
  have "panic_explained ins r x" if "lc_end s = Some x" for x using ok(1) that by (simp add: lifecycle_ok_def)
  with ends ok(2) show ?thesis by (auto split: option.split process_end.split)
qed

theorem ways_a_process_ends_witness:
  "\<exists>s0 s. launch sample_platform sample_installation (sample_env 0) sorted_order (new_process sample_out) = Inr (Inr s0) \<and>
     lifecycle_run sample_platform sample_installation sorted_order default_config [Signal Sigterm] s0 = Some s \<and>
     lc_end s = Some KilledBySignal \<and> exit_signalled [Signal Sigterm]"
proof -
  obtain t where l: "launch sample_platform sample_installation (sample_env 0) sorted_order (new_process sample_out) =
      Inr (Inr (new_lifecycle t))" using sample_launch by blast
  let ?s = "(new_lifecycle t)\<lparr>lc_end := Some KilledBySignal\<rparr>"
  have r: "lifecycle_run sample_platform sample_installation sorted_order default_config [Signal Sigterm] (new_lifecycle t) = Some ?s"
    by (simp add: lifecycle_step_def deliver_def ends_def new_lifecycle_def)
  have a: "\<forall>a \<in> set [Signal Sigterm]. action_ok a" by simp
  from ways_a_process_ends [OF l sample_loaded order_ok_sorted a r] l r show ?thesis
    by (simp add: default_drivers)
qed

text \<open>
  An exit signal can be dropped: while the handler saves on a first \<open>SIGUSR1\<close> and a second one
  waits in the channel, which holds one signal, a \<open>SIGTERM\<close> has no effect. Whatever happens then,
  as long as no other exit signal is sent, the process neither exits nor stops its trackers.
\<close>

theorem exit_signal_is_dropped:
  assumes "lc_handler s = SavesDatabase False" and "lc_signal s = Some Sigusr1" and "lc_end s = None"
    and "lifecycle_run P ins ho c (Signal Sigterm # acts) s = Some s'" and "\<not> exit_signalled acts"
  shows "\<not> exiting s' \<and> lc_end s' \<noteq> Some ExitSuccess \<and> lc_end s' \<noteq> Some KilledBySignal"
proof -
  have run: "lifecycle_run P ins ho c acts s = Some s'"
    using assms(1-4) by (simp add: lifecycle_step_def deliver_def)
  define I where "I = (\<lambda>s :: 'a lifecycle. \<not> exit_requested s \<and> (\<forall>x. lc_end s = Some x \<longrightarrow> end_explained ins acts x))"
  have "I s'"
    using run
  proof (rule lifecycle_run_invariant)
    show "I s" using assms(1-3) by (simp add: I_def exit_requested_def exiting_def)
    fix a s s'
    assume a: "a \<in> set acts" "lifecycle_step P ins ho c a s = Some s'" "I s"
    with exit_requested_moves [OF a(2)] step_explained [OF a(2,1)] assms(5) show "I s'"
      by (auto simp: I_def exit_signalled_def)
  qed
  with assms(5) show ?thesis by (auto simp: I_def exit_requested_def)
qed

theorem exit_signal_is_dropped_witness:
  "\<exists>s0 s'. launch sample_platform sample_installation (sample_env 0) sorted_order (new_process sample_out) = Inr (Inr s0) \<and>
     lifecycle_run sample_platform sample_installation sorted_order default_config
       [Handler (sample_env 0), Signal Sigusr1, Handler (sample_env 0), Signal Sigusr1, Signal Sigterm, Handler (sample_env 0)] s0 =
       Some s' \<and> \<not> exiting s' \<and> lc_end s' \<noteq> Some ExitSuccess"
proof -
  obtain t where l: "launch sample_platform sample_installation (sample_env 0) sorted_order (new_process sample_out) =
      Inr (Inr (new_lifecycle t))" and t: "save_db sample_platform sorted_order (sample_env 0) t = Inr t"
    using sample_launch by blast
  let ?s = "(new_lifecycle t)\<lparr>lc_handler := SavesDatabase False, lc_signal := Some Sigusr1\<rparr>"
  let ?s' = "?s\<lparr>lc_handler := WritesConns False\<rparr>"
  let ?run = "lifecycle_run sample_platform sample_installation sorted_order default_config"
  have r1: "?run [Handler (sample_env 0), Signal Sigusr1, Handler (sample_env 0), Signal Sigusr1] (new_lifecycle t) = Some ?s"
    by (simp add: lifecycle_step_def handler_step_def deliver_def new_lifecycle_def)
  have r2: "?run (Signal Sigterm # [Handler (sample_env 0)]) ?s = Some ?s'"
    using t by (simp add: lifecycle_step_def handler_step_def deliver_def tracker_step_def new_lifecycle_def)
  have "\<not> exiting ?s' \<and> lc_end ?s' \<noteq> Some ExitSuccess"
    using exit_signal_is_dropped [OF _ _ _ r2] by (simp add: new_lifecycle_def exit_signalled_def)
  moreover have "?run ([Handler (sample_env 0), Signal Sigusr1, Handler (sample_env 0), Signal Sigusr1] @
      (Signal Sigterm # [Handler (sample_env 0)])) (new_lifecycle t) = Some ?s'"
    unfolding lifecycle_run_append r1 using r2 by simp
  ultimately show ?thesis using l by (intro exI [of _ "new_lifecycle t"] exI [of _ ?s'] conjI) simp_all
qed

text \<open>A request that a worker of a tracker in order serves: its turn, its writes, and what stays as it is.\<close>

lemma on_http_request:
  assumes "tracker_ok lim t" "k < length (t_workers t)"
    and "worker_step gomap e (t_build t) ev \<lparr>k_buf = t_workers t ! k, k_world = t_world t\<rparr> = Inr (go, k', outs)"
  shows "\<exists>t'. on_http e k ev t = Inr t' \<and> t_world t' = k_world k' \<and> t_written t' = t_written t @ map (Pair k) outs \<and>
    t_conns t' = t_conns t \<and> s_out (t_store t') = s_out (t_store t)"
  using assms by (simp add: on_http_def with_world_def t_world_def)

text \<open>
  The last steps of an exit with a worker that still has a request: the save, the request, the
  connections, of which there are none, and the exit.
\<close>

lemma exit_with_request:
  assumes "lc_handler s = SavesDatabase True" "t_conns t2 = None" "save_db P ho e (lc_tracker s) = Inr t1"
    and "k < length (lc_workers s)" "lc_workers s ! k = Serves ev" "on_http e1 k ev t1 = Inr t2"
    and run: "lifecycle_run P ins ho c [Handler e, HttpHandle k e1, Handler e2, Handler e3] s = Some s'"
  shows "lc_end s' = Some ExitSuccess" "lc_tracker s' = t2"
proof -
  have end0: "lc_end s = None" using run by (auto simp: lifecycle_step_def split: if_splits)
  have s1: "lifecycle_step P ins ho c (Handler e) s = Some (s\<lparr>lc_tracker := t1, lc_handler := WritesConns True\<rparr>)"
    using assms(1,3) end0 by (simp add: lifecycle_step_def handler_step_def tracker_step_def)
  have "save_conns P ins t2 = t2" using assms(2) by (simp add: save_conns_def WriteConns_def t_udp_def)
  with run s1 assms(4-6) end0 show "lc_end s' = Some ExitSuccess" "lc_tracker s' = t2"
    by (auto simp: lifecycle_step_def http_serve_step_def handler_step_def tracker_step_def ends_def)
qed

text \<open>
  C33: A request that is handled after the database was saved is lost: the exit does not wait for the
  workers. While the handler of the signals is between the save and the exit, a worker serves the
  announce of a new client that it accepted before: it writes the response with the swarm that the
  client joined, and the client is in the database. Then the process exits with success, and what a
  process with pools loads is the database before the request, without the client. (The UDP tracker
  is disabled, so that the handler writes no connections, and the backup keeps what it saved.)
\<close>

theorem late_request_is_lost:
  assumes "lc_handler s = SavesDatabase True" "tracker_ok lim (lc_tracker s)" "t_conns (lc_tracker s) = None"
    and "k < length (lc_workers s)" "k < length (t_workers (lc_tracker s))"
    and req: "lc_workers s ! k = Serves (Request
      (get_request (lit ''/announce'') (client_query safe (announce_args h i port)) rest) (Addr4 w, rport))"
      "length (get_request (lit ''/announce'') (client_query safe (announce_args h i port)) rest) \<le> httpRequestMax"
      "safe_ok safe" "length h = 20" "length i = 20" "0 < port" "port < 65536"
    and e1: "limit_ok lim" "env_ok e1" "fuzz_ok (conf e1)" "Numwant_Default (conf e1) \<noteq> 0"
    and new: "mem_swarm (w_db (t_world (lc_tracker s))) h i = None"
    and save: "save_db P ho e (lc_tracker s) = Inr t1"
      "bk_Save (backup_of P r) e ho (t_store (lc_tracker s)) = Inr (None, t_store t1)" "t_backup (lc_tracker s) = r"
    and run: "lifecycle_run P ins ho c [Handler e, HttpHandle k e1, Handler e2, Handler e3] s = Some s'"
    and load: "outside_trusted r P" "s_out fresh = s_out (t_store (lc_tracker s'))"
      "DB_Backup_Path (conf e') = DB_Backup_Path (conf e)"
      "bk_Init (backup_of P r) e' MemRef fresh = Inr (None, started)"
    and ok: "order_ok ho" "env_ok e" "snapshot_ok (entries (w_db (t_world (lc_tracker s))))"
      "entries (w_db (t_world (lc_tracker s))) \<noteq> fmempty"
      "w_pools (s_world fresh) = Some ps" "pools_ok lim ps"
  shows "lc_end s' = Some ExitSuccess \<and>
    (\<exists>sw' interval body b4 b6 ls.
       sw' = swarm_save h i \<lparr>Complete = False, IP = Addr4 w, Port = of_nat port, LastSeen = now e1\<rparr>
         (mem_swarm (w_db (t_world (lc_tracker s)))) \<and>
       t_written (lc_tracker s') = t_written (lc_tracker s) @ [(k, httpSuccessBytes @ body)] \<and>
       http_interval e1 = Inr interval \<and> compact_lists lim (sw' h) ls b4 b6 \<and>
       bdecode body = Inr (BDict ((lit ''interval'', BInt (sint interval)) # count_entries h sw' @
         [(lit ''peers'', BStr b4), (lit ''peers6'', BStr b6)])) \<and>
       mem_swarm (w_db (t_world (lc_tracker s'))) = sw') \<and>
    (\<exists>restored. bk_Load (backup_of P r) e' started = Inr (None, restored) \<and>
       w_db (s_world restored) = w_db (t_world (lc_tracker s)) \<and> mem_swarm (w_db (s_world restored)) h i = None)"
proof -
  let ?t = "lc_tracker s"
  let ?req = "get_request (lit ''/announce'') (client_query safe (announce_args h i port)) rest"
  have ready: "driver_ready r (t_store ?t)" "mem_ok (w_db (s_world (t_store ?t)))"
    using assms(2) save(3) by (auto simp: tracker_ok_def t_world_def)
  obtain er st where t1: "t1 = ?t\<lparr>t_store := st\<rparr>" using save(1) by (auto simp: save_db_def bindP_Inr_iff)
  have w1: "t_world t1 = t_world ?t"
    using driver.Save_law [OF ready(1) save(2)] by (simp add: t_world_def t1)
  have ok1: "tracker_ok lim t1"
    using assms(2) driver.Save_law [OF ready(1) save(2)] save(3) by (simp add: tracker_ok_def t_world_def t1)
  let ?k = "\<lparr>k_buf = t_workers t1 ! k, k_world = t_world t1\<rparr>"
  have k: "worker_ok mem_ok lim ?k" "build_ok (t_build t1)" "\<not> heroku (t_build t1)"
    using ok1 assms(5) by (auto simp: tracker_ok_def worker_ok_def t1)
  obtain k' sw' interval body b4 b6 ls where
    step: "worker_step gomap e1 (t_build t1) (Request ?req (Addr4 w, rport)) ?k = Inr (True, k', [httpSuccessBytes @ body])"
    and sw: "sw' = swarm_save h i \<lparr>Complete = False, IP = Addr4 w, Port = of_nat port, LastSeen = now e1\<rparr>
      (mem_swarm (w_db (k_world ?k)))"
    "mem_swarm (w_db (k_world k')) = sw'"
    and reply: "http_interval e1 = Inr interval" "compact_lists lim (sw' h) ls b4 b6" "bdecode body = Inr (BDict ((lit ''interval'', BInt (sint interval)) #
      count_entries h sw' @ [(lit ''peers'', BStr b4), (lit ''peers6'', BStr b6)]))"
    using encoded_announce_effect [OF k e1 req(3-7,2), of w rport] by (elim exE conjE) (rule that, assumption+)
  obtain t2 where t2: "on_http e1 k (Request ?req (Addr4 w, rport)) t1 = Inr t2" "t_world t2 = k_world k'"
    "t_written t2 = t_written t1 @ [(k, httpSuccessBytes @ body)]" "t_conns t2 = t_conns t1" "s_out (t_store t2) = s_out (t_store t1)"
    using on_http_request [OF ok1 _ step] assms(5) by (auto simp: t1)
  have "t_conns t2 = None" using t2(4) assms(3) by (simp add: t1)
  note s' = exit_with_request [OF assms(1) this save(1) assms(4) req(1) t2(1) run]
  from keeper.Load_restores [OF load(1) ready(1) save(2) _ load(3,4) ok(1,2) ready(2) _ _ ok(5,6)] load(2) ok(3,4) t2(5)
  obtain restored where "bk_Load (backup_of P r) e' started = Inr (None, restored)" "w_db (s_world restored) = w_db (t_world ?t)"
    by (auto simp: s'(2) t_world_def)
  with s' sw reply t2(2,3) new w1 show ?thesis by (auto simp: t1)
qed

definition late_request :: http_event where
  "late_request = Request (get_request (lit ''/announce'')
     (client_query (\<lambda>_. False) (announce_args (replicate 20 1) (replicate 20 2) 6881)) []) (Addr4 7, 9)"

definition exiting_process :: "sample_outside lifecycle" where
  "exiting_process =
     (new_lifecycle ((launched_tracker sample_installation (sample_env 0) FileRef []
        (sample_store (one_hash_world (replicate 20 3) two_peers)))\<lparr>t_workers := [replicate httpRequestMax 0]\<rparr>))
       \<lparr>lc_handler := SavesDatabase True, lc_http := Closes, lc_workers := [Serves late_request]\<rparr>"

theorem late_request_is_lost_witness:
  "\<exists>s' body restored. lifecycle_run sample_platform sample_installation sorted_order default_config
       [Handler (sample_env 0), HttpHandle 0 (sample_env 1), Handler (sample_env 2), Handler (sample_env 2)]
       exiting_process = Some s' \<and> lc_end s' = Some ExitSuccess \<and>
     t_written (lc_tracker s') = [(0, httpSuccessBytes @ body)] \<and>
     mem_swarm (w_db (t_world (lc_tracker s'))) (replicate 20 1) (replicate 20 2) \<noteq> None \<and>
     FileBackup_Load sample_platform (sample_env 9)
       ((sample_store start_world)\<lparr>s_out := s_out (t_store (lc_tracker s'))\<rparr>) = Inr (None, restored) \<and>
     mem_swarm (w_db (s_world restored)) (replicate 20 1) (replicate 20 2) = None"
proof -
  let ?w = "one_hash_world (replicate 20 3) two_peers" and ?t = "lc_tracker exiting_process"
  let ?e = "sample_env 0" and ?fresh = "\<lambda>out. (sample_store start_world)\<lparr>s_out := out\<rparr>"
  have t: "t_conns ?t = None" "t_backup ?t = FileRef" "t_build ?t = plain_build" "t_workers ?t = [replicate httpRequestMax 0]"
    "w_db (t_world ?t) = w_db ?w" "lc_handler exiting_process = SavesDatabase True"
    "lc_workers exiting_process = [Serves late_request]" "lc_end exiting_process = None" "t_written ?t = []"
    by (simp_all add: exiting_process_def new_lifecycle_def launched_tracker_def sample_installation_def t_world_def)
  have ok: "tracker_ok 200 ?t"
    using one_hash_world_ok [of "replicate 20 3" two_peers]
    by (simp add: exiting_process_def new_lifecycle_def launched_tracker_def tracker_ok_def t_world_def
        sample_installation_def world_ok_def default_drivers pools_ok_Initialize file_ready_def)
  obtain st1 where save: "bk_Save (backup_of sample_platform FileRef) ?e sorted_order (t_store ?t) = Inr (None, st1)"
    using t(2) ok by (simp add: file_defs sample_platform_def Let_def tracker_ok_def file_ready_def)
  let ?t1 = "?t\<lparr>t_store := st1\<rparr>"
  have s1: "save_db sample_platform sorted_order ?e ?t = Inr ?t1" using save t(2) by (simp add: save_db_def)
  with save_db_ok [OF ok order_ok_sorted, of sample_platform ?e] have ok1: "tracker_ok 200 ?t1"
    by (auto simp: continues_def)
  obtain t2 where t2: "on_http (sample_env 1) 0 late_request ?t1 = Inr t2"
    using on_http_ok [OF ok1, of "sample_env 1" 0 late_request] by (auto simp: continues_def env_valid_def)
  let ?run = "lifecycle_run sample_platform sample_installation sorted_order default_config
      [Handler ?e, HttpHandle 0 (sample_env 1), Handler (sample_env 2), Handler (sample_env 2)] exiting_process"
  obtain s' where run: "?run = Some s'"
    using s1 t2 t(6-8) by (simp add: lifecycle_step_def handler_step_def http_serve_step_def tracker_step_def ends_def)
  have init: "bk_Init (backup_of sample_platform FileRef) (sample_env 9) MemRef (?fresh (s_out (t_store (lc_tracker s')))) =
      Inr (None, ?fresh (s_out (t_store (lc_tracker s'))))"
    by (simp add: file_defs sample_store_def)
  have served: "lc_workers exiting_process ! 0 = Serves (Request (get_request (lit ''/announce'')
      (client_query (\<lambda>_. False) (announce_args (replicate 20 1) (replicate 20 2) 6881)) []) (Addr4 7, 9))"
    by (simp add: t(7) late_request_def)
  have new: "mem_swarm (w_db (t_world ?t)) (replicate 20 1) (replicate 20 2) = None"
    unfolding t(5) by (simp add: mem_swarm_def)
  have safe: "safe_ok (\<lambda>_. False)" by (simp add: safe_ok_def)
  note lost = late_request_is_lost [OF t(6) ok t(1) _ _ served announce_fits safe _ _ _ _ limit_ok_200 env_ok_sample [of 1] _ _ new
      s1 _ t(2) run _ _ _ init order_ok_sorted env_ok_sample [of 0] _ _ _ pools_ok_Initialize]
  show ?thesis using lost save t run by (auto simp: start_world_def FileBackup_def swarm_save_def)
qed

end
