(* ===== verification/Controller.thy ===== *)
theory Controller
  imports Outside UdpProtocol
begin

text \<open>
  The service controller: the process id file (controller/pidfile.go), \<open>Status\<close>, \<open>Start\<close>,
  \<open>Stop\<close> with its wait for the process to exit, and \<open>Clear\<close> (controller/controller.go), and the
  commands of the command line (cli_entry.go). What the operating system does with processes,
  signals and sockets is a parameter.
\<close>

section \<open>The operating system\<close>

text \<open>
  Errors of \<open>kill\<close> are their texts. \<open>os_Heartbeat\<close> is the datagram exchange of \<open>Status\<close>: nothing
  when dialling or reading fails, and otherwise what was read into the one-byte buffer;
  \<open>os_HttpGet\<close> the status code of a GET request, if there was a response.
\<close>

record 'o processes =
  ps_files :: "'o file_system"
  os_Truncate :: "bytes \<Rightarrow> 'o \<Rightarrow> bool \<times> 'o"
  os_FindProcess :: "int \<Rightarrow> 'o \<Rightarrow> bool"
  os_Interrupt :: "int \<Rightarrow> 'o \<Rightarrow> bool \<times> 'o"
  os_Kill0 :: "int \<Rightarrow> 'o \<Rightarrow> bytes option \<times> 'o"
  os_OpenLog :: "bytes \<Rightarrow> 'o \<Rightarrow> bool \<times> 'o"
  os_StartSelf :: "'o \<Rightarrow> int option \<times> 'o"
  os_Heartbeat :: "int64 \<Rightarrow> bytes \<Rightarrow> 'o \<Rightarrow> bytes option \<times> 'o"
  os_HttpGet :: "int64 \<Rightarrow> bytes \<Rightarrow> 'o \<Rightarrow> int option \<times> 'o"
  os_Sleep :: "'o \<Rightarrow> 'o"

section \<open>The process id file\<close>

definition ProcessIDFailed :: int where
  "ProcessIDFailed = -1"

datatype pid_error = PidReadError | ErrFileEmpty | ErrParseFailed | FindProcessFailed

definition pid_Read :: "'o processes \<Rightarrow> bytes \<Rightarrow> 'o \<Rightarrow> int \<times> pid_error option" where
  "pid_Read S path out =
     (case ReadFile (ps_files S) path out of
        None \<Rightarrow> (ProcessIDFailed, Some PidReadError)
      | Some contents \<Rightarrow>
          (if length contents = 0 then (ProcessIDFailed, Some ErrFileEmpty)
           else
             (case Atoi contents of
                AtoiOk processID \<Rightarrow> (processID, None)
              | _ \<Rightarrow> (ProcessIDFailed, Some ErrParseFailed))))"

definition pid_Write :: "'o processes \<Rightarrow> bytes \<Rightarrow> int \<Rightarrow> 'o \<Rightarrow> bool \<times> 'o" where
  "pid_Write S path processID out = WriteFile (ps_files S) path (FormatInt processID) out"

definition pid_Clear :: "'o processes \<Rightarrow> bytes \<Rightarrow> 'o \<Rightarrow> bool \<times> 'o" where
  "pid_Clear S path out = os_Truncate S path out"

definition pid_Process :: "'o processes \<Rightarrow> bytes \<Rightarrow> 'o \<Rightarrow> pid_error + int" where
  "pid_Process S path out =
     (case pid_Read S path out of
        (_, Some er) \<Rightarrow> Inl er
      | (processid, None) \<Rightarrow>
          (if os_FindProcess S processid out then Inr processid else Inl FindProcessFailed))"

section \<open>The controller\<close>

record controller =
  processIDFile :: bytes
  logPath :: bytes

definition NewController :: "configuration \<Rightarrow> controller" where
  "NewController c = \<lparr>processIDFile = Path_Pid c, logPath = Path_Log c\<rparr>"

datatype controller_error =
  AlreadyRunning | OpenLogFailed | StartFailed | WritePidFailed | NoProcess pid_error | SignalFailed
| ReadPidFailed pid_error | StopTimeout | KillFailed bytes | ClearFailed

definition udp_heartbeat :: "'o processes \<Rightarrow> configuration \<Rightarrow> 'o \<Rightarrow> bool \<times> 'o" where
  "udp_heartbeat S c out =
     (if UDP_Enabled c then
        (case os_Heartbeat S (UDP_Port c) HeartbeatRequest out of
           (Some data, out') \<Rightarrow> (length data = 1 \<and> data = HeartbeatOk, out')
         | (None, out') \<Rightarrow> (False, out'))
      else (False, out))"

definition http_heartbeat :: "'o processes \<Rightarrow> configuration \<Rightarrow> 'o \<Rightarrow> bool \<times> 'o" where
  "http_heartbeat S c out =
     (if HTTP_Mode c = lit ''enabled'' then
        (case os_HttpGet S (HTTP_Port c) (lit ''/heartbeat'') out of
           (code, out') \<Rightarrow> (code = Some 200, out'))
      else (False, out))"

definition Status :: "'o processes \<Rightarrow> configuration \<Rightarrow> controller \<Rightarrow> 'o \<Rightarrow> (bool \<times> bool \<times> bool) \<times> 'o" where
  "Status S c ctl out =
     (let processid = fst (pid_Read S (processIDFile ctl) out);
          pidFileExists = (processid \<noteq> ProcessIDFailed);
          (processAlive, out1) =
            (if pidFileExists then (case os_Kill0 S processid out of (er, o1) \<Rightarrow> (er = None, o1)) else (False, out));
          (udp, out2) = udp_heartbeat S c out1;
          (http, out3) = http_heartbeat S c out2
      in ((pidFileExists, processAlive, udp \<or> http), out3))"

definition Start :: "'o processes \<Rightarrow> configuration \<Rightarrow> controller \<Rightarrow> 'o \<Rightarrow> controller_error option \<times> 'o" where
  "Start S c ctl out =
     (case Status S c ctl out of
        ((pidFileExists, processAlive, heartbeat), out1) \<Rightarrow>
          if pidFileExists \<or> processAlive \<or> heartbeat then (Some AlreadyRunning, out1)
          else
            (case os_OpenLog S (logPath ctl) out1 of
               (False, out2) \<Rightarrow> (Some OpenLogFailed, out2)
             | (True, out2) \<Rightarrow>
                 (case os_StartSelf S out2 of
                    (None, out3) \<Rightarrow> (Some StartFailed, out3)
                  | (Some pid, out3) \<Rightarrow>
                      (case pid_Write S (processIDFile ctl) pid out3 of
                         (False, out4) \<Rightarrow> (Some WritePidFailed, out4)
                       | (True, out4) \<Rightarrow> (None, out4)))))"

definition Clear :: "'o processes \<Rightarrow> controller \<Rightarrow> 'o \<Rightarrow> controller_error option \<times> 'o" where
  "Clear S ctl out =
     (case pid_Clear S (processIDFile ctl) out of
        (ok, out') \<Rightarrow> (if ok then None else Some ClearFailed, out'))"

text \<open>
  The wait of \<open>Stop\<close>, as its loop is written: it goes on while there is no error \<^emph>\<open>or\<close> the
  counter is 100. It may run forever, which is the value \<open>None\<close>.
\<close>

partial_function (option) stop_loop ::
  "'o processes \<Rightarrow> int \<Rightarrow> bytes option \<Rightarrow> int \<Rightarrow> 'o \<Rightarrow> (bytes option \<times> int \<times> 'o) option" where
  "stop_loop S processid er i out =
     (if er = None \<or> i = 100 then
        (case os_Kill0 S processid (os_Sleep S out) of
           (er', out') \<Rightarrow> stop_loop S processid er' (i + 1) out')
      else Some (er, i, out))"

definition Stop :: "'o processes \<Rightarrow> controller \<Rightarrow> 'o \<Rightarrow> (controller_error option \<times> 'o) option" where
  "Stop S ctl out =
     (case pid_Process S (processIDFile ctl) out of
        Inl er \<Rightarrow> Some (Some (NoProcess er), out)
      | Inr process \<Rightarrow>
          (case os_Interrupt S process out of
             (False, out1) \<Rightarrow> Some (Some SignalFailed, out1)
           | (True, out1) \<Rightarrow>
               (case pid_Read S (processIDFile ctl) out1 of
                  (_, Some er) \<Rightarrow> Some (Some (ReadPidFailed er), out1)
                | (processid, None) \<Rightarrow>
                    Option.bind (stop_loop S processid None 0 out1) (\<lambda>(er, i, out2).
                      if i = 100 then Some (Some StopTimeout, out2)
                      else if er \<noteq> Some (lit ''no such process'')
                      then Some (Some (KillFailed (case er of Some msg \<Rightarrow> msg | None \<Rightarrow> [])), out2)
                      else Some (Clear S ctl out2)))))"

section \<open>The command line\<close>

datatype cli_result =
  Help | InvalidCommand | Reports bool bool bool | Executes | Done | Fails controller_error

definition cli_start :: "'o processes \<Rightarrow> configuration \<Rightarrow> controller \<Rightarrow> 'o \<Rightarrow> cli_result \<times> 'o" where
  "cli_start S c ctl out =
     (case Start S c ctl out of
        (Some er, out') \<Rightarrow> (Fails er, out')
      | (None, out') \<Rightarrow> (Done, out'))"

text \<open>\<open>main\<close> on the arguments after the program's name.\<close>

definition cli_main ::
  "'o processes \<Rightarrow> configuration \<Rightarrow> bytes list \<Rightarrow> 'o \<Rightarrow> (cli_result \<times> 'o) option" where
  "cli_main S c args out =
     (case args of
        [] \<Rightarrow> Some (Help, out)
      | command # _ \<Rightarrow>
          (let ctl = NewController c in
           if command = lit ''status'' then
             (case Status S c ctl out of ((f, a, h), out') \<Rightarrow> Some (Reports f a h, out'))
           else if command = lit ''execute'' then Some (Executes, out)
           else if command = lit ''start'' then Some (cli_start S c ctl out)
           else if command = lit ''stop'' then
             Option.bind (Stop S ctl out) (\<lambda>(er, out').
               Some (case er of Some x \<Rightarrow> Fails x | None \<Rightarrow> Done, out'))
           else if command = lit ''restart'' \<or> command = lit ''reboot'' then
             Option.bind (Stop S ctl out) (\<lambda>(er, out').
               case er of Some x \<Rightarrow> Some (Fails x, out') | None \<Rightarrow> Some (cli_start S c ctl out'))
           else if command = lit ''reset'' then
             (case Clear S ctl out of (er, out') \<Rightarrow> Some (case er of Some x \<Rightarrow> Fails x | None \<Rightarrow> Done, out'))
           else Some (InvalidCommand, out)))"

section \<open>The polls of \<open>Stop\<close>\<close>

text \<open>One poll sleeps and then sends signal 0; \<open>polled n\<close> is the outside after \<open>n\<close> of them.\<close>

definition poll :: "'o processes \<Rightarrow> int \<Rightarrow> 'o \<Rightarrow> bytes option \<times> 'o" where
  "poll S processid out = os_Kill0 S processid (os_Sleep S out)"

primrec polled :: "'o processes \<Rightarrow> int \<Rightarrow> nat \<Rightarrow> 'o \<Rightarrow> 'o" where
  "polled S processid 0 out = out"
| "polled S processid (Suc n) out = polled S processid n (snd (poll S processid out))"

definition poll_error :: "'o processes \<Rightarrow> int \<Rightarrow> nat \<Rightarrow> 'o \<Rightarrow> bytes option" where
  "poll_error S processid n out = fst (poll S processid (polled S processid n out))"

lemma poll_error_Suc: "poll_error S p (Suc n) out = poll_error S p n (snd (poll S p out))"
  by (simp add: poll_error_def)

lemma stop_loop_step:
  assumes "er = None \<or> i = 100"
  shows "stop_loop S p er i out = stop_loop S p (fst (poll S p out)) (i + 1) (snd (poll S p out))"
  using assms by (subst stop_loop.simps) (simp add: poll_def split: prod.splits)

lemma stop_loop_end: "er \<noteq> None \<Longrightarrow> i \<noteq> 100 \<Longrightarrow> stop_loop S p er i out = Some (er, i, out)"
  by (subst stop_loop.simps) auto

lemma stop_loop_alive:
  assumes "\<forall>k < n. poll_error S p k out = None"
  shows "stop_loop S p None i out = stop_loop S p None (i + int n) (polled S p n out)"
  using assms
proof (induction n arbitrary: i out)
  case 0
  then show ?case by simp
next
  case (Suc n)
  then have "poll_error S p 0 out = None" by blast
  then have "stop_loop S p None i out = stop_loop S p None (i + 1) (snd (poll S p out))"
    by (simp add: stop_loop_step poll_error_def)
  moreover have "\<forall>k < n. poll_error S p k (snd (poll S p out)) = None"
    using Suc.prems by (simp flip: poll_error_Suc)
  ultimately show ?case using Suc.IH [of "snd (poll S p out)" "i + 1"] by (simp add: ac_simps)
qed

text \<open>The loop never ends at a counter of 100, and never while the process is alive.\<close>

lemma stop_loop_result:
  assumes "stop_loop S p er i out = Some y"
  shows "fst y \<noteq> None \<and> fst (snd y) \<noteq> 100"
proof (rule stop_loop.raw_induct [OF _ assms, of "\<lambda>S p er i out y. fst y \<noteq> None \<and> fst (snd y) \<noteq> 100"])
  fix f S p er i out y
  assume "\<And>S p er i out y. f S p er i out = Some y \<Longrightarrow> fst y \<noteq> None \<and> fst (snd y) \<noteq> 100"
    and "(if er = None \<or> i = 100
          then case os_Kill0 S p (os_Sleep S out) of (er', out') \<Rightarrow> f S p er' (i + 1) out'
          else Some (er, i, out)) = Some y"
  then show "fst y \<noteq> None \<and> fst (snd y) \<noteq> 100" by (auto split: if_splits prod.splits)
qed

lemma stop_loop_returns:
  assumes "stop_loop S p er i out = Some y"
  shows "er = None \<longrightarrow> (\<exists>k. poll_error S p k out \<noteq> None)"
proof (rule stop_loop.raw_induct [OF _ assms, of "\<lambda>S p er i out y. er = None \<longrightarrow> (\<exists>k. poll_error S p k out \<noteq> None)"], rule impI)
  fix f S p er i out y
  assume IH: "\<And>S p er i out y. f S p er i out = Some y \<Longrightarrow> er = None \<longrightarrow> (\<exists>k. poll_error S p k out \<noteq> None)"
    and run: "(if er = None \<or> i = 100
          then case os_Kill0 S p (os_Sleep S out) of (er', out') \<Rightarrow> f S p er' (i + 1) out'
          else Some (er, i, out)) = Some y"
    and "er = None"
  then have f: "f S p (fst (poll S p out)) (i + 1) (snd (poll S p out)) = Some y"
    by (simp add: poll_def split: prod.splits)
  show "\<exists>k. poll_error S p k out \<noteq> None"
  proof (cases "fst (poll S p out)")
    case None
    with IH [OF f] obtain k where "poll_error S p k (snd (poll S p out)) \<noteq> None" by blast
    then show ?thesis by (intro exI [of _ "Suc k"]) (simp only: poll_error_Suc not_False_eq_True)
  next
    case (Some msg)
    then show ?thesis by (intro exI [of _ 0]) (simp add: poll_error_def)
  qed
qed

lemma stop_loop_diverges: "\<forall>k. poll_error S p k out = None \<Longrightarrow> stop_loop S p None i out = None"
  using stop_loop_returns [of S p None i out] by (cases "stop_loop S p None i out") auto

lemma Stop_no_timeout: "Stop S ctl out \<noteq> Some (Some StopTimeout, out')"
proof
  assume stop: "Stop S ctl out = Some (Some StopTimeout, out')"
  obtain p where p: "pid_Process S (processIDFile ctl) out = Inr p"
    using stop by (cases "pid_Process S (processIDFile ctl) out") (simp_all add: Stop_def)
  obtain ok out1 where o1: "os_Interrupt S p out = (ok, out1)" by (cases "os_Interrupt S p out")
  obtain pid er where r: "pid_Read S (processIDFile ctl) out1 = (pid, er)"
    by (cases "pid_Read S (processIDFile ctl) out1")
  from stop p o1 r have ok: "ok" "er = None"
    by (auto simp: Stop_def split: bool.splits option.splits)
  obtain er' i out2 where l: "stop_loop S pid None 0 out1 = Some (er', i, out2)"
    using stop p o1 r ok by (cases "stop_loop S pid None 0 out1") (auto simp: Stop_def)
  have "fst (Clear S ctl out2) \<noteq> Some StopTimeout" by (simp add: Clear_def split: prod.splits)
  with stop p o1 r ok l stop_loop_result [OF l] show False
    by (cases "Clear S ctl out2") (simp add: Stop_def split: if_splits)
qed

text \<open>A process that dies for good: the loop ends with its error, one poll later at 100.\<close>

definition polls_until :: "nat \<Rightarrow> nat" where
  "polls_until n = (if n = 99 then 101 else Suc n)"

lemma stop_loop_dies:
  assumes "\<forall>k < n. poll_error S p k out = None" and "\<forall>k \<ge> n. poll_error S p k out = Some msg"
  shows "stop_loop S p None 0 out = Some (Some msg, int (polls_until n), polled S p (polls_until n) out)"
proof -
  have polled_Suc: "polled S p (Suc k) out = snd (poll S p (polled S p k out))" for k
    by (induction k arbitrary: out) simp_all
  have e: "fst (poll S p (polled S p n out)) = Some msg" "fst (poll S p (polled S p (Suc n) out)) = Some msg"
    using assms(2) [rule_format, of n] assms(2) [rule_format, of "Suc n"]
    by (simp_all add: poll_error_def del: polled.simps)
  have "stop_loop S p None 0 out = stop_loop S p None (int n) (polled S p n out)"
    using stop_loop_alive [OF assms(1), of 0] by simp
  also have "\<dots> = stop_loop S p (Some msg) (int (Suc n)) (polled S p (Suc n) out)"
    unfolding polled_Suc using e(1) by (subst stop_loop_step) (simp_all add: ac_simps)
  finally have r: "stop_loop S p None 0 out = stop_loop S p (Some msg) (int (Suc n)) (polled S p (Suc n) out)" .
  show ?thesis
  proof (cases "n = 99")
    case True
    have "stop_loop S p (Some msg) (int (Suc n)) (polled S p (Suc n) out) =
        stop_loop S p (Some msg) (int (Suc (Suc n))) (polled S p (Suc (Suc n)) out)"
      unfolding polled_Suc [of "Suc n"] using e(2) True by (subst stop_loop_step) simp_all
    with r True show ?thesis by (simp add: stop_loop_end polls_until_def del: polled.simps)
  next
    case False
    with r show ?thesis by (simp add: stop_loop_end polls_until_def del: polled.simps)
  qed
qed

section \<open>Properties\<close>

text \<open>What a file system is trusted with: a written file reads back, a truncated one is empty.\<close>

definition pid_files :: "'o processes \<Rightarrow> bool" where
  "pid_files S \<longleftrightarrow>
     (\<forall>path data out out'. WriteFile (ps_files S) path data out = (True, out') \<longrightarrow>
        ReadFile (ps_files S) path out' = Some data) \<and>
     (\<forall>path out out'. os_Truncate S path out = (True, out') \<longrightarrow> ReadFile (ps_files S) path out' = Some [])"

text \<open>
  A process id that was written is read back, for every 64-bit integer but the -1 that stands
  for a failure, where the file looks unreadable to \<open>Status\<close>; after \<open>Clear\<close> the file is empty.
\<close>

theorem pid_file_roundtrip:
  assumes "pid_files S" and "- (2 ^ 63) \<le> pid" "pid < 2 ^ 63"
    and "pid_Write S path pid out = (True, written)" and "Clear S \<lparr>processIDFile = path, logPath = l\<rparr> out2 = (None, cleared)"
  shows "pid_Read S path written = (pid, None) \<and> pid_Read S path cleared = (ProcessIDFailed, Some ErrFileEmpty) \<and>
    (fst (fst (Status S c \<lparr>processIDFile = path, logPath = l\<rparr> written)) \<longleftrightarrow> pid \<noteq> -1) \<and>
    \<not> fst (fst (Status S c \<lparr>processIDFile = path, logPath = l\<rparr> cleared))"
proof -
  from assms(1,4) have w: "ReadFile (ps_files S) path written = Some (FormatInt pid)"
    by (auto simp: pid_files_def pid_Write_def)
  have ne: "FormatInt pid \<noteq> []" by (simp add: FormatInt_def)
  have r: "pid_Read S path written = (pid, None)"
    using w ne Atoi_FormatInt [OF assms(2,3)] by (simp add: pid_Read_def)
  from assms(1,5) have "ReadFile (ps_files S) path cleared = Some []"
    by (auto simp: pid_files_def Clear_def pid_Clear_def split: prod.splits if_splits)
  then have c: "pid_Read S path cleared = (ProcessIDFailed, Some ErrFileEmpty)" by (simp add: pid_Read_def)
  from r c show ?thesis
    by (auto simp: Status_def ProcessIDFailed_def Let_def split: prod.splits)
qed

text \<open>
  \<open>Start\<close> starts a process only when there is no process id in the file and no heartbeat: with
  any number other than -1 in the file it refuses, even if that process died long ago, and it
  writes nothing.
\<close>

theorem stale_pid_blocks_start:
  assumes "pid_Read S (processIDFile ctl) out = (pid, None)" and "pid \<noteq> -1"
  shows "Start S c ctl out = (Some AlreadyRunning, snd (Status S c ctl out)) \<and>
    fst (snd (fst (Status S c ctl out))) = (fst (os_Kill0 S pid out) = None)"
  using assms by (auto simp: Start_def Status_def ProcessIDFailed_def Let_def split: prod.splits)

text \<open>
  \<open>Stop\<close> never gives up: while the process does not exit, the wait goes on for ever, and the
  error for a process that failed to stop within ten seconds is returned in no situation.
\<close>

theorem Stop_never_times_out:
  assumes "pid_Read S (processIDFile ctl) out = (pid, None)" "os_FindProcess S pid out"
    and "os_Interrupt S pid out = (True, out1)" "pid_Read S (processIDFile ctl) out1 = (pid', None)"
    and "\<forall>k. poll_error S pid' k out1 = None"
  shows "Stop S ctl out = None \<and> (\<forall>S' ctl' o1 o2. Stop S' ctl' o1 \<noteq> Some (Some StopTimeout, o2))"
proof -
  have "Stop S ctl out = None"
    using assms by (simp add: Stop_def pid_Process_def stop_loop_diverges)
  with Stop_no_timeout show ?thesis by blast
qed

text \<open>
  C34: \<open>Stop\<close> returns without an error when the process exits: if it is alive for the first \<open>n\<close>
  polls and gone from then on, the wait ends after \<open>n + 1\<close> polls (after 101 if that would be
  100) and the process id file is cleared.
\<close>

theorem Stop_ends_when_process_exits:
  assumes "pid_Read S (processIDFile ctl) out = (pid, None)" "os_FindProcess S pid out"
    and "os_Interrupt S pid out = (True, out1)" "pid_Read S (processIDFile ctl) out1 = (pid', None)"
    and "\<forall>k < n. poll_error S pid' k out1 = None"
    and "\<forall>k \<ge> n. poll_error S pid' k out1 = Some (lit ''no such process'')"
    and "os_Truncate S (processIDFile ctl) (polled S pid' (polls_until n) out1) = (True, out2)"
  shows "Stop S ctl out = Some (None, out2)"
proof -
  have "int (polls_until n) \<noteq> 100" by (simp add: polls_until_def)
  with assms show ?thesis
    by (simp add: Stop_def pid_Process_def stop_loop_dies [OF assms(5,6)] Clear_def pid_Clear_def)
qed

text \<open>An operating system whose outside is the content of the process id file and a countdown.\<close>

definition sample_processes :: "(bytes \<times> nat) processes" where
  "sample_processes =
     \<lparr>ps_files = \<lparr>WriteFile = \<lambda>p d out. (True, (d, snd out)), ReadFile = \<lambda>p out. Some (fst out)\<rparr>,
      os_Truncate = \<lambda>p out. (True, ([], snd out)), os_FindProcess = \<lambda>pid out. True,
      os_Interrupt = \<lambda>pid out. (True, out),
      os_Kill0 = \<lambda>pid out. (if snd out = 0 then Some (lit ''no such process'') else None, out),
      os_OpenLog = \<lambda>p out. (True, out), os_StartSelf = \<lambda>out. (Some 42, out),
      os_Heartbeat = \<lambda>port d out. (None, out), os_HttpGet = \<lambda>port p out. (None, out),
      os_Sleep = \<lambda>out. (fst out, snd out - 1)\<rparr>"

text \<open>The same with a process that never exits.\<close>

definition immortal :: "(bytes \<times> nat) processes" where
  "immortal = sample_processes\<lparr>os_Kill0 := \<lambda>pid out. (None, out)\<rparr>"

definition sample_controller :: controller where
  "sample_controller = \<lparr>processIDFile = [], logPath = []\<rparr>"

lemma sample_processes_sel [simp]:
  "os_FindProcess sample_processes pid out" "os_Interrupt sample_processes pid out = (True, out)"
  "os_Sleep sample_processes out = (fst out, snd out - 1)" "os_Truncate sample_processes p out = (True, ([], snd out))"
  "os_Kill0 sample_processes pid out = (if snd out = 0 then Some (lit ''no such process'') else None, out)"
  "WriteFile (ps_files sample_processes) p d out = (True, (d, snd out))"
  "ReadFile (ps_files sample_processes) p out = Some (fst out)"
  by (simp_all add: sample_processes_def)

lemma immortal_sel [simp]:
  "os_FindProcess immortal pid out" "os_Interrupt immortal pid out = (True, out)"
  "os_Kill0 immortal pid out = (None, out)" "ReadFile (ps_files immortal) p out = Some (fst out)"
  by (simp_all add: immortal_def sample_processes_def)

lemma sample_pid:
  "pid_Read sample_processes p (lit ''42'', n) = (42, None)" "pid_Read immortal p (lit ''42'', n) = (42, None)"
  by (simp_all add: pid_Read_def lit_def is_digit_def digits_val_def atoi_range_def)

lemma sample_polled: "polled sample_processes p k (d, m) = (d, m - k)"
  by (induction k arbitrary: m) (simp_all add: poll_def)

lemma sample_poll_error:
  "poll_error sample_processes p k (d, m) = (if k + 1 < m then None else Some (lit ''no such process''))"
  by (simp add: poll_error_def sample_polled) (auto simp: poll_def)

theorem pid_file_roundtrip_witness:
  "pid_Read sample_processes [] (FormatInt 42, 3) = (42, None) \<and>
   pid_Read sample_processes [] ([], 3) = (ProcessIDFailed, Some ErrFileEmpty)"
  using pid_file_roundtrip [of sample_processes 42 "[]" "([], 3)" "(FormatInt 42, 3)" "[]" "(lit ''7'', 3)" "([], 3)"]
  by (simp add: pid_files_def pid_Write_def Clear_def pid_Clear_def)

theorem stale_pid_blocks_start_witness:
  "fst (Start sample_processes default_config sample_controller (lit ''42'', 0)) = Some AlreadyRunning \<and>
   \<not> fst (snd (fst (Status sample_processes default_config sample_controller (lit ''42'', 0))))"
  using stale_pid_blocks_start [where ctl = sample_controller and c = default_config, OF sample_pid(1) [of _ 0]]
  by simp

theorem Stop_never_times_out_witness: "Stop immortal sample_controller (lit ''42'', 0) = None"
proof -
  have k: "\<forall>k. poll_error immortal 42 k (lit ''42'', 0) = None"
    by (simp add: poll_error_def poll_def)
  have "os_Interrupt immortal 42 (lit ''42'', 0) = (True, (lit ''42'', 0))" by simp
  from Stop_never_times_out [where ctl = sample_controller, OF sample_pid(2) immortal_sel(1) this sample_pid(2) k]
  show ?thesis by blast
qed

theorem Stop_ends_when_process_exits_witness:
  "Stop sample_processes sample_controller (lit ''42'', 3) = Some (None, ([], 0))"
proof -
  have i: "os_Interrupt sample_processes 42 (lit ''42'', 3) = (True, (lit ''42'', 3))" by simp
  show ?thesis
    by (rule Stop_ends_when_process_exits [where n = 2, OF sample_pid(1) sample_processes_sel(1) i sample_pid(1)])
      (auto simp: sample_poll_error sample_polled polls_until_def)
qed

end
