(* ===== verification/Service.thy ===== *)
theory Service
  imports Controller Lifecycle
begin

text \<open>
  The controller and the tracker together: \<open>Stop\<close> and \<open>Status\<close> of controller/controller.go
  against the process of Lifecycle, whose goroutines run while the controller sleeps. The
  operating system stays a parameter; what it is trusted with is that it delivers the signal to the
  process of the process id file, that signal 0 tells whether that process has ended, and that it
  runs every goroutine again and again.
\<close>

section \<open>The host\<close>

text \<open>
  The host \<open>h\<close> runs the tracker \<open>proc h\<close> under the process id of the file; \<open>did h\<close> is what
  its goroutines do during the next sleep of the controller.
\<close>

definition runs_tracker ::
  "'o platform \<Rightarrow> installation \<Rightarrow> hash_order \<Rightarrow> configuration \<Rightarrow> 'h processes \<Rightarrow> bytes \<Rightarrow> int
     \<Rightarrow> ('h \<Rightarrow> 'o lifecycle) \<Rightarrow> ('h \<Rightarrow> process_action list) \<Rightarrow> bool" where
  "runs_tracker P ins ho c S path pid proc did \<longleftrightarrow>
     (\<forall>h. os_FindProcess S pid h) \<and>
     (\<forall>h. lc_end (proc h) = None \<longrightarrow>
        fst (os_Interrupt S pid h) \<and> proc (snd (os_Interrupt S pid h)) = deliver Interrupt (proc h)) \<and>
     (\<forall>h. ReadFile (ps_files S) path (snd (os_Interrupt S pid h)) = ReadFile (ps_files S) path h) \<and>
     (\<forall>h. os_Kill0 S pid h = (if lc_end (proc h) = None then None else Some (lit ''no such process''), h)) \<and>
     (\<forall>h. lifecycle_run P ins ho c (did h) (proc h) = Some (proc (os_Sleep S h))) \<and>
     (\<forall>h. fst (os_Truncate S path h) \<and> proc (snd (os_Truncate S path h)) = proc h)"

text \<open>
  No goroutine is left out: while one that the exit needs can move, one of them moves within some
  number of sleeps, however long, unless the process ends before.
\<close>

definition slept :: "'h processes \<Rightarrow> nat \<Rightarrow> 'h \<Rightarrow> 'h" where
  "slept S n = os_Sleep S ^^ n"

definition fair ::
  "'o platform \<Rightarrow> installation \<Rightarrow> hash_order \<Rightarrow> configuration \<Rightarrow> 'h processes
     \<Rightarrow> ('h \<Rightarrow> 'o lifecycle) \<Rightarrow> ('h \<Rightarrow> process_action list) \<Rightarrow> bool" where
  "fair P ins ho c S proc did \<longleftrightarrow>
     (\<forall>h. lc_end (proc h) = None \<longrightarrow> (\<exists>a. control a \<and> lifecycle_step P ins ho c a (proc h) \<noteq> None) \<longrightarrow>
        (\<exists>n. lc_end (proc (slept S n h)) \<noteq> None \<or> (\<exists>k < n. \<exists>a \<in> set (did (slept S k h)). control a)))"

lemma slept_0 [simp]: "slept S 0 h = h"
  by (simp add: slept_def)

lemma slept_add: "slept S (m + n) h = slept S m (slept S n h)"
  by (simp add: slept_def funpow_add)

lemma slept_Suc: "slept S (Suc n) h = os_Sleep S (slept S n h)"
  by (simp add: slept_def)

section \<open>From the interrupt to the end\<close>

text \<open>
  An exit signal that waits in the channel is received after at most a save; then the steps of an
  exit are left.
\<close>

fun receive_steps :: "handler \<Rightarrow> nat" where
  "receive_steps (SavesDatabase False) = 8"
| "receive_steps (WritesConns False) = 7"
| "receive_steps AwaitsSignal = 6"
| "receive_steps HandlerStarts = 0"
| "receive_steps h = the (exit_steps h)"

definition stop_steps :: "'o lifecycle \<Rightarrow> nat" where
  "stop_steps s =
     receive_steps (lc_handler s) + main_steps (lc_main s) + serve_steps (lc_udp s) + serve_steps (lc_http s)"

definition stopping :: "'o lifecycle \<Rightarrow> bool" where
  "stopping s \<longleftrightarrow> lc_handler s \<noteq> HandlerStarts \<and> exit_requested s"

lemma stop_steps_exiting: "exiting s \<Longrightarrow> stop_steps s = steps_left s"
  by (erule exiting_cases) (simp_all add: stop_steps_def steps_left_def)

lemma stopping_waits:
  assumes "stopping s" "\<not> exiting s"
  obtains "lc_handler s = AwaitsSignal" | "lc_handler s = SavesDatabase False" | "lc_handler s = WritesConns False"
proof -
  have "lc_handler s = AwaitsSignal \<or> lc_handler s = SavesDatabase False \<or> lc_handler s = WritesConns False"
    using assms by (cases "lc_handler s" rule: exit_steps.cases) (simp_all add: stopping_def exiting_def)
  then show ?thesis using that by blast
qed

lemma stop_steps_bound:
  assumes "stopping s"
  shows "stop_steps s \<le> 18"
proof -
  have "receive_steps (lc_handler s) \<le> 8" by (cases "lc_handler s" rule: receive_steps.cases) simp_all
  moreover have "main_steps (lc_main s) \<le> 4" by (cases "lc_main s") simp_all
  moreover have "serve_steps v \<le> 3" for v by (cases v) simp_all
  from this [of "lc_udp s"] this [of "lc_http s"] have "serve_steps (lc_udp s) \<le> 3" "serve_steps (lc_http s) \<le> 3" .
  ultimately show ?thesis unfolding stop_steps_def by linarith
qed

lemma stopping_can_go_on:
  assumes "channels_ok s" "stopping s" "lc_end s = None"
  shows "\<exists>a. control a \<and> lifecycle_step P ins ho c a s \<noteq> None"
proof (cases "exiting s")
  case True
  from exit_can_go_on [OF assms(1) True assms(3)] show ?thesis .
next
  case False
  have "handler_step P ins ho undefined s \<noteq> None"
    using assms(2) False by (cases rule: stopping_waits [OF assms(2) False])
      (auto simp: handler_step_def stopping_def exit_requested_def)
  then show ?thesis using assms(3) by (intro exI [of _ "Handler undefined"]) (simp add: lifecycle_step_def)
qed

lemma signal_kept:
  assumes "lifecycle_step P ins ho c (Signal sig) s = Some s'" "stopping s"
  shows "stopping s' \<and> stop_steps s' = stop_steps s"
  using assms
  by (auto simp: lifecycle_step_def deliver_def stopping_def exit_requested_def exiting_def stop_steps_def
      split: if_splits option.splits)

lemma handler_towards_stop:
  assumes "handler_step P ins ho e s = Some s'" "stopping s" "\<not> exiting s"
  shows "lc_end s' \<noteq> None \<or> stopping s' \<and> Suc (stop_steps s') \<le> stop_steps s"
  using assms(1,2)
  by (cases rule: stopping_waits [OF assms(2,3)])
    (auto simp: handler_step_def tracker_step_def ends_def stopping_def exit_requested_def exiting_def stop_steps_def
      split: if_splits sum.splits option.splits)

lemma main_towards_stop:
  assumes "main_step P ins c s = Some s'" "channels_ok s" "stopping s"
  shows "lc_end s' \<noteq> None \<or> stopping s' \<and> Suc (stop_steps s') \<le> stop_steps s"
  using assms
  by (cases "lc_main s"; auto simp: main_step_def ends_def Let_def split: if_splits sum.splits option.splits;
      simp add: stopping_def exit_requested_def exiting_def stop_steps_def channels_ok_def)

lemma serve_moves:
  assumes "udp_Serve_step ins c b s = Some s' \<or> http_Serve_step ins c b s = Some s'"
  shows "lc_end s' \<noteq> None \<or>
    lc_handler s' = lc_handler s \<and> lc_signal s' = lc_signal s \<and> lc_main s' = lc_main s \<and>
    Suc (serve_steps (lc_udp s') + serve_steps (lc_http s')) \<le> serve_steps (lc_udp s) + serve_steps (lc_http s)"
  using assms
proof
  assume "udp_Serve_step ins c b s = Some s'"
  then show ?thesis by (cases "lc_udp s") (auto simp: udp_Serve_step_def ends_def split: if_splits)
next
  assume "http_Serve_step ins c b s = Some s'"
  then show ?thesis by (cases "lc_http s") (auto simp: http_Serve_step_def ends_def split: if_splits sum.splits)
qed

lemma serve_towards_stop:
  assumes "udp_Serve_step ins c b s = Some s' \<or> http_Serve_step ins c b s = Some s'" "stopping s"
  shows "lc_end s' \<noteq> None \<or> stopping s' \<and> Suc (stop_steps s') \<le> stop_steps s"
  using serve_moves [OF assms(1)] assms(2) by (auto simp: stopping_def exit_requested_def exiting_def stop_steps_def)

text \<open>Every step that the exit needs brings the end nearer, and nothing else delays it.\<close>

lemma step_towards_stop:
  assumes "lifecycle_step P ins ho c a s = Some s'" "channels_ok s" "stopping s"
  shows "lc_end s' \<noteq> None \<or> stopping s' \<and> stop_steps s' + (if control a then 1 else 0) \<le> stop_steps s"
proof (cases "exiting s")
  case True
  have "stopping s'" "stop_steps s' = steps_left s'" if "exiting s'"
    using that stop_steps_exiting by (auto simp: stopping_def exit_requested_def exiting_def)
  with step_towards_exit [OF assms(1,2) True] stop_steps_exiting [OF True] show ?thesis by auto
next
  case False
  from assms(1) have r: "lc_end s = None" by (rule lifecycle_step_running)
  show ?thesis
  proof (cases a)
    case (Signal sig)
    with assms signal_kept show ?thesis by fastforce
  next
    case (Handler e)
    with assms(1,3) r handler_towards_stop [OF _ assms(3) False] show ?thesis by (auto simp: lifecycle_step_def)
  next
    case Main
    with assms(1) r main_towards_stop [OF _ assms(2,3)] show ?thesis by (auto simp: lifecycle_step_def)
  next
    case (UdpServe b)
    with assms(1) r serve_towards_stop [OF _ assms(3)] show ?thesis by (auto simp: lifecycle_step_def)
  next
    case (HttpServe b)
    with assms(1) r serve_towards_stop [OF _ assms(3)] show ?thesis by (auto simp: lifecycle_step_def)
  qed (use traffic_channels [OF assms(1)] handler_kept [OF assms(1)] assms(3) in
      \<open>simp_all add: stopping_def exit_requested_def exiting_def stop_steps_def\<close>)
qed

lemma run_towards_stop:
  assumes "lifecycle_run P ins ho c acts s = Some s'" "channels_ok s" "stopping s" "lc_end s' = None"
  shows "channels_ok s' \<and> stopping s' \<and> stop_steps s' + length (filter control acts) \<le> stop_steps s"
  using assms
proof (induction acts arbitrary: s)
  case (Cons a acts)
  from Cons.prems(1) obtain s1 where s1: "lifecycle_step P ins ho c a s = Some s1" "lifecycle_run P ins ho c acts s1 = Some s'"
    by (cases "lifecycle_step P ins ho c a s") simp_all
  have "lc_end s1 = None"
    using s1(2) Cons.prems(4) lifecycle_step_running by (cases acts) (auto split: bind_splits)
  with step_towards_stop [OF s1(1) Cons.prems(2,3)]
  have "stopping s1" "stop_steps s1 + (if control a then 1 else 0) \<le> stop_steps s" by auto
  with Cons.IH [OF s1(2) step_channels [OF s1(1) Cons.prems(2)] _ Cons.prems(4)] show ?case by auto
qed simp

lemma run_stays_ended:
  assumes "lifecycle_run P ins ho c acts s = Some s'" "lc_end s \<noteq> None"
  shows "s' = s"
  using assms by (cases acts) (auto simp: lifecycle_step_def)

section \<open>The wait of \<open>Stop\<close>\<close>

text \<open>What the goroutines do during the first \<open>n\<close> sleeps.\<close>

definition did_within :: "'h processes \<Rightarrow> ('h \<Rightarrow> process_action list) \<Rightarrow> nat \<Rightarrow> 'h \<Rightarrow> process_action list" where
  "did_within S did n h = concat (map (\<lambda>k. did (slept S k h)) [0..<n])"

lemma runs_trackerD:
  assumes "runs_tracker P ins ho c S path pid proc did"
  shows "os_FindProcess S pid h"
    "lc_end (proc h) = None \<Longrightarrow> fst (os_Interrupt S pid h)"
    "lc_end (proc h) = None \<Longrightarrow> proc (snd (os_Interrupt S pid h)) = deliver Interrupt (proc h)"
    "pid_Read S path (snd (os_Interrupt S pid h)) = pid_Read S path h"
    "os_Kill0 S pid h = (if lc_end (proc h) = None then None else Some (lit ''no such process''), h)"
    "lifecycle_run P ins ho c (did h) (proc h) = Some (proc (os_Sleep S h))"
    "fst (os_Truncate S path h)" "proc (snd (os_Truncate S path h)) = proc h"
  using assms by (simp_all add: runs_tracker_def pid_Read_def)

lemma slept_run:
  assumes "runs_tracker P ins ho c S path pid proc did"
  shows "lifecycle_run P ins ho c (did_within S did n h) (proc h) = Some (proc (slept S n h))"
proof (induction n)
  case (Suc n)
  have "did_within S did (Suc n) h = did_within S did n h @ did (slept S n h)" by (simp add: did_within_def)
  with Suc runs_trackerD(6) [OF assms] show ?case by (simp add: lifecycle_run_append slept_Suc)
qed (simp add: did_within_def)

lemma slept_ended:
  assumes "runs_tracker P ins ho c S path pid proc did" "lc_end (proc (slept S m h)) \<noteq> None" "m \<le> n"
  shows "lc_end (proc (slept S n h)) \<noteq> None"
proof -
  have "proc (slept S (n - m) (slept S m h)) = proc (slept S m h)"
    using slept_run [OF assms(1)] assms(2) by (rule run_stays_ended)
  with assms(2,3) show ?thesis by (simp flip: slept_add)
qed

lemma polled_slept:
  assumes "runs_tracker P ins ho c S path pid proc did"
  shows "polled S pid n h = slept S n h"
  using runs_trackerD(5) [OF assms]
  by (induction n arbitrary: h) (simp_all add: poll_def slept_def funpow_swap1)

lemma poll_error_slept:
  assumes "runs_tracker P ins ho c S path pid proc did"
  shows "poll_error S pid n h =
    (if lc_end (proc (slept S (Suc n) h)) = None then None else Some (lit ''no such process''))"
  using runs_trackerD(5) [OF assms] by (simp add: poll_error_def poll_def polled_slept [OF assms] slept_Suc)

text \<open>Under a fair operating system a process that was asked to stop ends.\<close>

lemma eventually_ends:
  assumes "runs_tracker P ins ho c S path pid proc did" "fair P ins ho c S proc did"
    and "channels_ok (proc h)" "stopping (proc h)"
  shows "\<exists>n. lc_end (proc (slept S n h)) \<noteq> None"
  using assms(3,4)
proof (induction "stop_steps (proc h)" arbitrary: h rule: less_induct)
  case less
  show ?case
  proof (rule ccontr)
    assume "\<not> ?case"
    then have alive: "lc_end (proc (slept S n h)) = None" for n by simp
    from alive [of 0] have h: "lc_end (proc h) = None" by simp
    from stopping_can_go_on [OF less.prems h] assms(2) h alive
    obtain n k a where n: "k < n" "a \<in> set (did (slept S k h))" "control a"
      unfolding fair_def by (metis (no_types, lifting))
    let ?acts = "did_within S did n h"
    have "a \<in> set (filter control ?acts)" using n by (auto simp: did_within_def)
    then have "0 < length (filter control ?acts)" by (metis length_pos_if_in_set)
    then have "stop_steps (proc (slept S n h)) < stop_steps (proc h) \<and> channels_ok (proc (slept S n h)) \<and>
        stopping (proc (slept S n h))"
      using run_towards_stop [OF slept_run [OF assms(1)] less.prems alive, of n] by linarith
    then have "stop_steps (proc (slept S n h)) < stop_steps (proc h)" "channels_ok (proc (slept S n h))"
      "stopping (proc (slept S n h))" by simp_all
    from less.hyps [OF this] alive show False by (metis slept_add)
  qed
qed

lemma deliver_stops:
  assumes "channels_ok s" "lc_signal s \<noteq> Some Sigusr1 \<or> exiting s \<or> lc_handler s = HandlerStarts"
  shows "lc_end (deliver Interrupt s) \<noteq> None \<or> channels_ok (deliver Interrupt s) \<and> stopping (deliver Interrupt s)"
proof -
  consider "lc_handler s = HandlerStarts" | "lc_handler s \<noteq> HandlerStarts" "lc_signal s = None"
    | "lc_handler s \<noteq> HandlerStarts" "lc_signal s \<noteq> None" "exit_requested s"
    using assms(2) by (cases "lc_signal s"; cases "the (lc_signal s)") (auto simp: exit_requested_def)
  then show ?thesis
  proof cases
    case 1
    then show ?thesis by (simp add: deliver_def ends_def)
  next
    case 2
    with assms(1) show ?thesis
      by (simp add: deliver_def stopping_def exit_requested_def) (simp add: channels_ok_def)
  next
    case 3
    then have "deliver Interrupt s = s" by (auto simp: deliver_def)
    with 3 assms(1) show ?thesis by (simp add: stopping_def)
  qed
qed

text \<open>\<open>Stop\<close> up to its wait, on a tracker that runs.\<close>

lemma Stop_waits:
  assumes "runs_tracker P ins ho c S (processIDFile ctl) pid proc did"
    and "pid_Read S (processIDFile ctl) h = (pid, None)" and "lc_end (proc h) = None"
    and "h1 = snd (os_Interrupt S pid h)"
  shows "Stop S ctl h = Option.bind (stop_loop S pid None 0 h1) (\<lambda>(er, i, out2).
    if i = 100 then Some (Some StopTimeout, out2)
    else if er \<noteq> Some (lit ''no such process'')
    then Some (Some (KillFailed (case er of Some msg \<Rightarrow> msg | None \<Rightarrow> [])), out2)
    else Some (Clear S ctl out2))"
proof -
  note host = runs_trackerD [OF assms(1)]
  have "pid_Process S (processIDFile ctl) h = Inr pid" using host(1) assms(2) by (simp add: pid_Process_def)
  moreover have "os_Interrupt S pid h = (True, h1)" using host(2) [OF assms(3)] assms(4) by (simp add: prod_eq_iff)
  moreover have "pid_Read S (processIDFile ctl) h1 = (pid, None)" using host(4) assms(2,4) by simp
  ultimately show ?thesis unfolding Stop_def by (simp only: sum.case prod.case bool.case option.case if_True split)
qed

lemma Stop_of_ended:
  assumes "runs_tracker P ins ho c S (processIDFile ctl) pid proc did"
    and "pid_Read S (processIDFile ctl) h = (pid, None)" and "lc_end (proc h) = None"
    and "lc_end (proc (slept S n (snd (os_Interrupt S pid h)))) \<noteq> None"
  shows "\<exists>m h'. Stop S ctl h = Some (None, h') \<and>
    os_Truncate S (processIDFile ctl) (slept S m (snd (os_Interrupt S pid h))) = (True, h') \<and> lc_end (proc h') \<noteq> None"
proof -
  note host = runs_trackerD [OF assms(1)]
  define h1 where "h1 = snd (os_Interrupt S pid h)"
  define N where "N = (LEAST k. lc_end (proc (slept S (Suc k) h1)) \<noteq> None)"
  have gone: "lc_end (proc (slept S (Suc n) h1)) \<noteq> None"
    by (rule slept_ended [OF assms(1) assms(4) [folded h1_def]]) simp
  have dead: "lc_end (proc (slept S (Suc N) h1)) \<noteq> None"
    unfolding N_def by (rule LeastI [of "\<lambda>k. lc_end (proc (slept S (Suc k) h1)) \<noteq> None", OF gone])
  have before: "\<forall>k < N. poll_error S pid k h1 = None"
    unfolding N_def by (auto dest!: not_less_Least simp: poll_error_slept [OF assms(1)])
  have after: "\<forall>k \<ge> N. poll_error S pid k h1 = Some (lit ''no such process'')"
  proof (intro allI impI)
    fix k
    assume "N \<le> k"
    then have "lc_end (proc (slept S (Suc k) h1)) \<noteq> None" by (intro slept_ended [OF assms(1) dead]) simp
    then show "poll_error S pid k h1 = Some (lit ''no such process'')" by (simp add: poll_error_slept [OF assms(1)])
  qed
  define m where "m = polls_until N"
  have m: "int m \<noteq> 100" "Suc N \<le> m" by (auto simp: m_def polls_until_def)
  have "Stop S ctl h = Some (Clear S ctl (slept S m h1))"
    using m(1) stop_loop_dies [OF before after, folded m_def] Stop_waits [OF assms(1-3) h1_def]
    by (simp add: polled_slept [OF assms(1)])
  moreover obtain h' where h': "os_Truncate S (processIDFile ctl) (slept S m h1) = (True, h')"
    using host(7) [of "slept S m h1"] by (cases "os_Truncate S (processIDFile ctl) (slept S m h1)") simp
  ultimately have "Stop S ctl h = Some (None, h')" by (simp add: Clear_def pid_Clear_def)
  moreover have "lc_end (proc h') \<noteq> None"
    using slept_ended [OF assms(1) dead m(2)] host(8) [of "slept S m h1"] h' by simp
  ultimately show ?thesis using h' unfolding h1_def by blast
qed

section \<open>Status\<close>

text \<open>
  The two heartbeats reach the tracker over the loopback interface: a datagram is read by a thread
  while the socket is open, and what the thread sends back first is cut to the one byte that
  \<open>Status\<close> reads; a request with whatever headers the client adds is read by a worker, and the
  client takes the status code from the status line. Nothing answers on a port that is not open.
  Meanwhile the process does nothing else.
\<close>

definition http_get :: "bytes \<Rightarrow> bytes \<Rightarrow> bytes" where
  "http_get path headers = lit ''GET '' @ path @ lit '' HTTP/'' @ lit ''1.1'' @ crlf @ headers"

definition status_code :: "bytes list \<Rightarrow> int option" where
  "status_code outs =
     (case Atoi (take 3 (drop 9 (concat outs))) of
        AtoiOk n \<Rightarrow> Some n
      | _ \<Rightarrow> None)"

definition reply_byte :: "'o tracker \<Rightarrow> 'o tracker \<Rightarrow> bytes option" where
  "reply_byte t t' =
     (case drop (length (t_sent t)) (t_sent t') of
        [] \<Rightarrow> None
      | (r, m) # _ \<Rightarrow> Some (take 1 m))"

definition answers_datagrams ::
  "configuration \<Rightarrow> 'h processes \<Rightarrow> ('h \<Rightarrow> 'o lifecycle) \<Rightarrow> bool" where
  "answers_datagrams c S proc \<longleftrightarrow>
     (\<forall>h d.
        if lc_end (proc h) = None \<and> socket_open (lc_udp (proc h))
        then lc_threads (proc h) \<noteq> [] \<longrightarrow>
          (\<exists>e a. remote_ok a \<and>
             (\<forall>t. on_datagram e d a (lc_tracker (proc h)) = Inr t \<longrightarrow>
                fst (os_Heartbeat S (UDP_Port c) d h) = reply_byte (lc_tracker (proc h)) t \<and>
                proc (snd (os_Heartbeat S (UDP_Port c) d h)) = (proc h)\<lparr>lc_tracker := t\<rparr>))
        else fst (os_Heartbeat S (UDP_Port c) d h) = None \<and> proc (snd (os_Heartbeat S (UDP_Port c) d h)) = proc h)"

definition answers_requests ::
  "configuration \<Rightarrow> 'h processes \<Rightarrow> ('h \<Rightarrow> 'o lifecycle) \<Rightarrow> bool" where
  "answers_requests c S proc \<longleftrightarrow>
     (\<forall>h path.
        if lc_end (proc h) = None \<and> socket_open (lc_http (proc h))
        then t_workers (lc_tracker (proc h)) \<noteq> [] \<longrightarrow>
          (\<exists>e remote headers buf. buf \<in> set (t_workers (lc_tracker (proc h))) \<and>
             (\<forall>go k outs.
                worker_step gomap e (t_build (lc_tracker (proc h))) (Request (http_get path headers) remote)
                  \<lparr>k_buf = buf, k_world = t_world (lc_tracker (proc h))\<rparr> = Inr (go, k, outs) \<longrightarrow>
                fst (os_HttpGet S (HTTP_Port c) path h) = status_code outs))
        else fst (os_HttpGet S (HTTP_Port c) path h) = None)"

lemma heartbeat_datagram:
  assumes "t_conns t \<noteq> None" "remote_ok a"
  shows "\<exists>t'. on_datagram e HeartbeatRequest a t = Inr t' \<and> t_sent t' = t_sent t @ [(a, HeartbeatOk)] \<and>
    t_workers t' = t_workers t \<and> t_build t' = t_build t"
proof -
  obtain cs where cs: "t_conns t = Some cs" using assms(1) by blast
  have d: "request_ok HeartbeatRequest" "length (take requestSizeMax HeartbeatRequest) > 15"
    "take requestSizeMax HeartbeatRequest = HeartbeatRequest" "HeartbeatRequest ! 11 = 4"
    by (simp_all add: request_ok_def HeartbeatRequest_def requestSizeMax_def)
  show ?thesis
    using cs d
    by (simp add: on_datagram_def t_udp_def receive_def process_dispatch [OF d(1) assms(2)] Let_def
        with_udp_def with_world_def WriteToUDP_def udp_stats_def)
qed

text \<open>A request without a query: whatever the buffer holds after the request line, its path is found.\<close>

lemma Index_after:
  assumes "c \<notin> set pre"
  shows "Index (pre @ rest) [c] = -1 \<or> int (length pre) \<le> Index (pre @ rest) [c]"
proof (cases "bytes_index (pre @ rest) [c]")
  case (Some i)
  then have "take 1 (drop i (pre @ rest)) = [c]" "i < length (pre @ rest)"
    using bytes_index_Some [of "pre @ rest" "[c]" i] by simp_all
  then have "(pre @ rest) ! i = c" by (metis Cons_nth_drop_Suc One_nat_def list.inject take_Suc_Cons)
  with assms have "\<not> i < length pre" by (auto simp: nth_append)
  with Some show ?thesis by (simp add: Index_def)
qed (simp add: Index_def)

lemma plain_path_parse:
  assumes "path_ok path"
  shows "\<exists>p. parse left (lit ''GET '' @ path @ lit '' HTTP/'' @ rest) sz = Inr (Inr p, lit ''GET '' @ path @ lit '' HTTP/'' @ rest) \<and>
    p_Path p = path \<and> p_Method p = lit ''GET''"
proof -
  let ?d = "lit ''GET '' @ path @ lit '' HTTP/'' @ rest" and ?i = "4 + int (length path)"
  from assms obtain p where path: "path = 47 # p" "32 \<notin> set p" "63 \<notin> set p" unfolding path_ok_def by (cases path) auto
  then have ne: "path \<noteq> []" by simp
  have i: "Index ?d (lit '' /'') = 3" "Index ?d (lit ''GET /'') = 0" by (simp_all add: lit_GET path Index_def)
  have "bytes_index (path @ lit '' HTTP/'' @ rest) (lit '' HTTP/'') = Some (length path)"
    unfolding lit_GET by (rule bytes_index_skip) (use path in simp_all)
  then have u: "Index ?d (lit '' HTTP/'') = ?i" by (simp add: lit_GET path Index_def)
  have q: "Index ?d (lit ''?'') = -1 \<or> ?i \<le> Index ?d (lit ''?'')"
    using Index_after [of 63 "lit ''GET '' @ path" "lit '' HTTP/'' @ rest"] path by (simp add: lit_GET)
  have cut: "go_slice ?d 0 3 = Inr (lit ''GET'')" "go_slice ?d 4 ?i = Inr path"
    by (simp_all add: go_slice_def lit_def)
  have "parse left ?d sz = parse_request ?d" by (simp add: parse_def lit_GET)
  moreover have "\<exists>p. parse_request ?d = Inr (Inr p, ?d) \<and> p_Path p = path \<and> p_Method p = lit ''GET''"
    using q ne unfolding parse_request_def Let_def i u by (auto simp: cut)
  ultimately show ?thesis by (simp only:)
qed

lemma take_beyond: "length pre \<le> n \<Longrightarrow> take n (pre @ xs) = pre @ take (n - length pre) xs"
  by simp

lemma heartbeat_request:
  assumes "length buf = httpRequestMax"
  shows "\<exists>k. worker_step gomap e b (Request (http_get (lit ''/heartbeat'') headers) remote) \<lparr>k_buf = buf, k_world = w\<rparr> =
    Inr (True, k, [status_line ''200''])"
proof -
  let ?pre = "lit ''GET '' @ lit ''/heartbeat'' @ lit '' HTTP/''" and ?req = "http_get (lit ''/heartbeat'') headers"
  have pre: "?req = ?pre @ lit ''1.1'' @ crlf @ headers" "length ?pre \<le> httpRequestMax"
    by (simp_all add: http_get_def httpRequestMax_def)
  have "take httpRequestMax ?req = ?pre @ take (httpRequestMax - length ?pre) (lit ''1.1'' @ crlf @ headers)"
    unfolding pre(1) by (rule take_beyond [OF pre(2)])
  then obtain rest where data: "copy_at 0 (take httpRequestMax ?req) buf = ?pre @ rest"
    by (simp add: copy_at_def)
  have "path_ok (lit ''/heartbeat'')" by (simp add: path_ok_def lit_def)
  from plain_path_parse [OF this, of "b64_left b" rest "length (take httpRequestMax ?req)"]
  obtain p where "parse (b64_left b) (?pre @ rest) (length (take httpRequestMax ?req)) = Inr (Inr p, ?pre @ rest)"
    "p_Path p = lit ''/heartbeat''" "p_Method p = lit ''GET''" by auto
  then show ?thesis
    by (simp add: worker_step_def Let_def data serve_def serve_path_def writeStatus_status_line conn_Write_def http_stats_def)
qed

lemma status_code_200: "status_code [status_line ''200''] = Some 200"
  by (simp add: status_code_def status_line_def lit_def is_digit_def digits_val_def atoi_range_def)

lemma heartbeat_answered:
  assumes "answers_datagrams c S proc"
    and "socket_open (lc_udp (proc h)) \<Longrightarrow> lc_threads (proc h) \<noteq> [] \<and> t_conns (lc_tracker (proc h)) \<noteq> None"
    and "h1 = snd (os_Heartbeat S (UDP_Port c) HeartbeatRequest h)"
  shows "fst (os_Heartbeat S (UDP_Port c) HeartbeatRequest h) =
      (if lc_end (proc h) = None \<and> socket_open (lc_udp (proc h)) then Some HeartbeatOk else None) \<and>
    (\<exists>t. proc h1 = (proc h)\<lparr>lc_tracker := t\<rparr> \<and> t_workers t = t_workers (lc_tracker (proc h)))"
proof (cases "lc_end (proc h) = None \<and> socket_open (lc_udp (proc h))")
  case True
  let ?s = "proc h"
  have th: "lc_threads ?s \<noteq> []" using assms(2) True by blast
  obtain e a where a: "remote_ok a"
    "\<forall>t. on_datagram e HeartbeatRequest a (lc_tracker ?s) = Inr t \<longrightarrow>
      fst (os_Heartbeat S (UDP_Port c) HeartbeatRequest h) = reply_byte (lc_tracker ?s) t \<and>
      proc h1 = ?s\<lparr>lc_tracker := t\<rparr>"
    using mp [OF assms(1) [unfolded answers_datagrams_def, THEN spec, THEN spec, of h HeartbeatRequest,
        unfolded if_P [OF True], folded assms(3)] th] by (elim exE conjE)
  from True assms(2) obtain t where t: "on_datagram e HeartbeatRequest a (lc_tracker ?s) = Inr t"
    "t_sent t = t_sent (lc_tracker ?s) @ [(a, HeartbeatOk)]" "t_workers t = t_workers (lc_tracker ?s)"
    using heartbeat_datagram [OF _ a(1)] by blast
  note answer = mp [OF spec [OF a(2), of t] t(1)]
  have "fst (os_Heartbeat S (UDP_Port c) HeartbeatRequest h) = Some (take 1 HeartbeatOk)"
    using conjunct1 [OF answer] t(2) by (simp add: reply_byte_def)
  with conjunct2 [OF answer] t(3) True show ?thesis by (intro conjI exI [of _ t]) (simp_all add: HeartbeatOk_def)
next
  case False
  with assms(1) have "fst (os_Heartbeat S (UDP_Port c) HeartbeatRequest h) = None" "proc h1 = proc h"
    unfolding answers_datagrams_def assms(3) by presburger+
  with False show ?thesis by (intro conjI exI [of _ "lc_tracker (proc h)"]) simp_all
qed

lemma get_answered:
  assumes "answers_requests c S proc" and "socket_open (lc_http (proc h)) \<Longrightarrow> t_workers (lc_tracker (proc h)) \<noteq> []"
    and "\<forall>buf \<in> set (t_workers (lc_tracker (proc h))). length buf = httpRequestMax"
  shows "fst (os_HttpGet S (HTTP_Port c) (lit ''/heartbeat'') h) =
    (if lc_end (proc h) = None \<and> socket_open (lc_http (proc h)) then Some 200 else None)"
proof (cases "lc_end (proc h) = None \<and> socket_open (lc_http (proc h))")
  case True
  let ?t = "lc_tracker (proc h)"
  have ws: "t_workers ?t \<noteq> []" using assms(2) True by blast
  obtain e remote headers buf where w: "buf \<in> set (t_workers ?t)"
    "\<forall>go k outs. worker_step gomap e (t_build ?t) (Request (http_get (lit ''/heartbeat'') headers) remote)
        \<lparr>k_buf = buf, k_world = t_world ?t\<rparr> = Inr (go, k, outs) \<longrightarrow>
      fst (os_HttpGet S (HTTP_Port c) (lit ''/heartbeat'') h) = status_code outs"
    using mp [OF assms(1) [unfolded answers_requests_def, THEN spec, THEN spec, of h "lit ''/heartbeat''",
        unfolded if_P [OF True]] ws] by (elim exE conjE)
  have "length buf = httpRequestMax" using w(1) assms(3) by blast
  from heartbeat_request [OF this] w(2) have "fst (os_HttpGet S (HTTP_Port c) (lit ''/heartbeat'') h) = status_code [status_line ''200'']"
    by blast
  with True status_code_200 show ?thesis by simp
next
  case False
  with assms(1) show ?thesis unfolding answers_requests_def by presburger
qed

section \<open>Properties\<close>

text \<open>
  C6: \<open>Stop\<close> stops the tracker, unless a save signal waits in the channel of its handler, where it
  would take the place of the interrupt. With no save signal there, or with a handler that is exiting
  already or not yet listening, a launched process can be in any state, and any datagrams,
  requests, signals and ticks can arrive while the controller waits: an operating system that
  leaves no goroutine out lets \<open>Stop\<close> return without an error, with the process ended and the
  process id file empty.
\<close>

theorem Stop_stops_the_tracker:
  assumes "launch P ins e ho st = Inr (Inr s0)" and "lifecycle_run P ins ho c acts s0 = Some (proc h)"
    and "lc_end (proc h) = None"
    and "lc_signal (proc h) \<noteq> Some Sigusr1 \<or> exiting (proc h) \<or> lc_handler (proc h) = HandlerStarts"
    and "runs_tracker P ins ho c S (processIDFile ctl) pid proc did" and "fair P ins ho c S proc did"
    and "pid_files S" and "pid_Read S (processIDFile ctl) h = (pid, None)"
  shows "\<exists>h'. Stop S ctl h = Some (None, h') \<and> lc_end (proc h') \<noteq> None \<and>
    pid_Read S (processIDFile ctl) h' = (ProcessIDFailed, Some ErrFileEmpty)"
proof -
  let ?h1 = "snd (os_Interrupt S pid h)"
  from assms(1) have "channels_ok s0" by (rule launch_succeeded) simp
  with assms(2) have "channels_ok (proc h)" by (rule run_channels)
  from deliver_stops [OF this assms(4)]
  have "lc_end (proc ?h1) \<noteq> None \<or> channels_ok (proc ?h1) \<and> stopping (proc ?h1)"
    by (simp add: runs_trackerD(3) [OF assms(5,3)])
  then obtain n where "lc_end (proc (slept S n ?h1)) \<noteq> None"
    using eventually_ends [OF assms(5,6), of ?h1] slept_0 by metis
  from Stop_of_ended [OF assms(5,8,3) this] obtain m h' where "Stop S ctl h = Some (None, h')"
    "os_Truncate S (processIDFile ctl) (slept S m ?h1) = (True, h')" "lc_end (proc h') \<noteq> None" by blast
  with assms(7) show ?thesis by (auto simp: pid_files_def pid_Read_def)
qed

text \<open>
  C32: A save signal makes \<open>Stop\<close> wait for ever: while a \<open>SIGUSR1\<close> waits in the channel of a
  handler that is not exiting, the interrupt is dropped, and as long as no other exit signal
  arrives \<open>Stop\<close> returns only if the process ends by a fatal error or a panic; it never exits with
  success.
\<close>

theorem Stop_waits_for_ever:
  assumes "runs_tracker P ins ho c S (processIDFile ctl) pid proc did"
    and "pid_Read S (processIDFile ctl) h = (pid, None)" and "lc_end (proc h) = None"
    and "lc_signal (proc h) = Some Sigusr1" "\<not> exiting (proc h)" "lc_handler (proc h) \<noteq> HandlerStarts"
    and "\<forall>h'. \<not> exit_signalled (did h')"
  shows "(Stop S ctl h = None \<longleftrightarrow> (\<forall>n. lc_end (proc (slept S n (snd (os_Interrupt S pid h)))) = None)) \<and>
    (\<forall>n. lc_end (proc (slept S n (snd (os_Interrupt S pid h)))) \<notin> {Some ExitSuccess, Some KilledBySignal})"
proof -
  define h1 where "h1 = snd (os_Interrupt S pid h)"
  have h1: "proc h1 = proc h"
    using runs_trackerD(3) [OF assms(1,3)] assms(4,6) by (simp add: h1_def deliver_def)
  have "Stop S ctl h = None" if "\<forall>n. lc_end (proc (slept S n h1)) = None"
    using that Stop_waits [OF assms(1-3) h1_def]
    by (simp add: stop_loop_diverges poll_error_slept [OF assms(1)])
  moreover have "Stop S ctl h \<noteq> None" if "lc_end (proc (slept S n h1)) \<noteq> None" for n
    using Stop_of_ended [OF assms(1-3) that [unfolded h1_def]] by auto
  moreover have "lc_end (proc (slept S n h1)) \<notin> {Some ExitSuccess, Some KilledBySignal}" for n
  proof -
    let ?acts = "did_within S did n h1"
    have acts: "\<not> exit_signalled ?acts" using assms(7) by (auto simp: did_within_def exit_signalled_def)
    define I where "I = (\<lambda>s :: 'a lifecycle. \<not> exit_requested s \<and> (\<forall>x. lc_end s = Some x \<longrightarrow> end_explained ins ?acts x))"
    have "I (proc (slept S n h1))"
      using slept_run [OF assms(1), of n h1]
    proof (rule lifecycle_run_invariant)
      show "I (proc h1)" using assms(3-5) h1 by (simp add: I_def exit_requested_def)
      fix a s s'
      assume a: "a \<in> set ?acts" "lifecycle_step P ins ho c a s = Some s'" "I s"
      with exit_requested_moves [OF a(2)] step_explained [OF a(2,1)] acts show "I s'"
        by (auto simp: I_def exit_signalled_def)
    qed
    with acts show ?thesis by (auto simp: I_def)
  qed
  ultimately show ?thesis unfolding h1_def by blast
qed

text \<open>
  C15: What \<open>Status\<close> reports of a tracker: that the process id file holds a process id, whether
  the process is alive, and a heartbeat exactly when the process is alive and one of the servers
  that are configured has its socket open. The heartbeats are the ones of the two trackers: the
  handlers answer them whatever state the database is in.
\<close>

theorem Status_of_a_tracker:
  assumes "runs_tracker P ins ho c S (processIDFile ctl) pid proc did"
    and "pid_Read S (processIDFile ctl) h = (pid, None)" "pid \<noteq> -1"
    and "answers_datagrams c S proc" "answers_requests c S proc" "tracker_ok lim (lc_tracker (proc h))"
    and "socket_open (lc_udp (proc h)) \<Longrightarrow> lc_threads (proc h) \<noteq> [] \<and> t_conns (lc_tracker (proc h)) \<noteq> None"
    and "socket_open (lc_http (proc h)) \<Longrightarrow> t_workers (lc_tracker (proc h)) \<noteq> []"
  shows "fst (Status S c ctl h) = (True, lc_end (proc h) = None,
    lc_end (proc h) = None \<and>
      (UDP_Enabled c \<and> socket_open (lc_udp (proc h)) \<or>
       HTTP_Mode c = lit ''enabled'' \<and> socket_open (lc_http (proc h))))"
proof -
  let ?s = "proc h"
  define h1 where "h1 = snd (os_Heartbeat S (UDP_Port c) HeartbeatRequest h)"
  note udp = heartbeat_answered [OF assms(4,7) h1_def]
  from udp obtain t where t: "proc h1 = ?s\<lparr>lc_tracker := t\<rparr>" "t_workers t = t_workers (lc_tracker ?s)" by blast
  define h2 where "h2 = (if UDP_Enabled c then h1 else h)"
  have u: "udp_heartbeat S c h = (UDP_Enabled c \<and> lc_end ?s = None \<and> socket_open (lc_udp ?s), h2)"
    using conjunct1 [OF udp]
    by (cases "os_Heartbeat S (UDP_Port c) HeartbeatRequest h") (simp add: udp_heartbeat_def h1_def h2_def HeartbeatOk_def)
  have bufs: "\<forall>buf \<in> set (t_workers (lc_tracker ?s)). length buf = httpRequestMax"
    using assms(6) by (simp add: tracker_ok_def)
  have "fst (os_HttpGet S (HTTP_Port c) (lit ''/heartbeat'') h2) =
      (if lc_end ?s = None \<and> socket_open (lc_http ?s) then Some 200 else None)"
    using get_answered [OF assms(5), of h1] get_answered [OF assms(5), of h] t bufs assms(8) by (simp add: h2_def)
  then have w: "fst (http_heartbeat S c h2) =
      (HTTP_Mode c = lit ''enabled'' \<and> lc_end ?s = None \<and> socket_open (lc_http ?s))"
    by (cases "os_HttpGet S (HTTP_Port c) (lit ''/heartbeat'') h2") (simp add: http_heartbeat_def)
  have k: "os_Kill0 S pid h = (if lc_end ?s = None then None else Some (lit ''no such process''), h)"
    by (rule runs_trackerD(5) [OF assms(1)])
  obtain b h3 where w3: "http_heartbeat S c h2 = (b, h3)" by (cases "http_heartbeat S c h2")
  show ?thesis
    using assms(2,3) u w k unfolding w3 by (simp add: Status_def ProcessIDFailed_def Let_def w3) blast
qed

section \<open>A concrete host\<close>

text \<open>
  The content of the process id file and a process, which gets one round of the same actions in
  every sleep; an action that its goroutine cannot make is left out.
\<close>

fun round_done ::
  "'o platform \<Rightarrow> installation \<Rightarrow> hash_order \<Rightarrow> configuration \<Rightarrow> process_action list \<Rightarrow> 'o lifecycle
     \<Rightarrow> process_action list \<times> 'o lifecycle" where
  "round_done P ins ho c [] s = ([], s)"
| "round_done P ins ho c (a # acts) s =
     (case lifecycle_step P ins ho c a s of
        None \<Rightarrow> round_done P ins ho c acts s
      | Some s1 \<Rightarrow> (case round_done P ins ho c acts s1 of (done, s') \<Rightarrow> (a # done, s')))"

lemma round_done_run:
  "lifecycle_run P ins ho c (fst (round_done P ins ho c acts s)) s = Some (snd (round_done P ins ho c acts s))"
  by (induction acts arbitrary: s) (auto split: option.split prod.split simp: prod_eq_iff)

lemma round_done_subset: "set (fst (round_done P ins ho c acts s)) \<subseteq> set acts"
proof (induction acts arbitrary: s)
  case (Cons a acts)
  show ?case
  proof (cases "lifecycle_step P ins ho c a s")
    case None
    with Cons [of s] show ?thesis by auto
  next
    case (Some s1)
    with Cons [of s1] show ?thesis by (auto split: prod.split)
  qed
qed simp

lemma round_done_none:
  assumes "\<forall>a \<in> set (fst (round_done P ins ho c acts s)). \<not> control a" "\<forall>a \<in> set acts. control a" "a \<in> set acts"
  shows "lifecycle_step P ins ho c a s = None"
  using assms by (induction acts arbitrary: s) (auto split: option.splits prod.splits)

definition sample_host ::
  "installation \<Rightarrow> process_action list \<Rightarrow> (bytes \<times> sample_outside lifecycle) processes" where
  "sample_host ins acts =
     \<lparr>ps_files = \<lparr>WriteFile = \<lambda>p d h. (True, (d, snd h)), ReadFile = \<lambda>p h. Some (fst h)\<rparr>,
      os_Truncate = \<lambda>p h. (True, ([], snd h)), os_FindProcess = \<lambda>pid h. True,
      os_Interrupt = \<lambda>pid h. (if lc_end (snd h) = None then (True, (fst h, deliver Interrupt (snd h))) else (False, h)),
      os_Kill0 = \<lambda>pid h. (if lc_end (snd h) = None then None else Some (lit ''no such process''), h),
      os_OpenLog = \<lambda>p h. (True, h), os_StartSelf = \<lambda>h. (None, h),
      os_Heartbeat = \<lambda>port d h.
        (if lc_end (snd h) = None \<and> socket_open (lc_udp (snd h)) then
           (case on_datagram (sample_env 0) d loopback (lc_tracker (snd h)) of
              Inl _ \<Rightarrow> (None, h)
            | Inr t \<Rightarrow> (reply_byte (lc_tracker (snd h)) t, (fst h, (snd h)\<lparr>lc_tracker := t\<rparr>)))
         else (None, h)),
      os_HttpGet = \<lambda>port path h.
        (if lc_end (snd h) = None \<and> socket_open (lc_http (snd h)) then
           (case worker_step gomap (sample_env 0) (t_build (lc_tracker (snd h))) (Request (http_get path []) (Addr4 1, 2))
                   \<lparr>k_buf = hd (t_workers (lc_tracker (snd h))), k_world = t_world (lc_tracker (snd h))\<rparr> of
              Inl _ \<Rightarrow> None
            | Inr (go, k, outs) \<Rightarrow> status_code outs, h)
         else (None, h)),
      os_Sleep = \<lambda>h. (fst h, snd (round_done sample_platform ins sorted_order default_config acts (snd h)))\<rparr>"

definition sample_did ::
  "installation \<Rightarrow> process_action list \<Rightarrow> bytes \<times> sample_outside lifecycle \<Rightarrow> process_action list" where
  "sample_did ins acts h = fst (round_done sample_platform ins sorted_order default_config acts (snd h))"

lemma sample_host_runs:
  "runs_tracker sample_platform ins sorted_order default_config (sample_host ins acts) [] 42 snd (sample_did ins acts)"
  "pid_files (sample_host ins acts)"
  "pid_Read (sample_host ins acts) [] (lit ''42'', s) = (42, None)"
  using sample_pid(1) [of "[]"]
  by (simp_all add: runs_tracker_def sample_host_def sample_did_def round_done_run pid_files_def pid_Read_def)

definition control_round :: "process_action list" where
  "control_round = [Main, UdpServe True, HttpServe True, Handler (sample_env 0)]"

lemma handler_step_any: "handler_step P ins ho e s \<noteq> None \<Longrightarrow> handler_step P ins ho e' s \<noteq> None"
  by (cases "lc_handler s") (auto simp: handler_step_def split: option.splits)

lemma serve_step_any:
  "udp_Serve_step ins c b s \<noteq> None \<Longrightarrow> udp_Serve_step ins c b' s \<noteq> None"
  "http_Serve_step ins c b s \<noteq> None \<Longrightarrow> http_Serve_step ins c b' s \<noteq> None"
  by (cases "lc_udp s", auto simp: udp_Serve_step_def) (cases "lc_http s", auto simp: http_Serve_step_def)

lemma control_round_covers:
  assumes "control a" "lifecycle_step P ins ho c a s \<noteq> None"
  shows "\<exists>b \<in> set control_round. lifecycle_step P ins ho c b s \<noteq> None"
proof (cases a)
  case (Handler e)
  with assms(2) handler_step_any [of P ins ho e s "sample_env 0"] show ?thesis
    by (intro bexI [of _ "Handler (sample_env 0)"]) (auto simp: lifecycle_step_def control_round_def split: if_splits)
next
  case (UdpServe b)
  with assms(2) serve_step_any(1) [of ins c b s True] show ?thesis
    by (intro bexI [of _ "UdpServe True"]) (auto simp: lifecycle_step_def control_round_def split: if_splits)
next
  case (HttpServe b)
  with assms(2) serve_step_any(2) [of ins c b s True] show ?thesis
    by (intro bexI [of _ "HttpServe True"]) (auto simp: lifecycle_step_def control_round_def split: if_splits)
qed (use assms in \<open>auto simp: control_round_def\<close>)

lemma sample_host_fair:
  "fair sample_platform ins sorted_order default_config (sample_host ins control_round) snd (sample_did ins control_round)"
proof -
  have "\<exists>a \<in> set (sample_did ins control_round h). control a"
    if "control a" "lifecycle_step sample_platform ins sorted_order default_config a (snd h) \<noteq> None" for a h
  proof -
    have all: "\<forall>a \<in> set control_round. control a" by (simp add: control_round_def)
    from control_round_covers [OF that] obtain b where b: "b \<in> set control_round"
      "lifecycle_step sample_platform ins sorted_order default_config b (snd h) \<noteq> None" by blast
    show ?thesis
      using round_done_none [OF _ all b(1), of sample_platform ins sorted_order default_config "snd h"] b(2)
      by (auto simp: sample_did_def)
  qed
  then show ?thesis unfolding fair_def by (metis lessI slept_0)
qed

theorem Stop_stops_the_tracker_witness:
  "\<exists>t h'. launch sample_platform sample_installation (sample_env 0) sorted_order (new_process sample_out) =
       Inr (Inr (new_lifecycle t)) \<and>
     Stop (sample_host sample_installation control_round) sample_controller (lit ''42'', new_lifecycle t) = Some (None, h') \<and>
     lc_end (snd h') \<noteq> None"
proof -
  obtain t where l: "launch sample_platform sample_installation (sample_env 0) sorted_order (new_process sample_out) =
      Inr (Inr (new_lifecycle t))" using sample_launch by blast
  let ?h = "(lit ''42'', new_lifecycle t)"
  have h: "lc_end (snd ?h) = None"
    "lc_signal (snd ?h) \<noteq> Some Sigusr1 \<or> exiting (snd ?h) \<or> lc_handler (snd ?h) = HandlerStarts"
    by (simp_all add: new_lifecycle_def)
  have ctl: "processIDFile sample_controller = []" by (simp add: sample_controller_def)
  have r: "lifecycle_run sample_platform sample_installation sorted_order default_config [] (new_lifecycle t) = Some (snd ?h)"
    by simp
  have "\<exists>h'. Stop (sample_host sample_installation control_round) sample_controller ?h = Some (None, h') \<and>
      lc_end (snd h') \<noteq> None \<and>
      pid_Read (sample_host sample_installation control_round) (processIDFile sample_controller) h' = (ProcessIDFailed, Some ErrFileEmpty)"
    by (rule Stop_stops_the_tracker [where proc = snd and pid = 42, OF l r h])
      (use sample_host_runs [of sample_installation control_round] sample_host_fair [of sample_installation] ctl in simp_all)
  with l show ?thesis by blast
qed

theorem Stop_waits_for_ever_witness:
  "\<exists>s. lc_signal s = Some Sigusr1 \<and> lc_handler s = WritesConns False \<and>
     Stop (sample_host sample_installation []) sample_controller (lit ''42'', s) = None"
proof -
  let ?s = "exiting_process\<lparr>lc_signal := Some Sigusr1, lc_handler := WritesConns False\<rparr>" and ?S = "sample_host sample_installation []"
  let ?h = "(lit ''42'', ?s)"
  have s: "lc_end (snd ?h) = None" "lc_signal (snd ?h) = Some Sigusr1" "\<not> exiting (snd ?h)" "lc_handler (snd ?h) \<noteq> HandlerStarts"
    by (simp_all add: exiting_process_def new_lifecycle_def exiting_def)
  have ctl: "processIDFile sample_controller = []" by (simp add: sample_controller_def)
  have idle: "slept ?S n h = h" for n h
    by (induction n) (simp_all add: slept_Suc, simp add: sample_host_def)
  have d: "\<forall>h'. \<not> exit_signalled (sample_did sample_installation [] h')"
    by (simp add: sample_did_def exit_signalled_def)
  have i: "lc_end (snd (snd (os_Interrupt ?S 42 ?h))) = None"
    using s by (simp add: sample_host_def deliver_def)
  have "Stop ?S sample_controller ?h = None"
    using Stop_waits_for_ever [OF sample_host_runs(1) [of sample_installation "[]", folded ctl] _ s d]
      sample_host_runs(3) [of sample_installation "[]"] ctl idle i by simp
  with s show ?thesis by (intro exI [of _ ?s]) simp
qed

definition serving_process :: "sample_outside lifecycle" where
  "serving_process =
     exiting_process
       \<lparr>lc_tracker := (lc_tracker exiting_process)\<lparr>t_conns := Some (newConnectionDatabase 0)\<rparr>,
        lc_handler := AwaitsSignal, lc_main := Publishes, lc_udp_made := True, lc_http_made := True,
        lc_udp := AwaitsShutdown, lc_http := AwaitsShutdown, lc_threads := [Reads], lc_workers := [Accepts]\<rparr>"

theorem Status_of_a_tracker_witness:
  "fst (Status (sample_host sample_installation []) default_config sample_controller (lit ''42'', serving_process)) =
     (True, True, True)"
proof -
  let ?S = "sample_host sample_installation []" and ?h = "(lit ''42'', serving_process)"
  have ctl: "processIDFile sample_controller = []" by (simp add: sample_controller_def)
  have t: "t_conns (lc_tracker serving_process) \<noteq> None" "t_workers (lc_tracker serving_process) = [replicate httpRequestMax 0]"
    "lc_end serving_process = None" "lc_udp serving_process = AwaitsShutdown" "lc_http serving_process = AwaitsShutdown"
    "lc_threads serving_process = [Reads]"
    by (simp_all add: serving_process_def exiting_process_def new_lifecycle_def)
  have ok: "tracker_ok 200 (lc_tracker serving_process)"
    using one_hash_world_ok [of "replicate 20 3" two_peers]
    by (simp add: serving_process_def exiting_process_def new_lifecycle_def launched_tracker_def tracker_ok_def t_world_def
        sample_installation_def world_ok_def default_drivers pools_ok_Initialize file_ready_def)
  have "answers_datagrams default_config ?S snd"
    unfolding answers_datagrams_def
    by (auto simp: sample_host_def split: sum.splits intro!: exI [of _ "sample_env 0"] exI [of _ loopback])
  moreover have "answers_requests default_config ?S snd"
    unfolding answers_requests_def
  proof (intro allI)
    fix h :: "bytes \<times> sample_outside lifecycle" and path
    show "if lc_end (snd h) = None \<and> socket_open (lc_http (snd h))
      then t_workers (lc_tracker (snd h)) \<noteq> [] \<longrightarrow>
        (\<exists>e remote headers buf. buf \<in> set (t_workers (lc_tracker (snd h))) \<and>
           (\<forall>go k outs. worker_step gomap e (t_build (lc_tracker (snd h))) (Request (http_get path headers) remote)
                \<lparr>k_buf = buf, k_world = t_world (lc_tracker (snd h))\<rparr> = Inr (go, k, outs) \<longrightarrow>
              fst (os_HttpGet ?S (HTTP_Port default_config) path h) = status_code outs))
      else fst (os_HttpGet ?S (HTTP_Port default_config) path h) = None"
      by (cases "lc_end (snd h) = None \<and> socket_open (lc_http (snd h))", simp_all add: sample_host_def del: not_None_eq)
        (rule impI, rule exI [of _ "sample_env 0"], rule exI [of _ "Addr4 1"], rule exI [of _ 2], rule exI [of _ "[]"],
         rule exI [of _ "hd (t_workers (lc_tracker (snd h)))"], auto)
  qed
  ultimately have "fst (Status ?S default_config sample_controller ?h) = (True, lc_end (snd ?h) = None,
    lc_end (snd ?h) = None \<and>
      (UDP_Enabled default_config \<and> socket_open (lc_udp (snd ?h)) \<or>
       HTTP_Mode default_config = lit ''enabled'' \<and> socket_open (lc_http (snd ?h))))"
    by (intro Status_of_a_tracker [OF sample_host_runs(1) [of sample_installation "[]", folded ctl]])
      (use sample_host_runs(3) [of sample_installation "[]"] ctl t ok in simp_all)
  then show ?thesis by (simp add: t socket_open_def default_drivers)
qed

end
