(* ===== verification/Console.thy ===== *)
theory Console
  imports Service
begin

text \<open>
  The command line as its user sees it (cli_entry.go): the help, the lines of \<open>status\<close>, what
  \<open>Start\<close> and \<open>Stop\<close> print on their way (controller/controller.go), the texts of the errors, and
  the exit status. The texts of the operating system's errors are a parameter, and so is
  what \<open>fmt.Fprintf\<close> makes of a format without operands.
\<close>

section \<open>Texts\<close>

definition newline :: bytes where
  "newline = [10]"

text \<open>\<open>%-12s\<close> pads on the right.\<close>

definition padded :: "bytes \<Rightarrow> bytes" where
  "padded s = s @ replicate (12 - length s) 32"

definition help_line :: "string \<Rightarrow> string \<Rightarrow> bytes" where
  "help_line command what = lit ''   '' @ padded (lit command) @ lit '' '' @ lit what @ newline"

definition help_text :: "bytes \<Rightarrow> bytes" where
  "help_text arg0 =
     lit ''Commands:'' @ newline @
     help_line ''status'' ''returns the status of trakx'' @
     help_line ''start'' ''starts trakx daemon'' @
     help_line ''stop'' ''stops trakx daemon'' @
     help_line ''restart'' ''restarts trakx daemon'' @
     help_line ''execute'' (''executes trakx, doesn'' @ [CHR 39] @ ''t return'') @
     help_line ''reset'' ''wipes trakx pid file, use if you encounter errors with start/stop/restart commands'' @
     lit ''Usage:'' @ newline @ lit ''   '' @ arg0 @ lit '' <command>'' @ newline @
     lit ''Example:'' @ newline @ lit ''   '' @ arg0 @ lit '' status'' @ newline"

text \<open>The marks in front of the lines of \<open>status\<close>, a check mark and a cross in UTF-8.\<close>

definition check_mark :: bytes where
  "check_mark = [226, 156, 133]"

definition cross_mark :: bytes where
  "cross_mark = [226, 157, 140]"

definition status_line_of :: "bool \<Rightarrow> string \<Rightarrow> string \<Rightarrow> bytes" where
  "status_line_of good yes no =
     lit ''['' @ (if good then check_mark else cross_mark) @ lit ''] '' @ lit (if good then yes else no) @ newline"

definition status_text :: "bool \<Rightarrow> bool \<Rightarrow> bool \<Rightarrow> bytes" where
  "status_text pidFileExists processAlive heartbeat =
     status_line_of pidFileExists ''valid process id file'' ''invalid/empty process id file'' @
     status_line_of processAlive ''process is alive'' ''process is dead'' @
     status_line_of heartbeat ''heartbeat successful'' ''heartbeat failed''"

section \<open>The texts of errors\<close>

text \<open>The errors of the operating system; \<open>errors.Wrap\<close> puts a message and a colon in front.\<close>

record error_texts =
  tx_read :: bytes
  tx_find :: bytes
  tx_open :: bytes
  tx_start :: bytes
  tx_write :: bytes
  tx_signal :: bytes
  tx_truncate :: bytes

definition wrapped :: "string \<Rightarrow> bytes \<Rightarrow> bytes" where
  "wrapped message text = lit message @ lit '': '' @ text"

fun pid_error_text :: "error_texts \<Rightarrow> pid_error \<Rightarrow> bytes" where
  "pid_error_text tx PidReadError = tx_read tx"
| "pid_error_text tx ErrFileEmpty = lit ''process id file is empty''"
| "pid_error_text tx ErrParseFailed = lit ''failed to parse process id file''"
| "pid_error_text tx FindProcessFailed = tx_find tx"

fun controller_error_text :: "error_texts \<Rightarrow> controller_error \<Rightarrow> bytes" where
  "controller_error_text tx AlreadyRunning = lit ''trakx is already running''"
| "controller_error_text tx OpenLogFailed = wrapped ''failed to open log file'' (tx_open tx)"
| "controller_error_text tx StartFailed = wrapped ''failed to start trakx process'' (tx_start tx)"
| "controller_error_text tx WritePidFailed = wrapped ''failed to write process id to file'' (tx_write tx)"
| "controller_error_text tx (NoProcess er) =
     wrapped ''failed to get process from process id file'' (pid_error_text tx er)"
| "controller_error_text tx SignalFailed = wrapped ''failed to send stop signal to process'' (tx_signal tx)"
| "controller_error_text tx (ReadPidFailed er) = wrapped ''failed to read process id file'' (pid_error_text tx er)"
| "controller_error_text tx StopTimeout = lit '' trakx failed to stop within 10s''"
| "controller_error_text tx (KillFailed msg) = wrapped ''failed to kill trakx process id'' msg"
| "controller_error_text tx ClearFailed = wrapped ''failed to clear trakx process id file'' (tx_truncate tx)"

section \<open>What the controller prints\<close>

definition Start_prints :: "controller_error option \<Rightarrow> bytes" where
  "Start_prints er = (if er = None then lit ''started trakx!'' @ newline else [])"

text \<open>One dot for every poll; the last line when the process is gone.\<close>

definition Stop_prints :: "'o processes \<Rightarrow> controller \<Rightarrow> 'o \<Rightarrow> bytes" where
  "Stop_prints S ctl out =
     (case pid_Process S (processIDFile ctl) out of
        Inl er \<Rightarrow> []
      | Inr running \<Rightarrow>
          (case os_Interrupt S running out of
             (False, out1) \<Rightarrow> []
           | (True, out1) \<Rightarrow>
               (case pid_Read S (processIDFile ctl) out1 of
                  (_, Some er) \<Rightarrow> []
                | (processid, None) \<Rightarrow>
                    lit ''waiting for process to exit'' @
                    (case stop_loop S processid None 0 out1 of
                       None \<Rightarrow> []
                     | Some (er, i, out2) \<Rightarrow>
                         replicate (nat i) 46 @
                         (if i = 100 \<or> er \<noteq> Some (lit ''no such process'') then []
                          else lit '' stopped trakx!'' @ newline)))))"

section \<open>main\<close>

text \<open>How the command ends: with an exit status, or as the tracker itself.\<close>

datatype cli_end = Exited bytes bytes int | RunsTracker

text \<open>\<open>os.Exit(-1)\<close> is the exit status 255; the text of the error is the format.\<close>

definition logFatal :: "error_texts \<Rightarrow> (bytes \<Rightarrow> bytes) \<Rightarrow> bytes \<Rightarrow> controller_error \<Rightarrow> cli_end" where
  "logFatal tx printf printed er = Exited printed (printf (controller_error_text tx er @ newline)) 255"

definition cli_run ::
  "error_texts \<Rightarrow> (bytes \<Rightarrow> bytes) \<Rightarrow> 'o processes \<Rightarrow> configuration \<Rightarrow> bytes \<Rightarrow> bytes list \<Rightarrow> 'o
     \<Rightarrow> (cli_end \<times> 'o) option" where
  "cli_run tx printf S c arg0 args out =
     (case args of
        [] \<Rightarrow> Some (Exited (help_text arg0) [] 0, out)
      | command # _ \<Rightarrow>
          (let ctl = NewController c in
           if command = lit ''status'' then
             (case Status S c ctl out of
                ((f, a, h), out') \<Rightarrow> Some (Exited (status_text f a h) [] 0, out'))
           else if command = lit ''execute'' then Some (RunsTracker, out)
           else if command = lit ''start'' then
             (case Start S c ctl out of
                (Some er, out') \<Rightarrow> Some (logFatal tx printf [] er, out')
              | (None, out') \<Rightarrow> Some (Exited (Start_prints None) [] 0, out'))
           else if command = lit ''stop'' then
             Option.bind (Stop S ctl out) (\<lambda>(er, out').
               case er of
                 Some x \<Rightarrow> Some (logFatal tx printf (Stop_prints S ctl out) x, out')
               | None \<Rightarrow> Some (Exited (Stop_prints S ctl out) [] 0, out'))
           else if command = lit ''restart'' \<or> command = lit ''reboot'' then
             (let printed = lit ''rebooting...'' @ newline @ Stop_prints S ctl out in
              Option.bind (Stop S ctl out) (\<lambda>(er, out').
                case er of
                  Some x \<Rightarrow> Some (logFatal tx printf printed x, out')
                | None \<Rightarrow>
                    (case Start S c ctl out' of
                       (Some x, out'') \<Rightarrow> Some (logFatal tx printf printed x, out'')
                     | (None, out'') \<Rightarrow>
                         Some (Exited (printed @ Start_prints None @ lit ''rebooted!'' @ newline) [] 0, out''))))
           else if command = lit ''reset'' then
             (let printed = lit ''wiping pid file...'' @ newline in
              case Clear S ctl out of
                (Some x, out') \<Rightarrow> Some (logFatal tx printf printed x, out')
              | (None, out') \<Rightarrow> Some (Exited (printed @ lit ''wiped!'' @ newline) [] 0, out'))
           else
             Some (Exited (help_text arg0)
               (lit (''invalid command: '' @ [CHR 39]) @ command @ lit [CHR 39] @ newline @ newline) 0, out)))"

section \<open>What can be read off the console\<close>

fun exit_code :: "cli_end \<Rightarrow> int option" where
  "exit_code (Exited out err code) = Some code"
| "exit_code RunsTracker = None"

fun stderr_of :: "cli_end \<Rightarrow> bytes" where
  "stderr_of (Exited out err code) = err"
| "stderr_of RunsTracker = []"

fun stdout_of :: "cli_end \<Rightarrow> bytes" where
  "stdout_of (Exited out err code) = out"
| "stdout_of RunsTracker = []"

text \<open>What a result of \<open>cli_main\<close> looks like on the console.\<close>

definition shows_result :: "error_texts \<Rightarrow> (bytes \<Rightarrow> bytes) \<Rightarrow> bytes \<Rightarrow> bytes list \<Rightarrow> cli_result \<Rightarrow> cli_end \<Rightarrow> bool" where
  "shows_result tx printf arg0 args r x \<longleftrightarrow>
     (case r of
        Help \<Rightarrow> x = Exited (help_text arg0) [] 0
      | InvalidCommand \<Rightarrow>
          x = Exited (help_text arg0) (lit (''invalid command: '' @ [CHR 39]) @ hd args @ lit [CHR 39] @ newline @ newline) 0
      | Reports f a h \<Rightarrow> x = Exited (status_text f a h) [] 0
      | Executes \<Rightarrow> x = RunsTracker
      | cli_result.Done \<Rightarrow> exit_code x = Some 0 \<and> stderr_of x = []
      | cli_result.Fails er \<Rightarrow> exit_code x = Some 255 \<and> stderr_of x = printf (controller_error_text tx er @ newline))"

lemma status_mark: "take 4 (drop 1 (status_line_of good yes no)) = (if good then check_mark @ [93] else cross_mark @ [93])"
  by (simp add: status_line_of_def check_mark_def cross_mark_def lit_def)

lemma status_text_inject: "status_text f a h = status_text f' a' h' \<longleftrightarrow> f = f' \<and> a = a' \<and> h = h'"
  by (cases f; cases a; cases h; cases f'; cases a'; cases h')
    (simp_all add: status_text_def status_line_of_def check_mark_def cross_mark_def newline_def lit_def)

lemma shows_fails: "shows_result tx printf arg0 args (cli_result.Fails er) (logFatal tx printf printed er)"
  by (simp add: shows_result_def logFatal_def)

lemma shows_done: "shows_result tx printf arg0 args cli_result.Done (Exited printed [] 0)"
  by (simp add: shows_result_def)

definition console_shows ::
  "error_texts \<Rightarrow> (bytes \<Rightarrow> bytes) \<Rightarrow> bytes \<Rightarrow> bytes list \<Rightarrow> (cli_result \<times> 'o) option \<Rightarrow> (cli_end \<times> 'o) option \<Rightarrow> bool" where
  "console_shows tx printf arg0 args m r \<longleftrightarrow>
     (case m of
        None \<Rightarrow> r = None
      | Some (res, out') \<Rightarrow> \<exists>x. r = Some (x, out') \<and> shows_result tx printf arg0 args res x)"

lemma cli_run_shows:
  "console_shows tx printf arg0 args (cli_main S c args out) (cli_run tx printf S c arg0 args out)"
proof (cases args)
  case Nil
  then show ?thesis by (simp add: console_shows_def cli_main_def cli_run_def shows_result_def)
next
  case (Cons command rest)
  have distinct: "distinct [lit ''status'', lit ''execute'', lit ''start'', lit ''stop'', lit ''restart'', lit ''reboot'', lit ''reset'']"
    "distinct [lit ''reset'', lit ''reboot'', lit ''restart'', lit ''stop'', lit ''start'', lit ''execute'', lit ''status'']"
    by (simp_all add: lit_def)
  note defs = console_shows_def cli_main_def cli_run_def cli_start_def Let_def shows_fails shows_done Cons distinct [simplified]
  consider "command = lit ''status''" | "command = lit ''execute''" | "command = lit ''start''" | "command = lit ''stop''"
    | "command = lit ''restart'' \<or> command = lit ''reboot''" | "command = lit ''reset''"
    | "command \<notin> {lit ''status'', lit ''execute'', lit ''start'', lit ''stop'', lit ''restart'', lit ''reboot'', lit ''reset''}"
    by blast
  then show ?thesis
  proof cases
    case 1
    then show ?thesis by (auto simp: defs shows_result_def split: prod.split)
  next
    case 2
    then show ?thesis by (simp add: defs shows_result_def)
  next
    case 3
    then show ?thesis by (simp add: defs split: prod.split option.split)
  next
    case 4
    then show ?thesis by (cases "Stop S (NewController c) out") (simp_all add: defs split: prod.split option.split)
  next
    case 5
    then show ?thesis
      by (cases "Stop S (NewController c) out") (auto simp: defs split: prod.split option.split)
  next
    case 6
    then show ?thesis by (simp add: defs split: prod.split option.split)
  next
    case 7
    then show ?thesis by (simp add: defs shows_result_def)
  qed
qed

section \<open>Properties\<close>

text \<open>
  The console tells what a command has done: it returns exactly when \<open>main\<close> does, the three
  lines of \<open>status\<close> determine its three answers, an error is printed on the error stream with the
  exit status 255, and every other result, even an invalid command or a dead tracker, has the exit
  status 0 and no error, but for the message about the invalid command.
\<close>

theorem console_tells_result:
  "console_shows tx printf arg0 args (cli_main S c args out) (cli_run tx printf S c arg0 args out) \<and>
   (status_text f a h = status_text f' a' h' \<longleftrightarrow> f = f' \<and> a = a' \<and> h = h')"
  by (rule conjI [OF cli_run_shows status_text_inject])

end
