(* ===== verification/Interleaving.thy ===== *)
theory Interleaving
  imports MemorySpec
begin

text \<open>
  Database operations of several goroutines at once: \<open>Save\<close>, \<open>Drop\<close> and \<open>trim\<close> of
  tracker/storage/map as sequences of steps over shared memory. A step is a critical section of
  the code, or what the code does between two of them; the sections of one lock exclude each
  other, and a goroutine can be interrupted after every step. Peer maps and peers are objects
  with addresses, because an operation keeps pointers to them while it holds no lock.
\<close>

section \<open>Shared memory\<close>

record shared_map =
  sm_Complete :: uint16
  sm_Incomplete :: uint16
  sm_Peers :: "(peer_id, nat) fmap"

text \<open>
  The hash map, the peer maps and the peers that were allocated so far, the free list of the peer
  pool and how many peers it made, and the statistics.
\<close>

record shared =
  sh_hashes :: "(hash, nat) fmap"
  sh_maps :: "nat \<Rightarrow> shared_map"
  sh_nmaps :: nat
  sh_peers :: "nat \<Rightarrow> peer"
  sh_npeers :: nat
  sh_free :: "nat list"
  sh_created :: int32
  sh_stats :: stats

definition new_map :: shared_map where
  "new_map = \<lparr>sm_Complete = 0, sm_Incomplete = 0, sm_Peers = fmempty\<rparr>"

text \<open>\<open>pools.Peers.Get\<close> and \<open>Put\<close>: a pooled peer keeps what was last written to it.\<close>

definition alloc_peer :: "shared \<Rightarrow> nat \<times> shared" where
  "alloc_peer s =
     (sh_npeers s, s\<lparr>sh_peers := (sh_peers s)(sh_npeers s := zero_peer), sh_npeers := Suc (sh_npeers s),
        sh_created := sh_created s + 1\<rparr>)"

definition take_peer :: "env \<Rightarrow> shared \<Rightarrow> nat \<times> shared" where
  "take_peer e s =
     (case pickp e (map (sh_peers s) (sh_free s)) of
        None \<Rightarrow> alloc_peer s
      | Some k \<Rightarrow>
          (if k < length (sh_free s)
           then (sh_free s ! k, s\<lparr>sh_free := take k (sh_free s) @ drop (Suc k) (sh_free s)\<rparr>)
           else alloc_peer s))"

definition free_peer :: "nat \<Rightarrow> shared \<Rightarrow> shared" where
  "free_peer l s = s\<lparr>sh_free := l # sh_free s\<rparr>"

definition set_map :: "nat \<Rightarrow> shared_map \<Rightarrow> shared \<Rightarrow> shared" where
  "set_map m pm s = s\<lparr>sh_maps := (sh_maps s)(m := pm)\<rparr>"

section \<open>Goroutines\<close>

record save_args =
  sa_ip :: addr
  sa_port :: uint16
  sa_complete :: bool
  sa_hash :: hash
  sa_id :: peer_id

text \<open>
  Where a goroutine is, with its local variables: the map and the peer it points to, whether the
  peer existed, and for \<open>trim\<close> what it counted and the infohashes that \<open>range\<close> still visits.
\<close>

datatype goroutine =
    SaveLookup save_args
  | SaveCreate save_args
  | SaveFind save_args nat
  | SaveStore save_args nat "nat option"
  | SaveCount save_args bool nat
  | SaveWrite save_args nat
  | DropLookup hash peer_id
  | DropRemove peer_id nat
  | DropFree nat
  | TrimNext "nat \<times> nat" "hash list"
  | TrimExpire hash nat "nat \<times> nat" "hash list"
  | TrimDelete hash "nat \<times> nat" "hash list"
  | Finished

definition store_counts :: "bool \<Rightarrow> peer \<Rightarrow> bool \<Rightarrow> shared_map \<Rightarrow> shared_map" where
  "store_counts peerExists peer complete pm =
     (if peerExists then
        (if \<not> Complete peer \<and> complete
         then pm\<lparr>sm_Incomplete := sm_Incomplete pm - 1, sm_Complete := sm_Complete pm + 1\<rparr>
         else if Complete peer \<and> \<not> complete
         then pm\<lparr>sm_Complete := sm_Complete pm - 1, sm_Incomplete := sm_Incomplete pm + 1\<rparr>
         else pm)
      else if complete then pm\<lparr>sm_Complete := sm_Complete pm + 1\<rparr>
      else pm\<lparr>sm_Incomplete := sm_Incomplete pm + 1\<rparr>)"

definition remove_peer :: "peer \<Rightarrow> peer_id \<Rightarrow> shared_map \<Rightarrow> shared_map" where
  "remove_peer peer i pm =
     (let pm1 = pm\<lparr>sm_Peers := fmdrop i (sm_Peers pm)\<rparr> in
      if Complete peer then pm1\<lparr>sm_Complete := sm_Complete pm1 - 1\<rparr>
      else pm1\<lparr>sm_Incomplete := sm_Incomplete pm1 - 1\<rparr>)"

definition count_stats :: "env \<Rightarrow> (stats \<Rightarrow> stats) \<Rightarrow> shared \<Rightarrow> shared" where
  "count_stats e f s = (if fast e then s else s\<lparr>sh_stats := f (sh_stats s)\<rparr>)"

text \<open>The section of \<open>Save\<close> that holds the map's lock, with what was read of the map before.\<close>

definition save_store :: "env \<Rightarrow> save_args \<Rightarrow> nat \<Rightarrow> nat option \<Rightarrow> shared \<Rightarrow> goroutine \<times> shared" where
  "save_store e a m found s =
     (case found of
        Some l \<Rightarrow>
          (SaveCount a True l, set_map m (store_counts True (sh_peers s l) (sa_complete a) (sh_maps s m)) s)
      | None \<Rightarrow>
          (case take_peer e s of
             (l, s1) \<Rightarrow>
               (SaveCount a False l,
                set_map m (store_counts False (sh_peers s1 l) (sa_complete a)
                  ((sh_maps s1 m)\<lparr>sm_Peers := fmupd (sa_id a) l (sm_Peers (sh_maps s1 m))\<rparr>)) s1)))"

text \<open>The section of \<open>trim\<close> that holds a map's lock.\<close>

fun expire_peers :: "env \<Rightarrow> nat \<Rightarrow> peer_id list \<Rightarrow> nat \<Rightarrow> shared \<Rightarrow> nat \<times> shared" where
  "expire_peers e m [] n s = (n, s)"
| "expire_peers e m (i # ids) n s =
     (case fmlookup (sm_Peers (sh_maps s m)) i of
        None \<Rightarrow> expire_peers e m ids n s
      | Some l \<Rightarrow>
          (let peer = sh_peers s l in
           if expired e peer
           then expire_peers e m ids (Suc n)
             (free_peer l (count_stats e (leave_stats peer) (set_map m (remove_peer peer i (sh_maps s m)) s)))
           else expire_peers e m ids n s))"

definition shared_peers :: "shared \<Rightarrow> nat \<Rightarrow> (peer_id, peer) fmap" where
  "shared_peers s m = fmmap (sh_peers s) (sm_Peers (sh_maps s m))"

fun goroutine_step :: "env \<Rightarrow> goroutine \<Rightarrow> shared \<Rightarrow> goroutine \<times> shared" where
  "goroutine_step e (SaveLookup a) s =
     (case fmlookup (sh_hashes s) (sa_hash a) of
        Some m \<Rightarrow> (SaveFind a m, s)
      | None \<Rightarrow> (SaveCreate a, s))"
| "goroutine_step e (SaveCreate a) s =
     (SaveFind a (sh_nmaps s),
      (set_map (sh_nmaps s) new_map s)
        \<lparr>sh_nmaps := Suc (sh_nmaps s), sh_hashes := fmupd (sa_hash a) (sh_nmaps s) (sh_hashes s)\<rparr>)"
| "goroutine_step e (SaveFind a m) s = (SaveStore a m (fmlookup (sm_Peers (sh_maps s m)) (sa_id a)), s)"
| "goroutine_step e (SaveStore a m found) s = save_store e a m found s"
| "goroutine_step e (SaveCount a peerExists l) s =
     (SaveWrite a l, count_stats e (save_stats peerExists (sh_peers s l) (sa_ip a) (sa_complete a)) s)"
| "goroutine_step e (SaveWrite a l) s =
     (Finished, s\<lparr>sh_peers := (sh_peers s)(l := (sh_peers s l)\<lparr>Complete := sa_complete a, IP := sa_ip a,
        Port := sa_port a, LastSeen := now e\<rparr>)\<rparr>)"
| "goroutine_step e (DropLookup h i) s =
     (case fmlookup (sh_hashes s) h of
        None \<Rightarrow> (Finished, s)
      | Some m \<Rightarrow> (DropRemove i m, s))"
| "goroutine_step e (DropRemove i m) s =
     (case fmlookup (sm_Peers (sh_maps s m)) i of
        None \<Rightarrow> (Finished, s)
      | Some l \<Rightarrow> (DropFree l, set_map m (remove_peer (sh_peers s l) i (sh_maps s m)) s))"
| "goroutine_step e (DropFree l) s =
     (Finished, free_peer l (count_stats e (leave_stats (sh_peers s l)) s))"
| "goroutine_step e (TrimNext acc []) s = (TrimNext acc [], s)"
| "goroutine_step e (TrimNext acc (h # hs)) s =
     (case fmlookup (sh_hashes s) h of
        None \<Rightarrow> (TrimNext acc hs, s)
      | Some m \<Rightarrow> (TrimExpire h m acc hs, s))"
| "goroutine_step e (TrimExpire h m (peers, hashes) hs) s =
     (case expire_peers e m (peer_order e (shared_peers s m)) peers s of
        (peers', s') \<Rightarrow>
          (if fmsize (sm_Peers (sh_maps s' m)) = 0 then TrimDelete h (peers', hashes) hs
           else TrimNext (peers', hashes) hs, s'))"
| "goroutine_step e (TrimDelete h (peers, hashes) hs) s =
     (TrimNext (peers, Suc hashes) hs, s\<lparr>sh_hashes := fmdrop h (sh_hashes s)\<rparr>)"
| "goroutine_step e Finished s = (Finished, s)"

text \<open>A schedule names, for every step, the goroutine that makes it and the run time's choices.\<close>

fun interleave :: "(env \<times> nat) list \<Rightarrow> goroutine list \<Rightarrow> shared \<Rightarrow> goroutine list \<times> shared" where
  "interleave [] gs s = (gs, s)"
| "interleave ((e, k) # sched) gs s =
     (if k < length gs
      then (case goroutine_step e (gs ! k) s of (g, s') \<Rightarrow> interleave sched (gs[k := g]) s')
      else interleave sched gs s)"

section \<open>The sequential view\<close>

text \<open>
  What the sequential model sees of the shared memory, with the other pools beside it, and the
  states without aliases: distinct infohashes have distinct maps, and every peer belongs to one
  entry of one map or to the pool.
\<close>

definition map_view :: "shared \<Rightarrow> nat \<Rightarrow> peermap" where
  "map_view s m =
     \<lparr>CompleteN = sm_Complete (sh_maps s m), IncompleteN = sm_Incomplete (sh_maps s m), Peers = shared_peers s m\<rparr>"

definition peer_pool :: "shared \<Rightarrow> peer pool" where
  "peer_pool s =
     \<lparr>pool_free = map (sh_peers s) (sh_free s), pool_new = Inr zero_peer, pool_reset = None,
      pool_created = sh_created s\<rparr>"

definition view :: "pools \<Rightarrow> shared \<Rightarrow> memory world" where
  "view ps s =
     \<lparr>w_stats = sh_stats s, w_pools = Some (ps\<lparr>PeersPool := peer_pool s\<rparr>),
      w_db = \<lparr>hashmap = Some (fmmap (map_view s) (sh_hashes s))\<rparr>\<rparr>"

definition owns :: "shared \<Rightarrow> hash \<Rightarrow> peer_id \<Rightarrow> nat \<Rightarrow> bool" where
  "owns s h i l \<longleftrightarrow> (\<exists>m. fmlookup (sh_hashes s) h = Some m \<and> fmlookup (sm_Peers (sh_maps s m)) i = Some l)"

definition unaliased :: "shared \<Rightarrow> bool" where
  "unaliased s \<longleftrightarrow>
     (\<forall>h m. fmlookup (sh_hashes s) h = Some m \<longrightarrow> m < sh_nmaps s) \<and>
     (\<forall>h h' m. fmlookup (sh_hashes s) h = Some m \<and> fmlookup (sh_hashes s) h' = Some m \<longrightarrow> h = h') \<and>
     (\<forall>h i l. owns s h i l \<longrightarrow> l < sh_npeers s \<and> l \<notin> set (sh_free s)) \<and>
     (\<forall>h i h' i' l. owns s h i l \<and> owns s h' i' l \<longrightarrow> h = h' \<and> i = i') \<and>
     distinct (sh_free s) \<and> (\<forall>l \<in> set (sh_free s). l < sh_npeers s)"

section \<open>Views\<close>

lemma shared_peers_lookup: "fmlookup (shared_peers s m) i = map_option (sh_peers s) (fmlookup (sm_Peers (sh_maps s m)) i)"
  by (simp add: shared_peers_def)

lemma shared_peers_cong:
  assumes "sm_Peers (sh_maps s' m) = sm_Peers (sh_maps s m)"
    and "\<And>i l. fmlookup (sm_Peers (sh_maps s m)) i = Some l \<Longrightarrow> sh_peers s' l = sh_peers s l"
  shows "shared_peers s' m = shared_peers s m"
proof (rule fmap_ext)
  fix i
  show "fmlookup (shared_peers s' m) i = fmlookup (shared_peers s m) i"
    using assms by (cases "fmlookup (sm_Peers (sh_maps s m)) i") (simp_all add: shared_peers_lookup)
qed

lemma map_view_cong:
  assumes "sh_maps s' m = sh_maps s m"
    and "\<And>i l. fmlookup (sm_Peers (sh_maps s m)) i = Some l \<Longrightarrow> sh_peers s' l = sh_peers s l"
  shows "map_view s' m = map_view s m"
  using assms shared_peers_cong [of s' m s] by (simp add: map_view_def)

lemma hashes_view_upd:
  assumes "f m = pm" and "\<And>h' m'. fmlookup hs h' = Some m' \<Longrightarrow> h' \<noteq> h \<Longrightarrow> f m' = g m'"
  shows "fmmap f (fmupd h m hs) = fmupd h pm (fmmap g hs)"
proof (rule fmap_ext)
  fix x
  show "fmlookup (fmmap f (fmupd h m hs)) x = fmlookup (fmupd h pm (fmmap g hs)) x"
    using assms by (cases "fmlookup hs x") auto
qed

lemma fmupd_same: "fmlookup m k = Some v \<Longrightarrow> fmupd k v m = m"
  by (rule fmap_ext) auto

lemma unaliased_maps:
  assumes "unaliased s" "fmlookup (sh_hashes s) h = Some m" "fmlookup (sh_hashes s) h' = Some m'" "h \<noteq> h'"
  shows "m \<noteq> m'"
  using assms unfolding unaliased_def by blast

lemma unaliased_owner:
  assumes "unaliased s" "owns s h i l"
  shows "l < sh_npeers s" "l \<notin> set (sh_free s)" "owns s h' i' l \<Longrightarrow> h' = h \<and> i' = i"
  using assms unfolding unaliased_def by blast+

lemma unaliased_free: "unaliased s \<Longrightarrow> distinct (sh_free s)" "unaliased s \<Longrightarrow> l \<in> set (sh_free s) \<Longrightarrow> l < sh_npeers s"
  unfolding unaliased_def by blast+

lemma unaliased_nmaps: "unaliased s \<Longrightarrow> fmlookup (sh_hashes s) h = Some m \<Longrightarrow> m < sh_nmaps s"
  unfolding unaliased_def by blast

lemma ownsI: "fmlookup (sh_hashes s) h = Some m \<Longrightarrow> fmlookup (sm_Peers (sh_maps s m)) i = Some l \<Longrightarrow> owns s h i l"
  unfolding owns_def by blast

section \<open>Taking a peer from the pool\<close>

text \<open>The peer that the entry of an identifier in a map gets: the one it has, or one of the pool.\<close>

definition claims :: "shared \<Rightarrow> hash \<Rightarrow> peer_id \<Rightarrow> nat \<Rightarrow> shared \<Rightarrow> bool" where
  "claims s h i l s1 \<longleftrightarrow>
     sh_hashes s1 = sh_hashes s \<and> sh_maps s1 = sh_maps s \<and> sh_nmaps s1 = sh_nmaps s \<and> sh_stats s1 = sh_stats s \<and>
     (\<forall>l'. l' \<noteq> l \<longrightarrow> sh_peers s1 l' = sh_peers s l') \<and> l < sh_npeers s1 \<and> sh_npeers s \<le> sh_npeers s1 \<and>
     l \<notin> set (sh_free s1) \<and> set (sh_free s1) \<subseteq> set (sh_free s) \<and> distinct (sh_free s1) \<and>
     (\<forall>h' i'. owns s h' i' l \<longrightarrow> h' = h \<and> i' = i)"

lemma claims_own: "unaliased s \<Longrightarrow> owns s h i l \<Longrightarrow> claims s h i l s"
  unfolding claims_def using unaliased_owner [of s h i l] unaliased_free(1) [of s] by blast

lemma alloc_peer_claims:
  assumes "unaliased s" "alloc_peer s = (l, s1)"
  shows "claims s h i l s1" "peer_pool s1 = (peer_pool s)\<lparr>pool_created := pool_created (peer_pool s) + 1\<rparr>"
    "sh_peers s1 l = zero_peer"
proof -
  note free = unaliased_free [OF assms(1)]
  have no: "\<not> owns s h' i' (sh_npeers s)" for h' i'
    using unaliased_owner(1) [OF assms(1)] by blast
  have new: "sh_npeers s \<notin> set (sh_free s)" using free(2) by blast
  from assms(2) have r: "l = sh_npeers s" "s1 = s\<lparr>sh_peers := (sh_peers s)(sh_npeers s := zero_peer),
      sh_npeers := Suc (sh_npeers s), sh_created := sh_created s + 1\<rparr>"
    unfolding alloc_peer_def prod.inject by (blast intro: sym)+
  show "claims s h i l s1" using free(1) new by (simp add: claims_def r no)
  show "peer_pool s1 = (peer_pool s)\<lparr>pool_created := pool_created (peer_pool s) + 1\<rparr>" "sh_peers s1 l = zero_peer"
    using new by (simp_all add: peer_pool_def r)
qed

lemma nth_unaliased:
  assumes "distinct xs" "k < length xs"
  shows "xs ! k \<notin> set (take k xs @ drop (Suc k) xs)" "distinct (take k xs @ drop (Suc k) xs)"
    "set (take k xs @ drop (Suc k) xs) \<subseteq> set xs"
proof -
  have d: "distinct (take k xs @ xs ! k # drop (Suc k) xs)"
    using assms id_take_nth_drop [OF assms(2)] by simp
  then show "xs ! k \<notin> set (take k xs @ drop (Suc k) xs)" "distinct (take k xs @ drop (Suc k) xs)" by auto
  show "set (take k xs @ drop (Suc k) xs) \<subseteq> set xs"
    using set_take_subset [of k xs] set_drop_subset [of "Suc k" xs] by auto
qed

lemma take_peer_claims:
  assumes "unaliased s" "take_peer e s = (l, s1)"
  shows "claims s h i l s1 \<and>
    get_peer e (Some (ps\<lparr>PeersPool := peer_pool s\<rparr>)) = Inr (sh_peers s1 l, Some (ps\<lparr>PeersPool := peer_pool s1\<rparr>))"
proof (cases "\<exists>k. pickp e (map (sh_peers s) (sh_free s)) = Some k \<and> k < length (sh_free s)")
  case True
  then obtain k where k: "pickp e (map (sh_peers s) (sh_free s)) = Some k" "k < length (sh_free s)" by blast
  then have r: "l = sh_free s ! k" "s1 = s\<lparr>sh_free := take k (sh_free s) @ drop (Suc k) (sh_free s)\<rparr>"
    using assms(2) by (simp_all add: take_peer_def)
  note d = nth_unaliased [OF unaliased_free(1) [OF assms(1)] k(2)]
  have l: "l \<in> set (sh_free s)" using k(2) by (simp add: r)
  then have "\<not> owns s h' i' l" for h' i'
    using unaliased_owner(2) [OF assms(1)] by blast
  then have "claims s h i l s1"
    using d unaliased_free(2) [OF assms(1) l] by (simp add: claims_def r)
  moreover have "get_peer e (Some (ps\<lparr>PeersPool := peer_pool s\<rparr>)) =
      Inr (sh_peers s1 l, Some (ps\<lparr>PeersPool := peer_pool s1\<rparr>))"
    using k by (simp add: get_peer_def Pool_Get_def peer_pool_def r take_map drop_map)
  ultimately show ?thesis by blast
next
  case False
  then have a: "alloc_peer s = (l, s1)"
    using assms(2) by (auto simp: take_peer_def split: option.splits if_splits)
  have "Pool_Get (pickp e) (peer_pool s) = pool_make (peer_pool s)"
    using False by (auto simp: Pool_Get_def peer_pool_def split: option.splits)
  then have "get_peer e (Some (ps\<lparr>PeersPool := peer_pool s\<rparr>)) =
      Inr (sh_peers s1 l, Some (ps\<lparr>PeersPool := peer_pool s1\<rparr>))"
    by (simp add: get_peer_def pool_make_def alloc_peer_claims(2,3) [OF assms(1) a]) (simp add: peer_pool_def)
  with alloc_peer_claims(1) [OF assms(1) a] show ?thesis by blast
qed

section \<open>One goroutine alone\<close>

text \<open>What \<open>Save\<close> leaves behind once it has its map and its peer.\<close>

definition saved_shared :: "env \<Rightarrow> save_args \<Rightarrow> bool \<Rightarrow> nat \<Rightarrow> nat \<Rightarrow> shared \<Rightarrow> shared" where
  "saved_shared e a peerExists m l s1 =
     (let pm = (sh_maps s1 m)\<lparr>sm_Peers := fmupd (sa_id a) l (sm_Peers (sh_maps s1 m))\<rparr>; peer = sh_peers s1 l in
      (count_stats e (save_stats peerExists peer (sa_ip a) (sa_complete a))
         (set_map m (store_counts peerExists peer (sa_complete a) pm) s1))
      \<lparr>sh_peers := (sh_peers s1)(l := peer\<lparr>Complete := sa_complete a, IP := sa_ip a, Port := sa_port a,
         LastSeen := now e\<rparr>)\<rparr>)"

lemma saved_shared_sel:
  "sh_hashes (saved_shared e a x m l s1) = sh_hashes s1" "sh_free (saved_shared e a x m l s1) = sh_free s1"
  "sh_npeers (saved_shared e a x m l s1) = sh_npeers s1" "sh_nmaps (saved_shared e a x m l s1) = sh_nmaps s1"
  "sh_created (saved_shared e a x m l s1) = sh_created s1"
  "sh_stats (saved_shared e a x m l s1) =
     (if fast e then sh_stats s1 else save_stats x (sh_peers s1 l) (sa_ip a) (sa_complete a) (sh_stats s1))"
  "sh_peers (saved_shared e a x m l s1) = (sh_peers s1)(l := (sh_peers s1 l)\<lparr>Complete := sa_complete a, IP := sa_ip a,
     Port := sa_port a, LastSeen := now e\<rparr>)"
  "m' \<noteq> m \<Longrightarrow> sh_maps (saved_shared e a x m l s1) m' = sh_maps s1 m'"
  "sm_Peers (sh_maps (saved_shared e a x m l s1) m) = fmupd (sa_id a) l (sm_Peers (sh_maps s1 m))"
  by (simp_all add: saved_shared_def count_stats_def set_map_def Let_def store_counts_def)

lemma saved_shared_view:
  assumes "unaliased s" "fmlookup (sh_hashes s) (sa_hash a) = Some m" "claims s (sa_hash a) (sa_id a) l s1"
  shows "unaliased (saved_shared e a x m l s1)"
    and "fmmap (map_view (saved_shared e a x m l s1)) (sh_hashes s) =
      fmupd (sa_hash a) ((save_counts x (sh_peers s1 l) (sa_complete a) (map_view s m))
        \<lparr>Peers := fmupd (sa_id a) ((sh_peers s1 l)\<lparr>Complete := sa_complete a, IP := sa_ip a, Port := sa_port a,
           LastSeen := now e\<rparr>) (shared_peers s m)\<rparr>) (fmmap (map_view s) (sh_hashes s))"
    and "peer_pool (saved_shared e a x m l s1) = peer_pool s1"
proof -
  let ?s = "saved_shared e a x m l s1"
  have c: "sh_hashes s1 = sh_hashes s" "sh_maps s1 = sh_maps s" "sh_nmaps s1 = sh_nmaps s"
    "\<And>l'. l' \<noteq> l \<Longrightarrow> sh_peers s1 l' = sh_peers s l'" "l < sh_npeers s1" "sh_npeers s \<le> sh_npeers s1"
    "l \<notin> set (sh_free s1)" "set (sh_free s1) \<subseteq> set (sh_free s)" "distinct (sh_free s1)"
    "\<And>h' i'. owns s h' i' l \<Longrightarrow> h' = sa_hash a \<and> i' = sa_id a"
    using assms(3) unfolding claims_def by blast+
  have other: "sh_maps ?s m' = sh_maps s m'" if "fmlookup (sh_hashes s) h = Some m'" "h \<noteq> sa_hash a" for h m'
    using saved_shared_sel(8) [of m' m] unaliased_maps [OF assms(1) that(1) assms(2) that(2)] by (simp add: c)
  have own: "owns ?s h i k \<longleftrightarrow> (if h = sa_hash a \<and> i = sa_id a then k = l else owns s h i k)" for h i k
    using assms(2) other [of h] by (cases "h = sa_hash a") (auto simp: owns_def saved_shared_sel c)
  show "unaliased ?s"
    unfolding unaliased_def own
  proof (intro conjI allI impI)
    show "m' < sh_nmaps ?s" if "fmlookup (sh_hashes ?s) h = Some m'" for h m'
      using that unaliased_nmaps [OF assms(1)] by (simp add: saved_shared_sel c)
    show "h = h'" if "fmlookup (sh_hashes ?s) h = Some m' \<and> fmlookup (sh_hashes ?s) h' = Some m'" for h h' m'
      using that unaliased_maps [OF assms(1)] by (auto simp: saved_shared_sel c)
    show "k < sh_npeers ?s" "k \<notin> set (sh_free ?s)"
      if "if h = sa_hash a \<and> i = sa_id a then k = l else owns s h i k" for h i k
      using that unaliased_owner(1,2) [OF assms(1), of h i k] c(5-8) by (auto simp: saved_shared_sel split: if_splits)
    show "h = h'" "i = i'"
      if "(if h = sa_hash a \<and> i = sa_id a then k = l else owns s h i k) \<and>
          (if h' = sa_hash a \<and> i' = sa_id a then k = l else owns s h' i' k)" for h h' i i' k
      using that unaliased_owner(3) [OF assms(1), of h i k] c(10) by (auto split: if_splits)
    show "distinct (sh_free ?s)" by (simp add: saved_shared_sel c)
    show "\<forall>k \<in> set (sh_free ?s). k < sh_npeers ?s"
      using unaliased_free(2) [OF assms(1)] c(6,8) by (fastforce simp: saved_shared_sel)
  qed
  have refs: "fmlookup (sm_Peers (sh_maps s m)) i = Some k \<Longrightarrow> i \<noteq> sa_id a \<Longrightarrow> k \<noteq> l" for i k
    using c(10) ownsI [OF assms(2)] by blast
  show "peer_pool ?s = peer_pool s1"
    using c(7) by (simp add: peer_pool_def saved_shared_sel)
  show "fmmap (map_view ?s) (sh_hashes s) =
      fmupd (sa_hash a) ((save_counts x (sh_peers s1 l) (sa_complete a) (map_view s m))
        \<lparr>Peers := fmupd (sa_id a) ((sh_peers s1 l)\<lparr>Complete := sa_complete a, IP := sa_ip a, Port := sa_port a,
           LastSeen := now e\<rparr>) (shared_peers s m)\<rparr>) (fmmap (map_view s) (sh_hashes s))"
  proof -
    have "map_view ?s m' = map_view s m'" if "fmlookup (sh_hashes s) h' = Some m'" "h' \<noteq> sa_hash a" for h' m'
    proof (rule map_view_cong)
      show "sh_maps ?s m' = sh_maps s m'" using other [OF that] .
      show "sh_peers ?s k = sh_peers s k"
        if "fmlookup (sm_Peers (sh_maps s m')) i = Some k" for i k
        using c(4) c(10) ownsI [OF \<open>fmlookup (sh_hashes s) h' = Some m'\<close> that] \<open>h' \<noteq> sa_hash a\<close>
        by (auto simp: saved_shared_sel)
    qed
    moreover have "shared_peers ?s m = fmupd (sa_id a) ((sh_peers s1 l)\<lparr>Complete := sa_complete a, IP := sa_ip a,
        Port := sa_port a, LastSeen := now e\<rparr>) (shared_peers s m)"
    proof (rule fmap_ext)
      fix i
      show "fmlookup (shared_peers ?s m) i = fmlookup (fmupd (sa_id a) ((sh_peers s1 l)\<lparr>Complete := sa_complete a,
          IP := sa_ip a, Port := sa_port a, LastSeen := now e\<rparr>) (shared_peers s m)) i"
        using refs [of i] c(4)
        by (cases "fmlookup (sm_Peers (sh_maps s m)) i") (auto simp: shared_peers_lookup saved_shared_sel c(2))
    qed
    then have "map_view ?s m = (save_counts x (sh_peers s1 l) (sa_complete a) (map_view s m))
        \<lparr>Peers := fmupd (sa_id a) ((sh_peers s1 l)\<lparr>Complete := sa_complete a, IP := sa_ip a, Port := sa_port a,
           LastSeen := now e\<rparr>) (shared_peers s m)\<rparr>"
      by (simp add: map_view_def saved_shared_def Let_def count_stats_def set_map_def store_counts_def
        save_counts_def c(2))
    ultimately show ?thesis
      using hashes_view_upd [of "map_view ?s" m _ "sh_hashes s" "sa_hash a" "map_view s"]
      by (simp add: fmupd_same [OF assms(2)])
  qed
qed

lemma map_view_Peers: "Peers (map_view s m) = shared_peers s m"
  by (simp add: map_view_def)

lemma Save_view:
  assumes "unaliased s" "fmlookup (sh_hashes s) (sa_hash a) = Some m"
    and "fmlookup (sm_Peers (sh_maps s m)) (sa_id a) = Some l \<and> x \<and> s1 = s \<or>
      fmlookup (sm_Peers (sh_maps s m)) (sa_id a) = None \<and> \<not> x \<and> take_peer e s = (l, s1)"
  shows "Save e (sa_ip a) (sa_port a) (sa_complete a) (sa_hash a) (sa_id a) (view ps s) =
      Inr (view ps (saved_shared e a x m l s1))" and "unaliased (saved_shared e a x m l s1)"
proof -
  have claims: "claims s (sa_hash a) (sa_id a) l s1"
    and get: "(case fmlookup (shared_peers s m) (sa_id a) of
        None \<Rightarrow> get_peer e (w_pools (view ps s)) | Some p \<Rightarrow> Inr (p, w_pools (view ps s))) =
      Inr (sh_peers s1 l, Some (ps\<lparr>PeersPool := peer_pool s1\<rparr>))"
    using assms(3) claims_own [OF assms(1) ownsI [OF assms(2)]]
      take_peer_claims [OF assms(1), of e l s1 "sa_hash a" "sa_id a" ps]
    by (auto simp: shared_peers_lookup view_def)
  have x: "(fmlookup (shared_peers s m) (sa_id a) \<noteq> None) = x"
    using assms(3) by (auto simp: shared_peers_lookup)
  note sv = saved_shared_view [OF assms(1,2) claims, of e x]
  show "unaliased (saved_shared e a x m l s1)" by (rule sv(1))
  have st: "sh_stats s1 = sh_stats s" "sh_hashes s1 = sh_hashes s" using claims by (simp_all add: claims_def)
  have lk: "fmlookup (entries (w_db (view ps s))) (sa_hash a) = Some (map_view s m)"
    using assms(2) by (simp add: view_def entries_def)
  show "Save e (sa_ip a) (sa_port a) (sa_complete a) (sa_hash a) (sa_id a) (view ps s) =
      Inr (view ps (saved_shared e a x m l s1))"
    unfolding Save_def lk option.case bindP.simps prod.case Let_def map_view_Peers x get
    by (simp add: view_def set_peermap_def sv(2,3) st saved_shared_sel map_view_Peers)
qed

lemma save_found:
  assumes "unaliased s" "fmlookup (sh_hashes s) (sa_hash a) = Some m"
  shows "\<exists>s'. interleave (replicate 4 (e, 0)) [SaveFind a m] s = ([Finished], s') \<and>
    Save e (sa_ip a) (sa_port a) (sa_complete a) (sa_hash a) (sa_id a) (view ps s) = Inr (view ps s') \<and> unaliased s'"
proof (cases "fmlookup (sm_Peers (sh_maps s m)) (sa_id a)")
  case (Some l)
  have "interleave (replicate 4 (e, 0)) [SaveFind a m] s = ([Finished], saved_shared e a True m l s)"
    using Some by (simp add: eval_nat_numeral save_store_def saved_shared_def fmupd_same count_stats_def set_map_def Let_def)
  with Save_view [OF assms, of l True s e] Some show ?thesis by blast
next
  case None
  obtain l s1 where t: "take_peer e s = (l, s1)" by fastforce
  have "interleave (replicate 4 (e, 0)) [SaveFind a m] s = ([Finished], saved_shared e a False m l s1)"
    using None t by (simp add: eval_nat_numeral save_store_def saved_shared_def count_stats_def set_map_def Let_def)
  with Save_view [OF assms, of l False s1 e] None t show ?thesis by blast
qed

lemma interleave_append:
  "interleave (xs @ ys) gs s = (case interleave xs gs s of (gs', s') \<Rightarrow> interleave ys gs' s')"
  by (induction xs gs s rule: interleave.induct) (auto split: prod.splits)

text \<open>The map that \<open>Save\<close> makes for a new infohash.\<close>

definition created_shared :: "hash \<Rightarrow> shared \<Rightarrow> shared" where
  "created_shared h s =
     (set_map (sh_nmaps s) new_map s)\<lparr>sh_nmaps := Suc (sh_nmaps s), sh_hashes := fmupd h (sh_nmaps s) (sh_hashes s)\<rparr>"

lemma created_shared_ok:
  assumes "unaliased s" "fmlookup (sh_hashes s) h = None"
  shows "unaliased (created_shared h s)"
    and "view ps (created_shared h s) = (view ps s)\<lparr>w_db := \<lparr>hashmap = Some (fmupd h empty_peermap (entries (w_db (view ps s))))\<rparr>\<rparr>"
proof -
  let ?s = "created_shared h s"
  have sel: "sh_hashes ?s = fmupd h (sh_nmaps s) (sh_hashes s)" "sh_free ?s = sh_free s" "sh_npeers ?s = sh_npeers s"
    "sh_nmaps ?s = Suc (sh_nmaps s)" "sh_stats ?s = sh_stats s" "sh_peers ?s = sh_peers s" "sh_created ?s = sh_created s"
    "sh_maps ?s (sh_nmaps s) = new_map" "\<And>m. m \<noteq> sh_nmaps s \<Longrightarrow> sh_maps ?s m = sh_maps s m"
    by (simp_all add: created_shared_def set_map_def)
  have old: "m \<noteq> sh_nmaps s" if "fmlookup (sh_hashes s) h' = Some m" for h' m
    using unaliased_nmaps [OF assms(1) that] by simp
  have own: "owns ?s h' i l = owns s h' i l" for h' i l
    using assms(2) sel(9) old [of h'] by (cases "h' = h") (auto simp: owns_def sel(1,8) new_map_def)
  show "unaliased ?s"
    unfolding unaliased_def own
  proof (intro conjI allI impI)
    show "m < sh_nmaps ?s" if "fmlookup (sh_hashes ?s) h' = Some m" for h' m
      using that unaliased_nmaps [OF assms(1), of h' m] by (auto simp: sel(1,4) split: if_splits)
    show "h1 = h2" if "fmlookup (sh_hashes ?s) h1 = Some m \<and> fmlookup (sh_hashes ?s) h2 = Some m" for h1 h2 m
      using that old [of h1] old [of h2] unaliased_maps [OF assms(1), of h1 m h2 m] by (auto simp: sel(1) split: if_splits)
    show "l < sh_npeers ?s" "l \<notin> set (sh_free ?s)" if "owns s h' i l" for h' i l
      using unaliased_owner(1,2) [OF assms(1) that] by (simp_all add: sel)
    show "h1 = h2" "i1 = i2" if "owns s h1 i1 l \<and> owns s h2 i2 l" for h1 h2 i1 i2 l
      using that unaliased_owner(3) [OF assms(1)] by blast+
    show "distinct (sh_free ?s)" "\<forall>l \<in> set (sh_free ?s). l < sh_npeers ?s"
      using unaliased_free [OF assms(1)] by (auto simp: sel)
  qed
  have "map_view ?s m = map_view s m" if "fmlookup (sh_hashes s) h' = Some m" for h' m
    using map_view_cong [of ?s m s] sel(6,9) old [OF that] by simp
  moreover have "map_view ?s (sh_nmaps s) = empty_peermap"
    by (simp add: map_view_def sel(8) new_map_def empty_peermap_def shared_peers_def)
  ultimately have "fmmap (map_view ?s) (sh_hashes ?s) = fmupd h empty_peermap (fmmap (map_view s) (sh_hashes s))"
    unfolding sel(1) by (intro hashes_view_upd) auto
  then show "view ps ?s = (view ps s)\<lparr>w_db := \<lparr>hashmap = Some (fmupd h empty_peermap (entries (w_db (view ps s))))\<rparr>\<rparr>"
    by (simp add: view_def entries_def sel peer_pool_def)
qed

lemma Save_new_hash:
  assumes "hashmap (w_db w) = Some M" "fmlookup M h = None"
  shows "Save e ip port c h i w = Save e ip port c h i (w\<lparr>w_db := \<lparr>hashmap = Some (fmupd h empty_peermap M)\<rparr>\<rparr>)"
proof -
  obtain db where db: "w_db w = db" by simp
  with assms have "db = \<lparr>hashmap = Some M\<rparr>" by (cases db) simp
  with db assms(2) show ?thesis
    by (simp add: Save_def entries_def makePeermap_def set_peermap_def Let_def cong: option.case_cong if_cong)
qed

lemma save_alone:
  assumes "unaliased s"
  shows "\<exists>n s'. interleave (replicate n (e, 0)) [SaveLookup a] s = ([Finished], s') \<and> n \<le> 6 \<and>
    Save e (sa_ip a) (sa_port a) (sa_complete a) (sa_hash a) (sa_id a) (view ps s) = Inr (view ps s') \<and> unaliased s'"
proof (cases "fmlookup (sh_hashes s) (sa_hash a)")
  case (Some m)
  from save_found [OF assms Some] obtain s' where s': "interleave (replicate 4 (e, 0)) [SaveFind a m] s = ([Finished], s')"
    "Save e (sa_ip a) (sa_port a) (sa_complete a) (sa_hash a) (sa_id a) (view ps s) = Inr (view ps s')" "unaliased s'"
    by blast
  have "interleave (replicate (Suc 4) (e, 0)) [SaveLookup a] s = ([Finished], s')"
    by (simp only: replicate_Suc) (simp add: Some s'(1))
  with s'(2,3) show ?thesis by (intro exI [of _ "Suc 4"]) auto
next
  case None
  let ?s = "created_shared (sa_hash a) s"
  note created = created_shared_ok [OF assms None]
  have "fmlookup (sh_hashes ?s) (sa_hash a) = Some (sh_nmaps s)" by (simp add: created_shared_def)
  from save_found [OF created(1) this] obtain s' where
    s': "interleave (replicate 4 (e, 0)) [SaveFind a (sh_nmaps s)] ?s = ([Finished], s')"
    "Save e (sa_ip a) (sa_port a) (sa_complete a) (sa_hash a) (sa_id a) (view ps ?s) = Inr (view ps s')" "unaliased s'"
    by blast
  have "interleave (replicate (Suc (Suc 4)) (e, 0)) [SaveLookup a] s = ([Finished], s')"
    using s'(1) by (simp only: replicate_Suc) (simp add: None created_shared_def)
  moreover have "Save e (sa_ip a) (sa_port a) (sa_complete a) (sa_hash a) (sa_id a) (view ps s) = Inr (view ps s')"
  proof -
    have w: "hashmap (w_db (view ps s)) = Some (entries (w_db (view ps s)))"
      "fmlookup (entries (w_db (view ps s))) (sa_hash a) = None"
      using None by (simp_all add: view_def entries_def)
    from s'(2) show ?thesis unfolding created(2) Save_new_hash [OF w, symmetric] .
  qed
  ultimately show ?thesis using s'(3) by (intro exI [of _ "Suc (Suc 4)"]) auto
qed

text \<open>A peer that leaves a map, as \<open>Drop\<close> and \<open>trim\<close> remove it.\<close>

definition removed_shared :: "env \<Rightarrow> peer_id \<Rightarrow> nat \<Rightarrow> nat \<Rightarrow> shared \<Rightarrow> shared" where
  "removed_shared e i m l s =
     free_peer l (count_stats e (leave_stats (sh_peers s l)) (set_map m (remove_peer (sh_peers s l) i (sh_maps s m)) s))"

lemma removed_shared_sel:
  "sh_hashes (removed_shared e i m l s) = sh_hashes s" "sh_free (removed_shared e i m l s) = l # sh_free s"
  "sh_npeers (removed_shared e i m l s) = sh_npeers s" "sh_nmaps (removed_shared e i m l s) = sh_nmaps s"
  "sh_created (removed_shared e i m l s) = sh_created s" "sh_peers (removed_shared e i m l s) = sh_peers s"
  "sh_stats (removed_shared e i m l s) =
     (if fast e then sh_stats s else leave_stats (sh_peers s l) (sh_stats s))"
  "m' \<noteq> m \<Longrightarrow> sh_maps (removed_shared e i m l s) m' = sh_maps s m'"
  "sm_Peers (sh_maps (removed_shared e i m l s) m) = fmdrop i (sm_Peers (sh_maps s m))"
  by (simp_all add: removed_shared_def free_peer_def count_stats_def set_map_def remove_peer_def Let_def)

lemma removed_shared_view:
  assumes "unaliased s" "fmlookup (sh_hashes s) h = Some m" "fmlookup (sm_Peers (sh_maps s m)) i = Some l"
  shows "unaliased (removed_shared e i m l s)"
    and "map_view (removed_shared e i m l s) m =
      leave_counts (sh_peers s l) ((map_view s m)\<lparr>Peers := fmdrop i (shared_peers s m)\<rparr>)"
    and "m' \<noteq> m \<Longrightarrow> map_view (removed_shared e i m l s) m' = map_view s m'"
    and "peer_pool (removed_shared e i m l s) = (peer_pool s)\<lparr>pool_free := sh_peers s l # pool_free (peer_pool s)\<rparr>"
proof -
  let ?s = "removed_shared e i m l s"
  note mine = ownsI [OF assms(2,3)]
  have other: "sh_maps ?s m' = sh_maps s m'" if "fmlookup (sh_hashes s) h' = Some m'" "h' \<noteq> h" for h' m'
    using removed_shared_sel(8) unaliased_maps [OF assms(1) that(1) assms(2) that(2)] by blast
  have own: "owns ?s h' i' k \<longleftrightarrow> owns s h' i' k \<and> \<not> (h' = h \<and> i' = i)" for h' i' k
    using assms(2) other [of h'] by (cases "h' = h") (auto simp: owns_def removed_shared_sel(1,9))
  show "unaliased ?s"
    unfolding unaliased_def own
  proof (intro conjI allI impI)
    show "m' < sh_nmaps ?s" if "fmlookup (sh_hashes ?s) h' = Some m'" for h' m'
      using that unaliased_nmaps [OF assms(1)] by (simp add: removed_shared_sel)
    show "h1 = h2" if "fmlookup (sh_hashes ?s) h1 = Some m' \<and> fmlookup (sh_hashes ?s) h2 = Some m'" for h1 h2 m'
      using that unaliased_maps [OF assms(1)] by (auto simp: removed_shared_sel)
    show "k < sh_npeers ?s" "k \<notin> set (sh_free ?s)" if "owns s h' i' k \<and> \<not> (h' = h \<and> i' = i)" for h' i' k
      using that unaliased_owner [OF assms(1), of h' i' k] unaliased_owner(3) [OF assms(1) mine, of h' i']
      by (auto simp: removed_shared_sel)
    show "h1 = h2" "i1 = i2"
      if "(owns s h1 i1 k \<and> \<not> (h1 = h \<and> i1 = i)) \<and> owns s h2 i2 k \<and> \<not> (h2 = h \<and> i2 = i)" for h1 h2 i1 i2 k
      using that unaliased_owner(3) [OF assms(1)] by blast+
    show "distinct (sh_free ?s)" "\<forall>k \<in> set (sh_free ?s). k < sh_npeers ?s"
      using unaliased_free [OF assms(1)] unaliased_owner(1,2) [OF assms(1) mine] by (auto simp: removed_shared_sel)
  qed
  have "shared_peers ?s m = fmdrop i (shared_peers s m)"
    by (rule fmap_ext) (simp add: shared_peers_lookup removed_shared_sel)
  then show "map_view ?s m = leave_counts (sh_peers s l) ((map_view s m)\<lparr>Peers := fmdrop i (shared_peers s m)\<rparr>)"
    by (simp add: map_view_def leave_counts_def)
      (simp add: removed_shared_def free_peer_def count_stats_def set_map_def remove_peer_def Let_def)
  show "m' \<noteq> m \<Longrightarrow> map_view ?s m' = map_view s m'"
    by (rule map_view_cong) (simp_all add: removed_shared_sel)
  show "peer_pool ?s = (peer_pool s)\<lparr>pool_free := sh_peers s l # pool_free (peer_pool s)\<rparr>"
    by (simp add: peer_pool_def removed_shared_sel)
qed

lemma put_peer_view:
  "put_peer p (Some (ps\<lparr>PeersPool := peer_pool s\<rparr>)) =
     Inr (Some (ps\<lparr>PeersPool := (peer_pool s)\<lparr>pool_free := p # pool_free (peer_pool s)\<rparr>\<rparr>))"
  by (simp add: put_peer_def Pool_Put_def peer_pool_def)

lemma drop_alone:
  assumes "unaliased s"
  shows "\<exists>n s'. interleave (replicate n (e, 0)) [DropLookup h i] s = ([Finished], s') \<and> n \<le> 3 \<and>
    Drop e h i (view ps s) = Inr (view ps s') \<and> unaliased s'"
proof (cases "fmlookup (sh_hashes s) h")
  case None
  then show ?thesis
    using assms by (intro exI [of _ 1] exI [of _ s]) (simp add: Drop_def view_def entries_def)
next
  case m: (Some m)
  have lk: "fmlookup (entries (w_db (view ps s))) h = Some (map_view s m)"
    using m by (simp add: view_def entries_def)
  show ?thesis
  proof (cases "fmlookup (sm_Peers (sh_maps s m)) i")
    case None
    then have "Drop e h i (view ps s) = Inr (view ps s)"
      by (simp add: Drop_def lk map_view_Peers shared_peers_lookup)
    with m None assms show ?thesis by (intro exI [of _ "Suc (Suc 0)"] exI [of _ s]) simp
  next
    case (Some l)
    let ?s = "removed_shared e i m l s"
    note sv = removed_shared_view [OF assms m Some, where e = e]
    have "fmmap (map_view ?s) (fmupd h m (sh_hashes s)) =
        fmupd h (leave_counts (sh_peers s l) ((map_view s m)\<lparr>Peers := fmdrop i (shared_peers s m)\<rparr>))
          (fmmap (map_view s) (sh_hashes s))"
      by (rule hashes_view_upd) (use sv(2,3) unaliased_maps [OF assms _ m] in blast)+
    then have v: "fmmap (map_view ?s) (sh_hashes s) =
        fmupd h (leave_counts (sh_peers s l) ((map_view s m)\<lparr>Peers := fmdrop i (shared_peers s m)\<rparr>))
          (fmmap (map_view s) (sh_hashes s))" by (simp add: fmupd_same [OF m])
    have "Drop e h i (view ps s) = Inr (view ps ?s)"
      unfolding Drop_def lk option.case map_view_Peers shared_peers_lookup Some option.map Let_def
      by (simp add: view_def set_peermap_def put_peer_view v sv(4) removed_shared_sel)
    moreover have "interleave (replicate (Suc (Suc (Suc 0))) (e, 0)) [DropLookup h i] s = ([Finished], ?s)"
      by (simp add: m Some removed_shared_def set_map_def count_stats_def)
    ultimately show ?thesis using sv(1) by (intro exI [of _ "Suc (Suc (Suc 0))"] exI [of _ ?s]) simp
  qed
qed

lemma expire_view:
  assumes "unaliased s" "fmlookup (sh_hashes s) h = Some m" "expire_peers e m ids n s = (n', s')"
  shows "trim_peers e ids n (map_view s m, sh_stats s, Some (ps\<lparr>PeersPool := peer_pool s\<rparr>)) =
      Inr (n', map_view s' m, sh_stats s', Some (ps\<lparr>PeersPool := peer_pool s'\<rparr>)) \<and>
    unaliased s' \<and> sh_hashes s' = sh_hashes s \<and> (\<forall>m'. m' \<noteq> m \<longrightarrow> map_view s' m' = map_view s m')"
  using assms
proof (induction ids arbitrary: n s)
  case (Cons i ids)
  show ?case
  proof (cases "fmlookup (sm_Peers (sh_maps s m)) i")
    case None
    with Cons show ?thesis by (simp add: map_view_Peers shared_peers_lookup)
  next
    case (Some l)
    show ?thesis
    proof (cases "expired e (sh_peers s l)")
      case False
      with Some Cons show ?thesis by (simp add: map_view_Peers shared_peers_lookup)
    next
      case True
      let ?s = "removed_shared e i m l s"
      note sv = removed_shared_view [OF Cons.prems(1,2) Some, where e = e]
      have "expire_peers e m ids (Suc n) ?s = (n', s')"
        using Cons.prems(3) Some True by (simp add: Let_def removed_shared_def)
      note ih = Cons.IH [OF sv(1) _ this, unfolded removed_shared_sel(1), OF Cons.prems(2)]
      have "delete_peer e (sh_peers s l) i (map_view s m, sh_stats s, Some (ps\<lparr>PeersPool := peer_pool s\<rparr>)) =
          Inr (map_view ?s m, sh_stats ?s, Some (ps\<lparr>PeersPool := peer_pool ?s\<rparr>))"
        by (simp add: delete_peer_def put_peer_view sv(2,4) removed_shared_sel map_view_Peers)
      with ih Some True sv(3) show ?thesis by (simp add: map_view_Peers shared_peers_lookup)
    qed
  qed
qed simp

lemma unaliased_drop_hash:
  assumes "unaliased s"
  shows "unaliased (s\<lparr>sh_hashes := fmdrop h (sh_hashes s)\<rparr>)"
proof -
  have own: "owns (s\<lparr>sh_hashes := fmdrop h (sh_hashes s)\<rparr>) h' i l \<longleftrightarrow> owns s h' i l \<and> h' \<noteq> h" for h' i l
    by (auto simp: owns_def)
  have "fmlookup (fmdrop h (sh_hashes s)) h' = Some m \<longleftrightarrow> fmlookup (sh_hashes s) h' = Some m \<and> h' \<noteq> h" for h' m
    by auto
  with assms show ?thesis unfolding unaliased_def own by simp blast
qed

lemma fmsize_shared_peers: "fmsize (shared_peers s m) = fmsize (sm_Peers (sh_maps s m))"
  by (simp add: fmsize_def shared_peers_def)

lemma shared_peers_empty: "shared_peers s m = fmempty \<longleftrightarrow> sm_Peers (sh_maps s m) = fmempty"
  by (metis fmsize_shared_peers fmsize_0_iff)

lemma trim_hash_alone:
  assumes "unaliased s" "fmlookup (sh_hashes s) h = Some m"
  obtains n s' acc' where "interleave (replicate n (e, 0)) [TrimNext acc (h # hs)] s = ([TrimNext acc' hs], s')"
    "n \<le> 3" "trim_hashes e (h # hs) acc (view ps s) = trim_hashes e hs acc' (view ps s')" "unaliased s'"
proof -
  obtain peers hashes where acc: "acc = (peers, hashes)" by fastforce
  obtain n' s1 where x: "expire_peers e m (peer_order e (shared_peers s m)) peers s = (n', s1)" by fastforce
  note ev = expire_view [OF assms x, where ps = ps]
  let ?s = "s1\<lparr>sh_hashes := fmdrop h (sh_hashes s1)\<rparr>"
  have "fmmap (map_view s1) (fmupd h m (sh_hashes s)) = fmupd h (map_view s1 m) (fmmap (map_view s) (sh_hashes s))"
    by (rule hashes_view_upd) (use ev unaliased_maps [OF assms(1) _ assms(2)] in blast)+
  then have v: "fmmap (map_view s1) (sh_hashes s) = fmupd h (map_view s1 m) (fmmap (map_view s) (sh_hashes s))"
    by (simp add: fmupd_same [OF assms(2)])
  have drop: "view ps ?s = (view ps s1)\<lparr>w_db := \<lparr>hashmap = Some (fmdrop h (entries (w_db (view ps s1))))\<rparr>\<rparr>"
  proof -
    have "map_view ?s m' = map_view s1 m'" for m' by (rule map_view_cong) simp_all
    then have "map_view ?s = map_view s1" by (rule ext)
    then show ?thesis by (simp add: view_def entries_def peer_pool_def)
  qed
  have lk: "fmlookup (entries (w_db (view ps s))) h = Some (map_view s m)"
    using assms(2) by (simp add: view_def entries_def)
  have step: "trim_hashes e (h # hs) acc (view ps s) =
      trim_hashes e hs (n', if fmsize (sm_Peers (sh_maps s1 m)) = 0 then Suc hashes else hashes)
        (if fmsize (sm_Peers (sh_maps s1 m)) = 0 then view ps ?s else view ps s1)"
    unfolding acc trim_hashes.simps lk option.case map_view_Peers drop
    by (simp add: view_def ev [THEN conjunct1] set_peermap_def v map_view_Peers shared_peers_empty entries_def ev Let_def)
  show ?thesis
  proof (cases "fmsize (sm_Peers (sh_maps s1 m)) = 0")
    case True
    then have "interleave (replicate (Suc (Suc (Suc 0))) (e, 0)) [TrimNext acc (h # hs)] s = ([TrimNext (n', Suc hashes) hs], ?s)"
      by (simp add: assms(2) x acc)
    moreover have "unaliased ?s" using ev unaliased_drop_hash by blast
    ultimately show ?thesis using True step by (intro that [of "Suc (Suc (Suc 0))"]) simp_all
  next
    case False
    then have "interleave (replicate (Suc (Suc 0)) (e, 0)) [TrimNext acc (h # hs)] s = ([TrimNext (n', hashes) hs], s1)"
      by (simp add: assms(2) x acc)
    moreover have "unaliased s1" using ev by blast
    ultimately show ?thesis using False step by (intro that [of "Suc (Suc 0)"]) simp_all
  qed
qed

lemma trim_alone:
  assumes "unaliased s"
  shows "\<exists>n s' acc'. interleave (replicate n (e, 0)) [TrimNext acc hs] s = ([TrimNext acc' []], s') \<and> n \<le> 3 * length hs \<and>
    trim_hashes e hs acc (view ps s) = Inr (acc', view ps s') \<and> unaliased s'"
  using assms
proof (induction hs arbitrary: acc s)
  case Nil
  then show ?case by (intro exI [of _ 0]) simp
next
  case (Cons h hs)
  have "\<exists>n s1 acc1. interleave (replicate n (e, 0)) [TrimNext acc (h # hs)] s = ([TrimNext acc1 hs], s1) \<and> n \<le> 3 \<and>
      trim_hashes e (h # hs) acc (view ps s) = trim_hashes e hs acc1 (view ps s1) \<and> unaliased s1"
  proof (cases "fmlookup (sh_hashes s) h")
    case None
    then have "trim_hashes e (h # hs) acc (view ps s) = trim_hashes e hs acc (view ps s)"
      by (cases acc) (simp add: view_def entries_def)
    with None Cons.prems show ?thesis by (intro exI [of _ "Suc 0"] exI [of _ s] exI [of _ acc]) simp
  next
    case (Some m)
    show ?thesis by (rule trim_hash_alone [OF Cons.prems Some, of e acc hs ps]) blast
  qed
  then obtain n s1 acc1 where 1: "interleave (replicate n (e, 0)) [TrimNext acc (h # hs)] s = ([TrimNext acc1 hs], s1)" "n \<le> 3"
      "trim_hashes e (h # hs) acc (view ps s) = trim_hashes e hs acc1 (view ps s1)" "unaliased s1"
    by blast
  obtain k s2 acc2 where 2: "interleave (replicate k (e, 0)) [TrimNext acc1 hs] s1 = ([TrimNext acc2 []], s2)"
      "k \<le> 3 * length hs" "trim_hashes e hs acc1 (view ps s1) = Inr (acc2, view ps s2)" "unaliased s2"
    using Cons.IH [OF 1(4), of acc1] by blast
  have "interleave (replicate (n + k) (e, 0)) [TrimNext acc (h # hs)] s = ([TrimNext acc2 []], s2)"
    by (simp add: replicate_add interleave_append 1(1) 2(1))
  with 1 2 show ?case by (intro exI [of _ "n + k"] exI [of _ s2] exI [of _ acc2]) simp
qed

text \<open>A shared memory with a leecher in one swarm and an empty second swarm.\<close>

definition leecher :: peer where
  "leecher = \<lparr>Complete = False, IP = Addr4 7, Port = 6881, LastSeen = 0\<rparr>"

definition sample_shared :: shared where
  "sample_shared =
     \<lparr>sh_hashes = fmupd [1] 0 (fmupd [2] 2 fmempty),
      sh_maps = (\<lambda>m. if m = 0 then \<lparr>sm_Complete = 0, sm_Incomplete = 1, sm_Peers = fmupd [9] 0 fmempty\<rparr> else new_map),
      sh_nmaps = 3, sh_peers = (\<lambda>l. leecher), sh_npeers = 1, sh_free = [], sh_created = 1,
      sh_stats = add_Leeches 1 zero_stats\<rparr>"

definition seeder :: "hash \<Rightarrow> peer_id \<Rightarrow> save_args" where
  "seeder h i = \<lparr>sa_ip = Addr4 8, sa_port = 6882, sa_complete = True, sa_hash = h, sa_id = i\<rparr>"

lemma seeder_sel [simp]:
  "sa_hash (seeder h i) = h" "sa_id (seeder h i) = i" "sa_complete (seeder h i)" "sa_ip (seeder h i) = Addr4 8"
  "sa_port (seeder h i) = 6882"
  by (simp_all add: seeder_def)

lemma sample_unaliased: "unaliased sample_shared"
  by (auto simp: unaliased_def owns_def sample_shared_def new_map_def split: if_splits)

lemma sample_shared_lookup:
  "fmlookup (sh_hashes sample_shared) [1] = Some 0" "fmlookup (sh_hashes sample_shared) [2] = Some 2"
  "sm_Peers (sh_maps sample_shared 0) = fmupd [9] 0 fmempty" "sm_Peers (sh_maps sample_shared 2) = fmempty"
  "sm_Complete (sh_maps sample_shared 0) = 0" "sm_Incomplete (sh_maps sample_shared 0) = 1"
  "\<not> Complete (sh_peers sample_shared 0)" "Seeds (sh_stats sample_shared) = 0" "sm_Complete (sh_maps sample_shared 2) = 0"
  by (simp_all add: sample_shared_def new_map_def leecher_def add_Leeches_def zero_stats_def)

text \<open>
  C11: A goroutine that is not interrupted does what the sequential model says: from every state
  without aliases, \<open>Save\<close> and \<open>Drop\<close> end after at most six and three steps and \<open>trim\<close> after three for
  every infohash, with the result of the sequential operation and no alias.
\<close>

theorem lone_operations_are_sequential:
  assumes "unaliased s"
  shows "(\<exists>n s'. interleave (replicate n (e, 0)) [SaveLookup a] s = ([Finished], s') \<and> n \<le> 6 \<and>
      Save e (sa_ip a) (sa_port a) (sa_complete a) (sa_hash a) (sa_id a) (view ps s) = Inr (view ps s') \<and> unaliased s') \<and>
    (\<exists>n s'. interleave (replicate n (e, 0)) [DropLookup h i] s = ([Finished], s') \<and> n \<le> 3 \<and>
      Drop e h i (view ps s) = Inr (view ps s') \<and> unaliased s') \<and>
    (\<exists>n s' acc. interleave (replicate n (e, 0)) [TrimNext (0, 0) hs] s = ([TrimNext acc []], s') \<and> n \<le> 3 * length hs \<and>
      trim e hs (view ps s) = Inr (acc, view ps s') \<and> unaliased s')"
  using save_alone [OF assms] drop_alone [OF assms] trim_alone [OF assms] unfolding trim_def by blast

theorem lone_operations_are_sequential_witness:
  "\<exists>n s'. interleave (replicate n (sample_env 9, 0)) [SaveLookup (seeder [3] [5])] sample_shared = ([Finished], s') \<and>
     Save (sample_env 9) (Addr4 8) 6882 True [3] [5] (view (Initialize 200) sample_shared) = Inr (view (Initialize 200) s')"
  using lone_operations_are_sequential [OF sample_unaliased, of "sample_env 9" "seeder [3] [5]" "Initialize 200" "[]" "[]" "[]",
      THEN conjunct1] by auto

section \<open>Races\<close>

text \<open>What a peer from the pool leaves as it was.\<close>

lemma take_peer_keeps:
  "sh_hashes (snd (take_peer e s)) = sh_hashes s" "sh_maps (snd (take_peer e s)) = sh_maps s"
  "sh_nmaps (snd (take_peer e s)) = sh_nmaps s" "sh_stats (snd (take_peer e s)) = sh_stats s"
  by (auto simp: take_peer_def alloc_peer_def split: option.splits)

text \<open>\<open>Save\<close> from its second section on, for a peer that it did not find.\<close>

definition stored_new :: "env \<Rightarrow> save_args \<Rightarrow> nat \<Rightarrow> shared \<Rightarrow> shared" where
  "stored_new e a m s = (case take_peer e s of (l, s1) \<Rightarrow> saved_shared e a False m l s1)"

lemma save_rest_new:
  "\<exists>l s1. goroutine_step e (SaveStore a m None) s = (SaveCount a False l, s1) \<and>
     (\<exists>s2. goroutine_step e (SaveCount a False l) s1 = (SaveWrite a l, s2) \<and>
        goroutine_step e (SaveWrite a l) s2 = (Finished, stored_new e a m s))"
  by (cases "take_peer e s")
    (simp add: save_store_def stored_new_def saved_shared_def count_stats_def set_map_def Let_def)

lemma stored_new_sel:
  "sh_hashes (stored_new e a m s) = sh_hashes s"
  "sm_Peers (sh_maps (stored_new e a m s) m) = fmupd (sa_id a) (fst (take_peer e s)) (sm_Peers (sh_maps s m))"
  "sm_Complete (sh_maps (stored_new e a m s) m) = sm_Complete (sh_maps s m) + (if sa_complete a then 1 else 0)"
  "sm_Incomplete (sh_maps (stored_new e a m s) m) = sm_Incomplete (sh_maps s m) + (if sa_complete a then 0 else 1)"
  "\<not> fast e \<Longrightarrow> Seeds (sh_stats (stored_new e a m s)) = Seeds (sh_stats s) + (if sa_complete a then 1 else 0)"
  "\<not> fast e \<Longrightarrow> Leeches (sh_stats (stored_new e a m s)) = Leeches (sh_stats s) + (if sa_complete a then 0 else 1)"
proof -
  obtain l s1 where t: "take_peer e s = (l, s1)" by fastforce
  note k = take_peer_keeps [of e s, unfolded t, simplified]
  show "sh_hashes (stored_new e a m s) = sh_hashes s"
    "sm_Peers (sh_maps (stored_new e a m s) m) = fmupd (sa_id a) (fst (take_peer e s)) (sm_Peers (sh_maps s m))"
    by (simp_all add: stored_new_def t saved_shared_sel k)
  show "sm_Complete (sh_maps (stored_new e a m s) m) = sm_Complete (sh_maps s m) + (if sa_complete a then 1 else 0)"
    "sm_Incomplete (sh_maps (stored_new e a m s) m) = sm_Incomplete (sh_maps s m) + (if sa_complete a then 0 else 1)"
    by (simp_all add: stored_new_def t saved_shared_def Let_def count_stats_def set_map_def store_counts_def k)
  show "Seeds (sh_stats (stored_new e a m s)) = Seeds (sh_stats s) + (if sa_complete a then 1 else 0)"
    "Leeches (sh_stats (stored_new e a m s)) = Leeches (sh_stats s) + (if sa_complete a then 0 else 1)" if "\<not> fast e"
    using that by (simp_all add: stored_new_def t saved_shared_sel k save_stats_def add_Seeds_def add_Leeches_def
      map_IPStats_def Let_def)
qed

text \<open>
  Two announces of one new client: both look for the peer, then both store it.
\<close>

definition double_announce :: "env \<Rightarrow> (env \<times> nat) list" where
  "double_announce e = map (Pair e) [0, 1, 0, 1, 0, 0, 0, 1, 1, 1]"

text \<open>
  A new client that announces twice at the same time, over two connections or by repeating a
  datagram, is stored once and counted twice: both \<open>Save\<close>s look for the peer before either stores
  it, and the counter of the swarm and the seed statistics end up two higher.
\<close>

theorem simultaneous_announces_count_twice:
  assumes "fmlookup (sh_hashes s) h = Some m" "fmlookup (sm_Peers (sh_maps s m)) i = None" "\<not> fast e"
    and "sa_hash a = h" "sa_id a = i" "sa_complete a" "sa_hash b = h" "sa_id b = i" "sa_complete b"
  shows "\<exists>s'. interleave (double_announce e) [SaveLookup a, SaveLookup b] s = ([Finished, Finished], s') \<and>
    fmlookup (sh_hashes s') h = Some m \<and> fmdom (sm_Peers (sh_maps s' m)) = finsert i (fmdom (sm_Peers (sh_maps s m))) \<and>
    sm_Complete (sh_maps s' m) = sm_Complete (sh_maps s m) + 2 \<and> Seeds (sh_stats s') = Seeds (sh_stats s) + 2"
proof -
  let ?s1 = "stored_new e a m s" and ?s2 = "stored_new e b m (stored_new e a m s)"
  obtain l s11 s12 where A: "goroutine_step e (SaveStore a m None) s = (SaveCount a False l, s11)"
    "goroutine_step e (SaveCount a False l) s11 = (SaveWrite a l, s12)"
    "goroutine_step e (SaveWrite a l) s12 = (Finished, ?s1)"
    using save_rest_new [of e a m s] by blast
  obtain k s21 s22 where B: "goroutine_step e (SaveStore b m None) ?s1 = (SaveCount b False k, s21)"
    "goroutine_step e (SaveCount b False k) s21 = (SaveWrite b k, s22)"
    "goroutine_step e (SaveWrite b k) s22 = (Finished, ?s2)"
    using save_rest_new [of e b m ?s1] by blast
  have "interleave (double_announce e) [SaveLookup a, SaveLookup b] s = ([Finished, Finished], ?s2)"
    using assms(1,2,4,5,7,8) by (simp add: double_announce_def A B del: goroutine_step.simps(4-6))
  with assms show ?thesis by (simp add: stored_new_sel)
qed

theorem simultaneous_announces_count_twice_witness:
  "\<exists>s'. interleave (double_announce (sample_env 9)) [SaveLookup (seeder [2] [5]), SaveLookup (seeder [2] [5])] sample_shared =
       ([Finished, Finished], s') \<and>
     fmdom (sm_Peers (sh_maps s' 2)) = {|[5]|} \<and> sm_Complete (sh_maps s' 2) = 2 \<and> Seeds (sh_stats s') = 2"
  using simultaneous_announces_count_twice [of sample_shared "[2]" 2 "[5]" "sample_env 9" "seeder [2] [5]" "seeder [2] [5]"]
  by (simp add: sample_shared_lookup) blast

text \<open>Two completions of one leecher: both see it incomplete and both move it.\<close>

definition double_completion :: "env \<Rightarrow> (env \<times> nat) list" where
  "double_completion e = map (Pair e) [0, 1, 0, 1, 0, 1, 0, 1, 0, 1]"

text \<open>
  Two simultaneous completions of the only leecher of a swarm move it twice: the swarm of one
  peer has 2 seeders and, because the counter wraps around, 65535 leechers.
\<close>

theorem simultaneous_completions_underflow:
  assumes "fmlookup (sh_hashes s) h = Some m" "fmlookup (sm_Peers (sh_maps s m)) i = Some l" "\<not> Complete (sh_peers s l)"
    and "sm_Complete (sh_maps s m) = 0" "sm_Incomplete (sh_maps s m) = 1"
    and "sa_hash a = h" "sa_id a = i" "sa_complete a" "sa_hash b = h" "sa_id b = i" "sa_complete b"
  shows "\<exists>s'. interleave (double_completion e) [SaveLookup a, SaveLookup b] s = ([Finished, Finished], s') \<and>
    HashStats h (w_db (view ps s')) = (2, 65535) \<and>
    fmdom (sm_Peers (sh_maps s' m)) = fmdom (sm_Peers (sh_maps s m))"
proof -
  have "\<exists>s'. interleave (double_completion e) [SaveLookup a, SaveLookup b] s = ([Finished, Finished], s') \<and>
    sh_hashes s' = sh_hashes s \<and> sm_Complete (sh_maps s' m) = 2 \<and> sm_Incomplete (sh_maps s' m) = -1 \<and>
    sm_Peers (sh_maps s' m) = sm_Peers (sh_maps s m)"
    using assms
    by (simp add: double_completion_def save_store_def set_map_def count_stats_def store_counts_def)
  then show ?thesis
    using assms(1) by (auto simp: HashStats_def view_def entries_def map_view_def)
qed

theorem simultaneous_completions_underflow_witness:
  "\<exists>s'. interleave (double_completion (sample_env 9)) [SaveLookup (seeder [1] [9]), SaveLookup (seeder [1] [9])] sample_shared =
       ([Finished, Finished], s') \<and> HashStats [1] (w_db (view (Initialize 200) s')) = (2, 65535)"
  using simultaneous_completions_underflow [of sample_shared "[1]" 0 "[9]" 0 "seeder [1] [9]" "seeder [1] [9]"
      "sample_env 9" "Initialize 200"]
  by (auto simp: sample_shared_lookup)

text \<open>\<open>trim\<close> and a \<open>Save\<close> between its two sections on an infohash whose peers have all left.\<close>

definition save_inside_trim :: "env \<Rightarrow> (env \<times> nat) list" where
  "save_inside_trim e = map (Pair e) [0, 0, 1, 1, 1, 1, 1, 0]"

lemma expire_none: "sm_Peers (sh_maps s m) = fmempty \<Longrightarrow> expire_peers e m ids n s = (n, s)"
  by (induction ids) simp_all

text \<open>
  C16: A peer that is saved while \<open>trim\<close> is between finding its infohash empty and deleting it is lost:
  \<open>Save\<close> has returned, the infohash is not in the map, and the statistics count one peer more.
\<close>

theorem trim_loses_a_saved_peer:
  assumes "fmlookup (sh_hashes s) h = Some m" "sm_Peers (sh_maps s m) = fmempty" "\<not> fast e" "sa_hash a = h"
  shows "\<exists>s'. interleave (save_inside_trim e) [TrimNext (0, 0) [h], SaveLookup a] s = ([TrimNext (0, 1) [], Finished], s') \<and>
    mem_swarm (w_db (view ps s')) h = Map.empty \<and>
    Seeds (sh_stats s') + Leeches (sh_stats s') = Seeds (sh_stats s) + Leeches (sh_stats s) + 1"
proof -
  let ?s1 = "stored_new e a m s"
  obtain l s11 s12 where A: "goroutine_step e (SaveStore a m None) s = (SaveCount a False l, s11)"
    "goroutine_step e (SaveCount a False l) s11 = (SaveWrite a l, s12)"
    "goroutine_step e (SaveWrite a l) s12 = (Finished, ?s1)"
    using save_rest_new [of e a m s] by blast
  have "interleave (save_inside_trim e) [TrimNext (0, 0) [h], SaveLookup a] s =
      ([TrimNext (0, 1) [], Finished], ?s1\<lparr>sh_hashes := fmdrop h (sh_hashes ?s1)\<rparr>)"
    using assms by (simp add: save_inside_trim_def A expire_none del: goroutine_step.simps(4-6))
  moreover have "mem_swarm (w_db (view ps (?s1\<lparr>sh_hashes := fmdrop h (sh_hashes ?s1)\<rparr>))) h = Map.empty"
    by (simp add: mem_swarm_def view_def entries_def)
  ultimately show ?thesis using assms(3) by (simp add: stored_new_sel)
qed

theorem trim_loses_a_saved_peer_witness:
  "\<exists>s'. interleave (save_inside_trim (sample_env 9)) [TrimNext (0, 0) [[2]], SaveLookup (seeder [2] [5])] sample_shared =
       ([TrimNext (0, 1) [], Finished], s') \<and> mem_swarm (w_db (view (Initialize 200) s')) [2] = Map.empty"
  using trim_loses_a_saved_peer [of sample_shared "[2]" 2 "sample_env 9" "seeder [2] [5]" "Initialize 200"]
  by (auto simp: sample_shared_lookup)

text \<open>
  A \<open>Save\<close> that holds a peer while another client's stop returns it to the pool and a third
  client's \<open>Save\<close> takes it from there.
\<close>

definition save_after_free :: "env \<Rightarrow> (env \<times> nat) list" where
  "save_after_free e = map (Pair e) [0, 0, 1, 1, 1, 2, 2, 2, 2, 2, 0, 0, 0]"

text \<open>
  C17: A \<open>Save\<close> writes to a peer after it was freed: the client stops, its peer returns to the pool and
  is taken for a client of another swarm, and then the first \<open>Save\<close> writes its own address into
  it. The second swarm hands out the address of a client that never joined it.
\<close>

theorem reused_peer_is_overwritten:
  assumes "fmlookup (sh_hashes s) h = Some m" "fmlookup (sm_Peers (sh_maps s m)) i = Some l"
    and "fmlookup (sh_hashes s) h' = Some m'" "fmlookup (sm_Peers (sh_maps s m')) i' = None" "m' \<noteq> m"
    and "\<And>p free. pickp e (p # free) = Some 0"
    and "sa_hash a = h" "sa_id a = i" "sa_hash b = h'" "sa_id b = i'"
  shows "\<exists>s'. interleave (save_after_free e) [SaveLookup a, DropLookup h i, SaveLookup b] s = ([Finished, Finished, Finished], s') \<and>
    mem_swarm (w_db (view ps s')) h i = None \<and>
    mem_swarm (w_db (view ps s')) h' i' =
      Some \<lparr>Complete = sa_complete a, IP = sa_ip a, Port = sa_port a, LastSeen = now e\<rparr>"
proof -
  have "\<exists>s'. interleave (save_after_free e) [SaveLookup a, DropLookup h i, SaveLookup b] s = ([Finished, Finished, Finished], s') \<and>
    sh_hashes s' = sh_hashes s \<and> fmlookup (sm_Peers (sh_maps s' m)) i = None \<and>
    fmlookup (sm_Peers (sh_maps s' m')) i' = Some l \<and>
    sh_peers s' l = \<lparr>Complete = sa_complete a, IP = sa_ip a, Port = sa_port a, LastSeen = now e\<rparr>"
    using assms
    by (simp add: save_after_free_def save_store_def set_map_def count_stats_def store_counts_def remove_peer_def
      free_peer_def take_peer_def Let_def)
  then show ?thesis
    using assms(1,3) by (auto simp: mem_swarm_def view_def entries_def map_view_Peers shared_peers_lookup)
qed

theorem reused_peer_is_overwritten_witness:
  "\<exists>s'. interleave (save_after_free ((sample_env 9)\<lparr>pickp := \<lambda>_. Some 0\<rparr>))
       [SaveLookup (seeder [1] [9]), DropLookup [1] [9], SaveLookup ((seeder [2] [5])\<lparr>sa_ip := Addr4 66\<rparr>)] sample_shared =
       ([Finished, Finished, Finished], s') \<and>
     map_option IP (mem_swarm (w_db (view (Initialize 200) s')) [2] [5]) = Some (Addr4 8)"
proof -
  let ?e = "(sample_env 9)\<lparr>pickp := \<lambda>_. Some 0\<rparr>"
  have "pickp ?e (p # free) = Some 0" for p free by simp
  from reused_peer_is_overwritten [of sample_shared "[1]" 0 "[9]" 0 "[2]" 2 "[5]" ?e "seeder [1] [9]"
      "(seeder [2] [5])\<lparr>sa_ip := Addr4 66\<rparr>" "Initialize 200", OF _ _ _ _ _ this]
  show ?thesis by (auto simp: sample_shared_lookup seeder_def)
qed

section \<open>Operations one after the other\<close>

text \<open>What an operation makes of the map of its infohash, and what it adds to the statistics.\<close>

definition written_peer :: "int64 \<Rightarrow> save_args \<Rightarrow> peer" where
  "written_peer t a = \<lparr>Complete = sa_complete a, IP = sa_ip a, Port = sa_port a, LastSeen = t\<rparr>"

definition saved_map :: "int64 \<Rightarrow> save_args \<Rightarrow> peermap \<Rightarrow> peermap" where
  "saved_map t a pm =
     (case fmlookup (Peers pm) (sa_id a) of
        None \<Rightarrow> save_counts False zero_peer (sa_complete a) pm
      | Some p \<Rightarrow> save_counts True p (sa_complete a) pm)
     \<lparr>Peers := fmupd (sa_id a) (written_peer t a) (Peers pm)\<rparr>"

definition dropped_map :: "peer_id \<Rightarrow> peermap \<Rightarrow> peermap" where
  "dropped_map i pm =
     (case fmlookup (Peers pm) i of
        None \<Rightarrow> pm
      | Some p \<Rightarrow> leave_counts p (pm\<lparr>Peers := fmdrop i (Peers pm)\<rparr>))"

fun op_hash :: "goroutine \<Rightarrow> hash" where
  "op_hash (SaveLookup a) = sa_hash a"
| "op_hash (DropLookup h i) = h"
| "op_hash g = []"

fun op_map :: "int64 \<Rightarrow> goroutine \<Rightarrow> peermap \<Rightarrow> peermap" where
  "op_map t (SaveLookup a) pm = saved_map t a pm"
| "op_map t (DropLookup h i) pm = dropped_map i pm"
| "op_map t g pm = pm"

fun op_starts :: "goroutine \<Rightarrow> bool" where
  "op_starts (SaveLookup a) = True"
| "op_starts (DropLookup h i) = True"
| "op_starts g = False"

fun op_stats :: "goroutine \<Rightarrow> peermap \<Rightarrow> stats \<Rightarrow> stats" where
  "op_stats (SaveLookup a) pm s =
     (case fmlookup (Peers pm) (sa_id a) of
        None \<Rightarrow> save_stats False zero_peer (sa_ip a) (sa_complete a) s
      | Some p \<Rightarrow> save_stats True p (sa_ip a) (sa_complete a) s)"
| "op_stats (DropLookup h i) pm s =
     (case fmlookup (Peers pm) i of None \<Rightarrow> s | Some p \<Rightarrow> leave_stats p s)"
| "op_stats g pm s = s"

text \<open>The seeds and leeches that a statistics update adds.\<close>

definition seed_leech :: "stats \<Rightarrow> int64 \<times> int64" where
  "seed_leech s = (Seeds s, Leeches s)"

definition added :: "env \<Rightarrow> (stats \<Rightarrow> stats) \<Rightarrow> int64 \<times> int64" where
  "added e f = (if fast e then (0, 0) else seed_leech (f zero_stats))"

lemma save_stats_added:
  "seed_leech (save_stats x p ip c s) =
     (Seeds s + fst (seed_leech (save_stats x p ip c zero_stats)), Leeches s + snd (seed_leech (save_stats x p ip c zero_stats)))"
  by (simp add: seed_leech_def save_stats_def add_Seeds_def add_Leeches_def map_IPStats_def zero_stats_def Let_def)

lemma leave_stats_added:
  "seed_leech (leave_stats p s) =
     (Seeds s + fst (seed_leech (leave_stats p zero_stats)), Leeches s + snd (seed_leech (leave_stats p zero_stats)))"
  by (simp add: seed_leech_def leave_stats_def add_Seeds_def add_Leeches_def map_IPStats_def zero_stats_def Let_def)

text \<open>The operations one after the other.\<close>

fun sequential :: "env \<Rightarrow> goroutine list \<Rightarrow> memory world \<Rightarrow> panic + memory world" where
  "sequential e [] w = Inr w"
| "sequential e (SaveLookup a # gs) w =
     bindP (Save e (sa_ip a) (sa_port a) (sa_complete a) (sa_hash a) (sa_id a) w) (sequential e gs)"
| "sequential e (DropLookup h i # gs) w = bindP (Drop e h i w) (sequential e gs)"
| "sequential e (g # gs) w = sequential e gs w"

definition pool_ready :: "memory world \<Rightarrow> bool" where
  "pool_ready w \<longleftrightarrow>
     (\<exists>ps. w_pools w = Some ps \<and> pool_new (PeersPool ps) = Inr zero_peer \<and> pool_reset (PeersPool ps) = None)"

lemma get_peer_ready:
  assumes "pool_ready w"
  obtains p ps where "get_peer e (w_pools w) = Inr (p, Some ps)" "pool_new (PeersPool ps) = Inr zero_peer"
    "pool_reset (PeersPool ps) = None"
proof -
  from assms obtain ps where ps: "w_pools w = Some ps" "pool_new (PeersPool ps) = Inr zero_peer" "pool_reset (PeersPool ps) = None"
    by (auto simp: pool_ready_def)
  show ?thesis
    by (rule Pool_Get_cases [of "PeersPool ps" "pickp e"]) (auto simp: get_peer_def ps pool_make_def intro: that)
qed

lemma save_counts_new: "save_counts False p c pm = save_counts False q c pm"
  by (simp add: save_counts_def)

lemma save_stats_new: "save_stats False p ip c s = save_stats False q ip c s"
  by (simp add: save_stats_def)

lemma written_peer_eq:
  "p\<lparr>Complete := sa_complete a, IP := sa_ip a, Port := sa_port a, LastSeen := t\<rparr> = written_peer t a"
  by (cases p) (simp add: written_peer_def)

lemma op_sequential:
  assumes "op_starts g" "pool_ready w" "fmlookup (entries (w_db w)) (op_hash g) = Some pm" "hashmap (w_db w) \<noteq> None"
  obtains w' where "\<And>gs. sequential e (g # gs) w = sequential e gs w'" "pool_ready w'"
    "entries (w_db w') = fmupd (op_hash g) (op_map (now e) g pm) (entries (w_db w))" "hashmap (w_db w') \<noteq> None"
    "w_stats w' = (if fast e then w_stats w else op_stats g pm (w_stats w))"
proof -
  from assms(4) obtain M where M: "hashmap (w_db w) = Some M" "fmlookup M (op_hash g) = Some pm"
    using assms(3) by (auto simp: entries_def)
  have set: "set_peermap h x (w_db w) = Inr \<lparr>hashmap = Some (fmupd h x M)\<rparr>" for h x
    by (cases "w_db w") (use M in \<open>simp add: set_peermap_def\<close>)
  have lk: "fmlookup (entries (w_db w)) (op_hash g) = Some pm" "entries (w_db w) = M" using M by (simp_all add: entries_def)
  let ?w = "\<lambda>ps. w\<lparr>w_stats := if fast e then w_stats w else op_stats g pm (w_stats w), w_pools := Some ps,
    w_db := \<lparr>hashmap = Some (fmupd (op_hash g) (op_map (now e) g pm) M)\<rparr>\<rparr>"
  note result = that
  have fin: thesis if s: "\<And>gs. sequential e (g # gs) w = sequential e gs (?w ps)"
    "pool_new (PeersPool ps) = Inr zero_peer" "pool_reset (PeersPool ps) = None" for ps
    by (rule result [of "?w ps"]) (use s lk(2) in \<open>simp_all add: pool_ready_def entries_def\<close>)
  from assms(2) obtain ps0 where ps0: "w_pools w = Some ps0" "pool_new (PeersPool ps0) = Inr zero_peer"
    "pool_reset (PeersPool ps0) = None" by (auto simp: pool_ready_def)
  consider (save) a where "g = SaveLookup a" | (drop) h i where "g = DropLookup h i"
    using assms(1) by (cases g) auto
  then show ?thesis
  proof cases
    case save
    obtain p ps where gp: "get_peer e (w_pools w) = Inr (p, Some ps)" "pool_new (PeersPool ps) = Inr zero_peer"
      "pool_reset (PeersPool ps) = None" by (rule get_peer_ready [OF assms(2)])
    show ?thesis
    proof (cases "fmlookup (Peers pm) (sa_id a)")
      case None
      then have "sequential e (g # gs) w = sequential e gs (?w ps)" for gs
        using lk(1) save by (simp add: Save_def gp set Let_def saved_map_def written_peer_eq
          save_counts_new [of p _ _ zero_peer] save_stats_new [of p _ _ _ zero_peer] cong: if_cong)
      then show ?thesis by (rule fin [OF _ gp(2,3)])
    next
      case (Some q)
      then have "sequential e (g # gs) w = sequential e gs (?w ps0)" for gs
        using lk(1) save by (simp add: Save_def ps0 set Let_def saved_map_def written_peer_eq cong: if_cong)
      then show ?thesis by (rule fin [OF _ ps0(2,3)])
    qed
  next
    case drop
    show ?thesis
    proof (cases "fmlookup (Peers pm) i")
      case None
      with drop lk assms(2,4) show ?thesis
        by (intro that [of w]) (simp_all add: Drop_def dropped_map_def fmupd_same)
    next
      case (Some q)
      then have "sequential e (g # gs) w = sequential e gs (?w (ps0\<lparr>PeersPool := (PeersPool ps0)
          \<lparr>pool_free := q # pool_free (PeersPool ps0)\<rparr>\<rparr>))" for gs
        using drop lk(1) by (simp add: Drop_def set Let_def dropped_map_def put_peer_def Pool_Put_def ps0 cong: if_cong)
      then show ?thesis by (rule fin) (simp_all add: ps0)
    qed
  qed
qed

lemma op_stats_added:
  "Seeds (op_stats g pm s) = Seeds s + Seeds (op_stats g pm zero_stats)"
  "Leeches (op_stats g pm s) = Leeches s + Leeches (op_stats g pm zero_stats)"
  using save_stats_added [of _ _ _ _ s] leave_stats_added [of _ s]
  by (cases g; auto simp: seed_leech_def zero_stats_def split: option.splits)+

end
