(* ===== verification/Clients.thy ===== *)
theory Clients
  imports Interleaving
begin

text \<open>
  Announces and stops of different clients at the same time: whatever the schedule, operations
  that are about different pairs of an infohash and a peer identifier leave what they leave one after
  the other, in one swarm or in several. The proof follows, for every operation, the entry
  of its client, and adds up what the operations have done to the counters.
\<close>

section \<open>The entries of clients\<close>

text \<open>The peer that an entry points to, and its value.\<close>

definition slot :: "shared \<Rightarrow> hash \<times> peer_id \<Rightarrow> nat option" where
  "slot s = (\<lambda>(h, i). Option.bind (fmlookup (sh_hashes s) h) (\<lambda>m. fmlookup (sm_Peers (sh_maps s m)) i))"

definition entry :: "shared \<Rightarrow> hash \<times> peer_id \<Rightarrow> peer option" where
  "entry s key = map_option (sh_peers s) (slot s key)"

lemma slot_owns: "slot s key = Some l \<longleftrightarrow> owns s (fst key) (snd key) l"
  by (cases key) (simp add: slot_def owns_def bind_eq_Some_conv)

lemma slot_map: "fmlookup (sh_hashes s) h = Some m \<Longrightarrow> slot s (h, i) = fmlookup (sm_Peers (sh_maps s m)) i"
  by (simp add: slot_def)

lemma slot_unaliased:
  assumes "unaliased s" "slot s key = Some l"
  shows "l < sh_npeers s" "l \<notin> set (sh_free s)" "slot s key' = Some l \<Longrightarrow> key' = key"
  using unaliased_owner [OF assms(1) assms(2) [unfolded slot_owns]] by (auto simp: slot_owns prod_eq_iff)

lemma entry_view: "mem_swarm (w_db (view ps s)) h i = entry s (h, i)"
  by (simp add: mem_swarm_def view_def entries_def entry_def slot_def map_view_Peers shared_peers_lookup split: option.split)

section \<open>What an operation does to its client\<close>

fun op_key :: "goroutine \<Rightarrow> hash \<times> peer_id" where
  "op_key (SaveLookup a) = (sa_hash a, sa_id a)"
| "op_key (DropLookup h i) = (h, i)"
| "op_key g = ([], [])"

fun op_entry :: "int64 \<Rightarrow> goroutine \<Rightarrow> peer option \<Rightarrow> peer option" where
  "op_entry t (SaveLookup a) p = Some (written_peer t a)"
| "op_entry t (DropLookup h i) p = None"
| "op_entry t g p = p"

text \<open>How a client counts as a seeder and as a leecher, and what an operation adds to the counts.\<close>

definition seeds :: "peer option \<Rightarrow> 'a::ring_1" where
  "seeds p = (case p of None \<Rightarrow> 0 | Some q \<Rightarrow> if Complete q then 1 else 0)"

definition leeches :: "peer option \<Rightarrow> 'a::ring_1" where
  "leeches p = (case p of None \<Rightarrow> 0 | Some q \<Rightarrow> if Complete q then 0 else 1)"

definition gain :: "(peer option \<Rightarrow> 'a::ring_1) \<Rightarrow> goroutine \<Rightarrow> peer option \<Rightarrow> 'a" where
  "gain f g p = f (op_entry 0 g p) - f p"

lemma op_hash_key: "op_starts g \<Longrightarrow> fst (op_key g) = op_hash g"
  by (cases g) simp_all

lemma op_map_client:
  assumes "op_starts g"
  shows "fmlookup (Peers (op_map t g pm)) i =
      (if i = snd (op_key g) then op_entry t g (fmlookup (Peers pm) i) else fmlookup (Peers pm) i)"
    and "CompleteN (op_map t g pm) = CompleteN pm + gain seeds g (fmlookup (Peers pm) (snd (op_key g)))"
    and "IncompleteN (op_map t g pm) = IncompleteN pm + gain leeches g (fmlookup (Peers pm) (snd (op_key g)))"
  using assms
  by (cases g; simp add: saved_map_def dropped_map_def save_counts_def leave_counts_def gain_def seeds_def leeches_def
      written_peer_def split: option.split)+

lemma op_stats_client:
  assumes "op_starts g"
  shows "Seeds (op_stats g pm s) = Seeds s + gain seeds g (fmlookup (Peers pm) (snd (op_key g)))"
    and "Leeches (op_stats g pm s) = Leeches s + gain leeches g (fmlookup (Peers pm) (snd (op_key g)))"
  using assms
  by (cases g; simp add: save_stats_def leave_stats_def add_Seeds_def add_Leeches_def map_IPStats_def Let_def gain_def
      seeds_def leeches_def written_peer_def split: option.split)+

section \<open>One after the other\<close>

text \<open>Each operation runs in the environment it is paired with: the clock moves between them.\<close>

fun in_turn :: "(env \<times> goroutine) list \<Rightarrow> memory world \<Rightarrow> panic + memory world" where
  "in_turn [] w = Inr w"
| "in_turn ((e, g) # ops) w = bindP (sequential e [g] w) (in_turn ops)"

definition client :: "swarm \<Rightarrow> goroutine \<Rightarrow> peer option" where
  "client sw g = sw (fst (op_key g)) (snd (op_key g))"

definition counted :: "(peer option \<Rightarrow> 'a::ring_1) \<Rightarrow> swarm \<Rightarrow> (goroutine \<Rightarrow> bool) \<Rightarrow> goroutine list \<Rightarrow> 'a" where
  "counted f sw P gs = (\<Sum>g \<leftarrow> gs. if P g then gain f g (client sw g) else 0)"

lemma counted_Nil [simp]: "counted f sw P [] = 0"
  by (simp add: counted_def)

lemma counted_Cons: "counted f sw P (g # gs) = (if P g then gain f g (client sw g) else 0) + counted f sw P gs"
  by (simp add: counted_def)

lemma counted_cong: "(\<And>g. g \<in> set gs \<Longrightarrow> client sw' g = client sw g) \<Longrightarrow> counted f sw' P gs = counted f sw P gs"
  unfolding counted_def by (rule arg_cong [of _ _ sum_list]) simp

text \<open>What a list of operations of different clients makes of a database.\<close>

definition clients_done :: "bool \<Rightarrow> (env \<times> goroutine) list \<Rightarrow> memory world \<Rightarrow> memory world \<Rightarrow> bool" where
  "clients_done fa ops w w' \<longleftrightarrow>
     (let sw = mem_swarm (w_db w); sw' = mem_swarm (w_db w'); gs = map snd ops in
      (\<forall>(e, g) \<in> set ops. client sw' g = op_entry (now e) g (client sw g)) \<and>
      (\<forall>h i. (h, i) \<notin> op_key ` set gs \<longrightarrow> sw' h i = sw h i) \<and>
      (\<forall>h. (fmlookup (entries (w_db w')) h = None) = (fmlookup (entries (w_db w)) h = None)) \<and>
      (\<forall>h pm pm'. fmlookup (entries (w_db w)) h = Some pm \<and> fmlookup (entries (w_db w')) h = Some pm' \<longrightarrow>
         CompleteN pm' = CompleteN pm + counted seeds sw (\<lambda>g. op_hash g = h) gs \<and>
         IncompleteN pm' = IncompleteN pm + counted leeches sw (\<lambda>g. op_hash g = h) gs) \<and>
      Seeds (w_stats w') = Seeds (w_stats w) + counted seeds sw (\<lambda>g. \<not> fa) gs \<and>
      Leeches (w_stats w') = Leeches (w_stats w) + counted leeches sw (\<lambda>g. \<not> fa) gs)"

lemma clients_doneD:
  assumes "clients_done fa ops w w'"
  shows "(e, g) \<in> set ops \<Longrightarrow> client (mem_swarm (w_db w')) g = op_entry (now e) g (client (mem_swarm (w_db w)) g)"
    and "(h, i) \<notin> op_key ` set (map snd ops) \<Longrightarrow> mem_swarm (w_db w') h i = mem_swarm (w_db w) h i"
    and "fmlookup (entries (w_db w')) h = None \<longleftrightarrow> fmlookup (entries (w_db w)) h = None"
    and "fmlookup (entries (w_db w)) h = Some pm \<Longrightarrow> fmlookup (entries (w_db w')) h = Some pm' \<Longrightarrow>
      CompleteN pm' = CompleteN pm + counted seeds (mem_swarm (w_db w)) (\<lambda>g. op_hash g = h) (map snd ops)"
    and "fmlookup (entries (w_db w)) h = Some pm \<Longrightarrow> fmlookup (entries (w_db w')) h = Some pm' \<Longrightarrow>
      IncompleteN pm' = IncompleteN pm + counted leeches (mem_swarm (w_db w)) (\<lambda>g. op_hash g = h) (map snd ops)"
    and "Seeds (w_stats w') = Seeds (w_stats w) + counted seeds (mem_swarm (w_db w)) (\<lambda>g. \<not> fa) (map snd ops)"
    and "Leeches (w_stats w') = Leeches (w_stats w) + counted leeches (mem_swarm (w_db w)) (\<lambda>g. \<not> fa) (map snd ops)"
  using assms unfolding clients_done_def Let_def by blast+

text \<open>Two worlds in which the same has been done have the same database.\<close>

lemma clients_done_unique:
  assumes "clients_done fa ops w w1" "clients_done fa ops w w2" "hashmap (w_db w1) \<noteq> None" "hashmap (w_db w2) \<noteq> None"
  shows "w_db w1 = w_db w2"
proof -
  note d1 = clients_doneD [OF assms(1)] and d2 = clients_doneD [OF assms(2)]
  have sw: "mem_swarm (w_db w1) h i = mem_swarm (w_db w2) h i" for h i
  proof (cases "(h, i) \<in> op_key ` set (map snd ops)")
    case True
    then obtain e g where "(e, g) \<in> set ops" "op_key g = (h, i)" by force
    with d1(1) [of e g] d2(1) [of e g] show ?thesis by (simp add: client_def)
  next
    case False
    with d1(2) d2(2) show ?thesis by simp
  qed
  have "fmlookup (entries (w_db w1)) h = fmlookup (entries (w_db w2)) h" for h
  proof (cases "fmlookup (entries (w_db w)) h")
    case None
    with d1(3) [of h] d2(3) [of h] show ?thesis by simp
  next
    case (Some pm)
    then obtain pm1 pm2 where pm: "fmlookup (entries (w_db w1)) h = Some pm1" "fmlookup (entries (w_db w2)) h = Some pm2"
      using d1(3) [of h] d2(3) [of h] by auto
    have "fmlookup (Peers pm1) i = fmlookup (Peers pm2) i" for i
      using sw [of h i] pm by (simp add: mem_swarm_def)
    then have "Peers pm1 = Peers pm2" by (rule fmap_ext)
    with d1(4,5) [OF Some pm(1)] d2(4,5) [OF Some pm(2)] have "pm1 = pm2" by simp
    with pm show ?thesis by simp
  qed
  then have "entries (w_db w1) = entries (w_db w2)" by (rule fmap_ext)
  with assms(3,4) show ?thesis by (cases "w_db w1"; cases "w_db w2") (auto simp: entries_def)
qed

text \<open>An announce needs its infohash in the map, a stop does not.\<close>

definition known :: "hash fset \<Rightarrow> goroutine \<Rightarrow> bool" where
  "known hs g \<longleftrightarrow> op_starts g \<and> (\<forall>a. g = SaveLookup a \<longrightarrow> sa_hash a |\<in>| hs)"

lemma op_client_done:
  assumes "known (fmdom (entries (w_db w))) g" "pool_ready w" "hashmap (w_db w) \<noteq> None"
  obtains w' where "sequential e [g] w = Inr w'" "pool_ready w'" "hashmap (w_db w') \<noteq> None"
    "clients_done (fast e) [(e, g)] w w'"
proof (cases "fmlookup (entries (w_db w)) (op_hash g)")
  case None
  with assms(1) obtain h i where g: "g = DropLookup h i"
    by (cases g) (auto simp: known_def fmlookup_dom_iff)
  with None assms(3) have "sequential e [g] w = Inr w"
    by (auto simp: Drop_def entries_def split: option.splits)
  moreover have "clients_done (fast e) [(e, g)] w w"
    using None g by (auto simp: clients_done_def counted_def client_def mem_swarm_def gain_def seeds_def leeches_def)
  ultimately show ?thesis using assms(2,3) by (intro that)
next
  case (Some pm)
  have starts: "op_starts g" using assms(1) by (simp add: known_def)
  obtain w' where w': "\<And>gs. sequential e (g # gs) w = sequential e gs w'" "pool_ready w'"
    "entries (w_db w') = fmupd (op_hash g) (op_map (now e) g pm) (entries (w_db w))" "hashmap (w_db w') \<noteq> None"
    "w_stats w' = (if fast e then w_stats w else op_stats g pm (w_stats w))"
    by (rule op_sequential [OF starts assms(2) Some assms(3)]) blast
  have c: "client (mem_swarm (w_db w)) g = fmlookup (Peers pm) (snd (op_key g))"
    using Some by (simp add: client_def mem_swarm_def op_hash_key [OF starts])
  have sw: "mem_swarm (w_db w') h i =
      (if (h, i) = op_key g then op_entry (now e) g (client (mem_swarm (w_db w)) g) else mem_swarm (w_db w) h i)" for h i
    using op_hash_key [OF starts] Some unfolding c
    by (cases "op_key g") (auto simp: mem_swarm_def w'(3) op_map_client(1) [OF starts])
  have "clients_done (fast e) [(e, g)] w w'"
    unfolding clients_done_def Let_def counted_def
    using sw Some c op_map_client(2,3) [OF starts] op_stats_client [OF starts]
    by (auto simp: client_def [of "mem_swarm (w_db w')"] w'(3,5))
  with w' show ?thesis by (intro that) simp_all
qed

lemma clients_done_trans:
  assumes "clients_done fa [(e, g)] w w1" "clients_done fa ops w1 w2" "op_key g \<notin> op_key ` set (map snd ops)"
  shows "clients_done fa ((e, g) # ops) w w2"
proof -
  note d1 = clients_doneD [OF assms(1)] and d2 = clients_doneD [OF assms(2)]
  let ?gs = "map snd ops"
  have same: "client (mem_swarm (w_db w1)) x = client (mem_swarm (w_db w)) x" if "x \<in> set ?gs" for x
  proof -
    have "op_key x \<noteq> op_key g" using assms(3) that by (metis imageI)
    with d1(2) [of "fst (op_key x)" "snd (op_key x)"] show ?thesis by (simp add: client_def)
  qed
  have mine: "client (mem_swarm (w_db w2)) g = client (mem_swarm (w_db w1)) g"
    using d2(2) [of "fst (op_key g)" "snd (op_key g)"] assms(3) by (simp add: client_def)
  have sums: "counted f (mem_swarm (w_db w)) P (g # ?gs) =
      counted f (mem_swarm (w_db w)) P [g] + counted f (mem_swarm (w_db w1)) P ?gs" for f :: "peer option \<Rightarrow> 'a::ring_1" and P
  proof -
    have "counted f (mem_swarm (w_db w1)) P ?gs = counted f (mem_swarm (w_db w)) P ?gs"
      by (rule counted_cong) (rule same)
    then show ?thesis by (simp add: counted_Cons)
  qed
  have entry: "client (mem_swarm (w_db w2)) x = op_entry (now t) x (client (mem_swarm (w_db w)) x)"
    if "(t, x) \<in> set ((e, g) # ops)" for t x
  proof (cases "(t, x) \<in> set ops")
    case True
    then have "x \<in> set ?gs" by force
    with d2(1) [OF True] same show ?thesis by simp
  next
    case False
    with that d1(1) [of e g] mine show ?thesis by simp
  qed
  have "fmlookup (entries (w_db w2)) h = None \<longleftrightarrow> fmlookup (entries (w_db w)) h = None" for h
    using d1(3) d2(3) by blast
  moreover have "CompleteN pm2 = CompleteN pm + counted seeds (mem_swarm (w_db w)) (\<lambda>g. op_hash g = h) (g # ?gs)"
    "IncompleteN pm2 = IncompleteN pm + counted leeches (mem_swarm (w_db w)) (\<lambda>g. op_hash g = h) (g # ?gs)"
    if pm: "fmlookup (entries (w_db w)) h = Some pm" "fmlookup (entries (w_db w2)) h = Some pm2" for h pm pm2
  proof -
    obtain pm1 where pm1: "fmlookup (entries (w_db w1)) h = Some pm1" using d1(3) [of h] pm(1) by auto
    show "CompleteN pm2 = CompleteN pm + counted seeds (mem_swarm (w_db w)) (\<lambda>g. op_hash g = h) (g # ?gs)"
      "IncompleteN pm2 = IncompleteN pm + counted leeches (mem_swarm (w_db w)) (\<lambda>g. op_hash g = h) (g # ?gs)"
      unfolding sums d2(4) [OF pm1 pm(2)] d2(5) [OF pm1 pm(2)] d1(4) [OF pm(1) pm1] d1(5) [OF pm(1) pm1] by simp_all
  qed
  ultimately show ?thesis
    unfolding clients_done_def Let_def list.map snd_conv sums
    using entry d1(2) d2(2) d1(6,7) d2(6,7) by auto
qed

lemma in_turn_clients:
  assumes "\<forall>(e, g) \<in> set ops. fast e = fa \<and> known (fmdom (entries (w_db w))) g"
    and "distinct (map (op_key \<circ> snd) ops)" "pool_ready w" "hashmap (w_db w) \<noteq> None"
  shows "\<exists>w'. in_turn ops w = Inr w' \<and> hashmap (w_db w') \<noteq> None \<and> clients_done fa ops w w'"
  using assms
proof (induction ops arbitrary: w)
  case Nil
  then show ?case by (auto simp: clients_done_def counted_def)
next
  case (Cons x ops)
  obtain e g where x: "x = (e, g)" by fastforce
  with Cons.prems(1) have g: "fast e = fa" "known (fmdom (entries (w_db w))) g" by auto
  obtain w1 where w1: "sequential e [g] w = Inr w1" "pool_ready w1" "hashmap (w_db w1) \<noteq> None"
    "clients_done fa [(e, g)] w w1"
    by (rule op_client_done [OF g(2) Cons.prems(3,4), of e]) (simp add: g(1))
  have "fmdom (entries (w_db w1)) = fmdom (entries (w_db w))"
    using clients_doneD(3) [OF w1(4)] by (simp add: fset_eq_iff fmdom_notD flip: fmlookup_dom_iff) (metis fmdom_notD fmdom_notI)
  with Cons.prems(1) have "\<forall>(e, g) \<in> set ops. fast e = fa \<and> known (fmdom (entries (w_db w1))) g" by auto
  from Cons.IH [OF this _ w1(2,3)] Cons.prems(2) obtain w2 where
    "in_turn ops w1 = Inr w2" "hashmap (w_db w2) \<noteq> None" "clients_done fa ops w1 w2" by auto
  with clients_done_trans [OF w1(4)] w1(1) Cons.prems(2) show ?case by (auto simp: x image_comp)
qed

section \<open>How far an operation is\<close>

text \<open>
  The entry of an operation's client is as it was, or the operation has stored its peer there; a
  peer that \<open>Drop\<close> is about to free belongs to nobody else.
\<close>

definition intact :: "shared \<Rightarrow> hash \<times> peer_id \<Rightarrow> shared \<Rightarrow> bool" where
  "intact s0 key s \<longleftrightarrow> slot s key = slot s0 key \<and> entry s key = entry s0 key"

definition placed :: "shared \<Rightarrow> save_args \<Rightarrow> bool \<Rightarrow> nat \<Rightarrow> shared \<Rightarrow> bool" where
  "placed s0 a x l s \<longleftrightarrow>
     slot s (sa_hash a, sa_id a) = Some l \<and>
     entry s0 (sa_hash a, sa_id a) = (if x then Some (sh_peers s l) else None)"

fun stage :: "env set \<Rightarrow> shared \<Rightarrow> goroutine \<Rightarrow> goroutine \<Rightarrow> shared \<Rightarrow> bool" where
  "stage E s0 g0 (SaveLookup a) s = (g0 = SaveLookup a \<and> intact s0 (op_key g0) s)"
| "stage E s0 g0 (SaveFind a m) s =
     (g0 = SaveLookup a \<and> fmlookup (sh_hashes s) (sa_hash a) = Some m \<and> intact s0 (op_key g0) s)"
| "stage E s0 g0 (SaveStore a m found) s =
     (g0 = SaveLookup a \<and> fmlookup (sh_hashes s) (sa_hash a) = Some m \<and> found = slot s (op_key g0) \<and> intact s0 (op_key g0) s)"
| "stage E s0 g0 (SaveCount a x l) s = (g0 = SaveLookup a \<and> placed s0 a x l s)"
| "stage E s0 g0 (SaveWrite a l) s = (g0 = SaveLookup a \<and> (\<exists>x. placed s0 a x l s))"
| "stage E s0 g0 (DropLookup h i) s = (g0 = DropLookup h i \<and> intact s0 (op_key g0) s)"
| "stage E s0 g0 (DropRemove i m) s =
     (\<exists>h. g0 = DropLookup h i \<and> fmlookup (sh_hashes s) h = Some m \<and> intact s0 (op_key g0) s)"
| "stage E s0 g0 (DropFree l) s =
     (\<exists>h i. g0 = DropLookup h i \<and> slot s (op_key g0) = None \<and> entry s0 (op_key g0) = Some (sh_peers s l))"
| "stage E s0 g0 Finished s = (\<exists>e \<in> E. entry s (op_key g0) = op_entry (now e) g0 (entry s0 (op_key g0)))"
| "stage E s0 g0 g s = False"

text \<open>Whether the operation is in the counters of the swarm, and in the statistics.\<close>

fun in_counters :: "goroutine \<Rightarrow> bool" where
  "in_counters (SaveCount a x l) = True"
| "in_counters (SaveWrite a l) = True"
| "in_counters (DropFree l) = True"
| "in_counters Finished = True"
| "in_counters g = False"

fun in_stats :: "goroutine \<Rightarrow> bool" where
  "in_stats (SaveWrite a l) = True"
| "in_stats Finished = True"
| "in_stats g = False"

definition pending :: "shared \<Rightarrow> nat \<Rightarrow> bool" where
  "pending s l \<longleftrightarrow> l < sh_npeers s \<and> l \<notin> set (sh_free s) \<and> (\<forall>h i. \<not> owns s h i l)"

lemma stage_frame:
  assumes "stage E s0 g0 g s" "sh_hashes s' = sh_hashes s" "slot s' (op_key g0) = slot s (op_key g0)"
    and "\<And>l. slot s (op_key g0) = Some l \<Longrightarrow> sh_peers s' l = sh_peers s l"
    and "\<And>l. g = DropFree l \<Longrightarrow> sh_peers s' l = sh_peers s l"
  shows "stage E s0 g0 g s'"
proof -
  have e: "entry s' (op_key g0) = entry s (op_key g0)"
    using assms(3,4) by (cases "slot s (op_key g0)") (simp_all add: entry_def)
  have c: "placed s0 a x l s \<Longrightarrow> g0 = SaveLookup a \<Longrightarrow> placed s0 a x l s'" for a x l
    using assms(3,4) by (simp add: placed_def)
  show ?thesis
    using assms(1,2,3,5) e c by (cases g) (auto simp: intact_def)
qed

text \<open>
  A step of an operation on the client \<open>key\<close>: it changes no other entry, writes only to the peer of its
  own entry or to peers of the pool, adds its gain to the counters of its swarm and to the
  statistics, and keeps the absence of aliases.
\<close>

definition own_gain :: "shared \<Rightarrow> goroutine \<Rightarrow> (peer option \<Rightarrow> 'a::ring_1) \<Rightarrow> bool \<Rightarrow> 'a" where
  "own_gain s0 g0 f b = (if b then gain f g0 (entry s0 (op_key g0)) else 0)"

definition own_step :: "env set \<Rightarrow> env \<Rightarrow> shared \<Rightarrow> goroutine \<Rightarrow> goroutine \<Rightarrow> shared \<Rightarrow> goroutine \<Rightarrow> shared \<Rightarrow> bool" where
  "own_step E e s0 g0 g s g' s' \<longleftrightarrow>
     stage E s0 g0 g' s' \<and> unaliased s' \<and> sh_hashes s' = sh_hashes s \<and> sh_npeers s \<le> sh_npeers s' \<and>
     (\<forall>key. key \<noteq> op_key g0 \<longrightarrow> slot s' key = slot s key) \<and>
     (\<forall>l. sh_peers s' l \<noteq> sh_peers s l \<or> slot s' (op_key g0) = Some l \<longrightarrow>
        slot s (op_key g0) = Some l \<or> l \<in> set (sh_free s) \<or> sh_npeers s \<le> l) \<and>
     (\<forall>l \<in> set (sh_free s'). l \<in> set (sh_free s) \<or> g = DropFree l) \<and>
     (\<forall>l. g' = DropFree l \<longrightarrow> slot s (op_key g0) = Some l \<and> pending s' l) \<and>
     (\<forall>m. sm_Complete (sh_maps s' m) = sm_Complete (sh_maps s m) +
        own_gain s0 g0 seeds (fmlookup (sh_hashes s) (op_hash g0) = Some m \<and> in_counters g' \<and> \<not> in_counters g)) \<and>
     (\<forall>m. sm_Incomplete (sh_maps s' m) = sm_Incomplete (sh_maps s m) +
        own_gain s0 g0 leeches (fmlookup (sh_hashes s) (op_hash g0) = Some m \<and> in_counters g' \<and> \<not> in_counters g)) \<and>
     Seeds (sh_stats s') = Seeds (sh_stats s) + own_gain s0 g0 seeds (\<not> fast e \<and> in_stats g' \<and> \<not> in_stats g) \<and>
     Leeches (sh_stats s') = Leeches (sh_stats s) + own_gain s0 g0 leeches (\<not> fast e \<and> in_stats g' \<and> \<not> in_stats g)"

lemma owns_cong:
  "sh_hashes s' = sh_hashes s \<Longrightarrow> (\<And>m. sm_Peers (sh_maps s' m) = sm_Peers (sh_maps s m)) \<Longrightarrow> owns s' h i l = owns s h i l"
  by (simp add: owns_def)

lemma unaliased_cong:
  assumes "unaliased s" "sh_hashes s' = sh_hashes s" "\<And>m. sm_Peers (sh_maps s' m) = sm_Peers (sh_maps s m)"
    "sh_nmaps s' = sh_nmaps s" "sh_npeers s' = sh_npeers s" "sh_free s' = sh_free s"
  shows "unaliased s'"
  using assms(1) unfolding unaliased_def owns_cong [OF assms(2,3)] assms(2,4-6) .

lemma unaliased_free_tl:
  assumes "unaliased s" "sh_free s = l # free"
  shows "unaliased (s\<lparr>sh_free := free\<rparr>)" "pending (s\<lparr>sh_free := free\<rparr>) l"
proof -
  have own: "owns (s\<lparr>sh_free := free\<rparr>) h i k = owns s h i k" for h i k by (rule owns_cong) simp_all
  show "unaliased (s\<lparr>sh_free := free\<rparr>)"
    using assms unfolding unaliased_def own by simp
  show "pending (s\<lparr>sh_free := free\<rparr>) l"
    using assms unaliased_owner(2) [OF assms(1)] unaliased_free [OF assms(1)] unfolding pending_def own by auto
qed

lemma unaliased_free_peer:
  assumes "unaliased s" "pending s l"
  shows "unaliased (free_peer l s)"
proof -
  have own: "owns (free_peer l s) h i k = owns s h i k" for h i k by (rule owns_cong) (simp_all add: free_peer_def)
  show ?thesis
    using assms unfolding unaliased_def own pending_def by (simp add: free_peer_def) blast
qed

lemma slot_cong:
  "sh_hashes s' = sh_hashes s \<Longrightarrow> (\<And>m. sm_Peers (sh_maps s' m) = sm_Peers (sh_maps s m)) \<Longrightarrow> slot s' key = slot s key"
  by (simp add: slot_def)

text \<open>A step that leaves the maps alone, except one entry of one of them.\<close>

lemma slot_other:
  assumes "unaliased s" "sh_hashes s' = sh_hashes s" "fmlookup (sh_hashes s) h = Some m"
    and "\<And>m'. m' \<noteq> m \<Longrightarrow> sh_maps s' m' = sh_maps s m'"
    and "\<And>i'. i' \<noteq> i \<Longrightarrow> fmlookup (sm_Peers (sh_maps s' m)) i' = fmlookup (sm_Peers (sh_maps s m)) i'"
    and "key \<noteq> (h, i)"
  shows "slot s' key = slot s key"
proof (cases "fmlookup (sh_hashes s) (fst key)")
  case None
  then show ?thesis by (simp add: slot_def assms(2) case_prod_beta)
next
  case (Some m')
  show ?thesis
  proof (cases "m' = m")
    case True
    then have "fst key = h" using unaliased_maps [OF assms(1) Some assms(3)] by blast
    with assms(6) have "snd key \<noteq> i" by (cases key) simp
    with Some True assms(5) show ?thesis by (simp add: slot_def assms(2) case_prod_beta)
  next
    case False
    with Some assms(4) show ?thesis by (simp add: slot_def assms(2) case_prod_beta)
  qed
qed

lemma own_step_idle:
  assumes "unaliased s" "stage E s0 g0 g' s" "\<forall>l. g' \<noteq> DropFree l"
    and "in_counters g' \<and> \<not> in_counters g \<Longrightarrow> entry s0 (op_key g0) = op_entry 0 g0 (entry s0 (op_key g0))"
    and "in_stats g' \<and> \<not> in_stats g \<Longrightarrow> entry s0 (op_key g0) = op_entry 0 g0 (entry s0 (op_key g0))"
  shows "own_step E e s0 g0 g s g' s"
  using assms by (auto simp: own_step_def own_gain_def gain_def)

section \<open>The steps of \<open>Save\<close>\<close>

lemma store_counts_gain:
  "sm_Complete (store_counts x p (sa_complete a) pm) = sm_Complete pm + gain seeds (SaveLookup a) (if x then Some p else None)"
  "sm_Incomplete (store_counts x p (sa_complete a) pm) = sm_Incomplete pm + gain leeches (SaveLookup a) (if x then Some p else None)"
  "sm_Peers (store_counts x p c pm) = sm_Peers pm"
  by (simp_all add: store_counts_def gain_def seeds_def leeches_def written_peer_def)

lemma save_stats_gain:
  "Seeds (save_stats x p ip (sa_complete a) st) = Seeds st + gain seeds (SaveLookup a) (if x then Some p else None)"
  "Leeches (save_stats x p ip (sa_complete a) st) = Leeches st + gain leeches (SaveLookup a) (if x then Some p else None)"
  by (simp_all add: save_stats_def add_Seeds_def add_Leeches_def map_IPStats_def Let_def gain_def seeds_def leeches_def
      written_peer_def)

lemma store_own:
  assumes "unaliased s" "fmlookup (sh_hashes s) (sa_hash a) = Some m" "intact s0 (sa_hash a, sa_id a) s"
    and claims: "claims s (sa_hash a) (sa_id a) l s1" and x: "x = (fmlookup (sm_Peers (sh_maps s m)) (sa_id a) \<noteq> None)"
    and l: "x \<and> fmlookup (sm_Peers (sh_maps s m)) (sa_id a) = Some l \<and> s1 = s \<or>
      \<not> x \<and> (l \<in> set (sh_free s) \<or> sh_npeers s \<le> l)"
    and s': "s' = set_map m (store_counts x (sh_peers s1 l) (sa_complete a)
        ((sh_maps s m)\<lparr>sm_Peers := fmupd (sa_id a) l (sm_Peers (sh_maps s m))\<rparr>)) s1"
  shows "own_step E e s0 (SaveLookup a) (SaveStore a m found) s (SaveCount a x l) s'"
proof -
  let ?key = "(sa_hash a, sa_id a)"
  have c: "sh_hashes s1 = sh_hashes s" "sh_maps s1 = sh_maps s" "sh_nmaps s1 = sh_nmaps s" "sh_stats s1 = sh_stats s"
    "\<And>l'. l' \<noteq> l \<Longrightarrow> sh_peers s1 l' = sh_peers s l'" "sh_npeers s \<le> sh_npeers s1" "set (sh_free s1) \<subseteq> set (sh_free s)"
    using claims unfolding claims_def by blast+
  have sel: "sh_hashes s' = sh_hashes s" "sh_nmaps s' = sh_nmaps s" "sh_stats s' = sh_stats s" "sh_peers s' = sh_peers s1"
    "sh_npeers s' = sh_npeers s1" "sh_free s' = sh_free s1" "\<And>m'. m' \<noteq> m \<Longrightarrow> sh_maps s' m' = sh_maps s m'"
    "sm_Peers (sh_maps s' m) = fmupd (sa_id a) l (sm_Peers (sh_maps s m))"
    by (simp_all add: s' set_map_def c store_counts_def)
  note saved = saved_shared_view(1) [OF assms(1,2) claims, of e x]
  have un: "unaliased s'"
    by (rule unaliased_cong [OF saved])
      (auto simp: sel saved_shared_def Let_def count_stats_def set_map_def store_counts_def c s')
  have old: "entry s0 ?key = (if x then Some (sh_peers s1 l) else None)"
    using assms(3) l x by (auto simp: intact_def entry_def slot_map [OF assms(2)])
  have new: "slot s' ?key = Some l" using slot_map [of s' "sa_hash a" m] assms(2) by (simp add: sel)
  have st: "stage E s0 (SaveLookup a) (SaveCount a x l) s'"
    using old new by (simp add: placed_def sel)
  have other: "slot s' key = slot s key" if "key \<noteq> ?key" for key
    by (rule slot_other [OF assms(1) sel(1) assms(2) sel(7) _ that]) (simp_all add: sel)
  have mine: "slot s ?key = Some k \<or> k \<in> set (sh_free s) \<or> sh_npeers s \<le> k"
    if "sh_peers s' k \<noteq> sh_peers s k \<or> slot s' ?key = Some k" for k
  proof -
    have "k = l" using that c(5) [of k] new by (metis option.inject sel(4))
    with l show ?thesis by (auto simp: slot_map [OF assms(2)])
  qed
  have gain: "sm_Complete (sh_maps s' m') = sm_Complete (sh_maps s m') +
      own_gain s0 (SaveLookup a) seeds (fmlookup (sh_hashes s) (sa_hash a) = Some m')"
    "sm_Incomplete (sh_maps s' m') = sm_Incomplete (sh_maps s m') +
      own_gain s0 (SaveLookup a) leeches (fmlookup (sh_hashes s) (sa_hash a) = Some m')" for m'
  proof -
    note g = store_counts_gain(1,2) [of x "sh_peers s1 l" a
      "(sh_maps s m)\<lparr>sm_Peers := fmupd (sa_id a) l (sm_Peers (sh_maps s m))\<rparr>"]
    show "sm_Complete (sh_maps s' m') = sm_Complete (sh_maps s m') +
        own_gain s0 (SaveLookup a) seeds (fmlookup (sh_hashes s) (sa_hash a) = Some m')"
      "sm_Incomplete (sh_maps s' m') = sm_Incomplete (sh_maps s m') +
        own_gain s0 (SaveLookup a) leeches (fmlookup (sh_hashes s) (sa_hash a) = Some m')"
      using assms(2) sel(7) [of m'] g by (cases "m' = m"; simp add: own_gain_def old s' set_map_def)+
  qed
  show ?thesis
    unfolding own_step_def using st un other mine gain c(6,7) by (auto simp: sel own_gain_def)
qed

lemma save_store_own:
  assumes "unaliased s" "fmlookup (sh_hashes s) (sa_hash a) = Some m" "intact s0 (sa_hash a, sa_id a) s"
    and found: "found = slot s (sa_hash a, sa_id a)" and step: "goroutine_step e (SaveStore a m found) s = (g', s')"
  shows "own_step E e s0 (SaveLookup a) (SaveStore a m found) s g' s'"
proof (cases found)
  case (Some l)
  then have l: "fmlookup (sm_Peers (sh_maps s m)) (sa_id a) = Some l" using found by (simp add: slot_map [OF assms(2)])
  have g': "g' = SaveCount a True l" "s' = set_map m (store_counts True (sh_peers s l) (sa_complete a)
      ((sh_maps s m)\<lparr>sm_Peers := fmupd (sa_id a) l (sm_Peers (sh_maps s m))\<rparr>)) s"
    using step Some l by (auto simp: save_store_def fmupd_same)
  show ?thesis
    unfolding g'(1)
    by (rule store_own [OF assms(1-3) claims_own [OF assms(1) ownsI [OF assms(2) l]] _ _ g'(2)]) (simp_all add: l)
next
  case None
  then have n: "fmlookup (sm_Peers (sh_maps s m)) (sa_id a) = None" using found by (simp add: slot_map [OF assms(2)])
  obtain l s1 where t: "take_peer e s = (l, s1)" by fastforce
  have cl: "claims s (sa_hash a) (sa_id a) l s1" using take_peer_claims [OF assms(1) t] by blast
  have k: "sh_maps s1 = sh_maps s" using take_peer_keeps(2) [of e s] by (simp add: t)
  have l: "l \<in> set (sh_free s) \<or> sh_npeers s \<le> l"
    using t by (auto simp: take_peer_def alloc_peer_def split: option.splits if_splits)
  have g': "g' = SaveCount a False l" "s' = set_map m (store_counts False (sh_peers s1 l) (sa_complete a)
      ((sh_maps s m)\<lparr>sm_Peers := fmupd (sa_id a) l (sm_Peers (sh_maps s m))\<rparr>)) s1"
    using step None by (simp_all add: save_store_def t k)
  show ?thesis
    unfolding g'(1)
    by (rule store_own [OF assms(1-3) cl _ _ g'(2)]) (simp_all add: n l)
qed

lemma save_count_own:
  assumes "unaliased s" "placed s0 a x l s" "goroutine_step e (SaveCount a x l) s = (g', s')"
  shows "own_step E e s0 (SaveLookup a) (SaveCount a x l) s g' s'"
proof -
  have s': "g' = SaveWrite a l" "s' = count_stats e (save_stats x (sh_peers s l) (sa_ip a) (sa_complete a)) s"
    using assms(3) by auto
  have sel: "sh_hashes s' = sh_hashes s" "sh_maps s' = sh_maps s" "sh_nmaps s' = sh_nmaps s" "sh_peers s' = sh_peers s"
    "sh_npeers s' = sh_npeers s" "sh_free s' = sh_free s"
    by (simp_all add: s' count_stats_def)
  have un: "unaliased s'" by (rule unaliased_cong [OF assms(1)]) (simp_all add: sel)
  have slots: "slot s' key = slot s key" for key by (rule slot_cong) (simp_all add: sel)
  have "placed s0 a x l s'" using assms(2) by (simp add: placed_def slots sel)
  moreover have "Seeds (sh_stats s') = Seeds (sh_stats s) + own_gain s0 (SaveLookup a) seeds (\<not> fast e)"
    "Leeches (sh_stats s') = Leeches (sh_stats s) + own_gain s0 (SaveLookup a) leeches (\<not> fast e)"
    using assms(2) save_stats_gain [of x "sh_peers s l" "sa_ip a" a "sh_stats s"]
    by (simp_all add: s'(2) count_stats_def own_gain_def placed_def)
  ultimately show ?thesis
    unfolding own_step_def using un slots by (auto simp: sel s'(1) own_gain_def)
qed

lemma save_write_own:
  assumes "unaliased s" "placed s0 a x l s" "goroutine_step e (SaveWrite a l) s = (g', s')" "e \<in> E"
  shows "own_step E e s0 (SaveLookup a) (SaveWrite a l) s g' s'"
proof -
  have s': "g' = Finished" "s' = s\<lparr>sh_peers := (sh_peers s)(l := written_peer (now e) a)\<rparr>"
    using assms(3) by (auto simp: written_peer_eq)
  have un: "unaliased s'" by (rule unaliased_cong [OF assms(1)]) (simp_all add: s')
  have slots: "slot s' key = slot s key" for key by (rule slot_cong) (simp_all add: s')
  have l: "slot s (sa_hash a, sa_id a) = Some l" using assms(2) by (simp add: placed_def)
  have "entry s' (sa_hash a, sa_id a) = Some (written_peer (now e) a)"
    using l slots [of "(sa_hash a, sa_id a)"] by (simp add: entry_def s'(2))
  with assms(4) have "stage E s0 (SaveLookup a) g' s'" by (auto simp: s'(1))
  then show ?thesis
    unfolding own_step_def using un slots l by (auto simp: s' own_gain_def simp del: stage.simps)
qed

lemma save_step_own:
  assumes "unaliased s" "fmlookup (sh_hashes s) (sa_hash a) = Some m" "stage E s0 (SaveLookup a) g s"
    and "goroutine_step e g s = (g', s')" "e \<in> E"
  shows "own_step E e s0 (SaveLookup a) g s g' s'"
proof -
  let ?key = "(sa_hash a, sa_id a)"
  from assms(2,3) consider (lookup) "g = SaveLookup a" "intact s0 ?key s" | (find) "g = SaveFind a m" "intact s0 ?key s"
    | (store) found where "g = SaveStore a m found" "found = slot s ?key" "intact s0 ?key s"
    | (count) x l where "g = SaveCount a x l" "placed s0 a x l s"
    | (writing) x l where "g = SaveWrite a l" "placed s0 a x l s" | (finished) "g = Finished"
    by (cases g) auto
  then show ?thesis
  proof cases
    case lookup
    then show ?thesis using assms by (auto intro!: own_step_idle)
  next
    case find
    then show ?thesis using assms by (auto intro!: own_step_idle simp: slot_map)
  next
    case store
    then show ?thesis using assms save_store_own [of s a m s0 found e g' s'] by simp
  next
    case count
    then show ?thesis using assms save_count_own [of s s0 a x l e g' s'] by simp
  next
    case writing
    then show ?thesis using assms save_write_own [of s s0 a x l e g' s' E] by simp
  next
    case finished
    then show ?thesis using assms by (auto intro!: own_step_idle)
  qed
qed

section \<open>The steps of \<open>Drop\<close>\<close>

lemma remove_peer_gain:
  "sm_Complete (remove_peer p i pm) = sm_Complete pm + gain seeds (DropLookup h i) (Some p)"
  "sm_Incomplete (remove_peer p i pm) = sm_Incomplete pm + gain leeches (DropLookup h i) (Some p)"
  "sm_Peers (remove_peer p i pm) = fmdrop i (sm_Peers pm)"
  by (simp_all add: remove_peer_def gain_def seeds_def leeches_def Let_def)

lemma leave_stats_gain:
  "Seeds (leave_stats p st) = Seeds st + gain seeds (DropLookup h i) (Some p)"
  "Leeches (leave_stats p st) = Leeches st + gain leeches (DropLookup h i) (Some p)"
  by (simp_all add: leave_stats_def add_Seeds_def add_Leeches_def map_IPStats_def gain_def seeds_def leeches_def)

lemma remove_own:
  assumes "unaliased s" "fmlookup (sh_hashes s) h = Some m" "intact s0 (h, i) s"
    and l: "fmlookup (sm_Peers (sh_maps s m)) i = Some l"
    and s': "s' = set_map m (remove_peer (sh_peers s l) i (sh_maps s m)) s"
  shows "own_step E e s0 (DropLookup h i) (DropRemove i m) s (DropFree l) s'"
proof -
  let ?r = "removed_shared e i m l s"
  note sv = removed_shared_view [OF assms(1,2) l, where e = e]
  have sel: "sh_hashes s' = sh_hashes s" "sh_nmaps s' = sh_nmaps s" "sh_stats s' = sh_stats s" "sh_peers s' = sh_peers s"
    "sh_npeers s' = sh_npeers s" "sh_free s' = sh_free s" "\<And>m'. m' \<noteq> m \<Longrightarrow> sh_maps s' m' = sh_maps s m'"
    "sm_Peers (sh_maps s' m) = fmdrop i (sm_Peers (sh_maps s m))" "sh_maps s' = sh_maps ?r"
    by (simp_all add: s' set_map_def removed_shared_def free_peer_def count_stats_def remove_peer_gain(3))
  note tl = unaliased_free_tl [OF sv(1), of l "sh_free s", OF removed_shared_sel(2)]
  have un: "unaliased s'"
    by (rule unaliased_cong [OF tl(1)]) (simp_all add: sel(1-6,9) removed_shared_sel(1-6))
  have own: "owns s' h' i' k = owns (?r\<lparr>sh_free := sh_free s\<rparr>) h' i' k" for h' i' k
    by (rule owns_cong) (simp_all add: sel(1,9) removed_shared_sel(1))
  have pe: "pending s' l" using tl(2) by (simp add: pending_def own sel(5,6) removed_shared_sel(3))
  have mine: "slot s (h, i) = Some l" "slot s' (h, i) = None"
    using l assms(2) slot_map [of s' h m] by (simp_all add: slot_map sel(1,8))
  have old: "entry s0 (h, i) = Some (sh_peers s l)" using assms(3) mine(1) by (simp add: intact_def entry_def)
  have other: "slot s' key = slot s key" if "key \<noteq> (h, i)" for key
    by (rule slot_other [OF assms(1) sel(1) assms(2) sel(7) _ that]) (simp_all add: sel(8))
  have gain: "sm_Complete (sh_maps s' m') = sm_Complete (sh_maps s m') +
        own_gain s0 (DropLookup h i) seeds (fmlookup (sh_hashes s) h = Some m')"
      "sm_Incomplete (sh_maps s' m') = sm_Incomplete (sh_maps s m') +
        own_gain s0 (DropLookup h i) leeches (fmlookup (sh_hashes s) h = Some m')" for m'
    using assms(2) sel(7) [of m'] remove_peer_gain(1,2) [of "sh_peers s l" i "sh_maps s m" h]
    by (cases "m' = m"; simp add: own_gain_def old s' set_map_def)+
  show ?thesis
    unfolding own_step_def using un other mine gain pe old by (auto simp: sel(1,3-6) own_gain_def)
qed

lemma free_own:
  assumes "unaliased s" "pending s l" "slot s (h, i) = None" "entry s0 (h, i) = Some (sh_peers s l)"
    and "goroutine_step e (DropFree l) s = (g', s')" "e \<in> E"
  shows "own_step E e s0 (DropLookup h i) (DropFree l) s g' s'"
proof -
  have s': "g' = Finished" "s' = free_peer l (count_stats e (leave_stats (sh_peers s l)) s)"
    using assms(5) by auto
  have sel: "sh_hashes s' = sh_hashes s" "sh_maps s' = sh_maps s" "sh_peers s' = sh_peers s"
    "sh_npeers s' = sh_npeers s" "sh_free s' = l # sh_free s"
    by (simp_all add: s' count_stats_def free_peer_def)
  have un: "unaliased s'"
    by (rule unaliased_cong [OF unaliased_free_peer [OF assms(1,2)]]) (simp_all add: s' free_peer_def count_stats_def)
  have slots: "slot s' key = slot s key" for key by (rule slot_cong) (simp_all add: sel)
  have "entry s' (h, i) = None" using assms(3) by (simp add: entry_def slots)
  with assms(6) have "stage E s0 (DropLookup h i) g' s'" by (auto simp: s'(1))
  moreover have "Seeds (sh_stats s') = Seeds (sh_stats s) + own_gain s0 (DropLookup h i) seeds (\<not> fast e)"
    "Leeches (sh_stats s') = Leeches (sh_stats s) + own_gain s0 (DropLookup h i) leeches (\<not> fast e)"
    using leave_stats_gain [of "sh_peers s l" "sh_stats s" h i]
    by (simp_all add: s'(2) count_stats_def free_peer_def own_gain_def assms(4))
  ultimately show ?thesis
    unfolding own_step_def using un slots assms(3) by (auto simp: sel s'(1) own_gain_def simp del: stage.simps)
qed

lemma drop_step_own:
  assumes "unaliased s" "stage E s0 (DropLookup h i) g s"
    and "\<And>l. g = DropFree l \<Longrightarrow> pending s l" "goroutine_step e g s = (g', s')" "e \<in> E"
  shows "own_step E e s0 (DropLookup h i) g s g' s'"
proof -
  from assms(2) consider (lookup) "g = DropLookup h i" "intact s0 (h, i) s"
    | (remove) m where "g = DropRemove i m" "fmlookup (sh_hashes s) h = Some m" "intact s0 (h, i) s"
    | (free) l where "g = DropFree l" "slot s (h, i) = None" "entry s0 (h, i) = Some (sh_peers s l)" | (finished) "g = Finished"
    by (cases g) auto
  then show ?thesis
  proof cases
    case lookup
    show ?thesis
    proof (cases "fmlookup (sh_hashes s) h")
      case None
      then have "entry s0 (h, i) = None" "entry s (h, i) = None"
        using lookup(2) by (auto simp: intact_def entry_def slot_def)
      with assms lookup None show ?thesis by (auto intro!: own_step_idle)
    next
      case (Some m)
      with assms lookup show ?thesis by (auto intro!: own_step_idle)
    qed
  next
    case remove
    show ?thesis
    proof (cases "fmlookup (sm_Peers (sh_maps s m)) i")
      case None
      then have "entry s0 (h, i) = None" "entry s (h, i) = None"
        using remove(3) by (simp_all add: intact_def entry_def slot_map [OF remove(2)])
      with assms remove(1) None show ?thesis by (auto intro!: own_step_idle)
    next
      case (Some l)
      with assms remove_own [OF assms(1) remove(2,3) Some refl] show ?thesis by (auto simp: remove(1))
    qed
  next
    case free
    with assms free_own [of s l h i s0 e g' s' E] show ?thesis by simp
  next
    case finished
    with assms show ?thesis by (auto intro!: own_step_idle)
  qed
qed

lemma client_step:
  assumes "known (fmdom (sh_hashes s)) g0" "unaliased s" "stage E s0 g0 g s"
    and "\<And>l. g = DropFree l \<Longrightarrow> pending s l" "goroutine_step e g s = (g', s')" "e \<in> E"
  shows "own_step E e s0 g0 g s g' s'"
  using assms save_step_own [of s _ _ E s0 g e g' s'] drop_step_own [of s E s0 _ _ g e g' s']
  by (cases g0) (auto simp: known_def fmlookup_dom_iff)

section \<open>All of them, at any point of any schedule\<close>

definition tally ::
  "(peer option \<Rightarrow> 'a::ring_1) \<Rightarrow> shared \<Rightarrow> (goroutine \<Rightarrow> goroutine \<Rightarrow> bool) \<Rightarrow> goroutine list \<Rightarrow> goroutine list \<Rightarrow> 'a" where
  "tally f s0 Q gs0 gs =
     (\<Sum>k < length gs. if Q (gs0 ! k) (gs ! k) then gain f (gs0 ! k) (entry s0 (op_key (gs0 ! k))) else 0)"

definition progress :: "env set \<Rightarrow> bool \<Rightarrow> shared \<Rightarrow> goroutine list \<Rightarrow> goroutine list \<Rightarrow> shared \<Rightarrow> bool" where
  "progress E fa s0 gs0 gs s \<longleftrightarrow>
     length gs = length gs0 \<and> unaliased s \<and> sh_hashes s = sh_hashes s0 \<and>
     (\<forall>k < length gs. stage E s0 (gs0 ! k) (gs ! k) s) \<and>
     (\<forall>k < length gs. \<forall>l. gs ! k = DropFree l \<longrightarrow> pending s l) \<and>
     (\<forall>k < length gs. \<forall>j < length gs. \<forall>l. gs ! k = DropFree l \<and> gs ! j = DropFree l \<longrightarrow> k = j) \<and>
     (\<forall>key. key \<notin> op_key ` set gs0 \<longrightarrow> intact s0 key s) \<and>
     (\<forall>h m. fmlookup (sh_hashes s0) h = Some m \<longrightarrow>
        sm_Complete (sh_maps s m) = sm_Complete (sh_maps s0 m) +
          tally seeds s0 (\<lambda>g0 g. op_hash g0 = h \<and> in_counters g) gs0 gs \<and>
        sm_Incomplete (sh_maps s m) = sm_Incomplete (sh_maps s0 m) +
          tally leeches s0 (\<lambda>g0 g. op_hash g0 = h \<and> in_counters g) gs0 gs) \<and>
     Seeds (sh_stats s) = Seeds (sh_stats s0) + tally seeds s0 (\<lambda>g0 g. \<not> fa \<and> in_stats g) gs0 gs \<and>
     Leeches (sh_stats s) = Leeches (sh_stats s0) + tally leeches s0 (\<lambda>g0 g. \<not> fa \<and> in_stats g) gs0 gs"

lemma tally_update:
  assumes "k < length gs"
  shows "tally f s0 Q gs0 (gs[k := g']) = tally f s0 Q gs0 gs +
    ((if Q (gs0 ! k) g' then gain f (gs0 ! k) (entry s0 (op_key (gs0 ! k))) else 0) -
     (if Q (gs0 ! k) (gs ! k) then gain f (gs0 ! k) (entry s0 (op_key (gs0 ! k))) else 0))"
proof -
  let ?v = "\<lambda>gs j. if Q (gs0 ! j) (gs ! j) then gain f (gs0 ! j) (entry s0 (op_key (gs0 ! j))) else 0"
  have "sum (?v (gs[k := g'])) ({..<length gs} - {k}) = sum (?v gs) ({..<length gs} - {k})"
    by (rule sum.cong) auto
  then show ?thesis
    using assms by (simp add: tally_def sum.remove [of "{..<length gs}" k])
qed

lemma in_counters_step: "goroutine_step e g s = (g', s') \<Longrightarrow> in_counters g \<Longrightarrow> in_counters g'"
  by (cases g) auto

lemma in_stats_step: "goroutine_step e g s = (g', s') \<Longrightarrow> in_stats g \<Longrightarrow> in_stats g'"
  by (cases g) auto

text \<open>What a step of one operation leaves of the others.\<close>

lemma own_step_elsewhere:
  assumes "own_step E e s0 g0 g s g' s'" "unaliased s"
  shows "slot s key = Some l \<Longrightarrow> key \<noteq> op_key g0 \<Longrightarrow> sh_peers s' l = sh_peers s l"
    and "pending s l \<Longrightarrow> sh_peers s' l = sh_peers s l"
    and "pending s l \<Longrightarrow> g \<noteq> DropFree l \<Longrightarrow> pending s' l"
proof -
  have w: "slot s (op_key g0) = Some l \<or> l \<in> set (sh_free s) \<or> sh_npeers s \<le> l"
    if "sh_peers s' l \<noteq> sh_peers s l \<or> slot s' (op_key g0) = Some l" for l
    using assms(1) that unfolding own_step_def by blast
  show "sh_peers s' l = sh_peers s l" if "slot s key = Some l" "key \<noteq> op_key g0"
    using w [of l] slot_unaliased [OF assms(2) that(1)] that(2) by (metis leD)
  have free: "slot s key' \<noteq> Some l" "\<not> sh_npeers s \<le> l" "l \<notin> set (sh_free s)" if "pending s l" for key'
    using that by (auto simp: pending_def slot_owns)
  show "sh_peers s' l = sh_peers s l" if "pending s l"
    using w [of l] free [OF that] by blast
  show "pending s' l" if p: "pending s l" "g \<noteq> DropFree l"
  proof -
    have "sh_npeers s \<le> sh_npeers s'" "l \<notin> set (sh_free s')"
      using assms(1) p(2) free(3) [OF p(1)] unfolding own_step_def by blast+
    moreover have "slot s' key' \<noteq> Some l" for key'
    proof (cases "key' = op_key g0")
      case True
      with w [of l] free [OF p(1)] show ?thesis by blast
    next
      case False
      with assms(1) have "slot s' key' = slot s key'" unfolding own_step_def by blast
      with free(1) [OF p(1)] show ?thesis by simp
    qed
    ultimately show ?thesis using p(1) slot_owns [of s' "(_, _)" l] by (auto simp: pending_def)
  qed
qed

lemma progressD:
  assumes "progress E fa s0 gs0 gs s"
  shows "length gs = length gs0" "unaliased s" "sh_hashes s = sh_hashes s0"
    and "k < length gs \<Longrightarrow> stage E s0 (gs0 ! k) (gs ! k) s"
    and "k < length gs \<Longrightarrow> gs ! k = DropFree l \<Longrightarrow> pending s l"
    and "k < length gs \<Longrightarrow> j < length gs \<Longrightarrow> gs ! k = DropFree l \<Longrightarrow> gs ! j = DropFree l \<Longrightarrow> k = j"
    and "key \<notin> op_key ` set gs0 \<Longrightarrow> intact s0 key s"
    and "fmlookup (sh_hashes s0) h = Some m \<Longrightarrow> sm_Complete (sh_maps s m) = sm_Complete (sh_maps s0 m) +
      tally seeds s0 (\<lambda>g0 g. op_hash g0 = h \<and> in_counters g) gs0 gs"
    and "fmlookup (sh_hashes s0) h = Some m \<Longrightarrow> sm_Incomplete (sh_maps s m) = sm_Incomplete (sh_maps s0 m) +
      tally leeches s0 (\<lambda>g0 g. op_hash g0 = h \<and> in_counters g) gs0 gs"
    and "Seeds (sh_stats s) = Seeds (sh_stats s0) + tally seeds s0 (\<lambda>g0 g. \<not> fa \<and> in_stats g) gs0 gs"
    and "Leeches (sh_stats s) = Leeches (sh_stats s0) + tally leeches s0 (\<lambda>g0 g. \<not> fa \<and> in_stats g) gs0 gs"
  using assms unfolding progress_def by blast+

text \<open>The gain of a step is what it changes in the tally.\<close>

lemma tally_step:
  assumes "k < length gs" "goroutine_step e' (gs ! k) s = (g', s')"
  shows "tally f s0 (\<lambda>g0 g. P g0 \<and> in_counters g) gs0 (gs[k := g']) =
      tally f s0 (\<lambda>g0 g. P g0 \<and> in_counters g) gs0 gs +
      own_gain s0 (gs0 ! k) f (P (gs0 ! k) \<and> in_counters g' \<and> \<not> in_counters (gs ! k))"
    and "tally f s0 (\<lambda>g0 g. P g0 \<and> in_stats g) gs0 (gs[k := g']) =
      tally f s0 (\<lambda>g0 g. P g0 \<and> in_stats g) gs0 gs +
      own_gain s0 (gs0 ! k) f (P (gs0 ! k) \<and> in_stats g' \<and> \<not> in_stats (gs ! k))"
  using in_counters_step [OF assms(2)] in_stats_step [OF assms(2)]
  unfolding tally_update [OF assms(1)] by (auto simp: own_gain_def)

lemma progress_step:
  assumes inv: "progress E fa s0 gs0 gs s" and keys: "distinct (map op_key gs0)"
    and starts: "\<forall>g \<in> set gs0. known (fmdom (sh_hashes s0)) g"
    and k: "k < length gs" and step: "goroutine_step e' (gs ! k) s = (g', s')"
    and e': "e' \<in> E" "fast e' = fa"
  shows "progress E fa s0 gs0 (gs[k := g']) s'"
proof -
  note i = progressD [OF inv]
  let ?g0 = "gs0 ! k" and ?gs = "gs[k := g']"
  have g0: "?g0 \<in> set gs0" "known (fmdom (sh_hashes s)) ?g0"
    using starts k i(1) by (simp_all add: i(3))
  have own: "own_step E e' s0 ?g0 (gs ! k) s g' s'"
    by (rule client_step [OF g0(2) i(2) i(4) [OF k] i(5) [OF k] step e'(1)])
  note elsewhere = own_step_elsewhere [OF own i(2)]
  have o: "stage E s0 ?g0 g' s'" "unaliased s'" "sh_hashes s' = sh_hashes s0"
    "\<And>key. key \<noteq> op_key ?g0 \<Longrightarrow> slot s' key = slot s key"
    "\<And>l. g' = DropFree l \<Longrightarrow> slot s (op_key ?g0) = Some l \<and> pending s' l"
    "\<And>m. sm_Complete (sh_maps s' m) = sm_Complete (sh_maps s m) +
        own_gain s0 ?g0 seeds (fmlookup (sh_hashes s) (op_hash ?g0) = Some m \<and> in_counters g' \<and> \<not> in_counters (gs ! k))"
    "\<And>m. sm_Incomplete (sh_maps s' m) = sm_Incomplete (sh_maps s m) +
        own_gain s0 ?g0 leeches (fmlookup (sh_hashes s) (op_hash ?g0) = Some m \<and> in_counters g' \<and> \<not> in_counters (gs ! k))"
    "Seeds (sh_stats s') = Seeds (sh_stats s) + own_gain s0 ?g0 seeds (\<not> fa \<and> in_stats g' \<and> \<not> in_stats (gs ! k))"
    "Leeches (sh_stats s') = Leeches (sh_stats s) + own_gain s0 ?g0 leeches (\<not> fa \<and> in_stats g' \<and> \<not> in_stats (gs ! k))"
    using own unfolding own_step_def e'(2) i(3) by blast+
  have keys': "op_key (gs0 ! j) \<noteq> op_key ?g0" if "j < length gs" "j \<noteq> k" for j
    using keys that k i(1) by (simp add: distinct_conv_nth)
  have stages: "stage E s0 (gs0 ! j) (?gs ! j) s'" if j: "j < length ?gs" for j
  proof (cases "j = k")
    case True
    with o(1) k show ?thesis by simp
  next
    case False
    with j have j': "j < length gs" by simp
    have "stage E s0 (gs0 ! j) (gs ! j) s'"
      by (rule stage_frame [OF i(4) [OF j']])
        (use o(3,4) i(3) keys' [OF j' False] elsewhere(1,2) i(5) [OF j'] in auto)
    with False show ?thesis by simp
  qed
  have pendings: "pending s' l" if j: "j < length ?gs" "?gs ! j = DropFree l" for j l
  proof (cases "j = k")
    case True
    with j k o(5) show ?thesis by simp
  next
    case False
    with j have j': "j < length gs" "gs ! j = DropFree l" by simp_all
    with i(6) k False have "gs ! k \<noteq> DropFree l" by blast
    with elsewhere(3) i(5) [OF j'] show ?thesis by blast
  qed
  have distinct: "j1 = j2" if j: "j1 < length ?gs" "j2 < length ?gs" "?gs ! j1 = DropFree l" "?gs ! j2 = DropFree l" for j1 j2 l
  proof -
    have "\<not> (j < length gs \<and> j \<noteq> k \<and> gs ! j = DropFree l \<and> g' = DropFree l)" for j
      using o(5) [of l] i(5) [of j l] by (auto simp: pending_def slot_owns)
    then show ?thesis
      using j k i(6) [of j1 j2 l] by (auto simp: nth_list_update split: if_splits)
  qed
  have rest: "intact s0 key s'" if key: "key \<notin> op_key ` set gs0" for key
  proof -
    have "key \<noteq> op_key ?g0" using key g0(1) by blast
    then have same: "slot s' key = slot s key" and "\<And>l. slot s key = Some l \<Longrightarrow> sh_peers s' l = sh_peers s l"
      using o(4) elsewhere(1) by blast+
    then have "entry s' key = entry s key" unfolding entry_def same by (cases "slot s key") simp_all
    with same i(7) [OF key] show ?thesis by (simp add: intact_def)
  qed
  have "fmlookup (sh_hashes s) (op_hash ?g0) = Some m \<longleftrightarrow> op_hash ?g0 = h" if "fmlookup (sh_hashes s0) h = Some m" for h m
    using that unaliased_maps [OF i(2)] by (metis i(3))
  then have "sm_Complete (sh_maps s' m) = sm_Complete (sh_maps s0 m) +
        tally seeds s0 (\<lambda>g0 g. op_hash g0 = h \<and> in_counters g) gs0 ?gs \<and>
      sm_Incomplete (sh_maps s' m) = sm_Incomplete (sh_maps s0 m) +
        tally leeches s0 (\<lambda>g0 g. op_hash g0 = h \<and> in_counters g) gs0 ?gs"
    if "fmlookup (sh_hashes s0) h = Some m" for h m
    unfolding tally_step(1) [OF k step] o(6,7) i(8) [OF that] i(9) [OF that] using that by simp
  moreover have "Seeds (sh_stats s') = Seeds (sh_stats s0) + tally seeds s0 (\<lambda>g0 g. \<not> fa \<and> in_stats g) gs0 ?gs"
    "Leeches (sh_stats s') = Leeches (sh_stats s0) + tally leeches s0 (\<lambda>g0 g. \<not> fa \<and> in_stats g) gs0 ?gs"
    unfolding tally_step(2) [OF k step] o(8,9) i(10,11) by simp_all
  ultimately show ?thesis
    unfolding progress_def using o(2,3) i(1) stages pendings distinct rest by (intro conjI allI impI) auto
qed

lemma progress_start:
  assumes "unaliased s" "\<forall>g \<in> set gs. op_starts g"
  shows "progress E fa s gs gs s"
proof -
  have op: "stage E s g g s \<and> g \<noteq> DropFree l \<and> \<not> in_counters g \<and> \<not> in_stats g" if "op_starts g" for t g l
    using that by (cases g) (simp_all add: intact_def)
  have "op_starts (gs ! k)" if "k < length gs" for k using assms(2) that by simp
  with op assms(1) show ?thesis by (auto simp: progress_def tally_def intact_def)
qed

lemma progress_interleave:
  assumes "progress E fa s0 gs0 gs s" "distinct (map op_key gs0)" "\<forall>g \<in> set gs0. known (fmdom (sh_hashes s0)) g"
    and "\<forall>x \<in> set sched. fst x \<in> E \<and> fast (fst x) = fa"
  shows "progress E fa s0 gs0 (fst (interleave sched gs s)) (snd (interleave sched gs s))"
  using assms(1,4)
proof (induction sched gs s rule: interleave.induct)
  case (2 e' k sched gs s)
  show ?case
  proof (cases "k < length gs")
    case True
    obtain g' s' where step: "goroutine_step e' (gs ! k) s = (g', s')" by fastforce
    from progress_step [OF 2(3) assms(2,3) True step] 2(4) have "progress E fa s0 gs0 (gs[k := g']) s'" by simp
    with 2(1) [OF True] 2(4) True step show ?thesis by simp
  next
    case False
    with 2 show ?thesis by simp
  qed
qed simp

text \<open>Every step of an operation brings it closer to its end.\<close>

fun steps_left :: "goroutine \<Rightarrow> nat" where
  "steps_left (SaveLookup a) = 6"
| "steps_left (SaveCreate a) = 5"
| "steps_left (SaveFind a m) = 4"
| "steps_left (SaveStore a m found) = 3"
| "steps_left (SaveCount a x l) = 2"
| "steps_left (SaveWrite a l) = 1"
| "steps_left (DropLookup h i) = 3"
| "steps_left (DropRemove i m) = 2"
| "steps_left (DropFree l) = 1"
| "steps_left g = 0"

lemma steps_left_step: "steps_left (fst (goroutine_step e g s)) \<le> steps_left g - 1"
  by (cases "(e, g, s)" rule: goroutine_step.cases) (auto simp: save_store_def split: option.splits prod.splits)

lemma steps_left_interleave:
  "k < length gs \<Longrightarrow> steps_left (fst (interleave sched gs s) ! k) \<le> steps_left (gs ! k) - length (filter (\<lambda>x. snd x = k) sched)"
proof (induction sched gs s rule: interleave.induct)
  case (2 e j sched gs s)
  obtain g' s' where step: "goroutine_step e (gs ! j) s = (g', s')" by fastforce
  with steps_left_step [of e "gs ! j" s] have "steps_left g' \<le> steps_left (gs ! j) - 1" by simp
  with 2 step show ?case by (cases "j < length gs"; cases "j = k") (fastforce simp: nth_list_update)+
qed simp

text \<open>Enough steps for every operation finish all of them.\<close>

lemma fair_schedule_finishes:
  assumes "progress E fa s gs gs' s'" "interleave sched gs s = (gs', s')" "\<forall>g \<in> set gs. op_starts g"
    and "\<forall>k < length gs. 6 \<le> length (filter (\<lambda>x. snd x = k) sched)"
  shows "gs' = replicate (length gs) Finished"
proof -
  have "gs' ! k = Finished" if k: "k < length gs" for k
  proof -
    have "gs ! k \<in> set gs" using k by simp
    with assms(3) have "steps_left (gs ! k) \<le> 6" by (cases "gs ! k") auto
    with steps_left_interleave [OF k, of sched s] assms(2,4) k have "steps_left (gs' ! k) = 0" by fastforce
    moreover have "stage E s (gs ! k) (gs' ! k) s'" using progressD(1,4) [OF assms(1)] k by simp
    ultimately show ?thesis by (cases "gs' ! k") simp_all
  qed
  with progressD(1) [OF assms(1)] show ?thesis by (simp add: list_eq_iff_nth_eq)
qed

text \<open>What a finished schedule has made of the database is what the operations do one after the other.\<close>

lemma client_view: "client (mem_swarm (w_db (view ps s))) g = entry s (op_key g)"
  by (simp add: client_def entry_view)

lemma tally_finished:
  assumes "length gs = length gs0" "\<forall>g \<in> set gs. g = Finished"
  shows "tally f s0 Q gs0 gs = counted f (mem_swarm (w_db (view ps s0))) (\<lambda>g. Q g Finished) gs0"
proof -
  have "gs ! k = Finished" if "k < length gs0" for k using assms that by (metis nth_mem)
  then show ?thesis
    by (simp add: tally_def counted_def client_view sum_list_sum_nth atLeast0LessThan assms(1) cong: if_cong)
qed

lemma progress_finished:
  assumes "progress E fa s0 gs0 gs s" "\<forall>g \<in> set gs. g = Finished"
  shows "\<exists>es. length es = length gs0 \<and> set es \<subseteq> E \<and> clients_done fa (zip es gs0) (view ps s0) (view ps s)"
proof -
  note d = progressD [OF assms(1)]
  note sums = tally_finished [OF d(1) assms(2), of _ s0 _ ps]
  have "\<forall>k < length gs0. \<exists>e. e \<in> E \<and> entry s (op_key (gs0 ! k)) = op_entry (now e) (gs0 ! k) (entry s0 (op_key (gs0 ! k)))"
    using d(1,4) assms(2) by (metis (no_types, lifting) nth_mem stage.simps(9))
  then obtain es where es: "length es = length gs0" "\<And>k. k < length gs0 \<Longrightarrow> es ! k \<in> E"
    "\<And>k. k < length gs0 \<Longrightarrow> entry s (op_key (gs0 ! k)) = op_entry (now (es ! k)) (gs0 ! k) (entry s0 (op_key (gs0 ! k)))"
    unfolding Skolem_list_nth by blast
  have done1: "entry s (op_key g) = op_entry (now e) g (entry s0 (op_key g))" if "(e, g) \<in> set (zip es gs0)" for e g
    using that es(1,3) by (auto simp: in_set_zip)
  have rest: "entry s key = entry s0 key" if "key \<notin> op_key ` set gs0" for key
    using d(7) [OF that] by (simp add: intact_def)
  have lk: "fmlookup (entries (w_db (view ps s1))) h = map_option (map_view s1) (fmlookup (sh_hashes s1) h)" for s1 h
    by (simp add: view_def entries_def)
  have "w_stats (view ps s1) = sh_stats s1" for s1 by (simp add: view_def)
  then have "clients_done fa (zip es gs0) (view ps s0) (view ps s)"
    unfolding clients_done_def Let_def lk d(3) map_snd_zip [OF es(1)]
    using done1 rest d(8,9) d(10,11) by (auto simp: client_view entry_view sums map_view_def)
  moreover have "set es \<subseteq> E" using es(1,2) by (auto simp: in_set_conv_nth)
  ultimately show ?thesis using es(1) by blast
qed

lemma clients_serialise:
  assumes "unaliased s" "distinct (map op_key gs)" "\<forall>g \<in> set gs. known (fmdom (sh_hashes s)) g"
    and "\<forall>x \<in> set sched. fast (fst x) = fa" "\<forall>k < length gs. 6 \<le> length (filter (\<lambda>x. snd x = k) sched)"
  shows "\<exists>s' es w. interleave sched gs s = (replicate (length gs) Finished, s') \<and>
    length es = length gs \<and> set es \<subseteq> fst ` set sched \<and> in_turn (zip es gs) (view ps s) = Inr w \<and>
    w_db w = w_db (view ps s') \<and> Seeds (w_stats w) = Seeds (sh_stats s') \<and> Leeches (w_stats w) = Leeches (sh_stats s')"
proof -
  obtain gs' s' where run: "interleave sched gs s = (gs', s')" by fastforce
  have starts: "\<forall>g \<in> set gs. op_starts g" using assms(3) by (simp add: known_def)
  have inv: "progress (fst ` set sched) fa s gs gs' s'"
    using progress_interleave [OF progress_start [OF assms(1) starts] assms(2,3), of sched "fst ` set sched" fa] assms(4) run
    by simp
  have all: "gs' = replicate (length gs) Finished"
    using fair_schedule_finishes [OF inv run starts assms(5)] .
  then obtain es where es: "length es = length gs" "set es \<subseteq> fst ` set sched"
    "clients_done fa (zip es gs) (view ps s) (view ps s')"
    using progress_finished [OF inv, of ps] by auto
  have ready: "pool_ready (view ps s)" "hashmap (w_db (view ps s1)) \<noteq> None" "fmdom (entries (w_db (view ps s))) = fmdom (sh_hashes s)" for s1
    by (simp_all add: pool_ready_def view_def peer_pool_def entries_def)
  have "\<forall>(e, g) \<in> set (zip es gs). fast e = fa \<and> known (fmdom (entries (w_db (view ps s)))) g"
    using es(2) assms(3,4) unfolding ready(3) by (fastforce dest: set_zip_leftD set_zip_rightD)
  moreover have "distinct (map (op_key \<circ> snd) (zip es gs))"
    using assms(2) by (simp add: map_map [symmetric] map_snd_zip [OF es(1)] del: map_map)
  ultimately obtain w where w: "in_turn (zip es gs) (view ps s) = Inr w" "hashmap (w_db w) \<noteq> None"
    "clients_done fa (zip es gs) (view ps s) w"
    using in_turn_clients [OF _ _ ready(1,2)] by blast
  have "w_db w = w_db (view ps s')" by (rule clients_done_unique [OF w(3) es(3) w(2) ready(2)])
  moreover have "Seeds (w_stats w) = Seeds (sh_stats s')" "Leeches (w_stats w) = Leeches (sh_stats s')"
    using clients_doneD(6,7) [OF w(3)] clients_doneD(6,7) [OF es(3)] by (simp_all add: view_def)
  ultimately show ?thesis using run all w(1) es(1,2) by blast
qed

text \<open>
  C12: Different clients do not disturb each other, in one swarm or in several: every fair schedule of
  any number of \<open>Save\<close>s and \<open>Drop\<close>s, of which no two are about the same client in the same swarm and
  every \<open>Save\<close> is about an infohash that is in the map, finishes all of them, and leaves the
  database, with all its counters, and the seed and leech statistics that the operations leave
  when they run one after the other, each at a time of the schedule.
\<close>

theorem different_clients_serialise:
  assumes "unaliased s" and "distinct (map op_key gs)" and "\<forall>g \<in> set gs. op_starts g"
    and "\<forall>a. SaveLookup a \<in> set gs \<longrightarrow> fmlookup (sh_hashes s) (sa_hash a) \<noteq> None"
    and "\<forall>x \<in> set sched. fast (fst x) = fa"
    and "\<forall>k < length gs. 6 \<le> length (filter (\<lambda>x. snd x = k) sched)"
  shows "\<exists>s' es w. interleave sched gs s = (replicate (length gs) Finished, s') \<and>
    length es = length gs \<and> set es \<subseteq> fst ` set sched \<and> in_turn (zip es gs) (view ps s) = Inr w \<and>
    w_db w = w_db (view ps s') \<and> Seeds (w_stats w) = Seeds (sh_stats s') \<and> Leeches (w_stats w) = Leeches (sh_stats s')"
  by (rule clients_serialise [OF assms(1,2) _ assms(5,6)]) (use assms(3,4) in \<open>force simp: known_def fmlookup_dom_iff\<close>)

theorem different_clients_serialise_witness:
  "\<exists>s' es w. interleave (concat (replicate 6 [(sample_env 9, 1), (sample_env 12, 0)]))
       [SaveLookup (seeder [1] [5]), DropLookup [1] [9]] sample_shared = ([Finished, Finished], s') \<and>
     in_turn (zip es [SaveLookup (seeder [1] [5]), DropLookup [1] [9]]) (view (Initialize 200) sample_shared) = Inr w \<and>
     w_db w = w_db (view (Initialize 200) s')"
proof -
  let ?sched = "concat (replicate 6 [(sample_env 9, 1), (sample_env 12, 0)])"
  have "\<forall>k < length [SaveLookup (seeder [1] [5]), DropLookup [1] [9]]. 6 \<le> length (filter (\<lambda>x. snd x = k) ?sched)"
    by (simp add: eval_nat_numeral less_Suc_eq)
  from different_clients_serialise [OF sample_unaliased _ _ _ _ this, of False "Initialize 200"]
  show ?thesis by (auto simp: sample_shared_lookup sample_env_def)
qed

end
