(* ===== verification/Queries.thy ===== *)
theory Queries
  imports Interleaving
begin

text \<open>
  The queries of tracker/storage/map/hash.go while other goroutines change the database: each looks
  for the infohash in one critical section and reads the map it found in another. The second one
  holds the read lock of the map from its first step to its last, and so keeps the goroutines out
  that change the map; it does not keep out a \<open>Save\<close> that writes to a peer, which takes no lock, so
  that every peer of the loop is read in a step of its own.
\<close>

section \<open>Queries as steps\<close>

text \<open>
  A query with its arguments and with the objects that it gets from the pools, which belong to it
  alone: \<open>PeerList\<close> a dictionary, \<open>PeerListBytes\<close> two buffers. The pools are initialised.
\<close>

datatype query =
    AskStats hash
  | AskPeers hash uint64 bool dictionary
  | AskPeerBytes hash uint64 byte_slice byte_slice

datatype answer =
    Counts uint16 uint16
  | Dicts "bytes list"
  | Buffers byte_slice byte_slice
  | Crash panic

text \<open>
  The local variables of the two loops: how many peers are wanted still, the dictionary and the
  list so far; the positions in the buffers and the buffers.
\<close>

datatype scan =
    DictScan bool nat dictionary "bytes list"
  | ByteScan nat nat bytes bytes

datatype reader =
    ReadLookup query
  | ReadMap query nat
  | Scanning nat "peer_id list" scan
  | Answered answer

primrec query_hash :: "query \<Rightarrow> hash" where
  "query_hash (AskStats h) = h"
| "query_hash (AskPeers h n rm d) = h"
| "query_hash (AskPeerBytes h n s4 s6) = h"

primrec no_map :: "query \<Rightarrow> answer" where
  "no_map (AskStats h) = Counts 0 0"
| "no_map (AskPeers h n rm d) = Dicts []"
| "no_map (AskPeerBytes h n s4 s6) = Buffers s4 s6"

text \<open>What a query does with the read lock before its loop: \<open>HashStats\<close> has none.\<close>

primrec begin_scan :: "query \<Rightarrow> peermap \<Rightarrow> answer + scan" where
  "begin_scan (AskStats h) pm = Inl (Counts (CompleteN pm) (IncompleteN pm))"
| "begin_scan (AskPeers h n rm d) pm =
     (let k = cap_numwant n pm in if k = 0 then Inl (Dicts []) else Inr (DictScan rm k d []))"
| "begin_scan (AskPeerBytes h n s4 s6) pm =
     (if cap_numwant n pm = 0 then Inl (Buffers s4 s6) else Inr (ByteScan 0 0 (arr s4) (arr s6)))"

text \<open>The bodies of the loops, and what a loop that has seen every peer returns.\<close>

fun scan_peer :: "peer_id \<Rightarrow> peer \<Rightarrow> scan \<Rightarrow> answer + scan" where
  "scan_peer i p (DictScan rm n d acc) =
     (let b = fst (GetBytes (peer_dict rm i p d));
          d' = Dict_Reset (snd (GetBytes (peer_dict rm i p d)))
      in if n = 1 then Inl (Dicts (acc @ [b])) else Inr (DictScan rm (n - 1) d' (acc @ [b])))"
| "scan_peer i p (ByteScan pos4 pos6 b4 b6) =
     (if Is6 (IP p) then
        (if pos6 + 18 > length b6 then Inl (Crash SliceOutOfRange)
         else
           (let b6' = copy_at (pos6 + 16) (put_be 2 (Port p)) (copy_at pos6 (AsSlice (IP p)) b6);
                pos6' = pos6 + 18 in
            if pos6' + 18 > length b6' then Inl (Buffers \<lparr>arr = b4, slen = pos4\<rparr> \<lparr>arr = b6', slen = pos6'\<rparr>)
            else Inr (ByteScan pos4 pos6' b4 b6')))
      else
        (if pos4 + 6 > length b4 then Inl (Crash SliceOutOfRange)
         else
           (let b4' = copy_at (pos4 + 4) (put_be 2 (Port p)) (copy_at pos4 (AsSlice (IP p)) b4);
                pos4' = pos4 + 6 in
            if pos4' + 6 > length b4' then Inl (Buffers \<lparr>arr = b4', slen = pos4'\<rparr> \<lparr>arr = b6, slen = pos6\<rparr>)
            else Inr (ByteScan pos4' pos6 b4' b6))))"

primrec scan_end :: "scan \<Rightarrow> answer" where
  "scan_end (DictScan rm n d acc) = Dicts (acc @ replicate n [])"
| "scan_end (ByteScan pos4 pos6 b4 b6) = Buffers \<lparr>arr = b4, slen = pos4\<rparr> \<lparr>arr = b6, slen = pos6\<rparr>"

fun reader_step :: "env \<Rightarrow> reader \<Rightarrow> shared \<Rightarrow> reader" where
  "reader_step e (ReadLookup q) s =
     (case fmlookup (sh_hashes s) (query_hash q) of
        None \<Rightarrow> Answered (no_map q)
      | Some m \<Rightarrow> ReadMap q m)"
| "reader_step e (ReadMap q m) s =
     (case begin_scan q (map_view s m) of
        Inl a \<Rightarrow> Answered a
      | Inr sc \<Rightarrow> Scanning m (peer_order e (shared_peers s m)) sc)"
| "reader_step e (Scanning m [] sc) s = Answered (scan_end sc)"
| "reader_step e (Scanning m (i # ids) sc) s =
     (case fmlookup (sm_Peers (sh_maps s m)) i of
        None \<Rightarrow> Scanning m ids sc
      | Some l \<Rightarrow>
          (case scan_peer i (sh_peers s l) sc of
             Inl a \<Rightarrow> Answered a
           | Inr sc' \<Rightarrow> Scanning m ids sc'))"
| "reader_step e (Answered a) s = Answered a"

text \<open>
  A reader in its loop holds the read lock of its map; the steps that need the write lock of a map
  have to wait for it.
\<close>

fun read_locks :: "reader \<Rightarrow> nat option" where
  "read_locks (Scanning m ids sc) = Some m"
| "read_locks r = None"

fun write_locks :: "goroutine \<Rightarrow> nat option" where
  "write_locks (SaveStore a m found) = Some m"
| "write_locks (DropRemove i m) = Some m"
| "write_locks (TrimExpire h m acc hs) = Some m"
| "write_locks g = None"

definition waits :: "goroutine \<Rightarrow> reader list \<Rightarrow> bool" where
  "waits g rs \<longleftrightarrow> write_locks g \<noteq> None \<and> write_locks g \<in> set (map read_locks rs)"

text \<open>
  A schedule of goroutines that change the database and goroutines that query it; \<open>None\<close> is a
  schedule that lets a goroutine go on which has to wait.
\<close>

datatype actor = Writer nat | Reader nat

fun concurrent ::
  "(env \<times> actor) list \<Rightarrow> goroutine list \<Rightarrow> reader list \<Rightarrow> shared \<Rightarrow> (goroutine list \<times> reader list \<times> shared) option" where
  "concurrent [] gs rs s = Some (gs, rs, s)"
| "concurrent ((e, Writer k) # sched) gs rs s =
     (if k < length gs
      then
        (if waits (gs ! k) rs then None
         else (case goroutine_step e (gs ! k) s of (g, s') \<Rightarrow> concurrent sched (gs[k := g]) rs s'))
      else concurrent sched gs rs s)"
| "concurrent ((e, Reader k) # sched) gs rs s =
     (if k < length rs then concurrent sched gs (rs[k := reader_step e (rs ! k) s]) s
      else concurrent sched gs rs s)"

section \<open>The sequential answer\<close>

text \<open>The loop over a map that nobody changes, and the query of the sequential model.\<close>

fun scan_all :: "(peer_id, peer) fmap \<Rightarrow> peer_id list \<Rightarrow> scan \<Rightarrow> answer" where
  "scan_all m [] sc = scan_end sc"
| "scan_all m (i # ids) sc =
     (case fmlookup m i of
        None \<Rightarrow> scan_all m ids sc
      | Some p \<Rightarrow> (case scan_peer i p sc of Inl a \<Rightarrow> a | Inr sc' \<Rightarrow> scan_all m ids sc'))"

definition answer_of :: "query \<Rightarrow> peer_id list \<Rightarrow> peermap \<Rightarrow> answer" where
  "answer_of q ids pm = (case begin_scan q pm of Inl a \<Rightarrow> a | Inr sc \<Rightarrow> scan_all (Peers pm) ids sc)"

definition ask :: "env \<Rightarrow> query \<Rightarrow> memory \<Rightarrow> answer" where
  "ask e q db =
     (case fmlookup (entries db) (query_hash q) of
        None \<Rightarrow> no_map q
      | Some pm \<Rightarrow> answer_of q (peer_order e (Peers pm)) pm)"

text \<open>It is the answer of the operations of the sequential model.\<close>

lemma scan_all_dicts: "scan_all m ids (DictScan rm n d acc) = Dicts (fst (peer_list_loop rm m ids n d acc))"
  by (induction ids arbitrary: n d acc) (simp_all add: Let_def split: option.split)

lemma scan_all_bytes:
  "scan_all m ids (ByteScan pos4 pos6 b4 b6) =
     (case plb_loop (List.map_filter (fmlookup m) ids) pos4 pos6 b4 b6 of
        Inl x \<Rightarrow> Crash x
      | Inr (pos4', pos6', b4', b6') \<Rightarrow> Buffers \<lparr>arr = b4', slen = pos4'\<rparr> \<lparr>arr = b6', slen = pos6'\<rparr>)"
proof (induction ids arbitrary: pos4 pos6 b4 b6)
  case Nil
  then show ?case by (simp add: List.map_filter_def)
next
  case (Cons i ids)
  show ?case
  proof (cases "fmlookup m i")
    case None
    with Cons show ?thesis by (simp add: List.map_filter_def)
  next
    case (Some p)
    then have f: "List.map_filter (fmlookup m) (i # ids) = p # List.map_filter (fmlookup m) ids"
      by (simp add: List.map_filter_def)
    show ?thesis unfolding f using Some Cons by (simp add: Let_def)
  qed
qed

lemma ask_HashStats: "ask e (AskStats h) db = (case HashStats h db of (c, i) \<Rightarrow> Counts c i)"
  by (simp add: ask_def answer_of_def HashStats_def split: option.split)

lemma ask_PeerList:
  assumes "w_pools w = Some p" "Pool_Get (pickd e) (Dictionaries p) = Inr (d, dp)" "PeerList e h n rm w = Inr (r, w')"
  shows "ask e (AskPeers h n rm d) (w_db w) = Dicts r"
proof (cases "fmlookup (entries (w_db w)) h")
  case None
  with assms show ?thesis by (simp add: ask_def PeerList_def)
next
  case (Some pm)
  show ?thesis
  proof (cases "cap_numwant n pm = 0")
    case True
    with Some assms show ?thesis by (simp add: ask_def answer_of_def PeerList_def)
  next
    case False
    obtain r' d' where l: "peer_list_loop rm (Peers pm) (peer_order e (Peers pm)) (cap_numwant n pm) d [] = (r', d')"
      by fastforce
    with Some False assms have "r = r'"
      by (cases "Pool_Put d' dp") (simp_all add: PeerList_def with_dictionary_def)
    with Some False l show ?thesis by (simp add: ask_def answer_of_def scan_all_dicts)
  qed
qed

lemma ask_PeerListBytes:
  assumes "w_pools w = Some p" "Pool_Get (pick4 e) (Peerlists4 p) = Inr (s4, p4)" "Pool_Get (pick6 e) (Peerlists6 p) = Inr (s6, p6)"
  shows "ask e (AskPeerBytes h n s4 s6) (w_db w) =
    (case PeerListBytes e h n w of Inl x \<Rightarrow> Crash x | Inr ((t4, t6), w') \<Rightarrow> Buffers t4 t6)"
  using assms by (auto simp: ask_def answer_of_def PeerListBytes_def scan_all_bytes split: option.splits sum.splits)

section \<open>Schedules\<close>

lemma concurrent_append:
  "concurrent (xs @ ys) gs rs s = Option.bind (concurrent xs gs rs s) (\<lambda>(gs', rs', s'). concurrent ys gs' rs' s')"
  by (induction xs gs rs s rule: concurrent.induct) (simp_all split: prod.split)

text \<open>The steps of the goroutines that change the database.\<close>

fun updates :: "(env \<times> actor) list \<Rightarrow> (env \<times> nat) list" where
  "updates [] = []"
| "updates ((e, Writer k) # sched) = (e, k) # updates sched"
| "updates ((e, Reader k) # sched) = updates sched"

lemma concurrent_updates:
  "concurrent sched gs rs s = Some (gs', rs', s') \<Longrightarrow> interleave (updates sched) gs s = (gs', s')"
  by (induction sched gs rs s rule: concurrent.induct) (auto split: prod.split if_splits)

lemma concurrent_writers:
  assumes "\<forall>r \<in> set rs. read_locks r = None"
  shows "concurrent (map (\<lambda>(e, k). (e, Writer k)) xs) gs rs s = Some (fst (interleave xs gs s), rs, snd (interleave xs gs s))"
proof -
  have "\<not> waits g rs" for g using assms by (auto simp: waits_def)
  then show ?thesis by (induction xs gs s rule: interleave.induct) (simp_all split: prod.split)
qed

lemma concurrent_lengths:
  "concurrent sched gs rs s = Some (gs', rs', s') \<Longrightarrow> length gs' = length gs \<and> length rs' = length rs"
  by (induction sched gs rs s rule: concurrent.induct) (auto split: prod.splits if_splits)

text \<open>The shared memory before a step of a schedule, the steps of a reader, and how many there are.\<close>

definition moment :: "(env \<times> actor) list \<Rightarrow> goroutine list \<Rightarrow> shared \<Rightarrow> nat \<Rightarrow> shared" where
  "moment sched gs s n = snd (interleave (updates (take n sched)) gs s)"

definition reads_at :: "(env \<times> actor) list \<Rightarrow> nat \<Rightarrow> nat \<Rightarrow> bool" where
  "reads_at sched k n \<longleftrightarrow> n < length sched \<and> snd (sched ! n) = Reader k"

definition steps_of :: "(env \<times> actor) list \<Rightarrow> nat \<Rightarrow> nat" where
  "steps_of sched k = length (filter (\<lambda>x. snd x = Reader k) sched)"

lemma moment_snoc: "n \<le> length sched \<Longrightarrow> moment (sched @ [x]) gs s n = moment sched gs s n"
  by (simp add: moment_def)

lemma reads_at_snoc: "reads_at sched k n \<Longrightarrow> reads_at (sched @ [x]) k n"
  by (simp add: reads_at_def nth_append)

lemma reads_at_last: "reads_at (sched @ [(e, Reader k)]) k (length sched)"
  by (simp add: reads_at_def)

lemma reads_at_bound: "reads_at sched k n \<Longrightarrow> n < length sched"
  by (simp add: reads_at_def)

lemma moment_now: "concurrent sched gs rs s = Some (gs', rs', s') \<Longrightarrow> moment sched gs s (length sched) = s'"
  by (simp add: moment_def concurrent_updates)

section \<open>The map of a reader\<close>

text \<open>The maps that the hash map points to, or that a reader found there, were made.\<close>

definition maps_made :: "shared \<Rightarrow> bool" where
  "maps_made s \<longleftrightarrow> (\<forall>h m. fmlookup (sh_hashes s) h = Some m \<longrightarrow> m < sh_nmaps s)"

lemma expire_peers_keeps:
  assumes "expire_peers e m ids n s = (n', s')" "m' \<noteq> m"
  shows "sh_hashes s' = sh_hashes s \<and> sh_nmaps s' = sh_nmaps s \<and> sm_Peers (sh_maps s' m') = sm_Peers (sh_maps s m')"
  using assms
proof (induction e m ids n s rule: expire_peers.induct)
  case (2 e m i ids n s)
  then show ?case
    by (auto simp: Let_def free_peer_def count_stats_def set_map_def split: option.splits if_splits)
qed simp

text \<open>
  A step that does not take the write lock of a map that was made leaves the map alone, although
  not the peers that it points to.
\<close>

lemma goroutine_step_keeps:
  assumes "goroutine_step e g s = (g', s')" "maps_made s"
  shows "maps_made s' \<and> sh_nmaps s \<le> sh_nmaps s' \<and>
    (m < sh_nmaps s \<longrightarrow> write_locks g \<noteq> Some m \<longrightarrow> sm_Peers (sh_maps s' m) = sm_Peers (sh_maps s m))"
proof (cases g)
  case (SaveStore a m' found)
  with assms show ?thesis
    using take_peer_keeps [of e s] by (cases "take_peer e s")
      (auto simp: save_store_def set_map_def maps_made_def split: option.splits)
next
  case (TrimExpire h m' acc hs)
  obtain peers hashes where acc: "acc = (peers, hashes)" by fastforce
  obtain n1 s1 where x: "expire_peers e m' (peer_order e (shared_peers s m')) peers s = (n1, s1)" by fastforce
  from assms(1) x have s': "s' = s1" by (auto simp: TrimExpire acc split: if_splits)
  have "sh_hashes s1 = sh_hashes s \<and> sh_nmaps s1 = sh_nmaps s" using expire_peers_keeps [OF x, of "Suc m'"] by simp
  with expire_peers_keeps [OF x, of m] assms(2) show ?thesis by (auto simp: s' TrimExpire maps_made_def)
next
  case (TrimNext acc hs)
  with assms show ?thesis by (cases hs) (auto split: option.splits)
next
  case (TrimDelete h acc hs)
  with assms show ?thesis by (cases acc) (auto simp: maps_made_def split: if_splits)
next
  case (SaveCreate a)
  with assms show ?thesis by (auto simp: maps_made_def set_map_def less_Suc_eq split: if_splits)
next
  case (DropRemove i m')
  with assms show ?thesis by (auto simp: maps_made_def set_map_def split: option.splits)
qed (use assms in \<open>auto simp: maps_made_def free_peer_def count_stats_def split: option.splits if_splits\<close>)

lemma concurrent_made:
  assumes "concurrent sched gs rs s = Some (gs', rs', s')" "maps_made s"
  shows "maps_made s' \<and> sh_nmaps s \<le> sh_nmaps s'"
  using assms
proof (induction sched gs rs s rule: concurrent.induct)
  case (2 e k sched gs rs s)
  show ?case
  proof (cases "k < length gs")
    case True
    obtain g s1 where step: "goroutine_step e (gs ! k) s = (g, s1)" by fastforce
    from goroutine_step_keeps [OF this 2(4)] have "maps_made s1 \<and> sh_nmaps s \<le> sh_nmaps s1" by blast
    with 2(1) [OF True _ step [symmetric]] 2(3) True step show ?thesis by (auto split: if_splits)
  next
    case False
    with 2 show ?thesis by simp
  qed
next
  case (3 e k sched gs rs s)
  then show ?case by (cases "k < length rs") simp_all
qed simp

section \<open>A loop over peers that are written\<close>

text \<open>
  How many peers a loop reads at most, and how many steps a query has: they depend on the arguments
  and the buffers only.
\<close>

fun scan_left :: "scan \<Rightarrow> nat" where
  "scan_left (DictScan rm n d acc) = n"
| "scan_left (ByteScan pos4 pos6 b4 b6) = (length b4 - pos4) div 6 + (length b6 - pos6) div 18"

fun scan_ok :: "scan \<Rightarrow> bool" where
  "scan_ok (DictScan rm n d acc) \<longleftrightarrow> 0 < n"
| "scan_ok (ByteScan pos4 pos6 b4 b6) \<longleftrightarrow> True"

primrec query_steps :: "query \<Rightarrow> nat" where
  "query_steps (AskStats h) = 2"
| "query_steps (AskPeers h n rm d) = 3 + unat n"
| "query_steps (AskPeerBytes h n s4 s6) = 3 + length (arr s4) div 6 + length (arr s6) div 18"

lemma begin_scan_ok: "begin_scan q pm = Inr sc \<Longrightarrow> scan_ok sc \<and> 3 + scan_left sc \<le> query_steps q"
  by (cases q) (auto simp: Let_def cap_numwant_def split: if_splits)

lemma Suc_div_minus: "0 < k \<Longrightarrow> k \<le> a \<Longrightarrow> Suc ((a - k) div k) = a div (k :: nat)"
  by (simp add: le_div_geq)

text \<open>The bytes that a peer takes fit behind a position with room for it.\<close>

lemma length_copied_peer:
  "Is6 (IP p) \<Longrightarrow> pos + 18 \<le> length b \<Longrightarrow>
     length (copy_at (pos + 16) (put_be 2 (Port p)) (copy_at pos (AsSlice (IP p)) b)) = length b"
  "\<not> Is6 (IP p) \<Longrightarrow> pos + 6 \<le> length b \<Longrightarrow>
     length (copy_at (pos + 4) (put_be 2 (Port p)) (copy_at pos (AsSlice (IP p)) b)) = length b"
  by (simp_all add: length_AsSlice)

lemma scan_peer_ok:
  assumes "scan_peer i p sc = Inr sc'" "scan_ok sc"
  shows "scan_ok sc' \<and> Suc (scan_left sc') \<le> scan_left sc"
proof (cases sc)
  case (DictScan rm n d acc)
  with assms show ?thesis by (auto simp: Let_def split: if_splits)
next
  case (ByteScan pos4 pos6 b4 b6)
  have "Suc ((length b6 - (pos6 + 18)) div 18) = (length b6 - pos6) div 18" if "pos6 + 18 \<le> length b6"
    using Suc_div_minus [of 18 "length b6 - pos6"] that by simp
  moreover have "Suc ((length b4 - (pos4 + 6)) div 6) = (length b4 - pos4) div 6" if "pos4 + 6 \<le> length b4"
    using Suc_div_minus [of 6 "length b4 - pos4"] that by simp
  ultimately show ?thesis
    using assms ByteScan by (auto simp: Let_def length_copied_peer split: if_splits)
qed

lemma begin_scan_cong:
  assumes "fmdom' m = fmdom' (Peers pm)"
  shows "begin_scan q (pm\<lparr>Peers := m\<rparr>) = begin_scan q pm"
  using assms by (cases q) (simp_all add: cap_numwant_def fmsize_def)

lemma scan_all_cong: "(\<And>i. i \<in> set ids \<Longrightarrow> fmlookup m i = fmlookup m' i) \<Longrightarrow> scan_all m ids sc = scan_all m' ids sc"
  by (induction ids arbitrary: sc) (auto split: option.split sum.split)

section \<open>Answers\<close>

text \<open>
  \<open>assembled\<close> says of the peers \<open>m\<close> that they have the identifiers of the map at step \<open>n\<close>, and that each is
  what the map's entry held at this or a later step of the reader.
\<close>

definition assembled ::
  "(env \<times> actor) list \<Rightarrow> goroutine list \<Rightarrow> shared \<Rightarrow> nat \<Rightarrow> nat \<Rightarrow> nat \<Rightarrow> (peer_id, peer) fmap \<Rightarrow> bool" where
  "assembled sched gs s k l n m \<longleftrightarrow>
     fmdom' m = fmdom' (shared_peers (moment sched gs s n) l) \<and>
     (\<forall>i p. fmlookup m i = Some p \<longrightarrow>
        (\<exists>n'. n \<le> n' \<and> reads_at sched k n' \<and> fmlookup (shared_peers (moment sched gs s n') l) i = Some p))"

text \<open>
  The answer of a reader: of a step at which the infohash was not in the map, or of the map that it
  found at one step, with the counters and the order of a later one and with assembled peers.
\<close>

definition found_at :: "(env \<times> actor) list \<Rightarrow> goroutine list \<Rightarrow> shared \<Rightarrow> nat \<Rightarrow> query \<Rightarrow> nat \<Rightarrow> nat option \<Rightarrow> bool" where
  "found_at sched gs s k q n x \<longleftrightarrow>
     reads_at sched k n \<and> fmlookup (sh_hashes (moment sched gs s n)) (query_hash q) = x"

definition explained :: "(env \<times> actor) list \<Rightarrow> goroutine list \<Rightarrow> shared \<Rightarrow> nat \<Rightarrow> query \<Rightarrow> answer \<Rightarrow> bool" where
  "explained sched gs s k q a \<longleftrightarrow>
     (\<exists>n. found_at sched gs s k q n None) \<and> a = no_map q \<or>
     (\<exists>n0 l n m. found_at sched gs s k q n0 (Some l) \<and> n0 < n \<and> reads_at sched k n \<and> assembled sched gs s k l n m \<and>
        a = answer_of q (peer_order (fst (sched ! n)) (shared_peers (moment sched gs s n) l))
              ((map_view (moment sched gs s n) l)\<lparr>Peers := m\<rparr>))"

lemma found_at_snoc: "found_at sched gs s k q n x \<Longrightarrow> found_at (sched @ [y]) gs s k q n x"
  by (auto simp: found_at_def reads_at_snoc moment_snoc dest: reads_at_bound)

lemma assembled_snoc:
  assumes "assembled sched gs s k l n m" "n < length sched"
  shows "assembled (sched @ [y]) gs s k l n m"
  unfolding assembled_def
proof (intro conjI allI impI)
  show "fmdom' m = fmdom' (shared_peers (moment (sched @ [y]) gs s n) l)"
    using assms by (simp add: assembled_def moment_snoc)
  fix i p
  assume "fmlookup m i = Some p"
  with assms(1) obtain n' where "n \<le> n'" "reads_at sched k n'" "fmlookup (shared_peers (moment sched gs s n') l) i = Some p"
    unfolding assembled_def by blast
  then show "\<exists>n'. n \<le> n' \<and> reads_at (sched @ [y]) k n' \<and> fmlookup (shared_peers (moment (sched @ [y]) gs s n') l) i = Some p"
    using reads_at_bound [of sched k n'] by (auto simp: moment_snoc reads_at_snoc)
qed

lemma explained_snoc:
  assumes "explained sched gs s k q a"
  shows "explained (sched @ [y]) gs s k q a"
  using assms [unfolded explained_def]
proof (elim disjE exE conjE)
  fix n
  assume "found_at sched gs s k q n None" "a = no_map q"
  then show ?thesis unfolding explained_def using found_at_snoc by blast
next
  fix n0 l n m
  assume a: "found_at sched gs s k q n0 (Some l)" "n0 < n" "reads_at sched k n" "assembled sched gs s k l n m"
    "a = answer_of q (peer_order (fst (sched ! n)) (shared_peers (moment sched gs s n) l))
      ((map_view (moment sched gs s n) l)\<lparr>Peers := m\<rparr>)"
  note n = reads_at_bound [OF a(3)]
  have "(sched @ [y]) ! n = sched ! n" "moment (sched @ [y]) gs s n = moment sched gs s n"
    using n by (simp_all add: nth_append moment_snoc)
  with a found_at_snoc [OF a(1), of y] assembled_snoc [OF a(4) n, of y] reads_at_snoc [OF a(3), of y]
  show ?thesis unfolding explained_def by metis
qed

section \<open>A reader along a schedule\<close>

text \<open>
  A reader in its loop: it has seen the first identifiers of the order it found, no goroutine could
  change them, and whatever it reads of the others, its answer is that of the peers so assembled.
\<close>

definition scan_from ::
  "(env \<times> actor) list \<Rightarrow> goroutine list \<Rightarrow> shared \<Rightarrow> nat \<Rightarrow> query \<Rightarrow> nat \<Rightarrow> peer_id list \<Rightarrow> scan
     \<Rightarrow> nat \<Rightarrow> nat \<Rightarrow> (peer_id, peer) fmap \<Rightarrow> peer_id list \<Rightarrow> bool" where
  "scan_from sched gs s k q l ids sc n0 n m seen \<longleftrightarrow>
     found_at sched gs s k q n0 (Some l) \<and> n0 < n \<and> reads_at sched k n \<and> assembled sched gs s k l n m \<and>
     peer_order (fst (sched ! n)) (shared_peers (moment sched gs s n) l) = seen @ ids \<and>
     distinct (seen @ ids) \<and> set (seen @ ids) = fmdom' m \<and>
     (\<forall>m'. fmdom' m' = fmdom' m \<longrightarrow> (\<forall>i \<in> set seen. fmlookup m' i = fmlookup m i) \<longrightarrow>
        answer_of q (seen @ ids) ((map_view (moment sched gs s n) l)\<lparr>Peers := m'\<rparr>) = scan_all m' ids sc)"

definition scanned :: "(env \<times> actor) list \<Rightarrow> goroutine list \<Rightarrow> shared \<Rightarrow> nat \<Rightarrow> query \<Rightarrow> nat \<Rightarrow> peer_id list \<Rightarrow> scan \<Rightarrow> bool" where
  "scanned sched gs s k q l ids sc \<longleftrightarrow> (\<exists>n0 n m seen. scan_from sched gs s k q l ids sc n0 n m seen)"

lemma scan_fromD:
  assumes "scan_from sched gs s k q l ids sc n0 n m seen"
  shows "found_at sched gs s k q n0 (Some l)" "n0 < n" "reads_at sched k n" "assembled sched gs s k l n m"
    "peer_order (fst (sched ! n)) (shared_peers (moment sched gs s n) l) = seen @ ids"
    "distinct (seen @ ids)" "set (seen @ ids) = fmdom' m"
    "fmdom' m' = fmdom' m \<Longrightarrow> \<forall>i \<in> set seen. fmlookup m' i = fmlookup m i \<Longrightarrow>
       answer_of q (seen @ ids) ((map_view (moment sched gs s n) l)\<lparr>Peers := m'\<rparr>) = scan_all m' ids sc"
  using assms unfolding scan_from_def by simp_all

lemma scan_from_snoc:
  assumes "scan_from sched gs s k q l ids sc n0 n m seen"
  shows "scan_from (sched @ [y]) gs s k q l ids sc n0 n m seen"
proof -
  note a = scan_fromD [OF assms]
  note n = reads_at_bound [OF a(3)]
  have same: "(sched @ [y]) ! n = sched ! n" "moment (sched @ [y]) gs s n = moment sched gs s n"
    using n by (simp_all add: nth_append moment_snoc)
  show ?thesis unfolding scan_from_def same
    using a found_at_snoc [OF a(1)] reads_at_snoc [OF a(3)] assembled_snoc [OF a(4) n] by simp
qed

lemma scanned_snoc: "scanned sched gs s k q l ids sc \<Longrightarrow> scanned (sched @ [y]) gs s k q l ids sc"
  unfolding scanned_def using scan_from_snoc by blast

text \<open>The end of a loop explains its answer; a peer that is read becomes one of the assembled ones.\<close>

lemma scanned_end:
  assumes "scanned sched gs s k q l [] sc"
  shows "explained sched gs s k q (scan_end sc)"
proof -
  from assms obtain n0 n m seen where "scan_from sched gs s k q l [] sc n0 n m seen" unfolding scanned_def by blast
  note a = scan_fromD [OF this]
  from a(8) [of m] have "scan_end sc = answer_of q (peer_order (fst (sched ! n)) (shared_peers (moment sched gs s n) l))
      ((map_view (moment sched gs s n) l)\<lparr>Peers := m\<rparr>)" by (simp add: a(5))
  with a(1-4) show ?thesis unfolding explained_def by blast
qed

lemma assembled_update:
  assumes "assembled sched gs s k l n m" "n \<le> n'" "reads_at sched k n'" "i \<in> fmdom' m"
    and "fmlookup (shared_peers (moment sched gs s n') l) i = Some p"
  shows "assembled sched gs s k l n (fmupd i p m)"
  using assms by (auto simp: assembled_def insert_absorb split: if_splits)

lemma scanned_peer:
  assumes sc: "scanned sched gs s k q l (i # ids) sc" and p: "fmlookup (shared_peers (moment sched gs s (length sched)) l) i = Some p"
  shows "case scan_peer i p sc of
      Inl a \<Rightarrow> explained (sched @ [(e, Reader k)]) gs s k q a
    | Inr sc' \<Rightarrow> scanned (sched @ [(e, Reader k)]) gs s k q l ids sc'"
proof -
  let ?sched = "sched @ [(e, Reader k)]"
  from scanned_def [THEN iffD1, OF sc] obtain n0 n m seen where "scan_from sched gs s k q l (i # ids) sc n0 n m seen" by blast
  note a = scan_fromD [OF scan_from_snoc [OF this, of "(e, Reader k)"]]
  have i: "i \<in> fmdom' m" "i \<notin> set seen" using a(6,7) by auto
  let ?m = "fmupd i p m"
  have dom: "fmdom' ?m = fmdom' m" using i(1) by (simp add: insert_absorb)
  have asm: "assembled ?sched gs s k l n ?m"
    using assembled_update [OF a(4) _ reads_at_last i(1)] p reads_at_bound [OF a(3)] by (simp add: moment_snoc)
  have ans: "answer_of q (seen @ i # ids) ((map_view (moment ?sched gs s n) l)\<lparr>Peers := m'\<rparr>) =
      (case scan_peer i p sc of Inl a \<Rightarrow> a | Inr sc' \<Rightarrow> scan_all m' ids sc')"
    if "fmdom' m' = fmdom' m" "\<forall>j \<in> set (seen @ [i]). fmlookup m' j = fmlookup ?m j" for m'
  proof -
    have "\<forall>j \<in> set seen. fmlookup m' j = fmlookup m j" using that(2) i(2) by auto
    from a(8) [OF that(1) this] that(2) show ?thesis by simp
  qed
  show ?thesis
  proof (cases "scan_peer i p sc")
    case (Inl x)
    with ans [of ?m] dom a(1-3,5) asm show ?thesis unfolding explained_def by fastforce
  next
    case (Inr sc')
    have "scan_from ?sched gs s k q l ids sc' n0 n ?m (seen @ [i])"
      unfolding scan_from_def using a(1-3,5-7) asm dom ans Inr by simp
    then have "scanned ?sched gs s k q l ids sc'" unfolding scanned_def by blast
    with Inr show ?thesis by simp
  qed
qed

text \<open>Where a reader is after a schedule, and how many of its steps it has used.\<close>

definition last_moment :: "(env \<times> actor) list \<Rightarrow> goroutine list \<Rightarrow> shared \<Rightarrow> shared" where
  "last_moment sched gs s = moment sched gs s (length sched)"

fun reader_ok :: "(env \<times> actor) list \<Rightarrow> goroutine list \<Rightarrow> shared \<Rightarrow> nat \<Rightarrow> query \<Rightarrow> reader \<Rightarrow> bool" where
  "reader_ok sched gs s k q (ReadLookup q') \<longleftrightarrow> q' = q \<and> steps_of sched k = 0"
| "reader_ok sched gs s k q (ReadMap q' l) \<longleftrightarrow>
     q' = q \<and> steps_of sched k = 1 \<and> (\<exists>n. found_at sched gs s k q n (Some l)) \<and> l < sh_nmaps (last_moment sched gs s)"
| "reader_ok sched gs s k q (Scanning l ids sc) \<longleftrightarrow>
     scan_ok sc \<and> Suc (steps_of sched k + scan_left sc) \<le> query_steps q \<and> scanned sched gs s k q l ids sc \<and>
     l < sh_nmaps (last_moment sched gs s) \<and> set ids \<subseteq> fmdom' (sm_Peers (sh_maps (last_moment sched gs s) l))"
| "reader_ok sched gs s k q (Answered a) \<longleftrightarrow> explained sched gs s k q a"

lemma steps_of_snoc: "steps_of (sched @ [x]) k = (if snd x = Reader k then Suc (steps_of sched k) else steps_of sched k)"
  by (simp add: steps_of_def)

lemma reader_ok_other:
  assumes "reader_ok sched gs s k q r" "snd x \<noteq> Reader k"
    and "sh_nmaps (last_moment sched gs s) \<le> sh_nmaps (last_moment (sched @ [x]) gs s)"
    and "\<And>l. read_locks r = Some l \<Longrightarrow> l < sh_nmaps (last_moment sched gs s) \<Longrightarrow>
      sm_Peers (sh_maps (last_moment (sched @ [x]) gs s) l) = sm_Peers (sh_maps (last_moment sched gs s) l)"
  shows "reader_ok (sched @ [x]) gs s k q r"
  using assms
  by (cases r) (auto simp: steps_of_snoc intro: found_at_snoc scanned_snoc explained_snoc)

text \<open>A step of the reader itself changes nothing that is shared.\<close>

lemma last_moment_read: "last_moment (sched @ [(e, Reader k)]) gs s = last_moment sched gs s"
proof -
  have "updates (sched @ [(e, Reader k)]) = updates sched" by (induction sched rule: updates.induct) simp_all
  then show ?thesis by (simp add: last_moment_def moment_def)
qed

lemma reader_ok_lookup:
  assumes "reader_ok sched gs s k q (ReadLookup q')" "maps_made (last_moment sched gs s)"
  shows "reader_ok (sched @ [(e, Reader k)]) gs s k q (reader_step e (ReadLookup q') (last_moment sched gs s))"
proof -
  have q: "q' = q" "steps_of sched k = 0" using assms(1) by simp_all
  let ?x = "fmlookup (sh_hashes (last_moment sched gs s)) (query_hash q)"
  have f: "found_at (sched @ [(e, Reader k)]) gs s k q (length sched) ?x"
    using reads_at_last [of sched e k] by (simp add: found_at_def moment_snoc last_moment_def)
  show ?thesis
  proof (cases ?x)
    case None
    with f q show ?thesis by (auto simp: explained_def)
  next
    case (Some l)
    with assms(2) have "l < sh_nmaps (last_moment sched gs s)" by (simp add: maps_made_def)
    with f q Some show ?thesis by (auto simp: steps_of_snoc last_moment_read)
  qed
qed

lemma assembled_now:
  assumes "reads_at sched k n"
  shows "assembled sched gs s k l n (shared_peers (moment sched gs s n) l)"
  using assms by (auto simp: assembled_def)

lemma reader_ok_map:
  assumes ok: "reader_ok sched gs s k q (ReadMap q' l)" and e: "env_ok e"
  shows "reader_ok (sched @ [(e, Reader k)]) gs s k q (reader_step e (ReadMap q' l) (last_moment sched gs s))"
proof -
  let ?sched = "sched @ [(e, Reader k)]" and ?s = "last_moment sched gs s"
  let ?order = "peer_order e (shared_peers ?s l)" and ?m = "shared_peers ?s l"
  from ok obtain n0 where q: "q' = q" "steps_of sched k = 1" "found_at sched gs s k q n0 (Some l)" "l < sh_nmaps ?s" by auto
  have n0: "n0 < length sched" "found_at ?sched gs s k q n0 (Some l)"
    using q(3) found_at_snoc by (auto simp: found_at_def dest: reads_at_bound)
  have last: "moment ?sched gs s (length sched) = ?s" by (simp add: moment_snoc last_moment_def)
  have asm: "assembled ?sched gs s k l (length sched) ?m"
    using assembled_now [OF reads_at_last, of sched e k gs s l] by (simp add: last)
  have order: "distinct ?order" "set ?order = fmdom' ?m" using e by (simp_all add: env_ok_def enumerates_def)
  have same: "begin_scan q ((map_view ?s l)\<lparr>Peers := m'\<rparr>) = begin_scan q (map_view ?s l)" if "fmdom' m' = fmdom' ?m" for m'
    using that by (intro begin_scan_cong) (simp add: map_view_def)
  show ?thesis
  proof (cases "begin_scan q (map_view ?s l)")
    case (Inl a)
    have "a = answer_of q ?order ((map_view ?s l)\<lparr>Peers := ?m\<rparr>)"
      using same [OF refl] Inl by (simp add: answer_of_def)
    with n0 asm reads_at_last [of sched e k] have "explained ?sched gs s k q a"
      unfolding explained_def by (metis fst_conv last nth_append_length)
    with Inl q(1) show ?thesis by simp
  next
    case (Inr sc)
    have "scan_from ?sched gs s k q l ?order sc n0 (length sched) ?m []"
      unfolding scan_from_def using n0 asm order Inr reads_at_last [of sched e k]
      by (simp add: last answer_of_def same)
    then have "scanned ?sched gs s k q l ?order sc" unfolding scanned_def by blast
    moreover have "set ?order \<subseteq> fmdom' (sm_Peers (sh_maps ?s l))"
      unfolding order(2) by (simp add: shared_peers_def)
    ultimately show ?thesis
      using Inr q begin_scan_ok [OF Inr] by (simp add: steps_of_snoc last_moment_read)
  qed
qed

lemma reader_ok_scan:
  assumes ok: "reader_ok sched gs s k q (Scanning l ids sc)"
  shows "reader_ok (sched @ [(e, Reader k)]) gs s k q (reader_step e (Scanning l ids sc) (last_moment sched gs s))"
proof (cases ids)
  case Nil
  with ok have "explained sched gs s k q (scan_end sc)" using scanned_end by auto
  with Nil show ?thesis by (simp add: explained_snoc)
next
  case (Cons i rest)
  let ?s = "last_moment sched gs s"
  from ok have i: "i \<in> fmdom' (sm_Peers (sh_maps ?s l))" by (simp add: Cons)
  then obtain j where j: "fmlookup (sm_Peers (sh_maps ?s l)) i = Some j" by (auto simp: fmlookup_dom'_iff)
  then have p: "fmlookup (shared_peers (moment sched gs s (length sched)) l) i = Some (sh_peers ?s j)"
    by (simp add: shared_peers_lookup last_moment_def)
  from ok have "scanned sched gs s k q l (i # rest) sc" by (simp add: Cons)
  note peer = scanned_peer [OF this p, of e]
  show ?thesis
  proof (cases "scan_peer i (sh_peers ?s j) sc")
    case (Inl a)
    with peer j show ?thesis by (simp add: Cons)
  next
    case (Inr sc')
    with ok have "scan_ok sc' \<and> Suc (scan_left sc') \<le> scan_left sc" by (intro scan_peer_ok) auto
    with peer j Inr ok show ?thesis by (simp add: Cons steps_of_snoc last_moment_read)
  qed
qed

lemma reader_ok_step:
  assumes "reader_ok sched gs s k q r" "maps_made (last_moment sched gs s)" "env_ok e"
  shows "reader_ok (sched @ [(e, Reader k)]) gs s k q (reader_step e r (last_moment sched gs s))"
proof (cases r)
  case (ReadLookup q')
  show ?thesis unfolding ReadLookup by (rule reader_ok_lookup [OF assms(1) [unfolded ReadLookup] assms(2)])
next
  case (ReadMap q' l)
  show ?thesis unfolding ReadMap by (rule reader_ok_map [OF assms(1) [unfolded ReadMap] assms(3)])
next
  case (Scanning l ids sc)
  show ?thesis unfolding Scanning by (rule reader_ok_scan [OF assms(1) [unfolded Scanning]])
next
  case (Answered a)
  with assms(1) show ?thesis by (simp add: explained_snoc)
qed

lemma waits_for: "k < length rs \<Longrightarrow> read_locks (rs ! k) = Some l \<Longrightarrow> write_locks g = Some l \<Longrightarrow> waits g rs"
  unfolding waits_def by (metis length_map nth_map nth_mem option.distinct(1))

lemma readers_ok:
  assumes made: "maps_made s" and k: "k < length rs" "rs ! k = ReadLookup q"
    and "concurrent sched gs rs s = Some (gs', rs', s')" "\<forall>x \<in> set sched. env_ok (fst x)"
  shows "reader_ok sched gs s k q (rs' ! k)"
  using assms(4,5)
proof (induction sched arbitrary: gs' rs' s' rule: rev_induct)
  case Nil
  with k show ?case by (simp add: steps_of_def)
next
  case (snoc x sched)
  from snoc(2) obtain gs1 rs1 s1 where run: "concurrent sched gs rs s = Some (gs1, rs1, s1)"
    and last: "concurrent [x] gs1 rs1 s1 = Some (gs', rs', s')"
    by (auto simp: concurrent_append bind_eq_Some_conv)
  have ih: "reader_ok sched gs s k q (rs1 ! k)" using snoc(1) [OF run] snoc(3) by simp
  have now: "last_moment sched gs s = s1" "last_moment (sched @ [x]) gs s = s'"
    using moment_now [OF run] moment_now [OF snoc(2)] by (simp_all add: last_moment_def)
  have len: "k < length rs1" using concurrent_lengths [OF run] k(1) by simp
  have made1: "maps_made s1" using concurrent_made [OF run made] by simp
  obtain e a where x: "x = (e, a)" by fastforce
  show ?case
  proof (cases "a = Reader k")
    case True
    with last len x have "rs' ! k = reader_step e (rs1 ! k) s1" by auto
    with reader_ok_step [OF ih, of e] made1 snoc(3) show ?thesis by (simp add: x True now(1) [symmetric] del: reader_step.simps)
  next
    case False
    have same: "rs' ! k = rs1 ! k" using last x False by (cases a) (auto split: if_splits prod.splits)
    have frame: "sh_nmaps s1 \<le> sh_nmaps s' \<and>
      (\<forall>l. read_locks (rs1 ! k) = Some l \<longrightarrow> l < sh_nmaps s1 \<longrightarrow> sm_Peers (sh_maps s' l) = sm_Peers (sh_maps s1 l))"
    proof (cases "\<exists>j. a = Writer j \<and> j < length gs1")
      case True
      then obtain j where j: "a = Writer j" "j < length gs1" by blast
      with last x have w: "\<not> waits (gs1 ! j) rs1" by (auto split: if_splits)
      obtain g where step: "goroutine_step e (gs1 ! j) s1 = (g, s')"
        using last x j w by (cases "goroutine_step e (gs1 ! j) s1") auto
      have "read_locks (rs1 ! k) = Some l \<longrightarrow> write_locks (gs1 ! j) \<noteq> Some l" for l
        using w waits_for [OF len] by blast
      with goroutine_step_keeps [OF step made1] show ?thesis by blast
    next
      case False
      with last x have "s' = s1" by (cases a) (auto split: if_splits)
      then show ?thesis by simp
    qed
    have "reader_ok (sched @ [x]) gs s k q (rs1 ! k)"
      using reader_ok_other [OF ih, of x] False frame by (simp add: x [symmetric] now) (simp add: x)
    with same show ?thesis by simp
  qed
qed

text \<open>
  C13: Queries beside any number of \<open>Save\<close>s, \<open>Drop\<close>s and \<open>trim\<close>s. Whatever the schedule, a query has its
  answer after a number of own steps that its arguments bound. The answer is
  that of an infohash without a map at one of its steps, or that of the map it found at one step:
  with the counters, the identifiers and the order of one later step of its own, and with peers of
  which each is what the map's entry held at this or a later step of the query, not all of them at
  the same one, since \<open>Save\<close> writes to a peer without the lock. So \<open>HashStats\<close>, which reads no peer,
  has the counters of one moment. The queries change nothing that the other goroutines see. The
  reading of one peer is one step, and so is the writing to it.
\<close>

theorem queries_are_explained:
  assumes "maps_made s" and "concurrent sched gs rs s = Some (gs', rs', s')" and "\<forall>x \<in> set sched. env_ok (fst x)"
    and "k < length rs" "rs ! k = ReadLookup q" and "query_steps q \<le> steps_of sched k"
  shows "(\<exists>a. rs' ! k = Answered a \<and> explained sched gs s k q a) \<and> interleave (updates sched) gs s = (gs', s')"
proof (rule conjI)
  from readers_ok [OF assms(1,4,5,2,3)] have ok: "reader_ok sched gs s k q (rs' ! k)" .
  show "\<exists>a. rs' ! k = Answered a \<and> explained sched gs s k q a"
  proof (cases "rs' ! k")
    case (Answered a)
    with ok show ?thesis by simp
  qed (use ok assms(6) in \<open>cases q; auto\<close>)+
  show "interleave (updates sched) gs s = (gs', s')" by (rule concurrent_updates [OF assms(2)])
qed

definition scan_schedule :: "(env \<times> actor) list" where
  "scan_schedule = map (Pair (sample_env 9))
     [Reader 0, Writer 0, Writer 0, Writer 0, Reader 0, Writer 0, Reader 0, Writer 0, Reader 0]"

theorem queries_are_explained_witness:
  "\<exists>gs' rs' s' a. concurrent scan_schedule [SaveLookup (seeder [1] [9])] [ReadLookup (AskPeers [1] 1 False NewDictionary)] sample_shared =
       Some (gs', rs', s') \<and> rs' ! 0 = Answered a \<and>
     explained scan_schedule [SaveLookup (seeder [1] [9])] sample_shared 0 (AskPeers [1] 1 False NewDictionary) a"
proof -
  have "\<exists>r. concurrent scan_schedule [SaveLookup (seeder [1] [9])] [ReadLookup (AskPeers [1] 1 False NewDictionary)] sample_shared = Some r"
    by (simp add: scan_schedule_def waits_def sample_shared_lookup save_store_def split: sum.split prod.split option.split)
  then obtain gs' rs' s' where run: "concurrent scan_schedule [SaveLookup (seeder [1] [9])]
      [ReadLookup (AskPeers [1] 1 False NewDictionary)] sample_shared = Some (gs', rs', s')" by (metis prod_cases3)
  have "maps_made sample_shared" using sample_unaliased by (simp add: unaliased_def maps_made_def)
  from queries_are_explained [OF this run, of 0 "AskPeers [1] 1 False NewDictionary"] run show ?thesis
    by (simp add: scan_schedule_def steps_of_def)
qed

section \<open>Races of a first announce\<close>

text \<open>
  A client stops and another one announces itself to a second swarm; a query comes between the
  section that stores the new peer and the writes to it.
\<close>

definition query_before_write :: "env \<Rightarrow> (env \<times> actor) list" where
  "query_before_write e = map (Pair e) [Writer 0, Writer 0, Writer 0, Writer 1, Writer 1, Writer 1, Reader 0, Reader 0, Reader 0, Reader 0]"

text \<open>The compact list of a map whose only peer has an IPv4 address.\<close>

lemma read_one4:
  assumes "sm_Peers (sh_maps s m) = fmupd i l fmempty" "IP (sh_peers s l) = Addr4 w" "env_ok e" "6 \<le> length (arr s4)" "n \<noteq> 0"
  shows "\<exists>b4. reader_step e (reader_step e (reader_step e (ReadMap (AskPeerBytes h n s4 s6) m) s) s) s =
      Answered (Buffers \<lparr>arr = b4, slen = 6\<rparr> \<lparr>arr = arr s6, slen = 0\<rparr>) \<and>
    take 6 b4 = put_be 4 w @ put_be 2 (Port (sh_peers s l))"
proof -
  have dom: "fmdom' (shared_peers s m) = {i}" by (simp add: shared_peers_def assms(1))
  have "shared_peers s m = fmupd i (sh_peers s l) fmempty"
    by (simp add: shared_peers_def assms(1) fmmap_fmupd)
  then have order: "peer_order e (shared_peers s m) = [i]"
    using assms(3) enumerates_one [of "peer_order e (fmupd i (sh_peers s l) fmempty)" i "sh_peers s l"] by (simp only: env_ok_def)
  have "cap_numwant n (map_view s m) \<noteq> 0"
    using assms(5) unat_gt_0 [of n] dom by (simp add: cap_numwant_def map_view_def fmsize_def)
  moreover have "take 6 (copy_at 4 (put_be 2 (Port (sh_peers s l))) (copy_at 0 (put_be 4 w) (arr s4))) =
      put_be 4 w @ put_be 2 (Port (sh_peers s l))"
    using assms(4) by (simp add: copy_at_def)
  ultimately show ?thesis
    using assms(2,4) by (simp add: assms(1) order Let_def)
qed

text \<open>A \<open>Drop\<close> frees its peer and the next \<open>Save\<close> stores it, not yet written, in another map.\<close>

lemma freed_peer_is_stored:
  assumes "fmlookup (sh_hashes s) h = Some m" "fmlookup (sm_Peers (sh_maps s m)) i = Some l"
    and "fmlookup (sh_hashes s) h' = Some m'" "fmlookup (sm_Peers (sh_maps s m')) (sa_id a) = None" "m' \<noteq> m"
    and "sa_hash a = h'" "\<And>p free. pickp e (p # free) = Some 0"
  shows "\<exists>s'. interleave (map (Pair e) [0, 0, 0, 1, 1, 1]) [DropLookup h i, SaveLookup a] s =
      ([Finished, SaveCount a False l], s') \<and>
    sh_hashes s' = sh_hashes s \<and> sm_Peers (sh_maps s' m') = fmupd (sa_id a) l (sm_Peers (sh_maps s m')) \<and>
    sh_peers s' = sh_peers s"
proof -
  let ?p = "sh_peers s l"
  define s1 where "s1 = set_map m (remove_peer ?p i (sh_maps s m)) s"
  define s2 where "s2 = free_peer l (count_stats e (leave_stats ?p) s1)"
  define s3 where "s3 = s2\<lparr>sh_free := sh_free s\<rparr>"
  define s' where "s' = set_map m' (store_counts False ?p (sa_complete a)
    ((sh_maps s m')\<lparr>sm_Peers := fmupd (sa_id a) l (sm_Peers (sh_maps s m'))\<rparr>)) s3"
  have s1: "sh_hashes s1 = sh_hashes s" "sh_maps s1 m' = sh_maps s m'" "sh_peers s1 = sh_peers s" "sh_free s1 = sh_free s"
    using assms(5) by (simp_all add: s1_def set_map_def)
  have s2: "sh_hashes s2 = sh_hashes s" "sh_maps s2 m' = sh_maps s m'" "sh_peers s2 = sh_peers s" "sh_free s2 = l # sh_free s"
    by (simp_all add: s2_def free_peer_def count_stats_def s1)
  have s': "sh_hashes s' = sh_hashes s" "sm_Peers (sh_maps s' m') = fmupd (sa_id a) l (sm_Peers (sh_maps s m'))"
    "sh_peers s' = sh_peers s"
    by (simp_all add: s'_def s3_def set_map_def store_counts_def s2)
  have drop: "goroutine_step e (DropLookup h i) s = (DropRemove i m, s)" "goroutine_step e (DropRemove i m) s = (DropFree l, s1)"
    "goroutine_step e (DropFree l) s1 = (Finished, s2)"
    using assms(1,2) by (simp_all add: s1_def s2_def set_map_def)
  have "take_peer e s2 = (l, s3)"
    using assms(7) [of ?p "map (sh_peers s) (sh_free s)"] by (simp add: take_peer_def s2 s3_def)
  then have save: "goroutine_step e (SaveLookup a) s2 = (SaveFind a m', s2)"
    "goroutine_step e (SaveFind a m') s2 = (SaveStore a m' None, s2)"
    "goroutine_step e (SaveStore a m' None) s2 = (SaveCount a False l, s')"
    using assms(3,4,6) by (simp_all add: save_store_def s2 s'_def s3_def)
  have "interleave (map (Pair e) [0, 0, 0, 1, 1, 1]) [DropLookup h i, SaveLookup a] s =
      ([Finished, SaveCount a False l], s')"
    by (simp add: drop save del: goroutine_step.simps)
  with s' show ?thesis by blast
qed

text \<open>
  C18: A query between the two parts of a first announce hands out the address of a client that is not
  in the swarm: the new peer is in the map before it is written, and until then holds what the
  last client that returned it to the pool had; here the only peer of the compact list is the
  client that just stopped in another swarm.
\<close>

theorem unwritten_peer_is_listed:
  assumes "fmlookup (sh_hashes s) h = Some m" "fmlookup (sm_Peers (sh_maps s m)) i = Some l" "IP (sh_peers s l) = Addr4 w"
    and "fmlookup (sh_hashes s) h' = Some m'" "sm_Peers (sh_maps s m') = fmempty" "m' \<noteq> m"
    and "sa_hash a = h'" "env_ok e" "\<And>p free. pickp e (p # free) = Some 0" "6 \<le> length (arr s4)" "n \<noteq> 0"
  shows "\<exists>s' b4 b6. concurrent (query_before_write e) [DropLookup h i, SaveLookup a] [ReadLookup (AskPeerBytes h' n s4 s6)] s =
      Some ([Finished, SaveCount a False l], [Answered (Buffers b4 b6)], s') \<and>
    take (slen b4) (arr b4) = put_be 4 w @ put_be 2 (Port (sh_peers s l)) \<and> slen b6 = 0"
proof -
  have "fmlookup (sm_Peers (sh_maps s m')) (sa_id a) = None" by (simp add: assms(5))
  from freed_peer_is_stored [OF assms(1,2,4) this assms(6,7,9)] obtain s' where
    writers: "interleave (map (Pair e) [0, 0, 0, 1, 1, 1]) [DropLookup h i, SaveLookup a] s = ([Finished, SaveCount a False l], s')"
    and s': "sh_hashes s' = sh_hashes s" "sm_Peers (sh_maps s' m') = fmupd (sa_id a) l fmempty" "sh_peers s' = sh_peers s"
    using assms(5) by auto
  let ?q = "AskPeerBytes h' n s4 s6"
  have sched: "query_before_write e = map (\<lambda>(e, k). (e, Writer k)) (map (Pair e) [0, 0, 0, 1, 1, 1]) @ [(e, Reader 0), (e, Reader 0), (e, Reader 0), (e, Reader 0)]"
    by (simp add: query_before_write_def)
  obtain b4 where b4: "reader_step e (reader_step e (reader_step e (ReadMap ?q m') s') s') s' =
      Answered (Buffers \<lparr>arr = b4, slen = 6\<rparr> \<lparr>arr = arr s6, slen = 0\<rparr>)" "take 6 b4 = put_be 4 w @ put_be 2 (Port (sh_peers s l))"
    using read_one4 [OF s'(2) _ assms(8,10,11), of w h' s6] assms(3) s'(3) by auto
  have w: "concurrent (map (\<lambda>(e, k). (e, Writer k)) xs) gs [ReadLookup ?q] s =
      Some (fst (interleave xs gs s), [ReadLookup ?q], snd (interleave xs gs s))" for xs gs
    by (rule concurrent_writers) simp
  have r: "concurrent [(e, Reader 0), (e, Reader 0), (e, Reader 0), (e, Reader 0)] gs [ReadLookup ?q] s' =
      Some (gs, [Answered (Buffers \<lparr>arr = b4, slen = 6\<rparr> \<lparr>arr = arr s6, slen = 0\<rparr>)], s')" for gs
  proof -
    have lk: "fmlookup (sh_hashes s') h' = Some m'" using s'(1) assms(4) by simp
    then have "reader_step e (ReadLookup ?q) s' = ReadMap ?q m'" by simp
    then show ?thesis by (simp add: b4(1) del: reader_step.simps)
  qed
  have "concurrent (query_before_write e) [DropLookup h i, SaveLookup a] [ReadLookup ?q] s =
      Some ([Finished, SaveCount a False l], [Answered (Buffers \<lparr>arr = b4, slen = 6\<rparr> \<lparr>arr = arr s6, slen = 0\<rparr>)], s')"
    unfolding sched concurrent_append w writers by (simp add: r del: concurrent.simps)
  with b4(2) show ?thesis by auto
qed

theorem unwritten_peer_is_listed_witness:
  "\<exists>s' b4 b6. concurrent (query_before_write ((sample_env 9)\<lparr>pickp := \<lambda>_. Some 0\<rparr>)) [DropLookup [1] [9], SaveLookup (seeder [2] [5])]
       [ReadLookup (AskPeerBytes [2] 50 \<lparr>arr = replicate 12 0, slen = 12\<rparr> \<lparr>arr = replicate 36 0, slen = 36\<rparr>)] sample_shared =
       Some ([Finished, SaveCount (seeder [2] [5]) False 0], [Answered (Buffers b4 b6)], s') \<and>
     take (slen b4) (arr b4) = put_be 4 (7 :: uint32) @ put_be 2 (6881 :: uint16)"
proof -
  let ?e = "(sample_env 9)\<lparr>pickp := \<lambda>_. Some 0\<rparr>"
  have e: "env_ok ?e" using env_ok_sample [of 9] by (simp add: env_ok_def)
  have pick: "pickp ?e (p # free) = Some 0" for p free by simp
  have IP: "IP (sh_peers sample_shared 0) = Addr4 7" "Port (sh_peers sample_shared 0) = 6881"
    by (simp_all add: sample_shared_def leecher_def)
  from unwritten_peer_is_listed [of sample_shared "[1]" 0 "[9]" 0 7 "[2]" 2 "seeder [2] [5]" ?e
      "\<lparr>arr = replicate 12 0, slen = 12\<rparr>" 50 "\<lparr>arr = replicate 36 0, slen = 36\<rparr>", OF _ _ IP(1) _ _ _ _ e pick]
  show ?thesis unfolding IP by (simp add: sample_shared_lookup del: put_be.simps put_be_numeral) blast
qed

lemma new_map_sel: "sm_Peers new_map = fmempty" "sm_Complete new_map = 0" "sm_Incomplete new_map = 0"
  by (simp_all add: new_map_def)

text \<open>Two clients announce themselves as the first peers of an infohash.\<close>

definition double_create :: "env \<Rightarrow> (env \<times> nat) list" where
  "double_create e = map (Pair e) [0, 1, 0, 1, 0, 0, 0, 0, 1, 1, 1, 1]"

text \<open>
  C19: Of two clients that are the first to announce an infohash, at the same time, one is lost: both
  find no map and both make one, the second takes the place of the first, and the peer that was
  saved in the first is in no swarm although its \<open>Save\<close> returned. The statistics count both.
\<close>

theorem simultaneous_first_announces_lose_one:
  assumes "fmlookup (sh_hashes s) h = None" "\<not> fast e" "sa_hash a = h" "sa_hash b = h"
  shows "\<exists>s'. interleave (double_create e) [SaveLookup a, SaveLookup b] s = ([Finished, Finished], s') \<and>
    mem_swarm (w_db (view ps s')) h = [sa_id b \<mapsto> written_peer (now e) b] \<and>
    Seeds (sh_stats s') + Leeches (sh_stats s') = Seeds (sh_stats s) + Leeches (sh_stats s) + 2"
proof -
  define s0 where "s0 = (set_map (Suc (sh_nmaps s)) new_map (set_map (sh_nmaps s) new_map s))
    \<lparr>sh_nmaps := Suc (Suc (sh_nmaps s)), sh_hashes := fmupd h (Suc (sh_nmaps s)) (sh_hashes s)\<rparr>"
  let ?m = "sh_nmaps s" and ?n = "Suc (sh_nmaps s)"
  let ?s1 = "stored_new e a ?m s0"
  let ?s2 = "stored_new e b ?n ?s1"
  have s0: "sh_hashes s0 = fmupd h ?n (sh_hashes s)" "sm_Peers (sh_maps s0 ?m) = fmempty" "sh_maps s0 ?n = new_map"
    "sh_stats s0 = sh_stats s"
    by (simp_all add: s0_def set_map_def new_map_def)
  obtain l s11 s12 where A: "goroutine_step e (SaveStore a ?m None) s0 = (SaveCount a False l, s11)"
    "goroutine_step e (SaveCount a False l) s11 = (SaveWrite a l, s12)"
    "goroutine_step e (SaveWrite a l) s12 = (Finished, ?s1)"
    using save_rest_new [of e a ?m s0] by blast
  obtain k s21 s22 where B: "goroutine_step e (SaveStore b ?n None) ?s1 = (SaveCount b False k, s21)"
    "goroutine_step e (SaveCount b False k) s21 = (SaveWrite b k, s22)"
    "goroutine_step e (SaveWrite b k) s22 = (Finished, ?s2)"
    using save_rest_new [of e b ?n ?s1] by blast
  have n: "sh_maps ?s1 ?n = new_map"
    by (cases "take_peer e s0") (use take_peer_keeps [of e s0] s0(3) in \<open>simp add: stored_new_def saved_shared_sel\<close>)
  have made: "(set_map ?n new_map ((set_map ?m new_map s)\<lparr>sh_nmaps := ?n, sh_hashes := fmupd h ?m (sh_hashes s)\<rparr>))
      \<lparr>sh_nmaps := Suc ?n, sh_hashes := fmupd h ?n (sh_hashes s)\<rparr> = s0"
    by (simp add: s0_def set_map_def)
  have "interleave (double_create e) [SaveLookup a, SaveLookup b] s = ([Finished, Finished], ?s2)"
    using assms(1,3,4)
    by (simp add: double_create_def made A B s0 n new_map_sel del: goroutine_step.simps(4-6))
  moreover have "mem_swarm (w_db (view ps ?s2)) h = [sa_id b \<mapsto> written_peer (now e) b]"
    by (cases "take_peer e ?s1") (use take_peer_keeps [of e ?s1] in
      \<open>auto simp: mem_swarm_def view_def entries_def map_view_def shared_peers_lookup stored_new_def [of e b] saved_shared_sel
        n s0 stored_new_sel(1) [of e a] new_map_sel written_peer_eq\<close>)
  ultimately show ?thesis using assms by (simp add: stored_new_sel s0)
qed

theorem simultaneous_first_announces_lose_one_witness:
  "\<exists>s'. interleave (double_create (sample_env 9)) [SaveLookup (seeder [3] [5]), SaveLookup (seeder [3] [6])] sample_shared =
       ([Finished, Finished], s') \<and>
     mem_swarm (w_db (view (Initialize 200) s')) [3] [5] = None \<and> Seeds (sh_stats s') + Leeches (sh_stats s') = 3"
proof -
  have "fmlookup (sh_hashes sample_shared) [3] = None" "Seeds (sh_stats sample_shared) + Leeches (sh_stats sample_shared) = 1"
    by (simp_all add: sample_shared_def add_Leeches_def zero_stats_def)
  with simultaneous_first_announces_lose_one [of sample_shared "[3]" "sample_env 9" "seeder [3] [5]" "seeder [3] [6]"
      "Initialize 200"]
  show ?thesis by auto
qed

end
