(* ===== verification/Acceptance.thy ===== *)
theory Acceptance
  imports HttpProps
begin

text \<open>
  The two HTTP integration tests of the repository (tracker/http\_test\_.go): the request that Go's
  client makes of their query, what they check in the decoded body, and the proof that the tracker
  passes them, whatever headers the client adds, on every world where the infohashes of the tests are new. The bencode
  decoder of the tests is a library and a parameter; it is trusted to invert the encoding.
\<close>

section \<open>The query\<close>

text \<open>\<open>url.Values.Encode\<close>: the pairs sorted by key, both escaped, a space as a plus sign.\<close>

definition unreserved :: "byte \<Rightarrow> bool" where
  "unreserved b \<longleftrightarrow>
     (65 \<le> b \<and> b \<le> 90) \<or> (97 \<le> b \<and> b \<le> 122) \<or> (48 \<le> b \<and> b \<le> 57) \<or> b \<in> {45, 95, 46, 126}"

definition query_escape :: "bytes \<Rightarrow> bytes" where
  "query_escape bs = concat (map (\<lambda>b. if b = 32 then [43] else if unreserved b then [b] else percent_byte b) bs)"

definition values_encode :: "(bytes \<times> bytes) list \<Rightarrow> bytes" where
  "values_encode kvs =
     sep_join 38 (map (\<lambda>(k, v). query_escape k @ 61 # query_escape v) (sort_key fst kvs))"

definition test_values :: "string \<Rightarrow> bool \<Rightarrow> (bytes \<times> bytes) list" where
  "test_values h short =
     [(lit ''info_hash'', lit h), (lit ''event'', lit ''started''), (lit ''left'', lit ''1000''),
      (lit ''downloaded'', lit ''0''), (lit ''peer_id'', lit ''QB123456789012345678''),
      (lit ''key'', lit ''useless''), (lit ''port'', lit ''1234'')] @
     (if short then [(lit ''compact'', lit ''1'')] else [])"

text \<open>The request line, and the headers that the client adds.\<close>

definition client_get :: "bytes \<Rightarrow> bytes \<Rightarrow> bytes \<Rightarrow> bytes" where
  "client_get path q headers = get_request path q (lit ''1.1'' @ crlf @ headers)"

definition TestHTTPAnnounce_request :: "bytes \<Rightarrow> bytes" where
  "TestHTTPAnnounce_request =
     client_get (lit ''/announce'') (values_encode (test_values ''TestAnnounceHTTP1234'' False))"

definition TestHTTPAnnounceCompact_request :: "bytes \<Rightarrow> bytes" where
  "TestHTTPAnnounceCompact_request =
     client_get (lit ''/announce'') (values_encode (test_values ''TestAnnounceCompactH'' True))"

section \<open>The checks\<close>

text \<open>The body is what follows the first empty line.\<close>

definition response_body :: "bytes \<Rightarrow> bytes" where
  "response_body out =
     (case bytes_index out (crlf @ crlf) of
        None \<Rightarrow> []
      | Some i \<Rightarrow> drop (i + 4) out)"

datatype complaint =
  BodyEmpty | UnmarshallingError | TrackerError | WrongComplete | WrongIncomplete | WrongPeerId | WrongIp | WrongPort
| WrongLength

definition complain :: "bool \<Rightarrow> complaint \<Rightarrow> complaint list" where
  "complain ok c = (if ok then [] else [c])"

text \<open>
  The complaints of a test about a body; \<open>None\<close> is a panic of the test, when a type assertion or
  the index of the first peer fails. A dictionary is decoded into a map, where a later key wins.
\<close>

definition decode_map :: "(bytes \<Rightarrow> bval option) \<Rightarrow> bytes \<Rightarrow> (bytes \<rightharpoonup> bval) option" where
  "decode_map unmarshal body =
     (case unmarshal body of
        Some (BDict kvs) \<Rightarrow> Some (map_of (rev kvs))
      | _ \<Rightarrow> None)"

definition TestHTTPAnnounce_checks :: "(bytes \<Rightarrow> bval option) \<Rightarrow> bytes \<Rightarrow> complaint list option" where
  "TestHTTPAnnounce_checks unmarshal body =
     (if body = [] then Some [BodyEmpty]
      else
        (case decode_map unmarshal body of
           None \<Rightarrow> Some [UnmarshallingError]
         | Some decoded \<Rightarrow>
             (let errors =
                complain (decoded (lit ''failure reason'') = None) TrackerError @
                complain (decoded (lit ''complete'') = Some (BInt 0)) WrongComplete @
                complain (decoded (lit ''incomplete'') = Some (BInt 1)) WrongIncomplete in
              case decoded (lit ''peers'') of
                Some (BList (BStr first # _)) \<Rightarrow>
                  (case decode_map unmarshal first of
                     None \<Rightarrow> Some (errors @ [UnmarshallingError])
                   | Some peer \<Rightarrow>
                       Some (errors @
                         complain (peer (lit ''peer id'') = Some (BStr (lit ''QB123456789012345678''))) WrongPeerId @
                         complain (peer (lit ''ip'') = Some (BStr (lit ''127.0.0.1''))) WrongIp @
                         complain (peer (lit ''port'') = Some (BInt 1234)) WrongPort))
              | _ \<Rightarrow> None)))"

definition TestHTTPAnnounceCompact_checks :: "(bytes \<Rightarrow> bval option) \<Rightarrow> bytes \<Rightarrow> complaint list option" where
  "TestHTTPAnnounceCompact_checks unmarshal body =
     (case decode_map unmarshal body of
        None \<Rightarrow> Some [UnmarshallingError]
      | Some decoded \<Rightarrow>
          (let errors = complain (decoded (lit ''failure reason'') = None) TrackerError in
           case decoded (lit ''peers'') of
             Some (BStr peerBytes) \<Rightarrow>
               (if length peerBytes \<noteq> 6 then Some (errors @ [WrongLength])
                else
                  Some (errors @
                    complain (take 4 peerBytes = [127, 0, 0, 1]) WrongIp @
                    complain (take 2 (drop 4 peerBytes) = [0x04, 0xD2]) WrongPort))
           | _ \<Rightarrow> None))"

section \<open>The requests as the tracker sees them\<close>

definition query_safe :: "byte \<Rightarrow> bool" where
  "query_safe b \<longleftrightarrow> unreserved b \<or> b = 61"

lemma query_safe_ok: "safe_ok query_safe"
  by (simp add: safe_ok_def query_safe_def unreserved_def)

lemma query_escape_encodes:
  assumes "32 \<notin> set bs" "61 \<notin> set bs"
  shows "query_escape bs = url_encode query_safe bs"
  using assms by (induction bs) (auto simp: query_escape_def url_encode_def query_safe_def)

lemma url_encode_append: "url_encode safe (xs @ ys) = url_encode safe xs @ url_encode safe ys"
  by (simp add: url_encode_def)

lemma values_encode_query:
  assumes "\<forall>(k, v) \<in> set kvs. 32 \<notin> set (k @ v) \<and> 61 \<notin> set (k @ v)"
  shows "values_encode kvs = client_query query_safe (map (\<lambda>(k, v). k @ 61 # v) (sort_key fst kvs))"
proof -
  have "query_escape k @ 61 # query_escape v = url_encode query_safe (k @ 61 # v)" if "(k, v) \<in> set (sort_key fst kvs)" for k v
  proof -
    have "url_encode query_safe (61 # v) = 61 # url_encode query_safe v"
      by (simp add: url_encode_def query_safe_def)
    with that assms show ?thesis by (auto simp: url_encode_append query_escape_encodes)
  qed
  then have "map (\<lambda>(k, v). query_escape k @ 61 # query_escape v) (sort_key fst kvs) =
      map (url_encode query_safe) (map (\<lambda>(k, v). k @ 61 # v) (sort_key fst kvs))"
    by auto
  then show ?thesis by (simp only: values_encode_def client_query_def)
qed

definition test_args :: "string \<Rightarrow> bool \<Rightarrow> bytes list" where
  "test_args h short =
     (if short then [lit ''compact=1''] else []) @
     [lit ''downloaded=0'', lit ''event='' @ lit ''started'', lit ''info_hash='' @ lit h, lit ''key=useless'', lit ''left=1000'',
      lit ''peer_id='' @ lit ''QB123456789012345678'', lit ''port='' @ dec_nat 1234]"

lemma test_values_sorted:
  "map (\<lambda>(k, v). k @ 61 # v) (sort_key fst (test_values h short)) = test_args h short"
  by (cases short) (simp_all add: test_values_def test_args_def lit_def dec_nat.simps)

lemma test_query:
  assumes "h \<in> {''TestAnnounceHTTP1234'', ''TestAnnounceCompactH''}"
  shows "values_encode (test_values h short) = client_query query_safe (test_args h short)"
proof -
  have "\<forall>(k, v) \<in> set (test_values h short). 32 \<notin> set (k @ v) \<and> 61 \<notin> set (k @ v)"
    using assms by (auto simp: test_values_def lit_def)
  then show ?thesis by (simp only: values_encode_query test_values_sorted)
qed

lemma test_params:
  "announce_params p = (no_params\<lparr>v_hash := lit h, v_peerid := lit ''QB123456789012345678'', v_port := dec_nat 1234,
     v_event := lit ''started'', v_compact := short\<rparr>)"
  if "p_Params p = map Some (test_args h short) @ replicate n None"
proof -
  have skip: "set_param (Some (lit ''downloaded=0'')) v = v" "set_param (Some (lit ''key=useless'')) v = v"
    "set_param (Some (lit ''left=1000'')) v = v" for v
    using param_key_val_pair [of "lit ''downloaded''" "lit ''0''"] param_key_val_pair [of "lit ''key''" "lit ''useless''"]
      param_key_val_pair [of "lit ''left''" "lit ''1000''"]
    by (simp_all add: set_param_def lit_def)
  show ?thesis
    by (cases short) (simp_all add: announce_params_def that test_args_def set_param_known skip no_params_def)
qed

section \<open>The answers\<close>

definition test_announce :: "string \<Rightarrow> bool \<Rightarrow> announceParams" where
  "test_announce h short = no_params\<lparr>v_hash := lit h, v_peerid := lit ''QB123456789012345678'', v_port := dec_nat 1234,
     v_event := lit ''started'', v_compact := short\<rparr>"

definition test_peer :: "env \<Rightarrow> peer" where
  "test_peer e = \<lparr>Complete = False, IP = Addr4 0x7F000001, Port = 1234, LastSeen = now e\<rparr>"

lemma test_announced:
  assumes k: "worker_ok mem_ok lim k" and b: "build_ok b" "\<not> heroku b" and lim: "limit_ok lim"
    and e: "env_ok e" "fuzz_ok (conf e)" and h: "h \<in> {''TestAnnounceHTTP1234'', ''TestAnnounceCompactH''}"
    and req: "req = client_get (lit ''/announce'') (values_encode (test_values h short)) headers"
    and len: "length req \<le> httpRequestMax" and fresh: "mem_swarm (w_db (k_world k)) (lit h) = Map.empty"
  obtains k' resp sw' where "worker_step gomap e b (Request req (Addr4 0x7F000001, rport)) k = Inr (True, k', [resp])"
    and "http_announce_spec lim e (test_announce h short) (Addr4 0x7F000001) (mem_swarm (w_db (k_world k))) sw' resp"
proof -
  have args: "test_args h short \<noteq> []" "last (test_args h short) \<noteq> []" "length (test_args h short) \<le> maxparams"
    by (simp_all add: test_args_def maxparams_def lit_def)
  note req = req [unfolded client_get_def test_query [OF h]]
  obtain p data' where p: "parse (b64_left b) (received req k) (length (take httpRequestMax req)) = Inr (Inr p, data')"
    "p_Path p = lit ''/announce''" "p_Method p = lit ''GET''"
    "p_Params p = map Some (test_args h short) @ replicate (maxparams - length (test_args h short)) None"
    unfolding req by (rule client_request_parsed [OF k announce_path_ok query_safe_ok args len [unfolded req]])
  from gomap.worker_request [OF k b(1) lim e p(1) parseForwarded_plain [OF b(2)], of "(Addr4 0x7F000001, rport)"]
  obtain k' outs where step: "worker_step gomap e b (Request req (Addr4 0x7F000001, rport)) k = Inr (True, k', outs)"
    and spec: "http_spec lim e b (False, None) (Addr4 0x7F000001, rport) (Inr p) (mem_swarm (w_db (k_world k)))
      (mem_swarm (w_db (k_world k'))) outs" by blast
  from spec obtain resp where "outs = [resp]"
    "http_announce_spec lim e (announce_params p) (Addr4 0x7F000001) (mem_swarm (w_db (k_world k))) (mem_swarm (w_db (k_world k'))) resp"
    by (rule http_spec_changeE) (use p(2,3) client_address_v4 [of "0x7F000001" rport] in auto)
  with step that show ?thesis unfolding test_params [OF p(4), folded test_announce_def] by blast
qed

lemma test_announce_valid:
  assumes "h \<in> {''TestAnnounceHTTP1234'', ''TestAnnounceCompactH''}"
  shows "announce_error e (test_announce h short) = None" "v_event (test_announce h short) \<noteq> lit ''stopped''"
    and "announcing_peer e (test_announce h short) (Addr4 0x7F000001) = test_peer e"
    and "http_numwant e (v_numwant (test_announce h short)) = Some (Numwant_Default (conf e))"
proof -
  have "announce_port (dec_nat 1234) = Some (of_nat 1234)" by (rule announce_port_dec) simp_all
  then have port: "announce_port (v_port (test_announce h short)) = Some 1234" by (simp add: test_announce_def)
  show "http_numwant e (v_numwant (test_announce h short)) = Some (Numwant_Default (conf e))"
    by (simp add: http_numwant_def test_announce_def no_params_def)
  with port assms show "announce_error e (test_announce h short) = None"
    by (auto simp: announce_error_def test_announce_def lit_def)
  show "v_event (test_announce h short) \<noteq> lit ''stopped''" by (simp add: test_announce_def lit_def)
  from port show "announcing_peer e (test_announce h short) (Addr4 0x7F000001) = test_peer e"
    by (simp add: announcing_peer_def test_peer_def) (simp add: test_announce_def no_params_def lit_def)
qed

lemma response_body_ok: "response_body (httpSuccessBytes @ body) = body"
proof -
  have "bytes_index (lit ''HTTP/1.1 200'' @ (crlf @ crlf @ body)) (crlf @ crlf) = Some (length (lit ''HTTP/1.1 200''))"
    unfolding crlf_def append_Cons append_Nil by (rule bytes_index_skip) (simp_all add: lit_def)
  then show ?thesis by (simp add: response_body_def httpSuccessBytes_def) (simp add: crlf_def lit_def)
qed

lemma fresh_counts:
  assumes "sw h = Map.empty" "sw' = swarm_save h i (test_peer e) sw"
  shows "sw' h = [i \<mapsto> test_peer e]" "count_entries h sw' = [(lit ''complete'', BInt 0), (lit ''incomplete'', BInt 1)]"
proof -
  show row: "sw' h = [i \<mapsto> test_peer e]" using assms by (simp add: swarm_save_def)
  have "{j. \<exists>p. sw' h j = Some p \<and> Complete p} = {}" "{j. \<exists>p. sw' h j = Some p \<and> \<not> Complete p} = {i}"
    unfolding row by (auto simp: test_peer_def split: if_splits)
  then show "count_entries h sw' = [(lit ''complete'', BInt 0), (lit ''incomplete'', BInt 1)]"
    by (simp only: count_entries_def count16_def swarm_count_def) simp
qed

text \<open>The two lists of a swarm of one IPv4 peer, and its dictionary.\<close>

lemma compact_single:
  assumes "compact_lists lim [i \<mapsto> test_peer e] ps b4 b6" "limit_ok lim"
  shows "b4 = [127, 0, 0, 1, 4, 210]"
proof -
  have c: "compact (test_peer e) = [127, 0, 0, 1, 4, 210]"
    by (simp add: compact_def test_peer_def eval_simps put_be_numeral)
  from assms(1) obtain ids where ids: "distinct ids" "map [i \<mapsto> test_peer e] ids = map Some ps"
    unfolding compact_lists_def by blast
  have b: "b4 = concat (map compact (filter (\<lambda>p. \<not> Is6 (IP p)) ps))" "b6 = concat (map compact (filter (\<lambda>p. Is6 (IP p)) ps))"
    and all: "length ps = 1 \<or> length b4 = 6 * unat lim \<or> length b6 = 18 * unat lim"
    using assms(1) by (auto simp: compact_lists_def)
  have "ps \<noteq> []" using all b assms(2) by (auto simp: limit_ok_def)
  then have ne: "ids \<noteq> []" using ids(2) by auto
  have "x = i" if "x \<in> set ids" for x
  proof -
    have "[i \<mapsto> test_peer e] x \<in> set (map Some ps)" unfolding ids(2) [symmetric] using that by simp
    then show ?thesis by (auto split: if_splits)
  qed
  with ids(1) ne have "ids = [i]" by (cases ids; cases "tl ids") auto
  with ids(2) have "ps = [test_peer e]" by (cases ps) auto
  with b(1) c show ?thesis by (simp add: test_peer_def)
qed

lemma listed_single:
  assumes "listed_peers [i \<mapsto> p] n ips" "n \<noteq> 0"
  shows "ips = [(i, p)]"
proof -
  have "0 < unat n" using assms(2) by (simp add: unat_gt_0)
  then have "length ips = 1" using assms(1) by (simp add: listed_peers_def)
  then obtain x where "ips = [x]" by (cases ips) auto
  with assms(1) show ?thesis by (cases x) (auto simp: listed_peers_def split: if_splits)
qed

section \<open>The tests pass\<close>

definition inverts_bencoding :: "(bytes \<Rightarrow> bval option) \<Rightarrow> bool" where
  "inverts_bencoding unmarshal \<longleftrightarrow> (\<forall>v. unmarshal (benc v) = Some v)"

lemma announce_response_body:
  assumes "inverts_bencoding unmarshal"
  shows "response_body (announce_response interval h sw kvs) \<noteq> []"
    and "decode_map unmarshal (response_body (announce_response interval h sw kvs)) =
      Some (map_of (rev ((lit ''interval'', BInt (sint interval)) # count_entries h sw @ kvs)))"
proof -
  have b: "response_body (announce_response interval h sw kvs) =
      benc (BDict ((lit ''interval'', BInt (sint interval)) # count_entries h sw @ kvs))"
    by (simp only: announce_response_def ok_response_def response_body_ok)
  show "response_body (announce_response interval h sw kvs) \<noteq> []" unfolding b by (simp add: lit_def)
  show "decode_map unmarshal (response_body (announce_response interval h sw kvs)) =
      Some (map_of (rev ((lit ''interval'', BInt (sint interval)) # count_entries h sw @ kvs)))"
    using assms unfolding b by (simp only: decode_map_def inverts_bencoding_def) simp
qed

lemma peer_bval_test:
  "peer_bval False i (test_peer e) =
     BDict [(lit ''peer id'', BStr i), (lit ''ip'', BStr (lit ''127.0.0.1'')), (lit ''port'', BInt 1234)]"
  by (simp add: peer_bval_def test_peer_def string4_def put_be_numeral dec_nat.simps lit_def)

lemma TestHTTPAnnounce_passes:
  assumes k: "worker_ok mem_ok lim k" and b: "build_ok b" "\<not> heroku b" and lim: "limit_ok lim"
    and e: "env_ok e" "fuzz_ok (conf e)" "Numwant_Default (conf e) \<noteq> 0" and u: "inverts_bencoding unmarshal"
    and len: "length (TestHTTPAnnounce_request headers) \<le> httpRequestMax"
    and fresh: "mem_swarm (w_db (k_world k)) (lit ''TestAnnounceHTTP1234'') = Map.empty"
  shows "\<exists>k' out. worker_step gomap e b (Request (TestHTTPAnnounce_request headers) (Addr4 0x7F000001, rport)) k =
      Inr (True, k', [out]) \<and> TestHTTPAnnounce_checks unmarshal (response_body out) = Some []"
proof -
  let ?v = "test_announce ''TestAnnounceHTTP1234'' False" and ?i = "lit ''QB123456789012345678''"
  obtain k' resp sw' where run: "worker_step gomap e b (Request (TestHTTPAnnounce_request headers) (Addr4 0x7F000001, rport)) k =
      Inr (True, k', [resp])"
    and spec: "http_announce_spec lim e ?v (Addr4 0x7F000001) (mem_swarm (w_db (k_world k))) sw' resp"
    by (rule test_announced [OF k b lim e(1,2) _ TestHTTPAnnounce_request_def [THEN fun_cong] len fresh]) auto
  note v = test_announce_valid [of "''TestAnnounceHTTP1234''"]
  have fields: "v_hash ?v = lit ''TestAnnounceHTTP1234''" "v_peerid ?v = ?i" "\<not> v_compact ?v" "\<not> v_nopeerid ?v"
    by (simp_all add: test_announce_def no_params_def)
  from spec obtain interval ips where sw': "sw' = swarm_save (v_hash ?v) ?i (test_peer e) (mem_swarm (w_db (k_world k)))"
    and l: "listed_peers (sw' (v_hash ?v)) (Numwant_Default (conf e)) ips"
    and resp: "resp = announce_response interval (v_hash ?v) sw'
      [(lit ''peers'', BList (map (\<lambda>x. BStr (benc (peer_bval False (fst x) (snd x)))) ips))]"
    by (rule announce_spec_changeE) (use v fields in auto)
  note row = fresh_counts [OF fresh [folded fields(1)] sw']
  have "ips = [(?i, test_peer e)]" using listed_single l e(3) unfolding row by blast
  note resp = resp [unfolded this]
  have inner: "decode_map unmarshal (benc (peer_bval False ?i (test_peer e))) = Some (map_of (rev
      [(lit ''peer id'', BStr ?i), (lit ''ip'', BStr (lit ''127.0.0.1'')), (lit ''port'', BInt 1234)]))"
    using u by (simp add: decode_map_def inverts_bencoding_def peer_bval_test del: benc.simps)
  have "TestHTTPAnnounce_checks unmarshal (response_body resp) = Some []"
    unfolding TestHTTPAnnounce_checks_def resp if_not_P [OF announce_response_body(1) [OF u]] announce_response_body(2) [OF u] row
    by (simp add: complain_def inner) (simp add: lit_def)
  with run show ?thesis by blast
qed

lemma TestHTTPAnnounceCompact_passes:
  assumes k: "worker_ok mem_ok lim k" and b: "build_ok b" "\<not> heroku b" and lim: "limit_ok lim"
    and e: "env_ok e" "fuzz_ok (conf e)" "Numwant_Default (conf e) \<noteq> 0" and u: "inverts_bencoding unmarshal"
    and len: "length (TestHTTPAnnounceCompact_request headers) \<le> httpRequestMax"
    and fresh: "mem_swarm (w_db (k_world k)) (lit ''TestAnnounceCompactH'') = Map.empty"
  shows "\<exists>k' out. worker_step gomap e b (Request (TestHTTPAnnounceCompact_request headers) (Addr4 0x7F000001, rport)) k =
      Inr (True, k', [out]) \<and> TestHTTPAnnounceCompact_checks unmarshal (response_body out) = Some []"
proof -
  let ?v = "test_announce ''TestAnnounceCompactH'' True" and ?i = "lit ''QB123456789012345678''"
  obtain k' resp sw' where run: "worker_step gomap e b (Request (TestHTTPAnnounceCompact_request headers) (Addr4 0x7F000001, rport)) k =
      Inr (True, k', [resp])"
    and spec: "http_announce_spec lim e ?v (Addr4 0x7F000001) (mem_swarm (w_db (k_world k))) sw' resp"
    by (rule test_announced [OF k b lim e(1,2) _ TestHTTPAnnounceCompact_request_def [THEN fun_cong] len fresh]) auto
  note v = test_announce_valid [of "''TestAnnounceCompactH''"]
  have fields: "v_hash ?v = lit ''TestAnnounceCompactH''" "v_peerid ?v = ?i" "v_compact ?v"
    by (simp_all add: test_announce_def)
  from spec obtain interval ps b4 b6 where sw': "sw' = swarm_save (v_hash ?v) ?i (test_peer e) (mem_swarm (w_db (k_world k)))"
    and l: "compact_lists lim (sw' (v_hash ?v)) ps b4 b6"
    and resp: "resp = announce_response interval (v_hash ?v) sw' [(lit ''peers'', BStr b4), (lit ''peers6'', BStr b6)]"
    by (rule announce_spec_changeE) (use v fields e(3) in auto)
  note row = fresh_counts [OF fresh [folded fields(1)] sw']
  have "b4 = [127, 0, 0, 1, 4, 210]" using compact_single l lim unfolding row by blast
  then have "TestHTTPAnnounceCompact_checks unmarshal (response_body resp) = Some []"
    unfolding TestHTTPAnnounceCompact_checks_def resp announce_response_body(2) [OF u] row
    by (simp add: complain_def) (simp add: lit_def)
  with run show ?thesis by blast
qed

section \<open>Properties\<close>

text \<open>
  C14: The repository's HTTP integration tests pass: on every world without peers of the infohashes
  of the tests, Go's requests of their queries, with whatever headers the client adds as far as they
  fit into the receive buffer, are answered to 127.0.0.1 with bodies that the tests have no complaint
  about.
\<close>

theorem http_integration_tests_pass:
  assumes "worker_ok mem_ok lim k" and "build_ok b" "\<not> heroku b" and "limit_ok lim"
    and "env_ok e" "fuzz_ok (conf e)" "Numwant_Default (conf e) \<noteq> 0" and "inverts_bencoding unmarshal"
    and "length (TestHTTPAnnounce_request headers) \<le> httpRequestMax"
      "length (TestHTTPAnnounceCompact_request headers) \<le> httpRequestMax"
    and "mem_swarm (w_db (k_world k)) (lit ''TestAnnounceHTTP1234'') = Map.empty"
      "mem_swarm (w_db (k_world k)) (lit ''TestAnnounceCompactH'') = Map.empty"
  shows "(\<exists>k' out. worker_step gomap e b (Request (TestHTTPAnnounce_request headers) (Addr4 0x7F000001, rport)) k =
      Inr (True, k', [out]) \<and> TestHTTPAnnounce_checks unmarshal (response_body out) = Some []) \<and>
    (\<exists>k' out. worker_step gomap e b (Request (TestHTTPAnnounceCompact_request headers) (Addr4 0x7F000001, rport)) k =
      Inr (True, k', [out]) \<and> TestHTTPAnnounceCompact_checks unmarshal (response_body out) = Some [])"
  by (intro conjI TestHTTPAnnounce_passes TestHTTPAnnounceCompact_passes) (use assms in simp_all)

lemma test_requests_fit:
  "length (TestHTTPAnnounce_request []) \<le> httpRequestMax" "length (TestHTTPAnnounceCompact_request []) \<le> httpRequestMax"
  by (simp_all add: TestHTTPAnnounce_request_def TestHTTPAnnounceCompact_request_def client_get_def test_query test_args_def
      client_query_def get_request_def url_encode_def query_safe_def unreserved_def lit_def crlf_def httpRequestMax_def
      dec_nat.simps)

theorem http_integration_tests_pass_witness:
  "(\<exists>k' out. worker_step gomap (sample_env 0) plain_build (Request (TestHTTPAnnounce_request []) (Addr4 0x7F000001, 5))
      (new_worker start_world) = Inr (True, k', [out]) \<and>
      TestHTTPAnnounce_checks (\<lambda>bs. case bdecode bs of Inl _ \<Rightarrow> None | Inr v \<Rightarrow> Some v) (response_body out) = Some [])"
  using http_integration_tests_pass [OF new_worker_ok [OF start_world_ok] builds_ok(1,2) limit_ok_200 env_ok_sample [of 0],
      where unmarshal = "\<lambda>bs. case bdecode bs of Inl _ \<Rightarrow> None | Inr v \<Rightarrow> Some v" and headers = "[]" and rport = 5]
    test_requests_fit by (simp add: inverts_bencoding_def bdecode_benc)

end
