(* ===== verification/Unsafe.thy ===== *)
theory Unsafe
  imports Prelude
begin

text \<open>
  The conversions of tracker/utils/unsafemanip, which reinterpret the headers of strings and
  slices in memory, and what they do to the bytes behind the headers. The other theories have
  strings and byte slices as lists; \<open>StringToBytes\<close> is the identity there, which this theory
  justifies.
\<close>

section \<open>Headers in memory\<close>

text \<open>
  Memory has the words of the variables, a header in consecutive ones, and the bytes that data
  pointers point to. The header of a string has two words, that of a slice three.
\<close>

record heap =
  hp_words :: "nat \<Rightarrow> uint64"
  hp_bytes :: "uint64 \<Rightarrow> byte"

record slice_header =
  Data :: uint64
  Len :: int64
  Cap :: int64

definition read_slice_header :: "heap \<Rightarrow> nat \<Rightarrow> slice_header" where
  "read_slice_header hp p = \<lparr>Data = hp_words hp p, Len = hp_words hp (p + 1), Cap = hp_words hp (p + 2)\<rparr>"

definition bytes_at :: "heap \<Rightarrow> uint64 \<Rightarrow> int64 \<Rightarrow> bytes" where
  "bytes_at hp a n = map (\<lambda>i. hp_bytes hp (a + of_nat i)) [0..<nat (sint n)]"

text \<open>The value of the string and of the slice whose header is at an address, and of a header.\<close>

definition string_at :: "heap \<Rightarrow> nat \<Rightarrow> bytes" where
  "string_at hp p = bytes_at hp (hp_words hp p) (hp_words hp (p + 1))"

definition slice_of :: "heap \<Rightarrow> slice_header \<Rightarrow> bytes" where
  "slice_of hp h = bytes_at hp (Data h) (Len h)"

definition header_ok :: "slice_header \<Rightarrow> bool" where
  "header_ok h \<longleftrightarrow> 0 \<le> sint (Len h) \<and> sint (Len h) \<le> sint (Cap h)"

section \<open>The conversions\<close>

text \<open>
  The argument of \<open>StringToBytes\<close> is a string variable, whose header is read as that of a slice:
  its capacity is the word behind the string header, which is then overwritten in the copy.
\<close>

definition StringToBytes :: "heap \<Rightarrow> nat \<Rightarrow> slice_header" where
  "StringToBytes hp p = (read_slice_header hp p)\<lparr>Cap := hp_words hp (p + 1)\<rparr>"

definition StringToBytesFast :: "heap \<Rightarrow> nat \<Rightarrow> slice_header" where
  "StringToBytesFast hp p = read_slice_header hp p"

definition SetSliceLen :: "nat \<Rightarrow> int64 \<Rightarrow> heap \<Rightarrow> int64 \<times> heap" where
  "SetSliceLen p l hp = (hp_words hp (p + 1), hp\<lparr>hp_words := (hp_words hp)(p + 1 := l)\<rparr>)"

definition SetStringLen :: "nat \<Rightarrow> int64 \<Rightarrow> heap \<Rightarrow> int64 \<times> heap" where
  "SetStringLen p l hp = (hp_words hp (p + 1), hp\<lparr>hp_words := (hp_words hp)(p + 1 := l)\<rparr>)"

section \<open>What Go does with a slice\<close>

text \<open>
  Reslicing \<open>b[:l]\<close> is checked against the capacity. \<open>append\<close> writes behind the slice while the
  capacity allows it, and otherwise copies it to fresh memory, of a capacity of its own choice.
\<close>

definition reslice :: "nat \<Rightarrow> int64 \<Rightarrow> heap \<Rightarrow> panic + heap" where
  "reslice p l hp =
     (let h = read_slice_header hp p in
      if sint l < 0 \<or> sint (Cap h) < sint l then Inl SliceOutOfRange
      else Inr (hp\<lparr>hp_words := (hp_words hp)(p + 1 := l)\<rparr>))"

fun poke :: "uint64 \<Rightarrow> bytes \<Rightarrow> heap \<Rightarrow> heap" where
  "poke a [] hp = hp"
| "poke a (b # bs) hp = poke (a + 1) bs (hp\<lparr>hp_bytes := (hp_bytes hp)(a := b)\<rparr>)"

definition go_append :: "uint64 \<Rightarrow> int64 \<Rightarrow> bytes \<Rightarrow> slice_header \<Rightarrow> heap \<Rightarrow> slice_header \<times> heap" where
  "go_append fresh grown bs h hp =
     (if sint (Len h) + int (length bs) \<le> sint (Cap h)
      then (h\<lparr>Len := Len h + of_nat (length bs)\<rparr>, poke (Data h + Len h) bs hp)
      else (\<lparr>Data = fresh, Len = Len h + of_nat (length bs), Cap = grown\<rparr>, poke fresh (slice_of hp h @ bs) hp))"

text \<open>Writing touches the addresses it is for, and nothing else.\<close>

definition covers :: "uint64 \<Rightarrow> nat \<Rightarrow> uint64 \<Rightarrow> bool" where
  "covers a n x \<longleftrightarrow> (\<exists>i < n. x = a + of_nat i)"

lemma poke_words [simp]: "hp_words (poke a bs hp) = hp_words hp"
  by (induction a bs hp rule: poke.induct) simp_all

lemma poke_other: "\<not> covers a (length bs) x \<Longrightarrow> hp_bytes (poke a bs hp) x = hp_bytes hp x"
proof (induction a bs hp rule: poke.induct)
  case (2 a b bs hp)
  from 2(2) have "x \<noteq> a" by (auto simp: covers_def intro: exI [of _ 0])
  moreover have "\<not> covers (a + 1) (length bs) x"
  proof
    assume "covers (a + 1) (length bs) x"
    then obtain i where "i < length bs" "x = a + of_nat (Suc i)" by (auto simp: covers_def add.assoc)
    with 2(2) show False by (metis covers_def Suc_less_eq length_Cons)
  qed
  ultimately show ?case using 2(1) by simp
qed simp

lemma poke_first:
  assumes "length bs < 2 ^ 64" "bs \<noteq> []"
  shows "hp_bytes (poke a bs hp) a = hd bs"
proof (cases bs)
  case (Cons b cs)
  have "\<not> covers (a + 1) (length cs) a"
  proof
    assume "covers (a + 1) (length cs) a"
    then obtain i where i: "i < length cs" "a = a + of_nat (Suc i)" by (auto simp: covers_def add.assoc)
    then have "(of_nat (Suc i) :: uint64) = 0" by (metis add_cancel_right_right)
    with i(1) assms(1) Cons show False
      by (simp only: of_nat_eq_0_iff word_of_nat_eq_0_iff) (auto dest: dvd_imp_le)
  qed
  from poke_other [OF this] Cons show ?thesis by simp
qed (use assms(2) in simp)

text \<open>
  \<open>SetSliceLen\<close> is the reslicing that its comment recommends instead, without the check: within the
  capacity they agree, and beyond it reslicing panics where \<open>SetSliceLen\<close> makes a slice that
  reaches over its end.
\<close>

theorem SetSliceLen_unchecked_reslice:
  "fst (SetSliceLen p l hp) = Len (read_slice_header hp p) \<and>
   reslice p l hp =
     (if header_ok (read_slice_header (snd (SetSliceLen p l hp)) p) then Inr (snd (SetSliceLen p l hp))
      else Inl SliceOutOfRange)"
  by (simp add: SetSliceLen_def reslice_def read_slice_header_def header_ok_def)

text \<open>Both lengths are the second word of a header.\<close>

theorem SetStringLen_value:
  assumes "sint l \<le> sint (hp_words hp (p + 1))"
  shows "string_at (snd (SetStringLen p l hp)) p = take (nat (sint l)) (string_at hp p)"
  using assms
  by (simp add: SetStringLen_def string_at_def bytes_at_def take_map take_upt min_def nat_mono)

section \<open>Properties\<close>

text \<open>
  \<open>StringToBytes\<close> is the identity on values, and safe to append to: the slice has the bytes of
  the string and no room behind them, so that an append writes to fresh memory only.
  \<open>StringToBytesFast\<close> has the same bytes, but the capacity that the word behind the string happens
  to be, and where it is large enough an append overwrites the memory behind the string.
\<close>

theorem StringToBytes_appends_safely:
  assumes "0 \<le> sint (hp_words hp (p + 1))" and "bs \<noteq> []" and "length bs < 2 ^ 63"
  shows "slice_of hp (StringToBytes hp p) = string_at hp p \<and> header_ok (StringToBytes hp p) \<and>
    (\<forall>x. \<not> covers fresh (length (string_at hp p @ bs)) x \<longrightarrow>
       hp_bytes (snd (go_append fresh grown bs (StringToBytes hp p) hp)) x = hp_bytes hp x) \<and>
    slice_of hp (StringToBytesFast hp p) = string_at hp p \<and>
    (sint (hp_words hp (p + 1)) + int (length bs) \<le> sint (hp_words hp (p + 2)) \<longrightarrow>
       hp_bytes (snd (go_append fresh grown bs (StringToBytesFast hp p) hp)) (hp_words hp p + hp_words hp (p + 1)) = hd bs)"
proof -
  have v: "slice_of hp (StringToBytes hp p) = string_at hp p" "slice_of hp (StringToBytesFast hp p) = string_at hp p"
    by (simp_all add: slice_of_def string_at_def StringToBytes_def StringToBytesFast_def read_slice_header_def)
  have "header_ok (StringToBytes hp p)"
    using assms(1) by (simp add: header_ok_def StringToBytes_def read_slice_header_def)
  moreover have "snd (go_append fresh grown bs (StringToBytes hp p) hp) = poke fresh (string_at hp p @ bs) hp"
    using assms(2) v(1) by (simp add: go_append_def StringToBytes_def read_slice_header_def)
  moreover have "hp_bytes (snd (go_append fresh grown bs (StringToBytesFast hp p) hp)) (hp_words hp p + hp_words hp (p + 1)) = hd bs"
    if "sint (hp_words hp (p + 1)) + int (length bs) \<le> sint (hp_words hp (p + 2))"
    using that assms(2,3) poke_first [of bs "hp_words hp p + hp_words hp (p + 1)" hp]
    by (simp add: go_append_def StringToBytesFast_def read_slice_header_def)
  ultimately show ?thesis using v poke_other [of fresh "string_at hp p @ bs" _ hp] by simp
qed

text \<open>A string of four bytes, in a struct that has a number behind it.\<close>

definition sample_heap :: heap where
  "sample_heap = \<lparr>hp_words = (\<lambda>_. 0)(0 := 100, 1 := 4, 2 := 28), hp_bytes = (\<lambda>a. if a < 104 then 65 else 0)\<rparr>"

theorem StringToBytes_appends_safely_witness:
  "slice_of sample_heap (StringToBytes sample_heap 0) = [65, 65, 65, 65] \<and>
   hp_bytes (snd (go_append 500 8 [66] (StringToBytes sample_heap 0) sample_heap)) 104 = 0 \<and>
   hp_bytes (snd (go_append 500 8 [66] (StringToBytesFast sample_heap 0) sample_heap)) 104 = 66"
proof -
  have w: "hp_words sample_heap 0 = 100" "hp_words sample_heap 1 = 4" "hp_words sample_heap 2 = 28"
    by (simp_all add: sample_heap_def)
  have v: "string_at sample_heap 0 = [65, 65, 65, 65]"
    by (simp add: string_at_def bytes_at_def w upt_rec) (simp add: sample_heap_def)
  have "\<not> covers 500 (length (string_at sample_heap 0 @ [66])) (104 :: uint64)"
  proof
    assume "covers 500 (length (string_at sample_heap 0 @ [66])) (104 :: uint64)"
    then have "\<exists>i < 5. (104 :: uint64) = 500 + of_nat i" by (simp add: covers_def v numeral_eq_Suc)
    then obtain i :: nat where i: "i < 5" "(104 :: uint64) = 500 + of_nat i" by blast
    from i(1) have "i \<in> {0, 1, 2, 3, 4}" by auto
    with i(2) show False by auto
  qed
  with StringToBytes_appends_safely [of sample_heap 0 "[66]" 500 8] v w show ?thesis
    by (simp add: sample_heap_def)
qed

end
