(* ===== verification/Spec2Isabelle.thy ===== *)
theory Spec2Isabelle
  imports MemorySpec StorageCodec UdpProps HttpParserProps HttpProps BackupSpec Settings Publish
    Startup Counting Lifecycle Controller Service Console Interleaving Clients Queries Acceptance Unsafe
begin

text \<open>
  A verification library for trakx, a BitTorrent tracker written in Go.

  \<^bold>\<open>The program.\<close> Clients announce themselves for an infohash over HTTP (src/tracker/http) or over
  UDP (src/tracker/udp) and get other peers of the same swarm in return. Both trackers keep the
  swarms in one database behind the interface of src/tracker/storage/database.go; its one
  implementation are the Go maps of src/tracker/storage/map, which a backup driver saves to a file
  or to Postgres. Objects are recycled through the pools of src/pools, responses are written by
  src/bencoding, counters are kept by src/tracker/stats and published on every tick.
  src/tracker/tracker.go starts all of it from the configuration of src/config, and
  src/controller with src/cli_entry.go runs it as a service.

  \<^bold>\<open>Conventions.\<close> A function that can panic returns \<open>panic + 'a\<close>, a Go error is a value of an error
  type beside the result, integers are words of Go's widths, byte slices and strings are lists of
  bytes, maps are finite maps. What the run time decides (the clock, random draws, the order of
  \<open>range\<close>, which object a pool hands out, the build tag \<open>fast\<close>) comes with each operation as an
  \<open>env\<close>; the theorems hold for every such choice that \<open>env_ok\<close> allows. The state that database
  operations share, statistics, pools and the database itself, is the record \<open>world\<close>. What lies
  outside the repository is a parameter: the operating system and the SQL driver (\<open>platform\<close>,
  \<open>processes\<close>, \<open>file_system\<close>), the embedded files (\<open>embed_fs\<close>), the gob coders, fig, the rest that
  base64 decoding leaves in its buffer after an error, the body that expvar serves.

  \<^bold>\<open>Theories and sources.\<close>
  \<^item> Prelude, GoStd, GoNet: words, panics, encoded fields, finite maps and the \<open>codec\<close> interface; the
    parts of Go's standard library that results depend on (strconv, bytes, netip, base64, net).
  \<^item> Bencoding (src/bencoding): the dictionary writer, and a printer and parser of abstract bencoded
    values against which it is proved; \<open>codec\<close> is interpreted on them.
  \<^item> Config (the record of src/config/config.go) and Settings (the other files of src/config):
    \<open>Parse\<close>, \<open>Load\<close>, directories, the initialisation of the package, the cache of embedded files.
  \<^item> Pools (src/pools): pools as free lists, with the contract \<open>pool_contract\<close> of what an object from
    the pool satisfies, interpreted on the three kinds of pools the program has.
  \<^item> Stats and Publish (src/tracker/stats, src/tracker/utils/runon.go): counters, the publishing tick,
    the times of the ticks, and requests between the steps of a tick.
  \<^item> Database (src/tracker/storage): the interface as a record of operations and its laws over an
    abstract swarm as the locale \<open>database_laws\<close>. Memory and MemorySpec (memory.go, peer.go, hash.go,
    expvar.go of src/tracker/storage/map): the operations, the invariant \<open>mem_ok\<close> with exact counters,
    the refinement of the swarm, and the interpretation of the laws.
  \<^item> Interleaving (peer.go, memory.go): \<open>Save\<close>, \<open>Drop\<close> and \<open>trim\<close> as steps between their locks over peer
    maps and peers with addresses, with schedules of goroutines; alone they refine the sequential
    operations, and on one client or one new infohash the races are theorems. Clients: operations of
    different clients, in one swarm or in several, on infohashes that are in the map, are equivalent
    under every fair schedule to one after the other. Queries (hash.go): the queries as steps of readers
    among them, which read a map peer by peer under its read lock, with the moments of the schedule that
    an answer comes from, and the races of a first announce.
  \<^item> StorageCodec (encode_binary.go): the snapshot. Outside, Backups and BackupSpec (backup_*.go,
    encode_gob.go): the platform, the three drivers, and their contracts \<open>backup_driver\<close>,
    \<open>safe_backup\<close> and \<open>durable_backup\<close> with their interpretations.
  \<^item> ConnDb (src/tracker/udp/conndb.go): connection ids, as a step relation with the history of issued
    ids and trims, the binary and gob files. UdpProtocol (src/tracker/udp/protocol): the messages.
    UdpTracker (the other files of src/tracker/udp): dispatch and handlers. UdpSpec states what a
    datagram may do as the relation \<open>udp_spec\<close> and proves it inside \<open>database_laws\<close>; UdpProps draws the
    consequences over the in-memory database and all reachable states.
  \<^item> HttpParser and HttpParserProps (src/tracker/http/parser.go): the parser over the worker's receive
    buffer. HttpTracker (the other files of src/tracker/http): responses, announce, scrape, the
    forwarded address and the worker. HttpSpec and HttpWorker state \<open>http_announce_spec\<close> and \<open>http_spec\<close>
    and prove them inside \<open>database_laws\<close>; HttpProps draws the consequences. Acceptance
    (src/tracker/http_test_.go): the requests and checks of the two integration tests, which the
    modelled worker passes.
  \<^item> Startup (src/tracker/tracker.go, signalhandler.go, storage/driver.go, database.go and
    map/register.go, \<open>Memory.Init\<close>): the registry, \<open>Open\<close>, \<open>Run\<close>, and the process as a machine whose
    events are datagrams, HTTP events, jobs, ticks and signals; the answers of the UDP sockets and what
    the HTTP workers write to their connections are kept in its state. Counting: what every event leaves of the
    statistics, inside the extension \<open>counting_database\<close> of \<open>database_laws\<close>.
  \<^item> Lifecycle (tracker.go, signalhandler.go, \<open>Serve\<close> and \<open>Shutdown\<close> of both trackers): the goroutines of
    a process with the channels they wait on, under every schedule, and how the process ends;
    \<open>Run\<close> of Startup is one of the schedules (\<open>Run_is_a_schedule\<close>).
  \<^item> Controller (src/controller, src/cli_entry.go): the process id file, status, start, stop, the
    commands. Service puts \<open>Stop\<close> and \<open>Status\<close> beside the goroutines of Lifecycle, which run while
    the controller sleeps: the host that delivers signals, polls and heartbeats is a parameter with
    the hypotheses \<open>runs_tracker\<close>, \<open>fair\<close>, \<open>answers_datagrams\<close> and \<open>answers_requests\<close>. Console: the texts
    of the commands, of \<open>Start\<close> and \<open>Stop\<close> and of the errors, and the exit status.
  \<^item> Unsafe (src/tracker/utils/unsafemanip): the conversions over headers in memory.

  \<^bold>\<open>What is shown.\<close> The trackers implement abstract specifications of their answers and of the swarm,
  byte by byte, for every datagram and every request (\<open>process_implements_spec\<close>,
  \<open>http_worker_implements_spec\<close>), and a started process never panics on any sequence of events
  (\<open>process_never_panics\<close>), and its statistics always describe its swarms
  (\<open>statistics_describe_swarms\<close>). Under every schedule of its goroutines, with every request, job and tick as one step, a process
  ends only in the ways that \<open>ways_a_process_ends\<close> lists, and an exit signal that the handler received ends it
  (\<open>exit_signal_ends_process\<close>). Controller and tracker together: \<open>Stop\<close> ends the process and clears its
  file (\<open>Stop_stops_the_tracker\<close>), unless a save signal waits in the channel
  (\<open>Stop_waits_for_ever\<close>), and \<open>Status\<close> reports which sockets are served (\<open>Status_of_a_tracker\<close>). A
  compact list holds every peer of the swarm up to the limit (\<open>compact_lists\<close>). The integration tests
  of the repository pass (\<open>http_integration_tests_pass\<close>). \<open>Save\<close>, \<open>Drop\<close> and \<open>trim\<close> refine operations on the abstract swarm with exact
  counters, also beside each other when they are about different clients and known infohashes
  (\<open>different_clients_serialise\<close>). A query beside them has the counters and identifiers of one moment
  and each peer of some later moment (\<open>queries_are_explained\<close>). Only an announce of the address that owns a connection
  id, or a GET of the announce path by an HTTP worker (\<open>http_swarm_change_is_an_announce\<close>), changes a
  swarm. Encoders and decoders round-trip: bencoding, requests and responses,
  percent-encoding, the snapshot and its backups, connections and their files, the process id file.
  Error behaviour and the defects that modelling showed are theorems about the code as it is: among
  them a start after a save that panics because the pools are made too late, the Postgres backup of
  an empty database, a peer that is lost when it is saved during a trim or beside another first announce, a peer that is
  listed before it is written, an exit signal that is dropped, a request that is answered after the
  last save, a worker that replays the previous client's request, the scrape response behind zero
  bytes, and a stop that never times out.

  \<^bold>\<open>Loops and bounds.\<close> Loops are structural recursion over the list that is left, except these:
  \<open>attemptLoad\<close> has the measure of its one retry; the unescaping loops decrease what is left of the
  buffer, \<open>decode_hashes\<close> the bytes of the snapshot; the wait of \<open>Stop\<close> is a \<open>partial_function\<close>, so
  that not returning is \<open>None\<close>, with a theorem for when it returns. The endless loops of the
  goroutines are steps, and a run is a schedule; the measure \<open>steps_left\<close> of Lifecycle is at most 15 when
  the handler has an exit signal, and every step towards the exit decreases it; \<open>stop_steps\<close> of
  Service extends it to a signal that waits for a save, with the bound 18. No definition of the program has fuel; the parser of bencoded values, a part of
  the specification, has, and \<open>bfuel\<close> is enough of it for what the printer wrote. The number of HTTP parameters is the code's 45, the
  receive buffers its 2600 and 1496 bytes. Peer limits are assumed to be positive and below
  \<open>2 ^ 58\<close>, so that the sizes of the pooled buffers do not wrap around.

  \<^bold>\<open>Not modelled.\<close> Outside of Interleaving, Clients and Queries an operation of the database is one step,
  and outside of Lifecycle the process handles one event after the other; Lifecycle interleaves requests,
  jobs, ticks and signals as whole steps. In Interleaving, Clients and Queries memory is
  sequentially consistent, the update of the statistics is one step, and so is each unlocked reading
  of or writing to a peer: its fields are not torn. Sockets are the operating system's: listening and closing succeed or fail as a parameter
  or the schedule says. Logging has no effect, except that \<open>Fatal\<close> ends the process.
  \<open>runs_tracker\<close> trusts the host to deliver a signal to the process of the file and not to reuse its
  id, \<open>answers_datagrams\<close> to lose no datagram: \<open>Status\<close> reads the answer without a deadline, and for
  a lost one the code waits where the parameter \<open>os_Heartbeat\<close> returns none. What \<open>fmt.Fprintf\<close> makes
  of an error text with percent signs, the texts of the operating system's errors, and the bencode
  decoder of the integration tests are parameters. The profiling server and the app engine's entry
  point, which only calls \<open>Run\<close>, have no model.
\<close>

end
